(* ===== verification/Norost_Prelude.thy ===== *)
theory Norost_Prelude
  imports Main "HOL-Library.Word"
begin

text \<open>
  Shared vocabulary of the development: the widths of the machine integers of the RISC-V 64 target,
  Rust's panics and its \<open>Option\<close> and \<open>Result\<close> combinators as values of sum and option types, the
  checked and wrapping integer operations of the standard library, and the word and list facts that
  the component theories share.

  The crates are built with \<open>cargo build --release\<close>: plain \<open>+\<close>, \<open>-\<close> and \<open>*\<close> wrap around and
  \<open>debug_assertions\<close> is off. Every plain operator of the source is therefore the wrapping operator
  of \<^typ>\<open>'a word\<close>, and the code under \<open>cfg(debug_assertions)\<close> is left out.
\<close>

unbundle bit_operations_syntax

subsection \<open>Machine integers\<close>

type_synonym u8 = "8 word"
type_synonym u16 = "16 word"
type_synonym u32 = "32 word"
type_synonym u64 = "64 word"
type_synonym usize = "64 word"
type_synonym u128 = "128 word"

named_theorems ring_simps \<open>index arithmetic of the ring buffers\<close>
named_theorems word_facts \<open>unsigned values of masked and shifted words\<close>
named_theorems panic_simps \<open>evaluation of the panic combinators\<close>

subsection \<open>Panics\<close>

text \<open>
  A panic aborts the program (\<open>panic = "abort"\<close> in \<open>Cargo.toml\<close>). A function that may panic returns
  a sum whose left side is the reason; a Rust \<open>Result<T, E>\<close> is the sum \<^typ>\<open>'e + 'a\<close> of its own.
  \<open>Page_Fault\<close> and \<open>Endless_Loop\<close> are the two other ways to produce no result: an access that traps, and
  a wait for a word that nothing else changes.
\<close>

datatype panic =
    Unwrap_Failed
  | Assert_Failed
  | Index_Out_Of_Range
  | Todo_Reached
  | Explicit_Panic
  | Page_Fault
  | Endless_Loop

type_synonym 'a may_panic = "panic + 'a"

definition bindP :: "'a may_panic \<Rightarrow> ('a \<Rightarrow> 'b may_panic) \<Rightarrow> 'b may_panic" where
  "bindP m f = (case m of Inl p \<Rightarrow> Inl p | Inr x \<Rightarrow> f x)"

definition unwrapO :: "'a option \<Rightarrow> 'a may_panic" where
  "unwrapO x = (case x of None \<Rightarrow> Inl Unwrap_Failed | Some a \<Rightarrow> Inr a)"

definition unwrapR :: "'e + 'a \<Rightarrow> 'a may_panic" where
  "unwrapR x = (case x of Inl e \<Rightarrow> Inl Unwrap_Failed | Inr a \<Rightarrow> Inr a)"

definition assertP :: "bool \<Rightarrow> 'a may_panic \<Rightarrow> 'a may_panic" where
  "assertP b m = (if b then m else Inl Assert_Failed)"

definition ok_or :: "'a option \<Rightarrow> 'e \<Rightarrow> 'e + 'a" where
  "ok_or x e = (case x of None \<Rightarrow> Inl e | Some a \<Rightarrow> Inr a)"

text \<open>A slice access \<open>xs[i]\<close> and a slice store \<open>xs[i] = v\<close>, which panic out of range.\<close>

definition indexP :: "'a list \<Rightarrow> nat \<Rightarrow> 'a may_panic" where
  "indexP xs i = (if i < length xs then Inr (xs ! i) else Inl Index_Out_Of_Range)"

definition storeP :: "'a list \<Rightarrow> nat \<Rightarrow> 'a \<Rightarrow> 'a list may_panic" where
  "storeP xs i v = (if i < length xs then Inr (xs[i := v]) else Inl Index_Out_Of_Range)"

lemma bindP_Inr [simp, panic_simps]: "bindP (Inr x) f = f x"
  by (simp add: bindP_def)

lemma bindP_Inl [simp, panic_simps]: "bindP (Inl p) f = Inl p"
  by (simp add: bindP_def)

lemma bindP_eq_Inr: "bindP m f = Inr y \<longleftrightarrow> (\<exists>x. m = Inr x \<and> f x = Inr y)"
  by (cases m) (auto simp: bindP_def)

lemma bindP_assoc: "bindP (bindP m f) g = bindP m (\<lambda>x. bindP (f x) g)"
  by (cases m) (auto simp: bindP_def)

lemma unwrapO_simps [simp, panic_simps]:
  "unwrapO (Some a) = Inr a" "unwrapO None = Inl Unwrap_Failed"
  by (simp_all add: unwrapO_def)

lemma unwrapO_eq_Inr [simp]: "unwrapO x = Inr a \<longleftrightarrow> x = Some a"
  by (cases x) (auto simp: unwrapO_def)

lemma unwrapR_simps [simp, panic_simps]:
  "unwrapR (Inr a) = Inr a" "unwrapR (Inl e) = Inl Unwrap_Failed"
  by (simp_all add: unwrapR_def)

lemma unwrapR_eq_Inr [simp]: "unwrapR x = Inr a \<longleftrightarrow> x = Inr a"
  by (cases x) (auto simp: unwrapR_def)

lemma assertP_simps [simp, panic_simps]:
  "assertP True m = m" "assertP False m = Inl Assert_Failed"
  by (simp_all add: assertP_def)

lemma assertP_eq_Inr: "assertP b m = Inr y \<longleftrightarrow> b \<and> m = Inr y"
  by (simp add: assertP_def)

lemma ok_or_simps [simp]: "ok_or (Some a) e = Inr a" "ok_or None e = Inl e"
  by (simp_all add: ok_or_def)

lemma indexP_simps [simp]:
  "i < length xs \<Longrightarrow> indexP xs i = Inr (xs ! i)"
  "\<not> i < length xs \<Longrightarrow> indexP xs i = Inl Index_Out_Of_Range"
  by (simp_all add: indexP_def)

lemma indexP_eq_Inr: "indexP xs i = Inr v \<longleftrightarrow> i < length xs \<and> v = xs ! i"
  by (auto simp: indexP_def)

lemma storeP_simps [simp]:
  "i < length xs \<Longrightarrow> storeP xs i v = Inr (xs[i := v])"
  "\<not> i < length xs \<Longrightarrow> storeP xs i v = Inl Index_Out_Of_Range"
  by (simp_all add: storeP_def)

lemma storeP_eq_Inr: "storeP xs i v = Inr ys \<longleftrightarrow> i < length xs \<and> ys = xs[i := v]"
  by (auto simp: storeP_def)

text \<open>The \<open>?\<close> operator of a function that may panic.\<close>

definition tryP :: "('e + 'a) may_panic \<Rightarrow> ('a \<Rightarrow> ('e + 'b) may_panic) \<Rightarrow> ('e + 'b) may_panic" where
  "tryP m f = bindP m (\<lambda>r. case r of Inl e \<Rightarrow> Inr (Inl e) | Inr x \<Rightarrow> f x)"

lemma tryP_simps [simp]: "tryP (Inl p) f = Inl p" "tryP (Inr (Inl e)) f = Inr (Inl e)" "tryP (Inr (Inr x)) f = f x"
  by (simp_all add: tryP_def)

lemma tryP_eq:
  "tryP m f = Inr (Inr y) \<longleftrightarrow> (\<exists>x. m = Inr (Inr x) \<and> f x = Inr (Inr y))"
  "tryP m f = Inl p \<longleftrightarrow> m = Inl p \<or> (\<exists>x. m = Inr (Inr x) \<and> f x = Inl p)"
  by (auto simp: tryP_def bindP_def split: sum.splits)

text \<open>The bytes of a string literal.\<close>

definition str_bytes :: "string \<Rightarrow> u8 list" where
  "str_bytes s = map of_char s"

subsection \<open>Computations with state\<close>

text \<open>A computation on a state \<open>'s\<close> returns a value and the next state, or panics.\<close>

type_synonym ('s, 'a) comp = "'s \<Rightarrow> ('a \<times> 's) may_panic"

definition retK :: "'a \<Rightarrow> ('s, 'a) comp" where
  "retK x m = Inr (x, m)"

definition bindK :: "('s, 'a) comp \<Rightarrow> ('a \<Rightarrow> ('s, 'b) comp) \<Rightarrow> ('s, 'b) comp" where
  "bindK f g m = (case f m of Inl p \<Rightarrow> Inl p | Inr (x, m') \<Rightarrow> g x m')"

definition panicK :: "panic \<Rightarrow> ('s, 'a) comp" where
  "panicK p m = Inl p"

definition liftK :: "'a may_panic \<Rightarrow> ('s, 'a) comp" where
  "liftK x m = (case x of Inl p \<Rightarrow> Inl p | Inr y \<Rightarrow> Inr (y, m))"

definition unwrapK :: "('s, 'e + 'a) comp \<Rightarrow> ('s, 'a) comp" where
  "unwrapK f = bindK f (\<lambda>r. liftK (unwrapR r))"

text \<open>The same for computations with state: an error leaves the function with the error converted.\<close>

definition tryK :: "('s, 'e + 'a) comp \<Rightarrow> ('e \<Rightarrow> 'e2) \<Rightarrow> ('a \<Rightarrow> ('s, 'e2 + 'b) comp) \<Rightarrow> ('s, 'e2 + 'b) comp" where
  "tryK f conv g = bindK f (\<lambda>r. case r of Inl e \<Rightarrow> retK (Inl (conv e)) | Inr x \<Rightarrow> g x)"

named_theorems kern_simps \<open>evaluation of kernel computations\<close>

lemma retK_eq [simp, kern_simps]: "retK x m = Inr (x, m)"
  by (simp add: retK_def)

lemma panicK_eq [simp, kern_simps]: "panicK p m = Inl p"
  by (simp add: panicK_def)

lemma liftK_eq [simp, kern_simps]: "liftK (Inr y) m = Inr (y, m)" "liftK (Inl p) m = Inl p"
  by (simp_all add: liftK_def)

lemma bindK_Inr [kern_simps]: "f m = Inr (x, m') \<Longrightarrow> bindK f g m = g x m'"
  by (simp add: bindK_def)

lemma bindK_Inl [kern_simps]: "f m = Inl p \<Longrightarrow> bindK f g m = Inl p"
  by (simp add: bindK_def)

lemma bindK_retK [simp]: "bindK (retK x) g = g x"
  by (simp add: fun_eq_iff bindK_def)

lemma bindK_liftK [simp]: "bindK (liftK (Inr y)) g = g y"
  by (simp add: fun_eq_iff bindK_def)

lemma tryK_Inr [kern_simps]: "f m = Inr (Inr x, m') \<Longrightarrow> tryK f conv g m = g x m'"
  by (simp add: tryK_def bindK_def)

lemma tryK_Inl [kern_simps]: "f m = Inr (Inl e, m') \<Longrightarrow> tryK f conv g m = Inr (Inl (conv e), m')"
  by (simp add: tryK_def bindK_def)

lemma tryK_panic [kern_simps]: "f m = Inl p \<Longrightarrow> tryK f conv g m = Inl p"
  by (simp add: tryK_def bindK_def)

lemma unwrapK_Inr [kern_simps]: "f m = Inr (Inr x, m') \<Longrightarrow> unwrapK f m = Inr (x, m')"
  by (simp add: unwrapK_def bindK_def)

lemma unwrapK_Inl [kern_simps]: "f m = Inr (Inl e, m') \<Longrightarrow> unwrapK f m = Inl Unwrap_Failed"
  by (simp add: unwrapK_def bindK_def)

text \<open>
  \<open>keeps P f\<close>: when \<open>f\<close> ends without a panic in a state with \<open>P\<close>, the next state has \<open>P\<close> again. \<open>leaves P f\<close>:
  it has \<open>P\<close> whatever the state was.
\<close>

definition keeps :: "('s \<Rightarrow> bool) \<Rightarrow> ('s, 'a) comp \<Rightarrow> bool" where
  "keeps P f \<longleftrightarrow> (\<forall>s x s'. P s \<longrightarrow> f s = Inr (x, s') \<longrightarrow> P s')"

definition leaves :: "('s \<Rightarrow> bool) \<Rightarrow> ('s, 'a) comp \<Rightarrow> bool" where
  "leaves P f \<longleftrightarrow> (\<forall>s x s'. f s = Inr (x, s') \<longrightarrow> P s')"

named_theorems keeps_intros \<open>what computations keep\<close>

lemma bindK_eq_Inr: "bindK f g s = Inr r \<longleftrightarrow> (\<exists>y s1. f s = Inr (y, s1) \<and> g y s1 = Inr r)"
  by (cases "f s") (auto simp: bindK_def)

lemma keepsD: "keeps P f \<Longrightarrow> P s \<Longrightarrow> f s = Inr (x, s') \<Longrightarrow> P s'"
  unfolding keeps_def by blast

lemma leaves_keeps: "leaves P f \<Longrightarrow> keeps P f"
  unfolding leaves_def keeps_def by blast

lemma keeps_basic [keeps_intros]: "keeps P (retK x)" "keeps P (panicK p)" "keeps P (liftK y)"
  by (auto simp: keeps_def liftK_def split: sum.splits)

lemma keeps_bindK [keeps_intros]: "keeps P f \<Longrightarrow> (\<And>x. keeps P (g x)) \<Longrightarrow> keeps P (bindK f g)"
  unfolding keeps_def bindK_eq_Inr by blast

lemma keeps_unwrapK [keeps_intros]: "keeps P f \<Longrightarrow> keeps P (unwrapK f)"
  unfolding unwrapK_def by (intro keeps_bindK keeps_basic)

lemma keeps_tryK [keeps_intros]: "keeps P f \<Longrightarrow> (\<And>x. keeps P (g x)) \<Longrightarrow> keeps P (tryK f conv g)"
  unfolding tryK_def by (intro keeps_bindK) (auto simp: keeps_basic split: sum.splits)

lemma keeps_cases [keeps_intros]:
  "keeps P f \<Longrightarrow> keeps P g \<Longrightarrow> keeps P (if b then f else g)"
  "keeps P f \<Longrightarrow> (\<And>x. keeps P (h x)) \<Longrightarrow> keeps P (case opt of None \<Rightarrow> f | Some x \<Rightarrow> h x)"
  "(\<And>x. keeps P (l x)) \<Longrightarrow> (\<And>y. keeps P (r y)) \<Longrightarrow> keeps P (case sm of Inl x \<Rightarrow> l x | Inr y \<Rightarrow> r y)"
  "(\<And>x y. keeps P (c x y)) \<Longrightarrow> keeps P (case pr of (x, y) \<Rightarrow> c x y)"
  by (auto split: option.splits sum.splits prod.splits)

lemma leaves_bindK: "(\<And>x. leaves P (g x)) \<Longrightarrow> leaves P (bindK f g)"
  unfolding leaves_def bindK_eq_Inr by blast

lemma leaves_then_keeps: "leaves P f \<Longrightarrow> (\<And>x. keeps P (g x)) \<Longrightarrow> leaves P (bindK f g)"
  unfolding leaves_def keeps_def bindK_eq_Inr by blast

subsection \<open>Checked arithmetic and conversions\<close>

definition checked_add :: "'a::len word \<Rightarrow> 'a word \<Rightarrow> 'a word option" where
  "checked_add a b = (if unat a + unat b < 2 ^ LENGTH('a) then Some (a + b) else None)"

definition checked_sub :: "'a::len word \<Rightarrow> 'a word \<Rightarrow> 'a word option" where
  "checked_sub a b = (if b \<le> a then Some (a - b) else None)"

text \<open>\<open>try_into\<close> and \<open>try_from\<close> between unsigned integers: an error when the value does not fit.\<close>

definition try_into :: "'a::len word \<Rightarrow> 'b::len word option" where
  "try_into x = (if unat x < 2 ^ LENGTH('b) then Some (ucast x) else None)"

lemma checked_add_Some:
  "checked_add a b = Some c \<longleftrightarrow> unat a + unat b < 2 ^ LENGTH('a) \<and> c = a + (b :: 'a::len word)"
  by (auto simp: checked_add_def)

lemma checked_sub_Some: "checked_sub a b = Some c \<longleftrightarrow> b \<le> a \<and> c = a - b"
  by (auto simp: checked_sub_def)

lemma checked_sub_None: "checked_sub a b = None \<longleftrightarrow> a < b"
  by (auto simp: checked_sub_def)

lemma unat_checked_add: "checked_add a b = Some c \<Longrightarrow> unat c = unat a + unat b"
  by (auto simp: checked_add_Some unat_word_ariths)

lemma unat_checked_sub: "checked_sub a b = Some c \<Longrightarrow> unat c = unat a - unat b"
  by (auto simp: checked_sub_Some unat_sub)

lemma checked_sub_1: "checked_sub a 1 = (if a = 0 then None else Some (a - 1))"
  by (simp add: checked_sub_def) (metis linorder_not_le word_less_1)

lemma try_into_Some:
  "try_into (x :: 'a::len word) = Some (y :: 'b::len word) \<longleftrightarrow> unat x < 2 ^ LENGTH('b) \<and> y = ucast x"
  by (auto simp: try_into_def)

lemma unat_try_into:
  "try_into (x :: 'a::len word) = Some (y :: 'b::len word) \<Longrightarrow> unat y = unat x"
  by (auto simp: try_into_Some unsigned_ucast_eq take_bit_nat_eq_self)

subsection \<open>Masks and shifts\<close>

lemma unat_less_2p: "unat (x :: 'a::len word) < 2 ^ LENGTH('a)"
  by (rule unsigned_less)

lemma unat_bounds:
  "unat (a :: u8) < 256" "unat (b :: u16) < 65536" "unat (c :: u32) < 4294967296"
  "unat (d :: u64) < 18446744073709551616"
  using unat_less_2p [of a] unat_less_2p [of b] unat_less_2p [of c] unat_less_2p [of d] by simp_all

lemma unat_and_mask [word_facts]: "unat (x AND mask n) = unat x mod 2 ^ n"
  for x :: "'a::len word"
proof -
  have "unat (x AND mask n) = unat (take_bit n x)"
    by (simp only: take_bit_eq_mask)
  also have "\<dots> = take_bit n (unat x)"
    by (rule unsigned_take_bit_eq)
  finally show ?thesis
    by (simp only: take_bit_eq_mod)
qed

lemma unat_and_not_mask [word_facts]: "unat (x AND NOT (mask n)) = unat x - unat x mod 2 ^ n"
  for x :: "'a::len word"
proof -
  have "(x AND NOT (mask n)) AND (x AND mask n) = 0"
    by (rule bit_word_eqI) (auto simp: bit_simps)
  then have "(x AND NOT (mask n)) + (x AND mask n) = (x AND NOT (mask n)) OR (x AND mask n)"
    by (rule disjunctive_add_eq_or)
  also have "\<dots> = x"
    by (rule bit_word_eqI) (auto simp: bit_simps)
  finally have "x AND NOT (mask n) = x - (x AND mask n)"
    by (simp add: eq_diff_eq)
  moreover have "x AND mask n \<le> x" by (simp add: word_le_nat_alt unat_and_mask)
  then have "unat (x - (x AND mask n)) = unat x - unat (x AND mask n)" by (rule unat_sub)
  ultimately show ?thesis by (simp only: unat_and_mask)
qed

lemma unat_and_4095 [word_facts]: "unat (x AND 4095) = unat x mod 4096"
  for x :: "64 word"
  using unat_and_mask [of x 12] by (simp add: mask_eq_exp_minus_1)

lemma and_4095_0_iff: "x AND 4095 = 0 \<longleftrightarrow> 4096 dvd unat x"
  for x :: "64 word"
  using unat_and_4095 [of x] by (auto simp: unat_eq_zero dvd_eq_mod_eq_0)

lemma unat_push_bit_no_overflow [word_facts]:
  "unat x * 2 ^ n < 2 ^ LENGTH('a) \<Longrightarrow> unat (push_bit n x) = unat x * 2 ^ n"
  for x :: "'a::len word"
proof -
  assume "unat x * 2 ^ n < 2 ^ LENGTH('a)"
  moreover have "unat (push_bit n x) = take_bit LENGTH('a) (push_bit n (unat x))"
    by (rule unsigned_push_bit_eq)
  ultimately show ?thesis
    by (simp only: push_bit_eq_mult take_bit_nat_eq_self)
qed

lemma unat_drop_bit [word_facts]: "unat (drop_bit n x) = unat x div 2 ^ n"
  for x :: "'a::len word"
  by (simp only: unat_drop_bit_eq drop_bit_eq_div [where ?'a = nat])

lemma unat_add_no_overflow: "unat a + unat b < 2 ^ LENGTH('a) \<Longrightarrow> unat (a + b) = unat a + unat b"
  for a b :: "'a::len word"
  by (simp add: unat_word_ariths)

lemma unat_mult_no_overflow: "unat a * unat b < 2 ^ LENGTH('a) \<Longrightarrow> unat (a * b) = unat a * unat b"
  for a b :: "'a::len word"
  by (simp add: unat_word_ariths)

lemma unat_ucast_up [simp]: "LENGTH('a) \<le> LENGTH('b) \<Longrightarrow> unat (ucast (x :: 'a::len word) :: 'b::len word) = unat x"
  by (simp add: unsigned_ucast_eq take_bit_nat_eq_self unsigned_less order_less_le_trans [OF unsigned_less])

lemma unat_of_nat_less: "n < 2 ^ LENGTH('a) \<Longrightarrow> unat (of_nat n :: 'a::len word) = n"
  by (simp add: unat_of_nat take_bit_nat_eq_self)

subsection \<open>Ring buffers\<close>

text \<open>
  The kernel's rings are arrays whose length divides the range of the free-running counters. The
  elements of a ring with counter \<open>b\<close> at its base and \<open>n\<close> elements, oldest first:
\<close>

definition ring_list :: "'a list \<Rightarrow> nat \<Rightarrow> nat \<Rightarrow> 'a list" where
  "ring_list buf b n = map (\<lambda>k. buf ! ((b + k) mod length buf)) [0..<n]"

lemma length_ring_list [simp]: "length (ring_list buf b n) = n"
  by (simp add: ring_list_def)

lemma ring_list_0 [simp, ring_simps]: "ring_list buf b 0 = []"
  by (simp add: ring_list_def)

lemma ring_list_snoc [ring_simps]: "ring_list buf b (Suc n) = ring_list buf b n @ [buf ! ((b + n) mod length buf)]"
  by (simp add: ring_list_def)

lemma ring_list_Cons: "ring_list buf b (Suc n) = buf ! (b mod length buf) # ring_list buf (Suc b) n"
  by (rule nth_equalityI) (auto simp: ring_list_def nth_Cons' nth_append simp del: upt_Suc)

lemma ring_list_mod_cong:
  assumes "b mod length buf = b' mod length buf"
  shows "ring_list buf b n = ring_list buf b' n"
  using assms unfolding ring_list_def by (intro map_cong refl) (metis mod_add_left_eq)

lemma mod_add_inj:
  assumes "(b + i) mod N = (b + j) mod N" "i < N" "j < N"
  shows "i = (j :: nat)"
proof -
  have "b + i \<le> b + j \<or> b + j \<le> b + i" by linarith
  then have "N dvd j - i" "N dvd i - j"
    using assms(1) mod_eq_dvd_iff_nat [of "b + i" "b + j" N] mod_eq_dvd_iff_nat [of "b + j" "b + i" N] by auto
  moreover have "j - i < N" "i - j < N" using assms(2,3) by linarith+
  ultimately have "j - i = 0" "i - j = 0" using nat_dvd_not_less by blast+
  then show ?thesis by simp
qed

lemma ring_list_update_other:
  assumes "n < length buf"
  shows "ring_list (buf[(b + n) mod length buf := v]) b n = ring_list buf b n"
proof (rule nth_equalityI)
  fix k assume "k < length (ring_list (buf[(b + n) mod length buf := v]) b n)"
  then have "(b + k) mod length buf \<noteq> (b + n) mod length buf" "k < n"
    using assms mod_add_inj [of b k "length buf" n] by auto
  then show "ring_list (buf[(b + n) mod length buf := v]) b n ! k = ring_list buf b n ! k"
    by (simp add: ring_list_def)
qed simp

lemma ring_list_push [ring_simps]:
  assumes "n < length buf"
  shows "ring_list (buf[(b + n) mod length buf := v]) b (Suc n) = ring_list buf b n @ [v]"
proof -
  have "(b + n) mod length buf < length buf" using assms by (intro mod_less_divisor) linarith
  then show ?thesis using assms by (simp add: ring_list_snoc ring_list_update_other)
qed

text \<open>
  The distance of two wrapping counters: it moves by one with either counter, and a counter is its
  base plus the distance modulo every power of two the ring may have as length.
\<close>

lemma unat_sub_add_1:
  assumes "unat (t - b) < 2 ^ LENGTH('a) - 1"
  shows "unat (t + 1 - b) = Suc (unat (t - b :: 'a::len word))"
proof -
  have "unat ((t - b) + 1) = Suc (unat (t - b))"
    using assms by (subst unat_add_no_overflow) simp_all
  then show ?thesis by (simp add: algebra_simps)
qed

lemma unat_sub_minus_1: "t \<noteq> b \<Longrightarrow> unat (t - b :: 'a::len word) = Suc (unat (t - 1 - b))"
proof -
  assume "t \<noteq> b"
  then have nz: "t - b \<noteq> 0" by simp
  have "unat ((t - b) - 1) = unat (t - b) - 1" "unat (t - b) \<noteq> 0"
    using nz by (rule unat_minus_one) (use nz in \<open>simp add: unat_eq_zero\<close>)
  then show ?thesis by (simp add: algebra_simps)
qed

lemma unat_sub_base_1: "t \<noteq> b \<Longrightarrow> unat (t - b :: 'a::len word) = Suc (unat (t - (b + 1)))"
  using unat_sub_minus_1 [of t b] by (simp add: algebra_simps)

lemma unat_mod_ring:
  assumes "N dvd 2 ^ LENGTH('a)"
  shows "unat t mod N = (unat b + unat (t - b :: 'a::len word)) mod N"
proof -
  have "unat t = (unat b + unat (t - b)) mod 2 ^ LENGTH('a)"
    by (subst unat_word_ariths(1) [symmetric]) simp
  with assms show ?thesis by (simp add: mod_mod_cancel)
qed

lemma unat_Suc_mod_ring:
  assumes "N dvd 2 ^ LENGTH('a)"
  shows "unat (b + 1 :: 'a::len word) mod N = Suc (unat b) mod N"
proof -
  have "unat (b + 1) = Suc (unat b) mod 2 ^ LENGTH('a)"
    by (simp add: unat_word_ariths)
  with assms show ?thesis by (simp add: mod_mod_cancel)
qed

end
