(* ===== verification/Pages.thy ===== *)
theory Pages
  imports Norost_Prelude
begin

text \<open>
  Virtual pages (\<open>kernel/src/arch/page.rs\<close>) and physical page numbers (\<open>kernel/src/memory/ppn.rs\<close>).

  A \<open>Page\<close> is a non-null, page-aligned address; here it is the address, and \<^term>\<open>page_inv\<close> is what the
  type promises. A \<open>PPN\<close> is a 32-bit page number, so physical addresses have 44 bits. \<open>PPNRange\<close> and
  \<open>PPNDirectRange\<close> are consumed from the bottom by the same operations; the locale \<open>page_range\<close> is the
  contract their users rely on, and both types are instances of it.
\<close>

subsection \<open>Pages\<close>

(* src/kernel/src/arch/page.rs:26-29 Page *)
type_synonym page = usize

(* src/kernel/src/arch/page.rs:151-158 FromPointerError *)
datatype from_pointer_error = FP_Null | FP_BadAlignment

(* src/kernel/src/arch/page.rs:13-14 PageData::OFFSET_BITS *)
definition PAGE_OFFSET_BITS :: nat where
  "PAGE_OFFSET_BITS = 12"

(* src/kernel/src/arch/page.rs:16-20 PageData::SIZE *)
definition PAGE_SIZE :: usize where
  "PAGE_SIZE = 4096"

(* src/kernel/src/arch/page.rs:22-23 PageData::OFFSET_MASK *)
definition PAGE_OFFSET_MASK :: usize where
  "PAGE_OFFSET_MASK = push_bit PAGE_OFFSET_BITS 1 - 1"

text \<open>\<open>Page::new\<close> takes a \<open>NonNull\<close> pointer, so the null case is its caller's.\<close>

(* src/kernel/src/arch/page.rs:48-70 Page::new *)
definition page_new :: "usize \<Rightarrow> unit + page" where
  "page_new addr = (if addr AND (PAGE_SIZE - 1) = 0 then Inr addr else Inl ())"

(* src/kernel/src/arch/page.rs:72-84 Page::from_pointer *)
definition page_from_pointer :: "usize \<Rightarrow> from_pointer_error + page" where
  "page_from_pointer ptr =
    (if ptr \<noteq> 0 then (case page_new ptr of Inr page \<Rightarrow> Inr page | Inl _ \<Rightarrow> Inl FP_BadAlignment)
     else Inl FP_Null)"

(* src/kernel/src/arch/page.rs:86-99 Page::from_usize *)
definition page_from_usize :: "usize \<Rightarrow> from_pointer_error + page" where
  "page_from_usize ptr =
    (if ptr \<noteq> 0 then
       (if ptr AND (PAGE_SIZE - 1) = 0 then Inr ptr else Inl FP_BadAlignment)
     else Inl FP_Null)"

(* src/kernel/src/arch/page.rs:119-130 Page::skip *)
definition page_skip :: "page \<Rightarrow> usize \<Rightarrow> page option" where
  "page_skip p offset = (let ptr = p + offset * PAGE_SIZE in if ptr = 0 then None else Some ptr)"

(* src/kernel/src/arch/page.rs:113-117 Page::next *)
definition page_next :: "page \<Rightarrow> page option" where
  "page_next p = page_skip p 1"

(* src/kernel/src/arch/page.rs:132-136 Page::min_pages_for_byte_count *)
definition min_pages_for_byte_count :: "usize \<Rightarrow> usize" where
  "min_pages_for_byte_count bytes = (bytes + PAGE_OFFSET_MASK) div PAGE_SIZE"

definition page_inv :: "page \<Rightarrow> bool" where
  "page_inv p \<longleftrightarrow> p \<noteq> 0 \<and> 4096 dvd unat p"

lemmas page_consts = PAGE_OFFSET_BITS_def PAGE_SIZE_def PAGE_OFFSET_MASK_def

lemma page_new_Inr: "page_new a = Inr p \<longleftrightarrow> p = a \<and> 4096 dvd unat a"
  by (auto simp: page_new_def page_consts and_4095_0_iff)

lemma page_from_usize_Inr: "page_from_usize a = Inr p \<longleftrightarrow> p = a \<and> page_inv a"
  by (auto simp: page_from_usize_def page_inv_def page_consts and_4095_0_iff)

lemma page_from_pointer_eq: "page_from_pointer a = page_from_usize a"
  by (simp add: page_from_pointer_def page_from_usize_def page_new_def)

lemma dvd_unat_add:
  assumes "4096 dvd unat p" "4096 dvd unat q"
  shows "4096 dvd unat (p + q :: usize)"
  using assms by (simp add: unat_word_ariths dvd_mod_iff)

lemma dvd_unat_mult_page: "4096 dvd unat (n * PAGE_SIZE)"
  by (simp add: unat_word_ariths PAGE_SIZE_def dvd_mod_iff)

lemma page_skip_inv: "page_skip p n = Some q \<Longrightarrow> 4096 dvd unat p \<Longrightarrow> page_inv q"
  by (auto simp: page_skip_def page_inv_def Let_def dvd_unat_add dvd_unat_mult_page split: if_splits)

lemma page_skip_Some:
  assumes "p \<noteq> 0" "unat p + unat n * 4096 < 2 ^ 64"
  shows "page_skip p n = Some (p + n * 4096)" "unat (p + n * 4096) = unat p + unat n * 4096"
proof -
  show "unat (p + n * 4096) = unat p + unat n * 4096"
    using assms by (simp add: unat_word_ariths)
  then show "page_skip p n = Some (p + n * 4096)"
    using assms by (auto simp: page_skip_def PAGE_SIZE_def Let_def unat_eq_zero simp flip: unat_0_iff)
qed

lemma page_skip_skip:
  "page_skip p m = Some q \<Longrightarrow> page_skip q n = page_skip p (m + n)"
  by (auto simp: page_skip_def Let_def algebra_simps split: if_splits)

lemma unat_min_pages:
  assumes "unat bytes + 4095 < 2 ^ 64"
  shows "unat (min_pages_for_byte_count bytes) = (unat bytes + 4095) div 4096"
  using assms by (simp add: min_pages_for_byte_count_def page_consts unat_div unat_word_ariths)

subsection \<open>Physical page numbers\<close>

(* src/kernel/src/memory/ppn.rs:8-14 PPN *)
type_synonym ppn = u32

(* src/kernel/src/memory/ppn.rs:242-245 Error *)
datatype ppn_error = PPN_BadAlignment | PPN_OutOfRange

(* src/kernel/src/memory/ppn.rs:28-37 PPN::from_ptr *)
definition ppn_from_ptr :: "usize \<Rightarrow> ppn" where
  "ppn_from_ptr ptr = ucast (drop_bit PAGE_OFFSET_BITS ptr)"

(* src/kernel/src/memory/ppn.rs:53-55 PPN::as_usize *)
definition ppn_as_usize :: "ppn \<Rightarrow> usize" where
  "ppn_as_usize p = push_bit 12 (ucast p)"

(* src/kernel/src/memory/ppn.rs:149-157 PPNDirect::from_usize *)
definition ppn_direct_from_usize :: "usize \<Rightarrow> ppn_error + ppn" where
  "ppn_direct_from_usize ptr =
    (if ptr AND PAGE_OFFSET_MASK > 0 then Inl PPN_BadAlignment
     else (case try_into (drop_bit PAGE_OFFSET_BITS ptr) of
             Some ppn \<Rightarrow> Inr ppn
           | None \<Rightarrow> Inl PPN_OutOfRange))"

(* src/kernel/src/memory/ppn.rs:16-20 PPNRange *)
record ppn_range =
  pr_start :: u32
  pr_count :: u32

(* src/kernel/src/memory/ppn.rs:74-86 PPNRange::from_ptr *)
definition range_from_ptr :: "usize \<Rightarrow> u32 \<Rightarrow> ppn_range" where
  "range_from_ptr start count =
    \<lparr>pr_start = ucast (drop_bit PAGE_OFFSET_BITS start), pr_count = count\<rparr>"

(* src/kernel/src/memory/ppn.rs:89-94 PPNRange::pop *)
definition range_pop :: "ppn_range \<Rightarrow> ppn option \<times> ppn_range" where
  "range_pop r = (case checked_sub (pr_count r) 1 of
      Some c \<Rightarrow> (Some (pr_start r + c), r\<lparr>pr_count := c\<rparr>)
    | None \<Rightarrow> (None, r))"

(* src/kernel/src/memory/ppn.rs:97-104 PPNRange::pop_base *)
definition range_pop_base :: "ppn_range \<Rightarrow> ppn option \<times> ppn_range" where
  "range_pop_base r = (case checked_sub (pr_count r) 1 of
      Some c \<Rightarrow> (Some (pr_start r), r\<lparr>pr_count := c, pr_start := pr_start r + 1\<rparr>)
    | None \<Rightarrow> (None, r))"

(* src/kernel/src/memory/ppn.rs:110-121 PPNRange::forget_base *)
definition range_forget_base :: "ppn_range \<Rightarrow> usize \<Rightarrow> (usize \<times> ppn_range) may_panic" where
  "range_forget_base r n =
    bindP (unwrapO (try_into n)) (\<lambda>count :: u32.
      case checked_sub (pr_count r) count of
        Some c \<Rightarrow> Inr (ucast count, r\<lparr>pr_count := c, pr_start := pr_start r + count\<rparr>)
      | None \<Rightarrow> Inr (ucast (pr_count r), r\<lparr>pr_count := 0\<rparr>))"

(* src/kernel/src/memory/ppn.rs:125-127 PPNRange::len *)
definition range_len :: "ppn_range \<Rightarrow> usize" where
  "range_len r = ucast (pr_count r)"

(* src/kernel/src/memory/ppn.rs:182-185 PPNDirectRange *)
record direct_range =
  dr_start :: u32
  dr_count :: u32

(* src/kernel/src/memory/ppn.rs:189-192 PPNDirectRange::new *)
definition direct_new :: "ppn \<Rightarrow> usize \<Rightarrow> ppn_error + direct_range" where
  "direct_new start count = (case try_into count of
      Some c \<Rightarrow> Inr \<lparr>dr_start = start, dr_count = c\<rparr>
    | None \<Rightarrow> Inl PPN_OutOfRange)"

(* src/kernel/src/memory/ppn.rs:195-202 PPNDirectRange::pop_base *)
definition direct_pop_base :: "direct_range \<Rightarrow> ppn option \<times> direct_range" where
  "direct_pop_base r = (case checked_sub (dr_count r) 1 of
      Some c \<Rightarrow> (Some (dr_start r), r\<lparr>dr_count := c, dr_start := dr_start r + 1\<rparr>)
    | None \<Rightarrow> (None, r))"

(* src/kernel/src/memory/ppn.rs:217-228 PPNDirectRange::forget_base *)
definition direct_forget_base :: "direct_range \<Rightarrow> usize \<Rightarrow> (usize \<times> direct_range) may_panic" where
  "direct_forget_base r n =
    bindP (unwrapO (try_into n)) (\<lambda>count :: u32.
      case checked_sub (dr_count r) count of
        Some c \<Rightarrow> Inr (ucast count, r\<lparr>dr_count := c, dr_start := dr_start r + count\<rparr>)
      | None \<Rightarrow> Inr (ucast (dr_count r), r\<lparr>dr_count := 0\<rparr>))"

(* src/kernel/src/memory/ppn.rs:204-206 PPNDirectRange::len *)
definition direct_len :: "direct_range \<Rightarrow> usize" where
  "direct_len r = ucast (dr_count r)"

subsection \<open>The contract of a range\<close>

text \<open>The page numbers a range stands for, from its base to its top.\<close>

definition ppns_from :: "u32 \<Rightarrow> nat \<Rightarrow> ppn list" where
  "ppns_from start n = map (\<lambda>i. start + of_nat i) [0..<n]"

definition range_ppns :: "ppn_range \<Rightarrow> ppn list" where
  "range_ppns r = ppns_from (pr_start r) (unat (pr_count r))"

definition direct_ppns :: "direct_range \<Rightarrow> ppn list" where
  "direct_ppns r = ppns_from (dr_start r) (unat (dr_count r))"

lemma length_ppns_from [simp]: "length (ppns_from s n) = n"
  by (simp add: ppns_from_def)

lemma nth_ppns_from [simp]: "i < n \<Longrightarrow> ppns_from s n ! i = s + of_nat i"
  by (simp add: ppns_from_def)

lemma ppns_from_0 [simp]: "ppns_from s 0 = []"
  by (simp add: ppns_from_def)

lemma ppns_from_Suc: "ppns_from s (Suc n) = ppns_from s n @ [s + of_nat n]"
  by (simp add: ppns_from_def)

lemma ppns_from_Cons: "ppns_from s (Suc n) = s # ppns_from (s + 1) n"
  by (rule nth_equalityI) (auto simp: nth_Cons' algebra_simps of_nat_diff)

lemma drop_ppns_from: "k \<le> n \<Longrightarrow> drop k (ppns_from s n) = ppns_from (s + of_nat k) (n - k)"
  by (rule nth_equalityI) (auto simp: algebra_simps)

lemma distinct_ppns_from: "n \<le> 2 ^ 32 \<Longrightarrow> distinct (ppns_from s n)"
  unfolding distinct_conv_nth
proof (intro allI impI notI)
  fix i j assume n: "n \<le> 2 ^ 32" and ij: "i < length (ppns_from s n)" "j < length (ppns_from s n)" "i \<noteq> j"
    and eq: "ppns_from s n ! i = ppns_from s n ! j"
  then have "(of_nat i :: u32) = of_nat j" by simp
  then have "unat (of_nat i :: u32) = unat (of_nat j :: u32)" by simp
  with n ij show False by (simp add: unat_of_nat take_bit_nat_eq_self)
qed

lemma unat_minus_1: "c \<noteq> 0 \<Longrightarrow> unat (c :: 'a::len word) = Suc (unat (c - 1))"
  by (metis Suc_pred' unat_gt_0 unat_minus_one word_neq_0_conv)

lemma range_ppns_Nil: "range_ppns r = [] \<longleftrightarrow> pr_count r = 0"
  by (simp add: range_ppns_def unat_eq_zero flip: length_0_conv)

lemma direct_ppns_Nil: "direct_ppns r = [] \<longleftrightarrow> dr_count r = 0"
  by (simp add: direct_ppns_def unat_eq_zero flip: length_0_conv)

lemma range_pop_Nil: "range_ppns r = [] \<Longrightarrow> range_pop r = (None, r)"
  by (simp add: range_ppns_Nil range_pop_def checked_sub_1)

lemma range_pop_snoc:
  assumes "range_ppns r \<noteq> []"
  obtains r' where "range_pop r = (Some (last (range_ppns r)), r')" "range_ppns r' = butlast (range_ppns r)"
proof
  have c: "pr_count r \<noteq> 0" using assms by (simp add: range_ppns_Nil)
  show "range_pop r = (Some (last (range_ppns r)), r\<lparr>pr_count := pr_count r - 1\<rparr>)"
    using c by (simp add: range_pop_def range_ppns_def checked_sub_1 unat_minus_1 ppns_from_Suc)
  show "range_ppns (r\<lparr>pr_count := pr_count r - 1\<rparr>) = butlast (range_ppns r)"
    using c by (simp add: range_ppns_def unat_minus_1 ppns_from_Suc)
qed

text \<open>
  What the page tables and the system calls rely on when they are handed a range: it yields its pages
  in order, forgetting pages drops them from the base, and the length is the number of pages left.
\<close>

locale page_range =
  fixes ppns :: "'r \<Rightarrow> ppn list"
    and pop_base :: "'r \<Rightarrow> ppn option \<times> 'r"
    and forget_base :: "'r \<Rightarrow> usize \<Rightarrow> (usize \<times> 'r) may_panic"
    and len :: "'r \<Rightarrow> usize"
  assumes pop_base_Nil: "ppns r = [] \<Longrightarrow> pop_base r = (None, r)"
    and pop_base_Cons: "ppns r = p # ps \<Longrightarrow> \<exists>r'. pop_base r = (Some p, r') \<and> ppns r' = ps"
    and forget_base: "unat n < 2 ^ 32 \<Longrightarrow> \<exists>k r'. forget_base r n = Inr (k, r')
          \<and> unat k = min (unat n) (length (ppns r)) \<and> ppns r' = drop (unat n) (ppns r)"
    and len: "unat (len r) = length (ppns r)"

primrec pop_many :: "('r \<Rightarrow> ppn option \<times> 'r) \<Rightarrow> nat \<Rightarrow> 'r \<Rightarrow> ppn list \<times> 'r" where
  "pop_many pop 0 r = ([], r)"
| "pop_many pop (Suc n) r = (case pop r of
      (None, r') \<Rightarrow> ([], r')
    | (Some p, r') \<Rightarrow> let (ps, r'') = pop_many pop n r' in (p # ps, r''))"

context page_range
begin

lemma pop_base_eq_None: "fst (pop_base r) = None \<longleftrightarrow> ppns r = []"
  by (cases "ppns r") (auto simp: pop_base_Nil dest: pop_base_Cons)

lemma pop_many_take:
  "\<exists>r'. pop_many pop_base n r = (take n (ppns r), r') \<and> ppns r' = drop n (ppns r)"
proof (induction n arbitrary: r)
  case (Suc n)
  show ?case
  proof (cases "ppns r")
    case Nil
    then show ?thesis by (simp add: pop_base_Nil)
  next
    case (Cons p ps)
    then obtain r' where r': "pop_base r = (Some p, r')" "ppns r' = ps"
      using pop_base_Cons by blast
    with Suc.IH [of r'] Cons show ?thesis by auto
  qed
qed simp

lemma pop_many_all: "fst (pop_many pop_base (unat (len r)) r) = ppns r"
  using pop_many_take [of "unat (len r)" r] by (auto simp: len)

lemma forget_then_pop:
  assumes "unat n < 2 ^ 32" "forget_base r n = Inr (k, r')"
  shows "fst (pop_many pop_base m r') = take m (drop (unat n) (ppns r))"
  using forget_base [OF assms(1), of r] pop_many_take [of m r'] assms(2) by auto

end

lemma unat_try_into_u32: "unat (n :: usize) < 2 ^ 32 \<Longrightarrow> \<exists>m :: u32. try_into n = Some m \<and> unat m = unat n"
  by (rule exI [of _ "ucast n"]) (simp add: try_into_def unsigned_ucast_eq take_bit_nat_eq_self)

lemma forget_base_ppns:
  assumes "unat k = n" "n \<le> unat c"
  shows "ppns_from (s + k) (unat (c - k)) = drop n (ppns_from s (unat (c :: u32)))"
  using assms by (auto simp: drop_ppns_from unat_sub word_le_nat_alt)

interpretation pr: page_range range_ppns range_pop_base range_forget_base range_len
proof unfold_locales
  fix r :: ppn_range and n :: usize and p ps
  show "range_ppns r = [] \<Longrightarrow> range_pop_base r = (None, r)"
    by (simp add: range_ppns_Nil range_pop_base_def checked_sub_1)
  show "range_ppns r = p # ps \<Longrightarrow> \<exists>r'. range_pop_base r = (Some p, r') \<and> range_ppns r' = ps"
    by (cases "pr_count r = 0")
      (auto simp: range_pop_base_def range_ppns_def checked_sub_1 unat_minus_1 ppns_from_Cons)
  show "unat n < 2 ^ 32 \<Longrightarrow> \<exists>k r'. range_forget_base r n = Inr (k, r')
      \<and> unat k = min (unat n) (length (range_ppns r)) \<and> range_ppns r' = drop (unat n) (range_ppns r)"
    by (drule unat_try_into_u32)
      (auto simp: range_forget_base_def range_ppns_def checked_sub_def word_le_nat_alt
        intro!: forget_base_ppns split: option.splits)
  show "unat (range_len r) = length (range_ppns r)"
    by (simp add: range_len_def range_ppns_def)
qed

interpretation dr: page_range direct_ppns direct_pop_base direct_forget_base direct_len
proof unfold_locales
  fix r :: direct_range and n :: usize and p ps
  show "direct_ppns r = [] \<Longrightarrow> direct_pop_base r = (None, r)"
    by (simp add: direct_ppns_Nil direct_pop_base_def checked_sub_1)
  show "direct_ppns r = p # ps \<Longrightarrow> \<exists>r'. direct_pop_base r = (Some p, r') \<and> direct_ppns r' = ps"
    by (cases "dr_count r = 0")
      (auto simp: direct_pop_base_def direct_ppns_def checked_sub_1 unat_minus_1 ppns_from_Cons)
  show "unat n < 2 ^ 32 \<Longrightarrow> \<exists>k r'. direct_forget_base r n = Inr (k, r')
      \<and> unat k = min (unat n) (length (direct_ppns r)) \<and> direct_ppns r' = drop (unat n) (direct_ppns r)"
    by (drule unat_try_into_u32)
      (auto simp: direct_forget_base_def direct_ppns_def checked_sub_def word_le_nat_alt
        intro!: forget_base_ppns split: option.splits)
  show "unat (direct_len r) = length (direct_ppns r)"
    by (simp add: direct_len_def direct_ppns_def)
qed

subsection \<open>Properties\<close>

lemma unat_ppn_as_usize: "unat (ppn_as_usize p) = unat p * 4096"
proof -
  have "unat (ucast p :: usize) * 2 ^ 12 < 2 ^ LENGTH(64)" using unat_bounds(3) [of p] by simp
  from unat_push_bit_no_overflow [OF this] show ?thesis by (simp add: ppn_as_usize_def)
qed

lemma ppn_as_usize_inj: "ppn_as_usize p = ppn_as_usize q \<longleftrightarrow> p = q"
  by (metis mult_cancel_right unat_ppn_as_usize word_unat_eq_iff zero_neq_numeral)

lemma direct_from_usize_cases:
  "ppn_direct_from_usize a =
    (if \<not> 4096 dvd unat a then Inl PPN_BadAlignment
     else if unat a < 2 ^ 44 then Inr (ucast (drop_bit 12 a)) else Inl PPN_OutOfRange)"
  using and_4095_0_iff [of a]
  by (auto simp: ppn_direct_from_usize_def page_consts try_into_def unat_drop_bit less_mult_imp_div_less
      word_neq_0_conv split: option.splits)

lemma ppn_as_usize_drop:
  assumes "4096 dvd unat a" "unat a < 2 ^ 44"
  shows "ppn_as_usize (ucast (drop_bit 12 a)) = a"
proof -
  have "unat (drop_bit 12 a) < 2 ^ 32" using assms(2) by (simp add: unat_drop_bit)
  then have "unat (ucast (drop_bit 12 a) :: ppn) = unat a div 4096"
    by (simp add: unsigned_ucast_eq take_bit_nat_eq_self unat_drop_bit)
  with assms show ?thesis by (simp add: word_unat_eq_iff unat_ppn_as_usize)
qed

text \<open>
  Turning an address into a direct page number succeeds exactly on the page-aligned addresses
  below \<open>2 ^ 44\<close>, and the page number it gives names that address again; the two errors tell apart
  addresses that are not aligned and aligned addresses that do not fit 32 bits of page number.
\<close>
theorem ppn_direct_from_usize_exact:
  "(ppn_direct_from_usize a = Inr p \<longleftrightarrow> unat a < 2 ^ 44 \<and> ppn_as_usize p = a)
   \<and> (ppn_direct_from_usize a = Inl PPN_BadAlignment \<longleftrightarrow> \<not> 4096 dvd unat a)
   \<and> (ppn_direct_from_usize a = Inl PPN_OutOfRange \<longleftrightarrow> 4096 dvd unat a \<and> 2 ^ 44 \<le> unat a)"
  using ppn_as_usize_drop [of a] ppn_as_usize_inj [of p "ucast (drop_bit 12 a)"] unat_ppn_as_usize [of p]
  by (auto simp: direct_from_usize_cases not_less)

text \<open>
  A range hands out its pages once each and in order: forgetting \<open>n\<close> pages and then popping \<open>m\<close>
  from the base yields the \<open>m\<close> page numbers that follow the first \<open>n\<close>, all distinct, and reports how
  many pages there were to forget.
\<close>
theorem range_consumed_in_order:
  assumes "unat n < 2 ^ 32"
  shows "\<exists>k r'. range_forget_base r n = Inr (k, r') \<and> unat k = min (unat n) (unat (pr_count r))
    \<and> fst (pop_many range_pop_base m r') = take m (drop (unat n) (range_ppns r))
    \<and> distinct (range_ppns r)"
  using pr.forget_base [OF assms, of r] pr.forget_then_pop [OF assms, of r _ _ m]
  by (auto simp: range_ppns_def intro!: distinct_ppns_from less_imp_le unat_bounds)

theorem range_consumed_in_order_witness:
  "\<exists>k r'. range_forget_base \<lparr>pr_start = 7, pr_count = 5\<rparr> 2 = Inr (k, r') \<and> unat k = 2
    \<and> fst (pop_many range_pop_base 2 r') = [9, 10]"
proof -
  have "take 2 (drop 2 (range_ppns \<lparr>pr_start = 7, pr_count = 5\<rparr>)) = [9, 10]"
    by (simp add: range_ppns_def ppns_from_def upt_rec [of _ 5] upt_rec [of _ "unat 5"])
  then show ?thesis using range_consumed_in_order [of 2 "\<lparr>pr_start = 7, pr_count = 5\<rparr>" 2] by auto
qed

end
