(* ===== verification/Frames.thy ===== *)
theory Frames
  imports Pages "HOL-Library.Multiset"
begin

text \<open>
  The physical memory manager (\<open>kernel/src/memory/allocator.rs\<close> and \<open>kernel/src/memory/mod.rs\<close>).

  Each hart owns a stack of free page numbers that is a ring of 2048 entries between two wrapping
  16-bit counters: \<open>top\<close> for pushing and popping, \<open>base\<close> for taking the oldest pages. The locale
  \<open>frame_stack\<close> states what such a stack promises as operations on a list; the interpretation \<open>st\<close>
  shows the ring with its counters implements it. The allocator's lemmas are proved from the locale.
\<close>

subsection \<open>Stacks\<close>

(* src/kernel/src/memory/allocator.rs:35-40 Stacks *)
record stacks =
  st_stacks :: "ppn list list"
  st_top_base :: "(u16 \<times> u16) list"

(* src/kernel/src/memory/allocator.rs:48-49 Stacks::STACK_SIZE *)
definition STACK_SIZE :: u16 where
  "STACK_SIZE = 2048"

(* src/kernel/src/memory/allocator.rs:51-52 Stacks::MEM_STACK_SIZE *)
definition MEM_STACK_SIZE :: usize where
  "MEM_STACK_SIZE = ucast STACK_SIZE * 4"

(* src/kernel/src/memory/allocator.rs:54-55 Stacks::MEM_TOTAL_SIZE *)
definition MEM_TOTAL_SIZE :: usize where
  "MEM_TOTAL_SIZE = MEM_STACK_SIZE + 4"

(* src/kernel/src/memory/allocator.rs:57-71 Stacks::push *)
definition stacks_push :: "stacks \<Rightarrow> nat \<Rightarrow> ppn \<Rightarrow> ((ppn + unit) \<times> stacks) may_panic" where
  "stacks_push s stack_index ppn =
    bindP (indexP (st_stacks s) stack_index) (\<lambda>stack.
      let (top, base) = st_top_base s ! stack_index in
      if top = base + STACK_SIZE then Inr (Inl ppn, s)
      else
        let index = top AND (STACK_SIZE - 1) in
        bindP (storeP stack (unat index) ppn) (\<lambda>stack'.
          Inr (Inr (), s\<lparr>st_stacks := (st_stacks s)[stack_index := stack'],
                         st_top_base := (st_top_base s)[stack_index := (top + 1, base)]\<rparr>)))"

(* src/kernel/src/memory/allocator.rs:73-88 Stacks::pop *)
definition stacks_pop :: "stacks \<Rightarrow> nat \<Rightarrow> (ppn option \<times> stacks) may_panic" where
  "stacks_pop s stack_index =
    bindP (indexP (st_stacks s) stack_index) (\<lambda>stack.
      let (top, base) = st_top_base s ! stack_index in
      if top = base then Inr (None, s)
      else
        let top = top - 1; index = top AND (STACK_SIZE - 1) in
        bindP (indexP stack (unat index)) (\<lambda>ppn.
          Inr (Some ppn, s\<lparr>st_top_base := (st_top_base s)[stack_index := (top, base)]\<rparr>)))"

(* src/kernel/src/memory/allocator.rs:90-109 Stacks::pop_base *)
definition stacks_pop_base :: "stacks \<Rightarrow> nat \<Rightarrow> (ppn option \<times> stacks) may_panic" where
  "stacks_pop_base s stack_index =
    bindP (indexP (st_stacks s) stack_index) (\<lambda>stack.
      let (top, base) = st_top_base s ! stack_index in
      if top = base then Inr (None, s)
      else
        let index = base AND (STACK_SIZE - 1) in
        bindP (indexP stack (unat index)) (\<lambda>ppn.
          Inr (Some ppn, s\<lparr>st_top_base := (st_top_base s)[stack_index := (top, base + 1)]\<rparr>)))"

text \<open>
  The ring of every stack has its full length, and the counters of a stack are at most one ring apart.
\<close>

definition stacks_inv :: "stacks \<Rightarrow> bool" where
  "stacks_inv s \<longleftrightarrow> length (st_top_base s) = length (st_stacks s)
     \<and> (\<forall>i < length (st_stacks s). length (st_stacks s ! i) = 2048
          \<and> unat (fst (st_top_base s ! i) - snd (st_top_base s ! i)) \<le> 2048)"

definition stacks_slots :: "stacks \<Rightarrow> nat" where
  "stacks_slots s = length (st_stacks s)"

text \<open>The free pages of a stack, oldest first.\<close>

definition stacks_contents :: "stacks \<Rightarrow> nat \<Rightarrow> ppn list" where
  "stacks_contents s i = (let (top, base) = st_top_base s ! i in
     ring_list (st_stacks s ! i) (unat base) (unat (top - base)))"

lemma unat_and_2047 [word_facts]: "unat (x AND 2047 :: u16) = unat x mod 2048"
  using unat_and_mask [of x 11] by (simp add: mask_eq_exp_minus_1)

lemma stacks_inv_nth:
  assumes "stacks_inv s" "i < stacks_slots s" "st_top_base s ! i = (t, b)"
  shows "length (st_stacks s ! i) = 2048" "unat (t - b) \<le> 2048" "i < length (st_top_base s)"
    "i < length (st_stacks s)"
  using assms unfolding stacks_inv_def stacks_slots_def by (metis fst_conv snd_conv)+

lemma stack_full_iff:
  assumes "unat (t - b) \<le> 2048"
  shows "t = b + STACK_SIZE \<longleftrightarrow> unat (t - b :: u16) = 2048"
proof -
  have "t = b + STACK_SIZE \<longleftrightarrow> t - b = 2048" by (auto simp: STACK_SIZE_def algebra_simps)
  then show ?thesis by (simp add: word_unat_eq_iff)
qed

subsection \<open>The contract of a stack of frames\<close>

locale frame_stack =
  fixes inv :: "'s \<Rightarrow> bool"
    and slots :: "'s \<Rightarrow> nat"
    and contents :: "'s \<Rightarrow> nat \<Rightarrow> ppn list"
    and capacity :: nat
    and push :: "'s \<Rightarrow> nat \<Rightarrow> ppn \<Rightarrow> ((ppn + unit) \<times> 's) may_panic"
    and pop :: "'s \<Rightarrow> nat \<Rightarrow> (ppn option \<times> 's) may_panic"
    and pop_base :: "'s \<Rightarrow> nat \<Rightarrow> (ppn option \<times> 's) may_panic"
  assumes bounded: "inv s \<Longrightarrow> i < slots s \<Longrightarrow> length (contents s i) \<le> capacity"
    and push_full: "inv s \<Longrightarrow> i < slots s \<Longrightarrow> length (contents s i) = capacity \<Longrightarrow>
          push s i p = Inr (Inl p, s)"
    and push_snoc: "inv s \<Longrightarrow> i < slots s \<Longrightarrow> length (contents s i) < capacity \<Longrightarrow>
          \<exists>s'. push s i p = Inr (Inr (), s') \<and> inv s' \<and> slots s' = slots s
             \<and> contents s' = (contents s)(i := contents s i @ [p])"
    and pop_Nil: "inv s \<Longrightarrow> i < slots s \<Longrightarrow> contents s i = [] \<Longrightarrow> pop s i = Inr (None, s)"
    and pop_snoc: "inv s \<Longrightarrow> i < slots s \<Longrightarrow> contents s i = ps @ [p] \<Longrightarrow>
          \<exists>s'. pop s i = Inr (Some p, s') \<and> inv s' \<and> slots s' = slots s
             \<and> contents s' = (contents s)(i := ps)"
    and pop_base_Nil: "inv s \<Longrightarrow> i < slots s \<Longrightarrow> contents s i = [] \<Longrightarrow> pop_base s i = Inr (None, s)"
    and pop_base_Cons: "inv s \<Longrightarrow> i < slots s \<Longrightarrow> contents s i = p # ps \<Longrightarrow>
          \<exists>s'. pop_base s i = Inr (Some p, s') \<and> inv s' \<and> slots s' = slots s
             \<and> contents s' = (contents s)(i := ps)"
begin

lemma pop_push:
  assumes "inv s" "i < slots s" "push s i p = Inr (Inr (), s')"
  shows "\<exists>s''. pop s' i = Inr (Some p, s'') \<and> contents s'' = contents s"
proof -
  have "length (contents s i) \<noteq> capacity" using assms push_full by fastforce
  then have "length (contents s i) < capacity" using assms(1,2) bounded by (simp add: le_neq_implies_less)
  then obtain s1 where "push s i p = Inr (Inr (), s1)" "inv s1" "slots s1 = slots s"
      "contents s1 = (contents s)(i := contents s i @ [p])"
    using push_snoc [OF assms(1,2)] by blast
  then show ?thesis using assms pop_snoc [of s' i "contents s i" p] by (auto simp: fun_upd_idem_iff)
qed

end

lemma stacks_push_snoc:
  assumes "stacks_inv s" "i < stacks_slots s" "length (stacks_contents s i) < 2048"
  shows "\<exists>s'. stacks_push s i p = Inr (Inr (), s') \<and> stacks_inv s' \<and> stacks_slots s' = stacks_slots s
    \<and> stacks_contents s' = (stacks_contents s)(i := stacks_contents s i @ [p])"
proof -
  obtain t b where tb: "st_top_base s ! i = (t, b)" by fastforce
  note inv = stacks_inv_nth [OF assms(1,2) tb]
  let ?st = "st_stacks s ! i" and ?k = "unat t mod 2048"
  have n: "unat (t - b) < 2048" using assms(3) tb by (simp add: stacks_contents_def)
  have k: "?k = (unat b + unat (t - b)) mod length ?st"
    using unat_mod_ring [of 2048 t b] inv(1) by simp
  have ring: "ring_list (?st[?k := p]) (unat b) (Suc (unat (t - b))) = ring_list ?st (unat b) (unat (t - b)) @ [p]"
    unfolding k using n inv(1) by (intro ring_list_push) simp
  have d: "unat (t + 1 - b) = Suc (unat (t - b))" using n by (intro unat_sub_add_1) simp
  let ?s' = "s\<lparr>st_stacks := (st_stacks s)[i := ?st[?k := p]], st_top_base := (st_top_base s)[i := (t + 1, b)]\<rparr>"
  have "stacks_push s i p = Inr (Inr (), ?s')"
    using n inv tb stack_full_iff [OF inv(2)]
    by (simp add: stacks_push_def STACK_SIZE_def word_facts)
  moreover have "stacks_inv ?s'"
    using assms(1) n d inv by (auto simp: stacks_inv_def nth_list_update)
  moreover have "stacks_contents ?s' = (stacks_contents s)(i := stacks_contents s i @ [p])"
    using inv tb d ring by (auto simp: fun_eq_iff stacks_contents_def)
  ultimately show ?thesis by (auto simp: stacks_slots_def)
qed

lemma stacks_pop_snoc:
  assumes "stacks_inv s" "i < stacks_slots s" "stacks_contents s i = ps @ [p]"
  shows "\<exists>s'. stacks_pop s i = Inr (Some p, s') \<and> stacks_inv s' \<and> stacks_slots s' = stacks_slots s
    \<and> stacks_contents s' = (stacks_contents s)(i := ps)"
proof -
  obtain t b where tb: "st_top_base s ! i = (t, b)" by fastforce
  note inv = stacks_inv_nth [OF assms(1,2) tb]
  have ne: "t \<noteq> b" using assms(3) tb by (auto simp: stacks_contents_def)
  note d = unat_sub_minus_1 [OF ne]
  have k: "unat (t - 1) mod 2048 = (unat b + unat (t - 1 - b)) mod 2048"
    by (rule unat_mod_ring) simp
  have pp: "p = st_stacks s ! i ! (unat (t - 1) mod 2048)"
      "ps = ring_list (st_stacks s ! i) (unat b) (unat (t - 1 - b))"
    using assms(3) tb inv(1) by (simp_all add: stacks_contents_def d ring_list_snoc k)
  let ?s' = "s\<lparr>st_top_base := (st_top_base s)[i := (t - 1, b)]\<rparr>"
  have "stacks_pop s i = Inr (Some p, ?s')"
    using ne inv tb by (simp add: stacks_pop_def STACK_SIZE_def word_facts pp Let_def)
  moreover have "stacks_inv ?s'"
    using assms(1) d inv by (auto simp: stacks_inv_def nth_list_update)
  moreover have "stacks_contents ?s' = (stacks_contents s)(i := ps)"
    using inv tb by (auto simp: fun_eq_iff stacks_contents_def pp)
  ultimately show ?thesis by (auto simp: stacks_slots_def)
qed

lemma stacks_pop_base_Cons:
  assumes "stacks_inv s" "i < stacks_slots s" "stacks_contents s i = p # ps"
  shows "\<exists>s'. stacks_pop_base s i = Inr (Some p, s') \<and> stacks_inv s' \<and> stacks_slots s' = stacks_slots s
    \<and> stacks_contents s' = (stacks_contents s)(i := ps)"
proof -
  obtain t b where tb: "st_top_base s ! i = (t, b)" by fastforce
  note inv = stacks_inv_nth [OF assms(1,2) tb]
  have ne: "t \<noteq> b" using assms(3) tb by (auto simp: stacks_contents_def)
  note d = unat_sub_base_1 [OF ne]
  have k: "unat (b + 1) mod length (st_stacks s ! i) = Suc (unat b) mod length (st_stacks s ! i)"
    using inv(1) by (intro unat_Suc_mod_ring) simp
  have pp: "p = st_stacks s ! i ! (unat b mod 2048)"
      "ps = ring_list (st_stacks s ! i) (unat (b + 1)) (unat (t - (b + 1)))"
    using assms(3) tb inv(1) ring_list_mod_cong [OF k]
    by (simp_all add: stacks_contents_def d ring_list_Cons)
  let ?s' = "s\<lparr>st_top_base := (st_top_base s)[i := (t, b + 1)]\<rparr>"
  have "stacks_pop_base s i = Inr (Some p, ?s')"
    using ne inv tb by (simp add: stacks_pop_base_def STACK_SIZE_def word_facts pp Let_def)
  moreover have "stacks_inv ?s'"
    using assms(1) d inv by (auto simp: stacks_inv_def nth_list_update)
  moreover have "stacks_contents ?s' = (stacks_contents s)(i := ps)"
    using inv tb by (auto simp: fun_eq_iff stacks_contents_def pp)
  ultimately show ?thesis by (auto simp: stacks_slots_def)
qed

interpretation st: frame_stack stacks_inv stacks_slots stacks_contents 2048
  stacks_push stacks_pop stacks_pop_base
proof (unfold_locales, goal_cases)
  case (1 s i)
  then show ?case using stacks_inv_nth [of s i] by (cases "st_top_base s ! i") (auto simp: stacks_contents_def)
next
  case (2 s i p)
  then show ?case using stacks_inv_nth [of s i] stack_full_iff
    by (cases "st_top_base s ! i") (auto simp: stacks_contents_def stacks_push_def)
next
  case (4 s i)
  then show ?case using stacks_inv_nth [of s i]
    by (cases "st_top_base s ! i") (auto simp: stacks_contents_def stacks_pop_def unat_eq_zero simp flip: length_0_conv)
next
  case (6 s i)
  then show ?case using stacks_inv_nth [of s i]
    by (cases "st_top_base s ! i") (auto simp: stacks_contents_def stacks_pop_base_def unat_eq_zero simp flip: length_0_conv)
qed (simp_all add: stacks_push_snoc stacks_pop_snoc stacks_pop_base_Cons)

subsection \<open>The allocator\<close>

text \<open>
  \<open>Allocator\<close> holds the stacks of one hart. \<open>alloc\<close> panics when the stack is empty and \<open>free\<close>
  when it is full (\<open>expect("TODO")\<close> and \<open>todo!()\<close> in the source).
\<close>

(* src/kernel/src/memory/allocator.rs:42-45 Allocator *)
record allocator =
  al_stacks :: stacks

(* src/kernel/src/memory/allocator.rs:190-194 Allocator::alloc *)
definition alloc :: "allocator \<Rightarrow> ((unit + ppn) \<times> allocator) may_panic" where
  "alloc a = bindP (stacks_pop (al_stacks a) 0) (\<lambda>(p, s).
     bindP (unwrapO p) (\<lambda>p. Inr (Inr p, a\<lparr>al_stacks := s\<rparr>)))"

(* src/kernel/src/memory/allocator.rs:196-203 Allocator::free *)
definition free :: "allocator \<Rightarrow> ppn \<Rightarrow> allocator may_panic" where
  "free a page = bindP (stacks_push (al_stacks a) 0 page) (\<lambda>(r, s).
     case r of Inr _ \<Rightarrow> Inr (a\<lparr>al_stacks := s\<rparr>) | Inl _ \<Rightarrow> Inl Todo_Reached)"

(* src/kernel/src/memory/allocator.rs:205-208 Allocator::insert *)
definition insert_page :: "allocator \<Rightarrow> ppn \<Rightarrow> allocator may_panic" where
  "insert_page a page = free a page"

text \<open>
  The two loops of \<open>Allocator::new\<close>: the closure that hands out pages while the stack itself is being
  mapped, and the loop that then inserts every page left. Between them \<open>VMS::allocate_pages\<close> runs.
\<close>

(* src/kernel/src/memory/allocator.rs:157-163 Allocator::new *)
function new_pop_page :: "ppn_range list \<Rightarrow> nat \<Rightarrow> (ppn \<times> ppn_range list \<times> nat) may_panic" where
  "new_pop_page pages i =
    (if i < length pages then
       (case range_pop (pages ! i) of
          (Some p, r) \<Rightarrow> Inr (p, pages[i := r], i)
        | (None, r) \<Rightarrow> new_pop_page (pages[i := r]) (i + 1))
     else Inl Index_Out_Of_Range)"
  by pat_completeness auto
termination
  by (relation "measure (\<lambda>(pages, i). length pages - i)") auto

lemma range_pop_decreases: "range_pop r = (Some p, r') \<Longrightarrow> unat (pr_count r') < unat (pr_count r)"
  by (auto simp: range_pop_def checked_sub_1 unat_minus_1 split: option.splits if_splits)

(* src/kernel/src/memory/allocator.rs:182-184 Allocator::new *)
function insert_range :: "allocator \<Rightarrow> ppn_range \<Rightarrow> allocator may_panic" where
  "insert_range a r = (case range_pop r of
      (None, _) \<Rightarrow> Inr a
    | (Some p, r') \<Rightarrow> bindP (insert_page a p) (\<lambda>a'. insert_range a' r'))"
  by pat_completeness auto
termination
  by (relation "measure (\<lambda>(a, r). unat (pr_count r))") (auto intro: range_pop_decreases [OF sym])

(* src/kernel/src/memory/allocator.rs:181-185 Allocator::new *)
fun insert_ranges :: "allocator \<Rightarrow> ppn_range list \<Rightarrow> allocator may_panic" where
  "insert_ranges a [] = Inr a"
| "insert_ranges a (r # rs) = bindP (insert_range a r) (\<lambda>a'. insert_ranges a' rs)"

declare new_pop_page.simps [simp del] insert_range.simps [simp del]

text \<open>
  \<open>memory::allocate\<close>, \<open>mem_allocate_range\<close> and \<open>deallocate\<close> work on the global allocator under its
  lock. The callback of \<open>mem_allocate_range\<close> may itself allocate (mapping a page allocates tables), so
  it takes and returns the allocator with the state it works on.
\<close>

(* src/kernel/src/memory/mod.rs:70-89 allocate *)
definition allocate :: "allocator \<Rightarrow> (ppn \<times> allocator) may_panic" where
  "allocate a = bindP (alloc a) (\<lambda>(r, a'). bindP (unwrapR r) (\<lambda>p. Inr (p, a')))"

(* src/kernel/src/memory/mod.rs:97-117 mem_allocate_range *)
primrec mem_allocate_range ::
    "nat \<Rightarrow> (ppn \<Rightarrow> 's \<Rightarrow> allocator \<Rightarrow> ('s \<times> allocator) may_panic) \<Rightarrow> 's \<Rightarrow> allocator
      \<Rightarrow> ((unit + 's) \<times> allocator) may_panic" where
  "mem_allocate_range 0 f s a = Inr (Inr s, a)"
| "mem_allocate_range (Suc n) f s a = bindP (alloc a) (\<lambda>(r, a').
     case r of
       Inl e \<Rightarrow> Inr (Inl e, a')
     | Inr p \<Rightarrow> bindP (f p s a') (\<lambda>(s', a''). mem_allocate_range n f s' a''))"

(* src/kernel/src/memory/mod.rs:126-135 deallocate *)
definition deallocate :: "allocator \<Rightarrow> ppn \<Rightarrow> allocator may_panic" where
  "deallocate a page = free a page"

definition alloc_inv :: "allocator \<Rightarrow> bool" where
  "alloc_inv a \<longleftrightarrow> stacks_inv (al_stacks a) \<and> 0 < stacks_slots (al_stacks a)"

definition free_pages :: "allocator \<Rightarrow> ppn list" where
  "free_pages a = stacks_contents (al_stacks a) 0"

lemma free_pages_bounded: "alloc_inv a \<Longrightarrow> length (free_pages a) \<le> 2048"
  unfolding alloc_inv_def free_pages_def using st.bounded by blast

lemma alloc_empty: "alloc_inv a \<Longrightarrow> free_pages a = [] \<Longrightarrow> alloc a = Inl Unwrap_Failed"
  by (simp add: alloc_inv_def free_pages_def alloc_def st.pop_Nil)

lemma alloc_snoc:
  assumes "alloc_inv a" "free_pages a = ps @ [p]"
  shows "\<exists>a'. alloc a = Inr (Inr p, a') \<and> alloc_inv a' \<and> free_pages a' = ps"
proof -
  from assms have "stacks_inv (al_stacks a)" "0 < stacks_slots (al_stacks a)"
      "stacks_contents (al_stacks a) 0 = ps @ [p]"
    by (simp_all add: alloc_inv_def free_pages_def)
  from st.pop_snoc [OF this] this(2) obtain s' where
      "stacks_pop (al_stacks a) 0 = Inr (Some p, s')" "stacks_inv s'" "0 < stacks_slots s'" "stacks_contents s' 0 = ps"
    by auto
  then show ?thesis
    by (intro exI [of _ "a\<lparr>al_stacks := s'\<rparr>"]) (simp add: alloc_def alloc_inv_def free_pages_def)
qed

lemma free_full: "alloc_inv a \<Longrightarrow> length (free_pages a) = 2048 \<Longrightarrow> free a p = Inl Todo_Reached"
  by (simp add: alloc_inv_def free_pages_def free_def st.push_full)

lemma free_snoc:
  assumes "alloc_inv a" "length (free_pages a) < 2048"
  shows "\<exists>a'. free a p = Inr a' \<and> alloc_inv a' \<and> free_pages a' = free_pages a @ [p]"
proof -
  from assms have "stacks_inv (al_stacks a)" "0 < stacks_slots (al_stacks a)"
      "length (stacks_contents (al_stacks a) 0) < 2048"
    by (simp_all add: alloc_inv_def free_pages_def)
  from st.push_snoc [OF this, of p] this(2) obtain s' where
      "stacks_push (al_stacks a) 0 p = Inr (Inr (), s')" "stacks_inv s'" "0 < stacks_slots s'"
      "stacks_contents s' 0 = stacks_contents (al_stacks a) 0 @ [p]"
    by auto
  then show ?thesis
    by (intro exI [of _ "a\<lparr>al_stacks := s'\<rparr>"]) (simp add: free_def alloc_inv_def free_pages_def)
qed

lemma allocate_cases:
  assumes "alloc_inv a"
  obtains "free_pages a = []" "allocate a = Inl Unwrap_Failed"
  | p a' where "allocate a = Inr (p, a')" "alloc_inv a'" "free_pages a = free_pages a' @ [p]"
proof (cases "free_pages a" rule: rev_cases)
  case Nil
  with assms have "allocate a = Inl Unwrap_Failed" by (simp add: allocate_def alloc_empty)
  with Nil show ?thesis by (rule that(1))
next
  case (snoc ps p)
  then obtain a' where "alloc a = Inr (Inr p, a')" "alloc_inv a'" "free_pages a' = ps"
    using alloc_snoc [OF assms snoc] by blast
  with snoc show ?thesis by (intro that(2) [of p a']) (simp_all add: allocate_def)
qed

lemma deallocate_cases:
  assumes "alloc_inv a"
  obtains "length (free_pages a) = 2048" "deallocate a p = Inl Todo_Reached"
  | a' where "deallocate a p = Inr a'" "alloc_inv a'" "free_pages a' = free_pages a @ [p]"
proof (cases "length (free_pages a) = 2048")
  case True
  with assms have "deallocate a p = Inl Todo_Reached" by (simp add: deallocate_def free_full)
  with True show ?thesis by (rule that(1))
next
  case False
  then have "length (free_pages a) < 2048" using free_pages_bounded [OF assms] by simp
  then obtain a' where "free a p = Inr a'" "alloc_inv a'" "free_pages a' = free_pages a @ [p]"
    using free_snoc [OF assms] by blast
  then show ?thesis by (intro that(2) [of a']) (simp_all add: deallocate_def)
qed

lemma insert_range_ppns:
  "alloc_inv a \<Longrightarrow> length (free_pages a) + length (range_ppns r) \<le> 2048 \<Longrightarrow>
    \<exists>a'. insert_range a r = Inr a' \<and> alloc_inv a' \<and> free_pages a' = free_pages a @ rev (range_ppns r)"
proof (induction a r rule: insert_range.induct)
  case (1 a r)
  show ?case
  proof (cases "range_ppns r = []")
    case True
    then show ?thesis using 1 by (simp add: insert_range.simps [of a r] range_pop_Nil)
  next
    case False
    then obtain r' where r': "range_pop r = (Some (last (range_ppns r)), r')" "range_ppns r' = butlast (range_ppns r)"
      by (rule range_pop_snoc)
    let ?p = "last (range_ppns r)"
    have len: "length (range_ppns r) = Suc (length (range_ppns r'))" using False r'(2) by simp
    with "1.prems" obtain a' where a': "free a ?p = Inr a'" "alloc_inv a'" "free_pages a' = free_pages a @ [?p]"
      using free_snoc [of a ?p] by auto
    have "insert_page a ?p = Inr a'" using a' by (simp add: insert_page_def)
    with "1.IH" [OF r'(1) [symmetric] refl, of a'] "1.prems" a' len
    obtain a'' where a'': "insert_range a' r' = Inr a''" "alloc_inv a''"
        "free_pages a'' = free_pages a @ ?p # rev (range_ppns r')" by auto
    have "range_ppns r = range_ppns r' @ [?p]" using False r'(2) by simp
    then have "free_pages a'' = free_pages a @ rev (range_ppns r)"
      unfolding a''(3) by (metis append_Cons append_Nil rev.simps rev_append)
    with a'' show ?thesis using r'(1) \<open>insert_page a ?p = Inr a'\<close> by (simp add: insert_range.simps [of a r])
  qed
qed

lemma insert_ranges_ppns:
  "alloc_inv a \<Longrightarrow> length (free_pages a) + length (concat (map range_ppns rs)) \<le> 2048 \<Longrightarrow>
    \<exists>a'. insert_ranges a rs = Inr a' \<and> alloc_inv a'
      \<and> free_pages a' = free_pages a @ concat (map (rev \<circ> range_ppns) rs)"
proof (induction rs arbitrary: a)
  case (Cons r rs)
  then obtain a' where a': "insert_range a r = Inr a'" "alloc_inv a'" "free_pages a' = free_pages a @ rev (range_ppns r)"
    using insert_range_ppns [of a r] by auto
  with Cons.IH [of a'] Cons.prems show ?case by auto
qed simp

lemma mset_concat_update:
  assumes "i < length xs" "mset (f (xs ! i)) = add_mset p (mset (f y))"
  shows "mset (concat (map f xs)) = add_mset p (mset (concat (map f (xs[i := y]))))"
proof -
  have "mset (concat (map f xs)) = mset (concat (map f (take i xs @ xs ! i # drop (Suc i) xs)))"
    using assms(1) by (simp add: id_take_nth_drop [symmetric])
  with assms show ?thesis by (simp add: upd_conv_take_nth_drop)
qed

lemma new_pop_page_spec:
  "new_pop_page pages i = Inl Index_Out_Of_Range \<and> concat (map range_ppns (drop i pages)) = []
   \<or> (\<exists>p pages' j. new_pop_page pages i = Inr (p, pages', j) \<and> length pages' = length pages
        \<and> mset (concat (map range_ppns pages)) = add_mset p (mset (concat (map range_ppns pages'))))"
proof (induction pages i rule: new_pop_page.induct)
  case (1 pages i)
  consider "\<not> i < length pages" | "i < length pages" "range_ppns (pages ! i) = []"
    | "i < length pages" "range_ppns (pages ! i) \<noteq> []" by blast
  then show ?case
  proof cases
    case 1
    then show ?thesis by (simp add: new_pop_page.simps)
  next
    case 2
    have "new_pop_page pages i = new_pop_page pages (i + 1)"
      using 2 by (simp add: new_pop_page.simps [of pages i] range_pop_Nil)
    moreover have "concat (map range_ppns (drop i pages)) = concat (map range_ppns (drop (i + 1) pages))"
      using 2 by (simp add: Cons_nth_drop_Suc [OF 2(1), symmetric])
    ultimately show ?thesis
      using "1.IH" [OF 2(1) range_pop_Nil [OF 2(2), symmetric] refl] by (simp only: list_update_id)
  next
    case 3
    then obtain r' where r': "range_pop (pages ! i) = (Some (last (range_ppns (pages ! i))), r')"
        "range_ppns r' = butlast (range_ppns (pages ! i))" using range_pop_snoc by blast
    have "mset (range_ppns (pages ! i)) = mset (butlast (range_ppns (pages ! i)) @ [last (range_ppns (pages ! i))])"
      using 3(2) by simp
    then have "mset (range_ppns (pages ! i)) = add_mset (last (range_ppns (pages ! i))) (mset (range_ppns r'))"
      by (simp add: r'(2) del: append_butlast_last_id)
    from mset_concat_update [OF 3(1) this] r'(1) 3(1) show ?thesis
      by (auto simp: new_pop_page.simps [of pages i])
  qed
qed

subsection \<open>Runs of the memory manager\<close>

text \<open>
  A state of a run is the allocator with the pages that are in use. A page is deallocated only while
  it is in use, which is the safety condition of \<open>deallocate\<close>.
\<close>

inductive pmm_step :: "allocator \<times> ppn list \<Rightarrow> allocator \<times> ppn list \<Rightarrow> bool" where
  pmm_allocate: "allocate a = Inr (p, a') \<Longrightarrow> pmm_step (a, used) (a', p # used)"
| pmm_deallocate: "p \<in> set used \<Longrightarrow> deallocate a p = Inr a' \<Longrightarrow> pmm_step (a, used) (a', remove1 p used)"

definition pmm_pages :: "allocator \<times> ppn list \<Rightarrow> ppn multiset" where
  "pmm_pages c = mset (snd c) + mset (free_pages (fst c))"

lemma pmm_step_pages:
  assumes "pmm_step c c'" "alloc_inv (fst c)"
  shows "alloc_inv (fst c') \<and> pmm_pages c' = pmm_pages c"
  using assms(1)
proof cases
  case (pmm_allocate a p a' used)
  then have "alloc_inv a" using assms(2) by simp
  then show ?thesis using pmm_allocate by (cases rule: allocate_cases) (auto simp: pmm_pages_def)
next
  case (pmm_deallocate p used a a')
  then have "alloc_inv a" using assms(2) by simp
  then show ?thesis using pmm_deallocate by (cases rule: deallocate_cases [of a p]) (auto simp: pmm_pages_def)
qed

lemma pmm_run_pages:
  assumes "pmm_step\<^sup>*\<^sup>* c c'" "alloc_inv (fst c)"
  shows "alloc_inv (fst c') \<and> pmm_pages c' = pmm_pages c"
  using assms(1)
proof (induction rule: rtranclp_induct)
  case (step y z)
  then show ?case using pmm_step_pages [of y z] by simp
qed (simp add: assms(2))

subsection \<open>Sequences of stack operations\<close>

text \<open>The specification of a stack is a bounded double-ended list.\<close>

datatype stack_op = Op_Push ppn | Op_Pop | Op_Pop_Base

datatype stack_result = Pushed | Rejected ppn | Popped "ppn option"

fun deque_op :: "nat \<Rightarrow> stack_op \<Rightarrow> ppn list \<Rightarrow> stack_result \<times> ppn list" where
  "deque_op cap (Op_Push p) ps = (if length ps = cap then (Rejected p, ps) else (Pushed, ps @ [p]))"
| "deque_op cap Op_Pop ps = (if ps = [] then (Popped None, ps) else (Popped (Some (last ps)), butlast ps))"
| "deque_op cap Op_Pop_Base ps = (if ps = [] then (Popped None, ps) else (Popped (Some (hd ps)), tl ps))"

fun deque_run :: "nat \<Rightarrow> stack_op list \<Rightarrow> ppn list \<Rightarrow> stack_result list \<times> ppn list" where
  "deque_run cap [] ps = ([], ps)"
| "deque_run cap (x # xs) ps = (let (r, ps') = deque_op cap x ps; (rs, ps'') = deque_run cap xs ps' in (r # rs, ps''))"

fun stacks_op :: "stack_op \<Rightarrow> stacks \<Rightarrow> nat \<Rightarrow> (stack_result \<times> stacks) may_panic" where
  "stacks_op (Op_Push p) s i = bindP (stacks_push s i p) (\<lambda>(r, s').
     Inr (case r of Inl q \<Rightarrow> Rejected q | Inr _ \<Rightarrow> Pushed, s'))"
| "stacks_op Op_Pop s i = bindP (stacks_pop s i) (\<lambda>(r, s'). Inr (Popped r, s'))"
| "stacks_op Op_Pop_Base s i = bindP (stacks_pop_base s i) (\<lambda>(r, s'). Inr (Popped r, s'))"

fun stacks_run :: "stack_op list \<Rightarrow> stacks \<Rightarrow> nat \<Rightarrow> (stack_result list \<times> stacks) may_panic" where
  "stacks_run [] s i = Inr ([], s)"
| "stacks_run (x # xs) s i = bindP (stacks_op x s i) (\<lambda>(r, s').
     bindP (stacks_run xs s' i) (\<lambda>(rs, s''). Inr (r # rs, s'')))"

lemma stacks_op_deque:
  assumes "stacks_inv s" "i < stacks_slots s"
  shows "\<exists>s'. stacks_op x s i = Inr (fst (deque_op 2048 x (stacks_contents s i)), s')
    \<and> stacks_inv s' \<and> stacks_slots s' = stacks_slots s
    \<and> stacks_contents s' = (stacks_contents s)(i := snd (deque_op 2048 x (stacks_contents s i)))"
proof (cases x)
  case (Op_Push p)
  then show ?thesis
    using st.push_full [OF assms, of p] st.push_snoc [OF assms, of p] st.bounded [OF assms] assms(1)
    by (cases "length (stacks_contents s i) = 2048") auto
next
  case Op_Pop
  then show ?thesis
    using st.pop_Nil [OF assms] st.pop_snoc [OF assms] assms(1)
    by (cases "stacks_contents s i" rule: rev_cases) auto
next
  case Op_Pop_Base
  then show ?thesis
    using st.pop_base_Nil [OF assms] st.pop_base_Cons [OF assms] assms(1)
    by (cases "stacks_contents s i") auto
qed

lemma stacks_run_deque:
  assumes "stacks_inv s" "i < stacks_slots s"
  shows "\<exists>s'. stacks_run xs s i = Inr (fst (deque_run 2048 xs (stacks_contents s i)), s')
    \<and> stacks_inv s' \<and> stacks_slots s' = stacks_slots s
    \<and> stacks_contents s' = (stacks_contents s)(i := snd (deque_run 2048 xs (stacks_contents s i)))"
  using assms
proof (induction xs arbitrary: s)
  case (Cons x xs)
  from stacks_op_deque [OF Cons.prems, of x] obtain s' where s':
    "stacks_op x s i = Inr (fst (deque_op 2048 x (stacks_contents s i)), s')"
    "stacks_inv s'" "stacks_slots s' = stacks_slots s"
    "stacks_contents s' = (stacks_contents s)(i := snd (deque_op 2048 x (stacks_contents s i)))" by blast
  with Cons.prems Cons.IH [of s'] show ?case
    by (auto simp: split_beta Let_def fun_eq_iff)
qed simp

subsection \<open>Properties\<close>

text \<open>
  C6. Every sequence of pushes, pops and base pops on the ring of a hart gives, without ever
  panicking, the results of the same sequence on a list of at most 2048 pages: the two 16-bit
  counters wrap without losing, repeating or reordering a page, and other harts are untouched.
\<close>
theorem stacks_refine_deque:
  assumes "stacks_inv s" "i < stacks_slots s"
  shows "\<exists>s'. stacks_run ops s i = Inr (fst (deque_run 2048 ops (stacks_contents s i)), s')
    \<and> stacks_inv s' \<and> stacks_contents s' i = snd (deque_run 2048 ops (stacks_contents s i))
    \<and> (\<forall>j. j \<noteq> i \<longrightarrow> stacks_contents s' j = stacks_contents s j)"
  using stacks_run_deque [OF assms, of ops] by auto

definition stacks_ex :: stacks where
  "stacks_ex = \<lparr>st_stacks = [replicate 2048 5], st_top_base = [(1, 65535)]\<rparr>"

lemma stacks_ex_inv: "stacks_inv stacks_ex" "stacks_slots stacks_ex = 1" "stacks_contents stacks_ex 0 = [5, 5]"
proof -
  have d: "unat (1 - 65535 :: u16) = 2" by simp
  show "stacks_inv stacks_ex" "stacks_slots stacks_ex = 1"
    using d by (simp_all add: stacks_ex_def stacks_inv_def stacks_slots_def)
  show "stacks_contents stacks_ex 0 = [5, 5]"
    unfolding stacks_contents_def stacks_ex_def using d
    by (simp add: ring_list_def upt_rec [of _ 2])
qed

theorem stacks_refine_deque_witness:
  "\<exists>s'. stacks_run [Op_Push 9, Op_Pop_Base, Op_Pop, Op_Pop, Op_Pop] stacks_ex 0
     = Inr ([Pushed, Popped (Some 5), Popped (Some 9), Popped (Some 5), Popped None], s')
     \<and> stacks_contents s' 0 = []"
  using stacks_refine_deque [of stacks_ex 0 "[Op_Push 9, Op_Pop_Base, Op_Pop, Op_Pop, Op_Pop]"]
  by (auto simp: stacks_ex_inv)

text \<open>
  C1. From boot on, no page is handed out twice and none is lost: in every run that deallocates only
  pages in use, the pages in use and the free pages are distinct and together the pages the manager
  started with. Deallocating a page in use never panics, and allocating panics only when all are in use.
\<close>
theorem pmm_no_double_allocation:
  assumes "alloc_inv a" "distinct (free_pages a)" "pmm_step\<^sup>*\<^sup>* (a, []) (a', used)"
  shows "distinct (used @ free_pages a') \<and> set (used @ free_pages a') = set (free_pages a)
    \<and> (\<forall>p \<in> set used. \<exists>a''. deallocate a' p = Inr a'')
    \<and> ((\<exists>e. allocate a' = Inl e) \<longleftrightarrow> set used = set (free_pages a))"
proof -
  have inv: "alloc_inv a'" and eq: "mset (used @ free_pages a') = mset (free_pages a)"
    using pmm_run_pages [OF assms(3)] assms(1) by (simp_all add: pmm_pages_def)
  have d: "distinct (used @ free_pages a')" using assms(2) eq mset_eq_imp_distinct_iff by blast
  have st: "set (used @ free_pages a') = set (free_pages a)" using eq by (rule mset_eq_setD)
  have l: "length used + length (free_pages a') = length (free_pages a)"
    using mset_eq_length [OF eq] by simp
  have "\<exists>a''. deallocate a' p = Inr a''" if "p \<in> set used" for p
  proof (cases rule: deallocate_cases [OF inv, of p])
    case 1
    then show ?thesis using l that free_pages_bounded [OF assms(1)] by (cases used) auto
  qed auto
  moreover have "(\<exists>e. allocate a' = Inl e) \<longleftrightarrow> free_pages a' = []"
    by (cases rule: allocate_cases [OF inv]) auto
  moreover have "free_pages a' = [] \<longleftrightarrow> set used = set (free_pages a)"
    using d st by (cases "free_pages a'") auto
  ultimately show ?thesis using d st by blast
qed

definition allocator_ex :: allocator where
  "allocator_ex = \<lparr>al_stacks = \<lparr>st_stacks = [replicate 2048 5], st_top_base = [(1, 0)]\<rparr>\<rparr>"

lemma allocator_ex_facts:
  "alloc_inv allocator_ex" "free_pages allocator_ex = [5]"
  "\<exists>a'. allocate allocator_ex = Inr (5, a')"
  by (simp_all add: allocator_ex_def alloc_inv_def free_pages_def stacks_inv_def stacks_slots_def
      stacks_contents_def ring_list_def allocate_def alloc_def stacks_pop_def STACK_SIZE_def Let_def)

theorem pmm_no_double_allocation_witness:
  "\<exists>a'. pmm_step\<^sup>*\<^sup>* (allocator_ex, []) (a', [5]) \<and> free_pages a' = [] \<and> (\<exists>a''. deallocate a' 5 = Inr a'')"
proof -
  obtain a' where "allocate allocator_ex = Inr (5, a')" using allocator_ex_facts(3) by blast
  then have run: "pmm_step\<^sup>*\<^sup>* (allocator_ex, []) (a', [5])" by (intro r_into_rtranclp pmm_allocate)
  from pmm_no_double_allocation [OF allocator_ex_facts(1) _ run]
  have "distinct ([5] @ free_pages a')" "set ([5] @ free_pages a') = {5}" "\<exists>a''. deallocate a' 5 = Inr a''"
    by (simp_all add: allocator_ex_facts(2))
  then show ?thesis using run by (cases "free_pages a'") auto
qed

end
