(* ===== verification/Reserved.thy ===== *)
theory Reserved
  imports Frames
begin

text \<open>
  The reserved virtual address ranges (\<open>kernel/src/memory/reserved.rs\<close>). The \<open>range!\<close> macro walks
  down from the top of the address space and gives every named range its size; after the global
  ranges the address is rounded down to a gigapage and the local ranges follow. The macro is the
  recursive function \<open>place_ranges\<close>, and the constants of the module are its results for riscv64.
\<close>

subsection \<open>The layout macro\<close>

(* src/kernel/src/memory/reserved.rs:43-49 Range *)
record reserved_range =
  rr_start :: page
  rr_end :: usize

(* src/kernel/src/memory/reserved.rs:52-67 Range::byte_count *)
definition byte_count :: "reserved_range \<Rightarrow> usize" where
  "byte_count r = rr_end r + 1 - rr_start r"

(* src/kernel/src/memory/reserved.rs:69-72 Range::page_count *)
definition page_count :: "reserved_range \<Rightarrow> usize" where
  "page_count r = (byte_count r + PAGE_OFFSET_MASK) div PAGE_SIZE"

(* src/kernel/src/memory/reserved.rs:207-207 MAX_HARTS *)
definition MAX_HARTS :: usize where
  "MAX_HARTS = 4096"

(* src/kernel/src/memory/reserved.rs:208-209 MAX_PAGE_MASK *)
definition MAX_PAGE_MASK :: usize where
  "MAX_PAGE_MASK = push_bit 30 1 - 1"

text \<open>An invalid page stops the compilation, which is a panic of the constant evaluation.\<close>

(* src/kernel/src/memory/reserved.rs:77-87 page! *)
definition page_offset :: "usize \<Rightarrow> usize \<Rightarrow> page may_panic" where
  "page_offset offset s = unwrapR (page_from_usize (offset - s))"

(* src/kernel/src/memory/reserved.rs:88-98 page! *)
definition page_end :: "usize \<Rightarrow> page may_panic" where
  "page_end offset = unwrapR (page_from_usize (offset AND NOT MAX_PAGE_MASK))"

(* src/kernel/src/memory/reserved.rs:118-133 range! *)
fun place_ranges :: "usize \<Rightarrow> (string \<times> usize) list \<Rightarrow> ((string \<times> reserved_range) list \<times> usize) may_panic" where
  "place_ranges offset [] = Inr ([], offset)"
| "place_ranges offset ((n, s) # rest) =
     bindP (page_offset offset s) (\<lambda>start.
     bindP (place_ranges (offset - s) rest) (\<lambda>(rs, bottom).
       Inr ((n, \<lparr>rr_start = start, rr_end = offset - 1\<rparr>) # rs, bottom)))"

record reserved_map =
  rm_global :: reserved_range
  rm_local :: reserved_range
  rm_ranges :: "(string \<times> reserved_range) list"

(* src/kernel/src/memory/reserved.rs:134-204 range! *)
definition reserved_layout ::
    "usize \<Rightarrow> (string \<times> usize) list \<Rightarrow> (string \<times> usize) list \<Rightarrow> reserved_map may_panic" where
  "reserved_layout limit globals locals =
     bindP (place_ranges 0 globals) (\<lambda>(gs, g_bottom).
     bindP (page_end g_bottom) (\<lambda>g_start.
     let g_offset = g_bottom AND NOT MAX_PAGE_MASK in
     bindP (place_ranges g_offset locals) (\<lambda>(ls, l_bottom).
     bindP (page_end l_bottom) (\<lambda>l_start.
     assertP (limit \<le> l_start)
       (Inr \<lparr>rm_global = \<lparr>rr_start = g_start, rr_end = 0 - 1\<rparr>,
             rm_local = \<lparr>rr_start = l_start, rr_end = g_offset - 1\<rparr>,
             rm_ranges = gs @ ls\<rparr>)))))"

subsection \<open>The layout of riscv64\<close>

(* src/kernel/src/memory/reserved.rs:220-220 limit *)
definition SV39_LIMIT :: usize where
  "SV39_LIMIT = 0xffffff8000000000"

(* src/kernel/src/memory/reserved.rs:221-233 range! *)
definition global_sizes :: "(string \<times> usize) list" where
  "global_sizes =
    [(''KERNEL'', push_bit 17 1),
     (''PMM_BITMAP'', push_bit 44 1 div 8 div PAGE_SIZE),
     (''PMM_STACK'', MEM_TOTAL_SIZE * MAX_HARTS * PAGE_SIZE),
     (''SHARED_COUNTERS'', push_bit (44 + 2) 1 div PAGE_SIZE),
     (''SHARED_ALLOC'', push_bit (44 - 12 + 1) 1 div PAGE_SIZE),
     (''HART_STACKS'', MAX_HARTS * PAGE_SIZE),
     (''DEVICE_TREE'', push_bit 16 1),
     (''TASK_GROUPS'', push_bit 20 1),
     (''TASK_DATA'', push_bit 30 1),
     (''PLIC'', 0x4000000),
     (''REGISTRY'', push_bit 20 1)]"

(* src/kernel/src/memory/reserved.rs:234-238 range! *)
definition local_sizes :: "(string \<times> usize) list" where
  "local_sizes =
    [(''HIGHMEM_A'', push_bit 30 1),
     (''HIGHMEM_B'', push_bit 30 1),
     (''VMM_ROOT'', PAGE_SIZE)]"

lemmas reserved_consts = MAX_HARTS_def MAX_PAGE_MASK_def SV39_LIMIT_def global_sizes_def local_sizes_def
  MEM_TOTAL_SIZE_def MEM_STACK_SIZE_def STACK_SIZE_def page_consts

definition riscv64_layout :: reserved_map where
  "riscv64_layout = projr (reserved_layout SV39_LIMIT global_sizes local_sizes)"

definition reserved :: "string \<Rightarrow> reserved_range" where
  "reserved n = the (map_of (rm_ranges riscv64_layout) n)"

lemma riscv64_layout_Inr: "reserved_layout SV39_LIMIT global_sizes local_sizes = Inr riscv64_layout"
  unfolding riscv64_layout_def by code_simp

text \<open>The addresses the page-table code uses, and their index in the root table.\<close>

(* src/kernel/src/arch/riscv/vms/sv39.rs:26-27 HIGHMEM_A *)
definition HIGHMEM_A :: page where
  "HIGHMEM_A = rr_start (reserved ''HIGHMEM_A'')"

(* src/kernel/src/arch/riscv/vms/sv39.rs:29-30 HIGHMEM_B *)
definition HIGHMEM_B :: page where
  "HIGHMEM_B = rr_start (reserved ''HIGHMEM_B'')"

(* src/kernel/src/arch/riscv/vms/sv39.rs:23-24 ROOT *)
definition ROOT :: page where
  "ROOT = rr_start (reserved ''VMM_ROOT'')"

(* src/kernel/src/arch/riscv/vms/sv39.rs:19-21 GLOBAL_KERNEL_TABLE_START_INDEX *)
definition GLOBAL_KERNEL_TABLE_START_INDEX :: usize where
  "GLOBAL_KERNEL_TABLE_START_INDEX = drop_bit 30 (rr_start (rm_global riscv64_layout)) AND 0x1ff"

lemma window_addresses:
  "HIGHMEM_A = 0xFFFFFFDB40000000" "HIGHMEM_B = 0xFFFFFFDB00000000" "ROOT = 0xFFFFFFDAFFFFF000"
  "GLOBAL_KERNEL_TABLE_START_INDEX = 366"
  unfolding HIGHMEM_A_def HIGHMEM_B_def ROOT_def GLOBAL_KERNEL_TABLE_START_INDEX_def reserved_def riscv64_layout_def
  by code_simp+

subsection \<open>Placement\<close>

text \<open>The address just above a range that ends at \<open>offset - 1\<close>; an offset of 0 is the top.\<close>

definition top_of :: "usize \<Rightarrow> nat" where
  "top_of offset = (if offset = 0 then 2 ^ 64 else unat offset)"

definition below :: "string \<times> reserved_range \<Rightarrow> string \<times> reserved_range \<Rightarrow> bool" where
  "below x y \<longleftrightarrow> unat (rr_start (snd x)) > unat (rr_end (snd y))"

definition sizes_sum :: "(string \<times> usize) list \<Rightarrow> nat" where
  "sizes_sum sz = sum_list (map (unat \<circ> snd) sz)"

definition sizes_pos :: "(string \<times> usize) list \<Rightarrow> bool" where
  "sizes_pos sz \<longleftrightarrow> list_all (\<lambda>(_, s). s \<noteq> 0) sz"

lemma top_of_sub:
  assumes "unat s < top_of offset" "s \<noteq> 0"
  shows "unat (offset - s) = top_of offset - unat s" "offset - s \<noteq> 0" "top_of (offset - s) = top_of offset - unat s"
proof -
  show u: "unat (offset - s) = top_of offset - unat s"
    using assms unat_bounds(4) [of s]
    by (auto simp: top_of_def unat_sub_if_size word_size unat_eq_zero split: if_splits)
  with assms show nz: "offset - s \<noteq> 0" by (auto simp flip: unat_0_iff)
  show "top_of (offset - s) = top_of offset - unat s" unfolding top_of_def [of "offset - s"] using u nz by simp
qed

lemma unat_offset_minus_1: "unat (offset - 1) = top_of offset - 1"
  by (cases "offset = 0") (auto simp: top_of_def unat_minus_one unsigned_minus_1_eq_mask mask_eq_exp_minus_1)

lemma page_offset_Inr: "page_offset offset s = Inr p \<longleftrightarrow> p = offset - s \<and> page_inv p"
  by (auto simp: page_offset_def page_from_usize_Inr)

lemma place_ranges_sound:
  assumes "place_ranges offset sz = Inr (rs, b)" "sizes_sum sz < top_of offset" "sizes_pos sz"
  shows "map fst rs = map fst sz \<and> top_of b = top_of offset - sizes_sum sz
    \<and> list_all (\<lambda>(n, r). page_inv (rr_start r) \<and> top_of b \<le> unat (rr_start r) \<and> rr_start r \<le> rr_end r
         \<and> unat (rr_end r) < top_of offset) rs
    \<and> sorted_wrt below rs \<and> list_all2 (\<lambda>(n, r) (m, s). byte_count r = s) rs sz"
  using assms
proof (induction sz arbitrary: offset rs)
  case Nil
  then show ?case by (simp add: sizes_sum_def)
next
  case (Cons x sz)
  obtain n s where x: "x = (n, s)" by fastforce
  from Cons.prems(1) x obtain rs' where rs': "place_ranges (offset - s) sz = Inr (rs', b)"
      "rs = (n, \<lparr>rr_start = offset - s, rr_end = offset - 1\<rparr>) # rs'" "page_inv (offset - s)"
    by (auto simp: bindP_eq_Inr page_offset_Inr)
  have sum: "sizes_sum (x # sz) = unat s + sizes_sum sz" by (simp add: sizes_sum_def x)
  then have s: "unat s < top_of offset" "s \<noteq> 0" "unat s \<noteq> 0"
    using Cons.prems(2,3) by (auto simp: x sizes_pos_def unat_eq_zero)
  note t = top_of_sub [OF s(1,2)]
  have IH: "map fst rs' = map fst sz \<and> top_of b = top_of (offset - s) - sizes_sum sz
    \<and> list_all (\<lambda>(n, r). page_inv (rr_start r) \<and> top_of b \<le> unat (rr_start r) \<and> rr_start r \<le> rr_end r
         \<and> unat (rr_end r) < top_of (offset - s)) rs'
    \<and> sorted_wrt below rs' \<and> list_all2 (\<lambda>(n, r) (m, s). byte_count r = s) rs' sz"
    using Cons.prems(2,3) sum t by (intro Cons.IH rs') (auto simp: sizes_pos_def x)
  have head: "byte_count \<lparr>rr_start = offset - s, rr_end = offset - 1\<rparr> = s"
    by (simp add: byte_count_def)
  have ord: "offset - s \<le> offset - 1" "unat (offset - 1) < top_of offset"
    using s t(1) by (simp_all add: word_le_nat_alt unat_offset_minus_1)
  have "below (n, \<lparr>rr_start = offset - s, rr_end = offset - 1\<rparr>) y" if "y \<in> set rs'" for y
    using IH that t by (auto simp: list_all_iff below_def)
  then show ?case
    using IH head ord sum t rs'(2,3) Cons.prems(2)
    by (auto simp: x list_all_iff)
qed

lemma unat_round_down: "unat (x AND NOT MAX_PAGE_MASK) = unat x - unat x mod 2 ^ 30"
  using unat_and_not_mask [of x 30] by (simp add: MAX_PAGE_MASK_def mask_eq_exp_minus_1)

lemma page_end_Inr:
  "page_end x = Inr p \<Longrightarrow> p = x AND NOT MAX_PAGE_MASK \<and> x AND NOT MAX_PAGE_MASK \<noteq> 0
     \<and> unat p \<le> unat x \<and> unat x < unat p + 2 ^ 30 \<and> top_of x = unat x \<and> top_of p = unat p"
  by (auto simp: page_end_def page_from_usize_Inr page_inv_def unat_round_down top_of_def
      intro: order_less_le_trans [OF mod_less_divisor])

text \<open>
  C9. Whenever the layout macro accepts a list of sizes that fits the address space, the ranges it
  places are page aligned, have the sizes asked for, lie between the limit and the top of the address
  space without wrapping, and no two of them overlap: each lies wholly below the one before it.
\<close>
theorem reserved_layout_sound:
  assumes "reserved_layout limit globals locals = Inr m"
    and "sizes_pos globals" "sizes_pos locals" "sizes_sum globals + sizes_sum locals + 2 ^ 30 \<le> 2 ^ 64"
  shows "list_all (\<lambda>(n, r). page_inv (rr_start r) \<and> limit \<le> rr_start r \<and> rr_start r \<le> rr_end r) (rm_ranges m)
    \<and> list_all2 (\<lambda>(n, r) (k, s). n = k \<and> byte_count r = s) (rm_ranges m) (globals @ locals)
    \<and> sorted_wrt below (rm_ranges m)"
proof -
  from assms(1) obtain gs gb g ls lb l where
      gs: "place_ranges 0 globals = Inr (gs, gb)" and g: "page_end gb = Inr g"
    and ls': "place_ranges (gb AND NOT MAX_PAGE_MASK) locals = Inr (ls, lb)"
    and l: "page_end lb = Inr l" "limit \<le> l" and m: "rm_ranges m = gs @ ls"
    by (auto simp: reserved_layout_def bindP_eq_Inr assertP_eq_Inr Let_def)
  note G = page_end_Inr [OF g] and L = page_end_Inr [OF l(1)]
  have ls: "place_ranges g locals = Inr (ls, lb)" using ls' G by simp
  have "sizes_sum globals < top_of 0" using assms(4) by (simp add: top_of_def)
  note PG = place_ranges_sound [OF gs this assms(2)]
  have "top_of (0 :: usize) = 2 ^ 64" by (simp add: top_of_def)
  then have "sizes_sum locals < top_of g" using PG G assms(4) by (elim conjE) linarith
  note PL = place_ranges_sound [OF ls this assms(3)]
  have b: "below x y" if "x \<in> set gs" "y \<in> set ls" for x y
    using that PG PL G by (fastforce simp: below_def list_all_iff)
  have lim: "list_all (\<lambda>(n, r). limit \<le> rr_start r) gs" "list_all (\<lambda>(n, r). limit \<le> rr_start r) ls"
    using PG PL G L l(2) by (fastforce simp: list_all_iff word_le_nat_alt)+
  have names: "list_all2 (\<lambda>(n, r) (k, s). n = k \<and> byte_count r = s) rs sz"
    if "map fst rs = map fst sz" "list_all2 (\<lambda>(n, r) (m, s). byte_count r = s) rs sz" for rs sz
    using that(2,1) by (induction rule: list_all2_induct) auto
  show ?thesis
    using PG PL b lim names [of gs globals] names [of ls locals]
    by (auto simp: m list_all_iff sorted_wrt_append split_beta intro!: list_all2_appendI)
qed

theorem reserved_layout_sound_witness:
  "sorted_wrt below (rm_ranges riscv64_layout)
    \<and> list_all (\<lambda>(n, r). page_inv (rr_start r) \<and> SV39_LIMIT \<le> rr_start r \<and> rr_start r \<le> rr_end r) (rm_ranges riscv64_layout)"
proof -
  have "sizes_pos global_sizes" "sizes_pos local_sizes"
      "sizes_sum global_sizes + sizes_sum local_sizes + 2 ^ 30 \<le> 2 ^ 64"
    by (simp_all add: sizes_pos_def sizes_sum_def reserved_consts)
  with reserved_layout_sound [OF riscv64_layout_Inr] show ?thesis by blast
qed

end
