(* ===== verification/Sv39_Entry.thy ===== *)
theory Sv39_Entry
  imports Reserved
begin

text \<open>
  Page-table entries of the Sv39 virtual memory system: the permission and mapping types of
  \<open>kernel/src/arch/vms.rs\<close> and \<open>kernel/src/arch/map.rs\<close>, the flag encodings of
  \<open>kernel/src/arch/riscv/vms/mod.rs\<close>, and the \<open>Entry\<close> and \<open>Leaf\<close> types of \<open>sv39.rs\<close>, both
  64-bit words. The low ten bits are flags and the bits above hold the page number, so the lemmas
  split an entry into its flags and its page number.
\<close>

subsection \<open>Mapping types\<close>

(* src/kernel/src/arch/vms.rs:9-18 Accessibility *)
datatype accessibility = UserLocal | KernelLocal | KernelGlobal

(* src/kernel/src/arch/vms.rs:20-28 RWX *)
datatype rwx = RWX_R | RWX_RW | RWX_X | RWX_RX | RWX_RWX

(* src/kernel/src/arch/vms.rs:30-35 PrivateOrShared *)
datatype private_or_shared = POS_Private ppn | POS_Shared ppn

(* src/kernel/src/arch/vms.rs:37-44 AddError *)
datatype add_error = AE_Overlaps | AE_OutOfRange | AE_AllocateError

(* src/kernel/src/arch/vms.rs:46-54 ShareError *)
datatype share_error = SE_Overlaps | SE_OutOfRange | SE_AllocateError | SE_NoEntry

(* src/kernel/src/arch/vms.rs:56-64 ShareError::from *)
fun share_error_from :: "add_error \<Rightarrow> share_error" where
  "share_error_from AE_Overlaps = SE_Overlaps"
| "share_error_from AE_OutOfRange = SE_OutOfRange"
| "share_error_from AE_AllocateError = SE_AllocateError"

(* src/kernel/src/arch/map.rs:20-27 Map *)
datatype map_entry = Map_Private ppn | Map_Direct ppn | Map_Shared ppn | Map_SharedLocked ppn

text \<open>\<open>SharedPPNRange\<close> has no contents, and each of its methods is \<open>todo!()\<close>.\<close>

(* src/kernel/src/arch/map.rs:31-41 MapRange *)
datatype map_range = MR_Private ppn_range | MR_Direct direct_range | MR_Shared | MR_SharedLocked

(* src/kernel/src/arch/map.rs:44-50 MapRange::len *)
fun map_range_len :: "map_range \<Rightarrow> usize may_panic" where
  "map_range_len (MR_Private p) = Inr (range_len p)"
| "map_range_len (MR_Direct d) = Inr (direct_len d)"
| "map_range_len _ = Inl Todo_Reached"

(* src/kernel/src/arch/map.rs:52-58 MapRange::start *)
fun map_range_start :: "map_range \<Rightarrow> ppn may_panic" where
  "map_range_start (MR_Private p) = Inr (pr_start p)"
| "map_range_start (MR_Direct d) = Inr (dr_start d)"
| "map_range_start _ = Inl Todo_Reached"

(* src/kernel/src/arch/map.rs:60-67 MapRange::pop_base *)
fun map_range_pop_base :: "map_range \<Rightarrow> (map_entry option \<times> map_range) may_panic" where
  "map_range_pop_base (MR_Private p) =
     (let (r, p') = range_pop_base p in Inr (map_option Map_Private r, MR_Private p'))"
| "map_range_pop_base (MR_Direct d) =
     (let (r, d') = direct_pop_base d in Inr (map_option Map_Direct r, MR_Direct d'))"
| "map_range_pop_base _ = Inl Todo_Reached"

(* src/kernel/src/arch/map.rs:69-75 MapRange::forget_base *)
fun map_range_forget_base :: "map_range \<Rightarrow> usize \<Rightarrow> (usize \<times> map_range) may_panic" where
  "map_range_forget_base (MR_Private p) n = bindP (range_forget_base p n) (\<lambda>(k, p'). Inr (k, MR_Private p'))"
| "map_range_forget_base (MR_Direct d) n = bindP (direct_forget_base d n) (\<lambda>(k, d'). Inr (k, MR_Direct d'))"
| "map_range_forget_base _ n = Inl Todo_Reached"

subsection \<open>Flag encodings\<close>

(* src/kernel/src/arch/riscv/vms/mod.rs:15-24 from_rwx *)
fun from_rwx :: "rwx \<Rightarrow> u32" where
  "from_rwx RWX_R = 0b0010"
| "from_rwx RWX_RW = 0b0110"
| "from_rwx RWX_X = 0b1000"
| "from_rwx RWX_RX = 0b1010"
| "from_rwx RWX_RWX = 0b1110"

(* src/kernel/src/arch/riscv/vms/mod.rs:26-36 to_rwx *)
definition to_rwx :: "u64 \<Rightarrow> rwx option" where
  "to_rwx flags = (let f = flags AND 0xe in
     if f = 0b0010 then Some RWX_R
     else if f = 0b0110 then Some RWX_RW
     else if f = 0b1000 then Some RWX_X
     else if f = 0b1010 then Some RWX_RX
     else if f = 0b1110 then Some RWX_RWX
     else None)"

subsection \<open>Entries\<close>

(* src/kernel/src/arch/riscv/vms/sv39.rs:32-54 Entry *)
type_synonym entry = u64

(* src/kernel/src/arch/riscv/vms/sv39.rs:74-77 Entry *)
definition ENTRY_RWX_MASK :: u64 where
  "ENTRY_RWX_MASK = 0b1110"

(* src/kernel/src/arch/riscv/vms/sv39.rs:79-79 Entry::USERMODE_MASK *)
definition ENTRY_USERMODE_MASK :: u64 where
  "ENTRY_USERMODE_MASK = 0b10000"

text \<open>\<open>GLOBAL_BIT\<close> is written as the mask of bit 5, and used as a shift amount.\<close>

(* src/kernel/src/arch/riscv/vms/sv39.rs:81-81 Entry::GLOBAL_BIT *)
definition ENTRY_GLOBAL_BIT :: nat where
  "ENTRY_GLOBAL_BIT = 0b100000"

(* src/kernel/src/arch/riscv/vms/sv39.rs:83-86 Entry::new_invalid *)
definition new_invalid :: entry where
  "new_invalid = 0"

(* src/kernel/src/arch/riscv/vms/sv39.rs:121-125 Entry::is_valid *)
definition entry_is_valid :: "entry \<Rightarrow> bool" where
  "entry_is_valid e \<longleftrightarrow> e AND 1 > 0"

(* src/kernel/src/arch/riscv/vms/sv39.rs:127-131 Entry::set_valid *)
definition set_valid :: "entry \<Rightarrow> bool \<Rightarrow> entry" where
  "set_valid e valid = (e AND NOT 1) OR of_bool valid * 1"

(* src/kernel/src/arch/riscv/vms/sv39.rs:133-137 Entry::rwx *)
definition entry_rwx :: "entry \<Rightarrow> rwx option" where
  "entry_rwx e = to_rwx (e AND ENTRY_RWX_MASK)"

(* src/kernel/src/arch/riscv/vms/sv39.rs:139-143 Entry::set_rwx *)
definition set_rwx :: "entry \<Rightarrow> rwx \<Rightarrow> entry" where
  "set_rwx e rwx = (e AND NOT ENTRY_RWX_MASK) OR ucast (from_rwx rwx)"

(* src/kernel/src/arch/riscv/vms/sv39.rs:145-149 Entry::set_usermode *)
definition set_usermode :: "entry \<Rightarrow> bool \<Rightarrow> entry" where
  "set_usermode e allow = (e AND NOT ENTRY_USERMODE_MASK) OR of_bool allow * ENTRY_USERMODE_MASK"

(* src/kernel/src/arch/riscv/vms/sv39.rs:151-154 Entry::set_global *)
definition set_global :: "entry \<Rightarrow> bool \<Rightarrow> entry" where
  "set_global e global = (e AND NOT (push_bit ENTRY_GLOBAL_BIT 1)) OR push_bit ENTRY_GLOBAL_BIT (of_bool global)"

(* src/kernel/src/arch/riscv/vms/sv39.rs:88-98 Entry::new_leaf2 *)
definition new_leaf2 :: "usize \<Rightarrow> rwx \<Rightarrow> bool \<Rightarrow> bool \<Rightarrow> entry" where
  "new_leaf2 ppn rwx usermode global =
     set_global (set_usermode (set_valid (set_rwx (drop_bit 2 ppn) rwx) True) usermode) global OR 0b11000000"

(* src/kernel/src/arch/riscv/vms/sv39.rs:100-110 Entry::new_leaf3 *)
definition new_leaf3 :: "ppn \<Rightarrow> rwx \<Rightarrow> bool \<Rightarrow> bool \<Rightarrow> entry" where
  "new_leaf3 ppn rwx usermode global =
     set_global (set_usermode (set_valid (set_rwx (push_bit 10 (ucast ppn)) rwx) True) usermode) global OR 0b11000000"

(* src/kernel/src/arch/riscv/vms/sv39.rs:112-119 Entry::new_table *)
definition new_table :: "ppn \<Rightarrow> entry" where
  "new_table ppn = set_valid (push_bit 10 (ucast ppn)) True"

(* src/kernel/src/arch/riscv/vms/sv39.rs:156-159 Entry::is_table *)
definition is_table :: "entry \<Rightarrow> bool" where
  "is_table e \<longleftrightarrow> entry_rwx e = None"

text \<open>The page number of an entry as the page-table code reads it: \<open>(pte.0 >> 10) as u32\<close>.\<close>

definition entry_ppn :: "entry \<Rightarrow> ppn" where
  "entry_ppn e = ucast (drop_bit 10 e)"

subsection \<open>Leaves\<close>

(* src/kernel/src/arch/riscv/vms/sv39.rs:56-57 Leaf *)
type_synonym leaf = u64

(* src/kernel/src/arch/riscv/vms/sv39.rs:168-168 Leaf::TYPE_MASK *)
definition TYPE_MASK :: u64 where
  "TYPE_MASK = push_bit 8 0b11"

(* src/kernel/src/arch/riscv/vms/sv39.rs:169-172 Leaf *)
fun map_type :: "map_entry \<Rightarrow> u64" where
  "map_type (Map_Private _) = push_bit 8 0b00"
| "map_type (Map_Direct _) = push_bit 8 0b01"
| "map_type (Map_Shared _) = push_bit 8 0b10"
| "map_type (Map_SharedLocked _) = push_bit 8 0b11"

fun map_ppn :: "map_entry \<Rightarrow> ppn" where
  "map_ppn (Map_Private p) = p"
| "map_ppn (Map_Direct p) = p"
| "map_ppn (Map_Shared p) = p"
| "map_ppn (Map_SharedLocked p) = p"

(* src/kernel/src/arch/riscv/vms/sv39.rs:244-247 Leaf::is_valid *)
definition leaf_is_valid :: "leaf \<Rightarrow> bool" where
  "leaf_is_valid l \<longleftrightarrow> l AND push_bit 0 1 > 0"

(* src/kernel/src/arch/riscv/vms/sv39.rs:249-252 Leaf::is_shared *)
definition leaf_is_shared :: "leaf \<Rightarrow> bool" where
  "leaf_is_shared l \<longleftrightarrow> l AND map_type (Map_Shared 0) > 0 \<or> l AND map_type (Map_SharedLocked 0) > 0"

(* src/kernel/src/arch/riscv/vms/sv39.rs:174-186 Leaf::clear *)
definition leaf_clear :: "leaf \<Rightarrow> (unit + private_or_shared) \<times> leaf" where
  "leaf_clear l =
    (if leaf_is_valid l then
       let ppn = entry_ppn l; l = 0 in
       if leaf_is_shared l then (Inr (POS_Shared ppn), l) else (Inr (POS_Private ppn), l)
     else (Inl (), l))"

(* src/kernel/src/arch/riscv/vms/sv39.rs:189-193 Leaf::set *)
fun access_flags :: "accessibility \<Rightarrow> bool \<times> bool" where
  "access_flags UserLocal = (True, False)"
| "access_flags KernelLocal = (False, False)"
| "access_flags KernelGlobal = (False, True)"

(* src/kernel/src/arch/riscv/vms/sv39.rs:188-225 Leaf::set *)
definition leaf_set :: "leaf \<Rightarrow> map_entry \<Rightarrow> rwx \<Rightarrow> accessibility \<Rightarrow> (add_error + unit) \<times> leaf" where
  "leaf_set l mp rwx accessibility = (let (usermode, global) = access_flags accessibility in
     if \<not> leaf_is_valid l then
       let l = 0;
           l = l OR map_type mp;
           l = l OR push_bit 10 (ucast (map_ppn mp));
           l = l OR push_bit 0 1;
           l = l OR ucast (from_rwx rwx);
           l = l OR push_bit 4 (of_bool usermode);
           l = l OR push_bit 5 (of_bool global);
           l = l OR push_bit 6 1;
           l = l OR push_bit 7 1
       in (Inr (), l)
     else (Inl AE_Overlaps, l))"

text \<open>The test \<open>true || self.is_shared()\<close> makes every page that is not direct a shared one.\<close>

(* src/kernel/src/arch/riscv/vms/sv39.rs:227-242 Leaf::share *)
definition leaf_share :: "leaf \<Rightarrow> share_error + map_entry" where
  "leaf_share l =
    (if leaf_is_valid l then
       if l AND TYPE_MASK = map_type (Map_Direct 0) then Inr (Map_Direct (entry_ppn l))
       else Inr (Map_Shared (entry_ppn l))
     else Inl SE_NoEntry)"

subsection \<open>Flags and page number of an entry\<close>

text \<open>Ten bits of flags under a page number.\<close>

definition pte :: "u64 \<Rightarrow> u64 \<Rightarrow> u64" where
  "pte frame flags = push_bit 10 frame OR flags"

lemma less_1024_bits: "f < 1024 \<Longrightarrow> take_bit 10 f = (f :: u64)"
  by (simp add: word_unat_eq_iff unsigned_take_bit_eq word_less_nat_alt take_bit_nat_eq_self)

lemma less_1024_not_bit: "f < 1024 \<Longrightarrow> 10 \<le> n \<Longrightarrow> \<not> bit (f :: u64) n"
  using less_1024_bits [of f] by (metis bit_take_bit_iff not_le)

lemma bit_pte:
  "f < 1024 \<Longrightarrow> bit (pte p f) n \<longleftrightarrow> (if n < 10 then bit f n else n < 64 \<and> bit p (n - 10))"
  using less_1024_not_bit [of f n] by (auto simp: pte_def bit_simps)

lemma drop_bit_pte:
  assumes "f < 1024"
  shows "drop_bit 10 (pte (ucast (p :: ppn)) f) = ucast p"
proof (rule bit_word_eqI)
  fix n assume "n < LENGTH(64)"
  then show "bit (drop_bit 10 (pte (ucast p) f)) n = bit (ucast p :: u64) n"
    using bit_pte [OF assms, of "ucast p" "10 + n"] bit_imp_le_length [of p n] by (auto simp: bit_simps)
qed

lemma entry_ppn_pte [simp]: "f < 1024 \<Longrightarrow> entry_ppn (pte (ucast p) f) = p"
  by (simp add: entry_ppn_def drop_bit_pte) (rule bit_word_eqI, simp add: bit_simps)

lemma entry_is_valid_bit: "entry_is_valid e \<longleftrightarrow> bit e 0"
  by (simp add: entry_is_valid_def bit_iff_and_push_bit_not_eq_0 word_gt_0)

lemma leaf_is_valid_bit: "leaf_is_valid l \<longleftrightarrow> bit l 0"
  by (simp add: leaf_is_valid_def bit_iff_and_push_bit_not_eq_0 word_gt_0)

lemma less_10_cases:
  "n < 10 \<Longrightarrow> n = 0 \<or> n = 1 \<or> n = 2 \<or> n = 3 \<or> n = 4 \<or> n = 5 \<or> n = 6 \<or> n = 7 \<or> n = 8 \<or> n = (9 :: nat)"
  by presburger

lemma bit_flagsI:
  assumes "c < 1024" "\<And>n. P n \<Longrightarrow> n < 10"
    "bit c 0 = P 0" "bit c 1 = P 1" "bit c 2 = P 2" "bit c 3 = P 3" "bit c 4 = P 4"
    "bit c 5 = P 5" "bit c 6 = P 6" "bit c 7 = P 7" "bit c 8 = P 8" "bit c 9 = P 9"
  shows "bit (c :: u64) n = P n"
proof (cases "n < 10")
  case True
  then show ?thesis using assms(3-) by (elim less_10_cases [THEN disjE]) (simp, elim disjE, simp_all)
next
  case False
  then show ?thesis using less_1024_not_bit [OF assms(1), of n] assms(2) [of n] by linarith
qed

lemma bit_flags_1: "bit (1 :: u64) n \<longleftrightarrow> n = 0"
  by (rule bit_flagsI [where P = "\<lambda>n. n = 0"]) auto

lemma bit_flags_2: "bit (2 :: u64) n \<longleftrightarrow> n = 1"
  by (rule bit_flagsI [where P = "\<lambda>n. n = 1"]) auto

lemma bit_flags_4: "bit (4 :: u64) n \<longleftrightarrow> n = 2"
  by (rule bit_flagsI [where P = "\<lambda>n. n = 2"]) auto

lemma bit_flags_6: "bit (6 :: u64) n \<longleftrightarrow> n = 1 \<or> n = 2"
  by (rule bit_flagsI [where P = "\<lambda>n. n = 1 \<or> n = 2"]) auto

lemma bit_flags_8: "bit (8 :: u64) n \<longleftrightarrow> n = 3"
  by (rule bit_flagsI [where P = "\<lambda>n. n = 3"]) auto

lemma bit_flags_14: "bit (14 :: u64) n \<longleftrightarrow> n = 1 \<or> n = 2 \<or> n = 3"
  by (rule bit_flagsI [where P = "\<lambda>n. n = 1 \<or> n = 2 \<or> n = 3"]) auto

lemma bit_flags_16: "bit (16 :: u64) n \<longleftrightarrow> n = 4"
  by (rule bit_flagsI [where P = "\<lambda>n. n = 4"]) auto

lemma bit_flags_192: "bit (192 :: u64) n \<longleftrightarrow> n = 6 \<or> n = 7"
  by (rule bit_flagsI [where P = "\<lambda>n. n = 6 \<or> n = 7"]) auto

lemma bit_flags_199: "bit (199 :: u64) n \<longleftrightarrow> n = 0 \<or> n = 1 \<or> n = 2 \<or> n = 6 \<or> n = 7"
  by (rule bit_flagsI [where P = "\<lambda>n. n = 0 \<or> n = 1 \<or> n = 2 \<or> n = 6 \<or> n = 7"]) auto

lemmas bit_flags_iff = bit_flags_1 bit_flags_2 bit_flags_4 bit_flags_6 bit_flags_8 bit_flags_14 bit_flags_16 bit_flags_192 bit_flags_199

lemma bit_and_not: "bit (a AND NOT m) n \<longleftrightarrow> bit a n \<and> \<not> bit m n"
  for a m :: "'a::len word"
  using bit_imp_le_length [of a n] by (auto simp: bit_simps)

lemma and_14:
  "e AND 14 = (if bit e 1 then 2 else 0) OR (if bit e 2 then 4 else 0) OR (if bit e 3 then 8 else (0 :: u64))"
  by (rule bit_word_eqI) (auto simp: bit_flags_iff bit_or_iff bit_and_iff simp del: bit_numeral_word_iff)

lemma entry_rwx_bits:
  "entry_rwx e = (if bit e 1 then Some (if bit e 2 then (if bit e 3 then RWX_RWX else RWX_RW)
                                        else (if bit e 3 then RWX_RX else RWX_R))
                  else if bit e 3 \<and> \<not> bit e 2 then Some RWX_X else None)"
  by (simp add: entry_rwx_def to_rwx_def ENTRY_RWX_MASK_def and.assoc and_14)

lemma is_table_bits: "is_table e \<longleftrightarrow> \<not> bit e 1 \<and> (bit e 3 \<longrightarrow> bit e 2)"
  by (simp add: is_table_def entry_rwx_bits)

lemma new_table_pte: "new_table p = pte (ucast p) 1"
  by (rule bit_word_eqI) (auto simp: new_table_def set_valid_def pte_def bit_simps)

text \<open>The window entries: readable, writable, accessed and dirty, not for user mode.\<close>

definition clear_bit_22 :: "ppn \<Rightarrow> ppn" where
  "clear_bit_22 p = p AND NOT (push_bit 22 1)"

lemma ucast_bit_ppn: "bit (ucast (p :: ppn) :: u64) n \<longleftrightarrow> bit p n"
  using bit_imp_le_length [of p n] by (auto simp: bit_simps)

lemma bit_set_valid: "bit (set_valid e v) n \<longleftrightarrow> (if n = 0 then v else bit e n)"
  unfolding set_valid_def bit_or_iff bit_and_not by (auto simp: bit_flags_iff simp del: bit_numeral_word_iff)

lemma bit_set_rwx_RW: "bit (set_rwx e RWX_RW) n \<longleftrightarrow> (if n = 1 \<or> n = 2 \<or> n = 3 then n \<noteq> 3 else bit e n)"
  unfolding set_rwx_def ENTRY_RWX_MASK_def bit_or_iff bit_and_not by (auto simp: bit_flags_iff simp del: bit_numeral_word_iff)

lemma bit_set_usermode: "bit (set_usermode e u) n \<longleftrightarrow> (if n = 4 then u else bit e n)"
  unfolding set_usermode_def ENTRY_USERMODE_MASK_def bit_or_iff bit_and_not by (auto simp: bit_flags_iff simp del: bit_numeral_word_iff)

lemma bit_set_global: "bit (set_global e g) n \<longleftrightarrow> (if n = 32 then g else bit e n)"
  unfolding set_global_def ENTRY_GLOBAL_BIT_def bit_or_iff bit_and_not bit_push_bit_iff by (auto simp: bit_simps)

lemmas bit_set_simps = bit_set_valid bit_set_rwx_RW bit_set_usermode bit_set_global bit_or_iff bit_flags_iff

lemma less_199: "(199 :: u64) < 1024"
  by simp

lemma new_leaf3_pte: "new_leaf3 p RWX_RW False False = pte (ucast (clear_bit_22 p)) 199"
proof (rule bit_word_eqI)
  fix n assume n: "n < LENGTH(64)"
  show "bit (new_leaf3 p RWX_RW False False) n = bit (pte (ucast (clear_bit_22 p)) 199) n"
    using n unfolding new_leaf3_def bit_set_simps bit_pte [OF less_199] ucast_bit_ppn clear_bit_22_def
      bit_and_not bit_push_bit_iff
    by (auto simp: bit_flags_iff bit_1_iff)
qed

text \<open>\<open>map_highmem_a\<close> masks the page number, \<open>map_highmem_b\<close> the address: both give this entry.\<close>

definition window_frame :: "ppn \<Rightarrow> ppn" where
  "window_frame p = clear_bit_22 (p AND NOT (mask 18))"

lemma window_entry_a: "new_leaf3 (p AND NOT (mask 18)) RWX_RW False False = pte (ucast (window_frame p)) 199"
  by (simp add: new_leaf3_pte window_frame_def)

lemma window_entry_b:
  "new_leaf2 (ppn_as_usize p AND NOT (mask 30)) RWX_RW False False = pte (ucast (window_frame p)) 199"
proof (rule bit_word_eqI)
  fix n assume n: "n < LENGTH(64)"
  have "10 \<le> n \<Longrightarrow> n + 2 - 12 = n - 10" by simp
  then show "bit (new_leaf2 (ppn_as_usize p AND NOT (mask 30)) RWX_RW False False) n = bit (pte (ucast (window_frame p)) 199) n"
    using n bit_imp_le_length [of p "n - 10"]
    unfolding new_leaf2_def bit_set_simps bit_pte [OF less_199] ucast_bit_ppn window_frame_def clear_bit_22_def
      ppn_as_usize_def bit_and_not bit_push_bit_iff bit_mask_iff bit_drop_bit_eq comp_def
    by (auto simp: bit_flags_iff bit_1_iff bit_mask_iff bit_simps)
qed

lemma window_frame_low:
  assumes "\<not> bit p 22"
  shows "unat (window_frame p) = unat p - unat p mod 2 ^ 18"
proof -
  have "window_frame p = p AND NOT (mask 18)"
    unfolding window_frame_def clear_bit_22_def
    by (rule bit_word_eqI, unfold bit_and_not bit_push_bit_iff) (use assms in \<open>auto simp: bit_1_iff bit_mask_iff\<close>)
  then show ?thesis by (simp only: unat_and_not_mask)
qed

subsection \<open>Leaves as flags and page number\<close>

definition leaf_flags :: "map_entry \<Rightarrow> rwx \<Rightarrow> accessibility \<Rightarrow> u64" where
  "leaf_flags mp rwx acc = map_type mp OR push_bit 0 1 OR ucast (from_rwx rwx)
     OR push_bit 4 (of_bool (fst (access_flags acc))) OR push_bit 5 (of_bool (snd (access_flags acc)))
     OR push_bit 6 1 OR push_bit 7 1"

lemma leaf_flags_less [simp]: "leaf_flags mp rwx acc < 1024"
  by (cases mp; cases rwx; cases acc) (simp_all add: leaf_flags_def)

lemma or_chain:
  "(((((((0 OR a) OR b) OR c) OR d) OR e) OR f) OR g) OR h = b OR a OR c OR d OR e OR f OR g OR h"
  for a b c d e f g h :: u64
  by (simp add: or.assoc or.left_commute)

lemma leaf_set_eq:
  "leaf_set l mp rwx acc =
    (if leaf_is_valid l then (Inl AE_Overlaps, l) else (Inr (), pte (ucast (map_ppn mp)) (leaf_flags mp rwx acc)))"
  unfolding leaf_set_def leaf_flags_def pte_def Let_def split_beta or_chain by simp

lemma bit_leaf_flags:
  "bit (leaf_flags mp rwx acc) 0"
  "bit (leaf_flags mp rwx acc) 1 \<longleftrightarrow> rwx \<noteq> RWX_X"
  "bit (leaf_flags mp rwx acc) 2 \<longleftrightarrow> rwx = RWX_RW \<or> rwx = RWX_RWX"
  "bit (leaf_flags mp rwx acc) 3 \<longleftrightarrow> rwx = RWX_X \<or> rwx = RWX_RX \<or> rwx = RWX_RWX"
  "bit (leaf_flags mp rwx acc) 4 \<longleftrightarrow> acc = UserLocal"
  "bit (leaf_flags mp rwx acc) 5 \<longleftrightarrow> acc = KernelGlobal"
  "bit (leaf_flags mp rwx acc) 6" "bit (leaf_flags mp rwx acc) 7"
  by (cases mp; cases rwx; cases acc; simp add: leaf_flags_def)+

text \<open>The type bits of a leaf, bits 8 and 9.\<close>

lemma bit_leaf_type:
  "bit (leaf_flags mp rwx acc) 8 \<longleftrightarrow> (case mp of Map_Direct _ \<Rightarrow> True | Map_SharedLocked _ \<Rightarrow> True | _ \<Rightarrow> False)"
  "bit (leaf_flags mp rwx acc) 9 \<longleftrightarrow> (case mp of Map_Shared _ \<Rightarrow> True | Map_SharedLocked _ \<Rightarrow> True | _ \<Rightarrow> False)"
  by (cases mp; cases rwx; cases acc; simp add: leaf_flags_def)+

lemma bit_flags_256: "bit (256 :: u64) n \<longleftrightarrow> n = 8"
  by (rule bit_flagsI [where P = "\<lambda>n. n = 8"]) auto

lemma bit_flags_768: "bit (768 :: u64) n \<longleftrightarrow> n = 8 \<or> n = 9"
  by (rule bit_flagsI [where P = "\<lambda>n. n = 8 \<or> n = 9"]) auto

lemma type_direct_iff: "l AND TYPE_MASK = map_type (Map_Direct 0) \<longleftrightarrow> bit l 8 \<and> \<not> bit l 9"
proof -
  have "l AND 768 = 256 \<longleftrightarrow> bit l 8 \<and> \<not> bit l 9"
  proof
    assume "l AND 768 = 256"
    then have "bit (l AND 768) n = bit (256 :: u64) n" for n by simp
    from this [of 8] this [of 9] show "bit l 8 \<and> \<not> bit l 9"
      unfolding bit_and_iff bit_flags_256 bit_flags_768 by simp
  next
    assume "bit l 8 \<and> \<not> bit l 9"
    then show "l AND 768 = 256"
      by (intro bit_word_eqI) (auto simp: bit_and_iff bit_flags_256 bit_flags_768 simp del: bit_numeral_word_iff)
  qed
  then show ?thesis by (simp add: TYPE_MASK_def)
qed

lemma leaf_share_eq:
  "leaf_share l = (if \<not> bit l 0 then Inl SE_NoEntry
     else if bit l 8 \<and> \<not> bit l 9 then Inr (Map_Direct (entry_ppn l)) else Inr (Map_Shared (entry_ppn l)))"
  by (simp add: leaf_share_def leaf_is_valid_bit type_direct_iff del: map_type.simps)

lemma leaf_clear_eq: "leaf_clear l = (if bit l 0 then (Inr (POS_Private (entry_ppn l)), 0) else (Inl (), l))"
  by (simp add: leaf_clear_def leaf_is_valid_bit leaf_is_shared_def)

subsection \<open>Properties\<close>

fun shared_map :: "map_entry \<Rightarrow> map_entry" where
  "shared_map (Map_Direct p) = Map_Direct p"
| "shared_map m = Map_Shared (map_ppn m)"

text \<open>The mapping a leaf stands for, read off the bits that the hardware leaves to software.\<close>

definition leaf_map :: "u64 \<Rightarrow> map_entry" where
  "leaf_map l = (let p = entry_ppn l in
     if bit l 9 then if bit l 8 then Map_SharedLocked p else Map_Shared p
     else if bit l 8 then Map_Direct p else Map_Private p)"

text \<open>
  C7. Setting an empty leaf records exactly the mapping asked for: the leaf is valid, its
  permissions, user and global bits decode to the arguments, the accessed and dirty bits are set,
  bits 8 and 9 are the kind of the mapping (0 private, 1 direct, 2 shared, 3 shared and locked) and
  the page number is the mapping's. Sharing such a leaf gives the same page, as a direct mapping when
  it was one and as a shared one otherwise; clearing it empties it and returns the page; and setting
  it again is refused as an overlap that leaves it unchanged.
\<close>
theorem leaf_set_roundtrip:
  assumes "\<not> leaf_is_valid l" "leaf_set l mp rwx acc = (r, l')"
  shows "r = Inr () \<and> leaf_is_valid l' \<and> entry_rwx l' = Some rwx \<and> (bit l' 4 \<longleftrightarrow> acc = UserLocal)
    \<and> (bit l' 5 \<longleftrightarrow> acc = KernelGlobal) \<and> bit l' 6 \<and> bit l' 7 \<and> leaf_map l' = mp \<and> entry_ppn l' = map_ppn mp
    \<and> leaf_share l' = Inr (shared_map mp)
    \<and> leaf_clear l' = (Inr (POS_Private (map_ppn mp)), 0)
    \<and> leaf_set l' mp' rwx' acc' = (Inl AE_Overlaps, l')"
proof -
  have l': "l' = pte (ucast (map_ppn mp)) (leaf_flags mp rwx acc)" "r = Inr ()"
    using assms by (auto simp: leaf_set_eq)
  have b: "bit l' n \<longleftrightarrow> bit (leaf_flags mp rwx acc) n" if "n < 10" for n
    using that by (simp add: l' bit_pte)
  have "entry_rwx l' = Some rwx"
    unfolding entry_rwx_bits by (cases rwx) (simp_all add: b bit_leaf_flags del: One_nat_def)
  moreover have "leaf_share l' = Inr (shared_map mp)"
    by (cases mp) (simp_all add: leaf_share_eq bit_pte bit_leaf_flags bit_leaf_type l'(1))
  moreover have "entry_ppn l' = map_ppn mp" by (simp add: l'(1))
  moreover from this have "leaf_map l' = mp"
    by (cases mp) (simp_all add: leaf_map_def b bit_leaf_type)
  ultimately show ?thesis
    by (simp add: l'(2)) (simp add: b bit_leaf_flags leaf_is_valid_bit leaf_clear_eq leaf_set_eq)
qed

theorem leaf_set_roundtrip_witness:
  "leaf_share (snd (leaf_set 0 (Map_Private 0x80123) RWX_RX UserLocal)) = Inr (Map_Shared 0x80123)"
proof -
  obtain r l' where l': "leaf_set 0 (Map_Private 0x80123) RWX_RX UserLocal = (r, l')" by fastforce
  have "\<not> leaf_is_valid 0" by (simp add: leaf_is_valid_def)
  from leaf_set_roundtrip [OF this l'] show ?thesis by (simp add: l')
qed

text \<open>
  C8. A window entry names the gigapage of the page it is made for only when bit 22 of the page number
  is clear: \<open>GLOBAL_BIT\<close> is a mask used as a shift amount, so clearing the global flag clears bit 32 of
  the entry, which is bit 22 of its page number. For pages with that bit set, at 16 GiB and
  above in every other 16 GiB of physical memory, both windows show a different frame.
\<close>
theorem window_entry_frame:
  "new_leaf3 (p AND NOT (mask 18)) RWX_RW False False = new_leaf2 (ppn_as_usize p AND NOT (mask 30)) RWX_RW False False
   \<and> (entry_ppn (new_leaf3 (p AND NOT (mask 18)) RWX_RW False False) = p AND NOT (mask 18) \<longleftrightarrow> \<not> bit p 22)"
proof -
  have w: "bit (window_frame p) n \<longleftrightarrow> bit p n \<and> n \<noteq> 22 \<and> \<not> n < 18" for n
    unfolding window_frame_def clear_bit_22_def bit_and_not bit_push_bit_iff
    using bit_imp_le_length [of p n] by (auto simp: bit_1_iff bit_mask_iff)
  have v: "bit (p AND NOT (mask 18)) n \<longleftrightarrow> bit p n \<and> \<not> n < 18" for n
    unfolding bit_and_not using bit_imp_le_length [of p n] by (auto simp: bit_mask_iff)
  have "window_frame p = p AND NOT (mask 18) \<longleftrightarrow> \<not> bit p 22"
  proof
    assume "window_frame p = p AND NOT (mask 18)"
    then show "\<not> bit p 22" using w [of 22] v [of 22] by simp
  next
    assume "\<not> bit p 22"
    then show "window_frame p = p AND NOT (mask 18)" by (intro bit_word_eqI) (auto simp: w v)
  qed
  then show ?thesis by (simp only: window_entry_a window_entry_b entry_ppn_pte [OF less_199] simp_thms)
qed

end
