(* ===== verification/Sv39_Machine.thy ===== *)
theory Sv39_Machine
  imports Sv39_Entry
begin

text \<open>
  The machine the page-table code runs on. Physical memory is a function from frames and entry
  indices to 64-bit words; \<open>satp\<close> holds the root frame; the frame allocator is part of the state.

  The kernel reaches page tables only through virtual addresses: the root table through \<open>ROOT\<close>, which
  is mapped to itself, and other tables through the gigapage windows \<open>HIGHMEM_A\<close> and \<open>HIGHMEM_B\<close>.
  Each such access is a load or store at a virtual address here, translated by the Sv39 walk of the
  privileged architecture over the tables in memory; an address that does not translate is a page
  fault. The walk uses the entry format written out above \<open>struct Entry\<close> in \<open>sv39.rs\<close>. There is no TLB:
  the source flushes a window after each change of its entry (\<open>flush_highmem_a\<close>, \<open>flush_highmem_b\<close>).
\<close>

subsection \<open>Kernel computations\<close>

type_synonym idx = "9 word"

type_synonym phys = "ppn \<Rightarrow> idx \<Rightarrow> u64"

record machine =
  mc_mem :: phys
  mc_satp :: u64
  mc_alloc :: allocator

type_synonym 'a kern = "(machine, 'a) comp"

subsection \<open>Virtual addresses\<close>

(* src/kernel/src/arch/riscv/vms/sv39.rs:302-308 VirtualAddress *)
definition VPN_MASK :: "nat \<Rightarrow> usize" where
  "VPN_MASK offset = push_bit offset 0x1ff"

(* src/kernel/src/arch/riscv/vms/sv39.rs:310-313 VirtualAddress::ppn_2 *)
definition ppn_2 :: "usize \<Rightarrow> usize" where
  "ppn_2 va = drop_bit 30 (va AND VPN_MASK 30)"

(* src/kernel/src/arch/riscv/vms/sv39.rs:315-318 VirtualAddress::ppn_1 *)
definition ppn_1 :: "usize \<Rightarrow> usize" where
  "ppn_1 va = drop_bit 21 (va AND VPN_MASK 21)"

(* src/kernel/src/arch/riscv/vms/sv39.rs:320-323 VirtualAddress::ppn_0 *)
definition ppn_0 :: "usize \<Rightarrow> usize" where
  "ppn_0 va = drop_bit 12 (va AND VPN_MASK 12)"

definition vpn2 :: "usize \<Rightarrow> idx" where
  "vpn2 va = ucast (drop_bit 30 va)"

definition vpn1 :: "usize \<Rightarrow> idx" where
  "vpn1 va = ucast (drop_bit 21 va)"

definition vpn0 :: "usize \<Rightarrow> idx" where
  "vpn0 va = ucast (drop_bit 12 va)"

text \<open>The index of the 64-bit word an address names within its page.\<close>

definition word_index :: "usize \<Rightarrow> idx" where
  "word_index va = ucast (drop_bit 3 va)"

lemma VPN_MASK_mask: "VPN_MASK k = push_bit k (mask 9)"
  by (simp add: VPN_MASK_def mask_eq_exp_minus_1)

lemma drop_bit_vpn:
  assumes "k + 9 \<le> 64"
  shows "drop_bit k (va AND VPN_MASK k) = drop_bit k (va :: usize) AND mask 9"
  using assms unfolding VPN_MASK_mask by (intro bit_word_eqI) (auto simp: bit_simps)

lemma ucast_and_mask9: "(ucast (x AND mask 9 :: usize) :: idx) = ucast x"
  by (rule bit_word_eqI) (auto simp: bit_simps)

lemma ppn_masked:
  "ppn_2 va = drop_bit 30 va AND mask 9" "ppn_1 va = drop_bit 21 va AND mask 9" "ppn_0 va = drop_bit 12 va AND mask 9"
  unfolding ppn_2_def ppn_1_def ppn_0_def by (rule drop_bit_vpn; simp)+

lemma ucast_ppn [simp]: "ucast (ppn_2 va) = vpn2 va" "ucast (ppn_1 va) = vpn1 va" "ucast (ppn_0 va) = vpn0 va"
  unfolding ppn_masked ucast_and_mask9 by (simp_all add: vpn2_def vpn1_def vpn0_def)

lemma unat_ppn_less [simp]: "unat (ppn_2 va) < 512" "unat (ppn_1 va) < 512" "unat (ppn_0 va) < 512"
proof -
  have "unat (x AND mask 9 :: usize) < 512" for x using unat_and_mask [of x 9] by simp
  then show "unat (ppn_2 va) < 512" "unat (ppn_1 va) < 512" "unat (ppn_0 va) < 512"
    unfolding ppn_masked by blast+
qed

subsection \<open>The hardware walk\<close>

datatype access = Load | Store | Fetch

text \<open>
  The frame an entry names; entries whose page number does not fit the 32 bits of a \<open>PPN\<close> name no
  memory. An access needs the accessed bit and the permission: to read, to write, which also needs the dirty bit,
  or to execute. An access of the supervisor does not reach user pages.
\<close>

definition hw_frame :: "u64 \<Rightarrow> ppn option" where
  "hw_frame e = try_into (drop_bit 10 e)"

definition hw_valid :: "u64 \<Rightarrow> bool" where
  "hw_valid e \<longleftrightarrow> bit e 0 \<and> (bit e 2 \<longrightarrow> bit e 1)"

definition hw_leaf :: "u64 \<Rightarrow> bool" where
  "hw_leaf e \<longleftrightarrow> bit e 1 \<or> bit e 3"

definition hw_perm :: "access \<Rightarrow> u64 \<Rightarrow> bool" where
  "hw_perm a e \<longleftrightarrow> bit e 6 \<and> \<not> bit e 4 \<and> (case a of Load \<Rightarrow> bit e 1 | Store \<Rightarrow> bit e 2 \<and> bit e 7 | Fetch \<Rightarrow> bit e 3)"

text \<open>A leaf at a level that leaves \<open>n\<close> page-number bits to the address; it must be aligned to them.\<close>

definition hw_leaf_frame :: "access \<Rightarrow> nat \<Rightarrow> u64 \<Rightarrow> usize \<Rightarrow> ppn option" where
  "hw_leaf_frame a n e va = (case hw_frame e of
      None \<Rightarrow> None
    | Some f \<Rightarrow> if hw_perm a e \<and> f AND mask n = 0
        then Some (f + (ucast (drop_bit 12 va) AND mask n)) else None)"

definition hw_canonical :: "usize \<Rightarrow> bool" where
  "hw_canonical va \<longleftrightarrow> unat va < 2 ^ 38 \<or> 2 ^ 64 - 2 ^ 38 \<le> unat va"

definition hw_translate :: "phys \<Rightarrow> ppn \<Rightarrow> access \<Rightarrow> usize \<Rightarrow> ppn option" where
  "hw_translate mem root a va =
    (let e2 = mem root (vpn2 va) in
     if \<not> hw_canonical va \<or> \<not> hw_valid e2 then None
     else if hw_leaf e2 then hw_leaf_frame a 18 e2 va
     else (case hw_frame e2 of None \<Rightarrow> None | Some t1 \<Rightarrow>
       let e1 = mem t1 (vpn1 va) in
       if \<not> hw_valid e1 then None
       else if hw_leaf e1 then hw_leaf_frame a 9 e1 va
       else (case hw_frame e1 of None \<Rightarrow> None | Some t0 \<Rightarrow>
         let e0 = mem t0 (vpn0 va) in
         if \<not> hw_valid e0 \<or> \<not> hw_leaf e0 then None else hw_leaf_frame a 0 e0 va)))"

definition mc_root :: "machine \<Rightarrow> ppn" where
  "mc_root m = ucast (mc_satp m)"

definition load_u64 :: "usize \<Rightarrow> u64 kern" where
  "load_u64 va m = (case hw_translate (mc_mem m) (mc_root m) Load va of
      None \<Rightarrow> Inl Page_Fault
    | Some f \<Rightarrow> Inr (mc_mem m f (word_index va), m))"

definition mem_upd :: "phys \<Rightarrow> ppn \<Rightarrow> idx \<Rightarrow> u64 \<Rightarrow> phys" where
  "mem_upd mem f i v = mem(f := (mem f)(i := v))"

definition store_u64 :: "usize \<Rightarrow> u64 \<Rightarrow> unit kern" where
  "store_u64 va v m = (case hw_translate (mc_mem m) (mc_root m) Store va of
      None \<Rightarrow> Inl Page_Fault
    | Some f \<Rightarrow> Inr ((), m\<lparr>mc_mem := mem_upd (mc_mem m) f (word_index va) v\<rparr>))"

text \<open>Indexing a table of 512 entries at a page, which checks the bound.\<close>

definition entry_ptr :: "page \<Rightarrow> usize \<Rightarrow> usize kern" where
  "entry_ptr tbl i = (if unat i < 512 then retK (tbl + 8 * i) else panicK Index_Out_Of_Range)"

definition allocK :: "ppn kern" where
  "allocK m = (case allocate (mc_alloc m) of Inl p \<Rightarrow> Inl p | Inr (p, a) \<Rightarrow> Inr (p, m\<lparr>mc_alloc := a\<rparr>))"

lemma mem_upd_same [simp]: "mem_upd mem f i v f i = v"
  by (simp add: mem_upd_def)

lemma mem_upd_other [simp]: "(g, j) \<noteq> (f, i) \<Longrightarrow> mem_upd mem f i v g j = mem g j"
  by (auto simp: mem_upd_def)

lemma mem_upd_apply: "mem_upd mem f i v g j = (if g = f \<and> j = i then v else mem g j)"
  by (simp add: mem_upd_def)

lemma mem_upd_twice [simp]: "mem_upd (mem_upd mem f i v) f i w = mem_upd mem f i w"
  by (simp add: mem_upd_def)

lemma entry_ptr_eq [simp]: "entry_ptr tbl (ppn_2 va) = retK (tbl + 8 * ppn_2 va)"
  "entry_ptr tbl (ppn_1 va) = retK (tbl + 8 * ppn_1 va)" "entry_ptr tbl (ppn_0 va) = retK (tbl + 8 * ppn_0 va)"
  by (simp_all add: entry_ptr_def)

subsection \<open>Entries as the hardware sees them\<close>

lemma hw_frame_pte [simp]: "f < 1024 \<Longrightarrow> hw_frame (pte (ucast p) f) = Some p"
  using unat_bounds(3) [of p]
  by (simp add: hw_frame_def drop_bit_pte try_into_def) (rule bit_word_eqI, simp add: bit_simps)

lemma hw_frame_entry_ppn: "hw_frame e = Some p \<Longrightarrow> entry_ppn e = p"
  by (auto simp: hw_frame_def entry_ppn_def try_into_Some)

lemma window_entry_hw:
  "hw_valid (pte (ucast (p :: ppn)) 199)" "hw_leaf (pte (ucast p) 199)" "a \<noteq> Fetch \<Longrightarrow> hw_perm a (pte (ucast p) 199)"
  by (auto simp: hw_valid_def hw_leaf_def hw_perm_def bit_pte split: access.split)

lemma table_entry_hw: "hw_valid (pte (ucast (p :: ppn)) 1)" "\<not> hw_leaf (pte (ucast p) 1)"
  by (auto simp: hw_valid_def hw_leaf_def bit_pte)

lemma window_frame_aligned: "window_frame p AND mask 18 = 0"
  unfolding window_frame_def clear_bit_22_def
  by (rule bit_word_eqI) (auto simp: bit_simps)

end
