(* ===== verification/Sv39.thy ===== *)
theory Sv39
  imports Sv39_Machine
begin

text \<open>
  The operations of the Sv39 virtual memory system (\<open>kernel/src/arch/riscv/vms/sv39.rs\<close>), one
  definition per function, as kernel computations on the machine. A pointer to an entry
  (\<open>NonNull<Leaf>\<close>) is the virtual address of the entry in \<open>ROOT\<close> or in one of the windows.
\<close>

subsection \<open>Windows\<close>

(* src/kernel/src/arch/riscv/vms/sv39.rs:456-471 Sv39::map_highmem_a *)
definition map_highmem_a :: "ppn option \<Rightarrow> unit kern" where
  "map_highmem_a ppn =
     bindK (entry_ptr ROOT (ppn_2 HIGHMEM_A)) (\<lambda>p.
       store_u64 p (case ppn of
           Some ppn \<Rightarrow> new_leaf3 (ppn AND NOT (mask 18)) RWX_RW False False
         | None \<Rightarrow> new_invalid))"

(* src/kernel/src/arch/riscv/vms/sv39.rs:473-488 Sv39::map_highmem_b *)
definition map_highmem_b :: "ppn option \<Rightarrow> unit kern" where
  "map_highmem_b ppn =
     bindK (entry_ptr ROOT (ppn_2 HIGHMEM_B)) (\<lambda>p.
       store_u64 p (case ppn of
           Some ppn \<Rightarrow> new_leaf2 (ppn_as_usize ppn AND NOT (mask 30)) RWX_RW False False
         | None \<Rightarrow> new_invalid))"

(* src/kernel/src/arch/riscv/vms/sv39.rs:490-497 Sv39::translate_highmem_a *)
definition translate_highmem_a :: "ppn \<Rightarrow> page kern" where
  "translate_highmem_a ppn = liftK (unwrapO (page_skip HIGHMEM_A (ucast ppn mod push_bit 18 1)))"

(* src/kernel/src/arch/riscv/vms/sv39.rs:499-506 Sv39::translate_highmem_b *)
definition translate_highmem_b :: "ppn \<Rightarrow> page kern" where
  "translate_highmem_b ppn = liftK (unwrapO (page_skip HIGHMEM_B (ucast ppn mod push_bit 18 1)))"

subsection \<open>Walks\<close>

text \<open>Map a table in a window and return the page where its entries are.\<close>

definition table_a :: "ppn \<Rightarrow> page kern" where
  "table_a ppn = bindK (map_highmem_a (Some ppn)) (\<lambda>_. translate_highmem_a ppn)"

definition table_b :: "ppn \<Rightarrow> page kern" where
  "table_b ppn = bindK (map_highmem_b (Some ppn)) (\<lambda>_. translate_highmem_b ppn)"

(* src/kernel/src/arch/riscv/vms/sv39.rs:327-364 Sv39::get_pte *)
definition get_pte :: "page \<Rightarrow> (add_error + usize) kern" where
  "get_pte address =
     bindK (entry_ptr ROOT (ppn_2 address)) (\<lambda>p. bindK (load_u64 p) (\<lambda>pte.
     if \<not> is_table pte then panicK Todo_Reached else
     bindK (table_a (entry_ppn pte)) (\<lambda>tbl.
     bindK (entry_ptr tbl (ppn_1 address)) (\<lambda>p. bindK (load_u64 p) (\<lambda>pte.
     if \<not> is_table pte then panicK Todo_Reached else
     bindK (table_a (entry_ppn pte)) (\<lambda>tbl.
     bindK (entry_ptr tbl (ppn_0 address)) (\<lambda>p. retK (Inr p))))))))"

text \<open>
  The entry at \<open>p\<close> becomes a table if it is invalid, and must be one otherwise. The source writes
  these lines out at both levels of \<open>get_pte_from_alloc\<close> and in \<open>get_pte_alloc_mega\<close>.
\<close>

(* src/kernel/src/arch/riscv/vms/sv39.rs:374-383 Sv39::get_pte_from_alloc *)
definition ensure_table :: "usize \<Rightarrow> (add_error + ppn) kern" where
  "ensure_table p =
     bindK (load_u64 p) (\<lambda>pte.
     if \<not> entry_is_valid pte then
       bindK allocK (\<lambda>ppn. bindK (store_u64 p (new_table ppn)) (\<lambda>_.
       bindK (load_u64 p) (\<lambda>pte. retK (Inr (entry_ppn pte)))))
     else if \<not> is_table pte then retK (Inl AE_Overlaps)
     else retK (Inr (entry_ppn pte)))"

(* src/kernel/src/arch/riscv/vms/sv39.rs:366-412 Sv39::get_pte_from_alloc *)
definition get_pte_from_alloc :: "page \<Rightarrow> page \<Rightarrow> (add_error + usize) kern" where
  "get_pte_from_alloc root address =
     bindK (entry_ptr root (ppn_2 address)) (\<lambda>p. tryK (ensure_table p) id (\<lambda>ppn.
     bindK (table_b ppn) (\<lambda>tbl.
     bindK (entry_ptr tbl (ppn_1 address)) (\<lambda>p. tryK (ensure_table p) id (\<lambda>ppn.
     bindK (table_b ppn) (\<lambda>tbl.
     bindK (entry_ptr tbl (ppn_0 address)) (\<lambda>p. retK (Inr p))))))))"

(* src/kernel/src/arch/riscv/vms/sv39.rs:414-417 Sv39::get_pte_alloc *)
definition get_pte_alloc :: "page \<Rightarrow> (add_error + usize) kern" where
  "get_pte_alloc address = get_pte_from_alloc ROOT address"

(* src/kernel/src/arch/riscv/vms/sv39.rs:419-444 Sv39::get_pte_alloc_mega *)
definition get_pte_alloc_mega :: "page \<Rightarrow> (add_error + usize) kern" where
  "get_pte_alloc_mega address =
     bindK (entry_ptr ROOT (ppn_2 address)) (\<lambda>p. tryK (ensure_table p) id (\<lambda>ppn.
     bindK (table_b ppn) (\<lambda>tbl.
     bindK (entry_ptr tbl (ppn_1 address)) (\<lambda>p. retK (Inr p)))))"

(* src/kernel/src/arch/riscv/vms/sv39.rs:446-454 Sv39::get_pte_alloc_giga *)
definition get_pte_alloc_giga :: "page \<Rightarrow> (add_error + usize) kern" where
  "get_pte_alloc_giga address = bindK (entry_ptr ROOT (ppn_2 address)) (\<lambda>p. retK (Inr p))"

text \<open>\<open>pte.as_mut().set(..)\<close> through a pointer to the leaf.\<close>

definition set_leaf :: "usize \<Rightarrow> map_entry \<Rightarrow> rwx \<Rightarrow> accessibility \<Rightarrow> (add_error + unit) kern" where
  "set_leaf p mp rwx acc =
     bindK (load_u64 p) (\<lambda>l. case leaf_set l mp rwx acc of (r, l') \<Rightarrow>
       (case r of Inl e \<Rightarrow> retK (Inl e) | Inr _ \<Rightarrow> bindK (store_u64 p l') (\<lambda>_. retK (Inr ()))))"

subsection \<open>Mapping single pages\<close>

(* src/kernel/src/arch/riscv/vms/sv39.rs:633-646 Sv39::add *)
definition vms_add :: "page \<Rightarrow> map_entry \<Rightarrow> rwx \<Rightarrow> accessibility \<Rightarrow> (add_error + unit) kern" where
  "vms_add address mp rwx acc =
     tryK (get_pte_alloc address) id (\<lambda>p. tryK (set_leaf p mp rwx acc) (\<lambda>_. AE_Overlaps) (\<lambda>_. retK (Inr ())))"

text \<open>A \<open>VMS\<close> is its \<open>satp\<close> value.\<close>

(* src/kernel/src/arch/riscv/vms/sv39.rs:70-72 Sv39 *)
type_synonym sv39 = u64

(* src/kernel/src/arch/riscv/vms/sv39.rs:648-669 Sv39::add_to *)
definition add_to :: "sv39 \<Rightarrow> page \<Rightarrow> map_entry \<Rightarrow> rwx \<Rightarrow> accessibility \<Rightarrow> (add_error + unit) kern" where
  "add_to self address mp rwx acc =
     bindK (table_b (ucast self)) (\<lambda>root.
     tryK (get_pte_from_alloc root address) id (\<lambda>p.
     tryK (set_leaf p mp rwx acc) (\<lambda>_. AE_Overlaps) (\<lambda>_. retK (Inr ()))))"

(* src/kernel/src/arch/riscv/vms/sv39.rs:742-751 Sv39::remove *)
definition vms_remove :: "page \<Rightarrow> (unit + private_or_shared) kern" where
  "vms_remove address =
     tryK (get_pte address) (\<lambda>_. ()) (\<lambda>p.
     bindK (load_u64 p) (\<lambda>l. case leaf_clear l of (r, l') \<Rightarrow>
       (case r of Inl e \<Rightarrow> retK (Inl e) | Inr x \<Rightarrow> bindK (store_u64 p l') (\<lambda>_. retK (Inr x)))))"

(* src/kernel/src/arch/riscv/vms/sv39.rs:923-959 Sv39::share *)
definition vms_share :: "sv39 \<Rightarrow> page \<Rightarrow> page \<Rightarrow> rwx \<Rightarrow> accessibility \<Rightarrow> (share_error + unit) kern" where
  "vms_share self self_address from_address rwx acc =
     tryK (get_pte from_address) share_error_from (\<lambda>from.
     bindK (load_u64 from) (\<lambda>l.
     if \<not> leaf_is_valid l then retK (Inl SE_NoEntry) else
     bindK (table_b (ucast self)) (\<lambda>root.
     tryK (get_pte_from_alloc root self_address) share_error_from (\<lambda>to.
     bindK (load_u64 to) (\<lambda>t.
     if leaf_is_valid t then retK (Inl SE_Overlaps) else
     tryK (bindK (load_u64 from) (\<lambda>l. retK (leaf_share l))) id (\<lambda>mp.
     tryK (set_leaf to mp rwx acc) share_error_from (\<lambda>_. retK (Inr ()))))))))"

subsection \<open>Mapping many pages\<close>

(* src/kernel/src/arch/riscv/vms/sv39.rs:604-620 Sv39::allocate *)
definition vms_allocate :: "page \<Rightarrow> usize \<Rightarrow> rwx \<Rightarrow> accessibility \<Rightarrow> (add_error + unit) kern" where
  "vms_allocate virtual_address cnt rwx acc m =
     bindP (mem_allocate_range (unat cnt)
       (\<lambda>ppn (va, m) a.
          bindP (unwrapK (vms_add va (Map_Private ppn) rwx acc) (m\<lparr>mc_alloc := a\<rparr>)) (\<lambda>(_, m').
          bindP (unwrapO (page_next va)) (\<lambda>va'. Inr ((va', m'), mc_alloc m'))))
       (virtual_address, m) (mc_alloc m))
     (\<lambda>(r, a). bindP (unwrapR r) (\<lambda>(va, m'). Inr (Inr (), m'\<lparr>mc_alloc := a\<rparr>)))"

(* src/kernel/src/arch/riscv/vms/sv39.rs:622-631 Sv39::deallocate *)
primrec vms_deallocate :: "nat \<Rightarrow> page \<Rightarrow> (unit + unit) kern" where
  "vms_deallocate 0 va = retK (Inr ())"
| "vms_deallocate (Suc n) va =
     bindK (unwrapK (vms_remove va)) (\<lambda>_.
     bindK (liftK (unwrapO (page_next va))) (\<lambda>va'. vms_deallocate n va'))"

fun map_range_pages :: "map_range \<Rightarrow> nat" where
  "map_range_pages (MR_Private r) = unat (pr_count r)"
| "map_range_pages (MR_Direct r) = unat (dr_count r)"
| "map_range_pages _ = 0"

lemma map_range_pop_decreases:
  "map_range_pop_base mr = Inr (Some mp, mr') \<Longrightarrow> map_range_pages mr' < map_range_pages mr"
  by (cases mr) (auto simp: range_pop_base_def direct_pop_base_def checked_sub_1 unat_minus_1
      split: option.splits if_splits prod.splits)

lemma map_range_forget_le:
  "map_range_forget_base mr n = Inr (k, mr') \<Longrightarrow> map_range_pages mr' \<le> map_range_pages mr"
  by (cases mr) (auto simp: range_forget_base_def direct_forget_base_def bindP_eq_Inr checked_sub_def
      unat_sub split: option.splits if_splits)

text \<open>
  The three loops of \<open>add_range\<close> differ in the pages a mapping covers (\<open>2 ^ 18\<close>, \<open>2 ^ 9\<close> or one) and
  in how the entry is found. The loop for single pages forgets nothing.
\<close>

definition forget_rest :: "usize \<Rightarrow> map_range \<Rightarrow> map_range may_panic" where
  "forget_rest step mr = (if step = 1 then Inr mr else
     bindP (map_range_forget_base mr (step - 1)) (\<lambda>(c, mr'). assertP (c + 1 = step) (Inr mr')))"

lemma forget_rest_le: "forget_rest step mr = Inr mr' \<Longrightarrow> map_range_pages mr' \<le> map_range_pages mr"
  by (auto simp: forget_rest_def bindP_eq_Inr assertP_eq_Inr dest: map_range_forget_le split: if_splits)

(* src/kernel/src/arch/riscv/vms/sv39.rs:690-738 Sv39::add_range *)
function add_range_loop ::
    "usize \<Rightarrow> (page \<Rightarrow> (add_error + usize) kern) \<Rightarrow> rwx \<Rightarrow> accessibility \<Rightarrow> map_range \<Rightarrow> page
      \<Rightarrow> machine \<Rightarrow> ((add_error + unit) \<times> machine) may_panic" where
  "add_range_loop step get rwx acc mr address m =
     (case map_range_pop_base mr of
        Inl e \<Rightarrow> Inl e
      | Inr (None, mr1) \<Rightarrow> Inr (Inr (), m)
      | Inr (Some mp, mr1) \<Rightarrow>
          (case forget_rest step mr1 of
             Inl e \<Rightarrow> Inl e
           | Inr mr2 \<Rightarrow>
               (case tryK (get address) id (\<lambda>p. set_leaf p mp rwx acc) m of
                  Inl e \<Rightarrow> Inl e
                | Inr (Inl e, m') \<Rightarrow> Inl Todo_Reached
                | Inr (Inr _, m') \<Rightarrow>
                    (case page_skip address step of
                       None \<Rightarrow> Inl Unwrap_Failed
                     | Some address' \<Rightarrow> add_range_loop step get rwx acc mr2 address' m'))))"
  by pat_completeness auto
termination
  by (relation "measure (\<lambda>(step, get, rwx, acc, mr, address, m). map_range_pages mr)")
    (auto dest!: map_range_pop_decreases forget_rest_le)

declare add_range_loop.simps [simp del]

(* src/kernel/src/arch/riscv/vms/sv39.rs:671-740 Sv39::add_range *)
definition add_range :: "page \<Rightarrow> map_range \<Rightarrow> rwx \<Rightarrow> accessibility \<Rightarrow> (add_error + unit) kern" where
  "add_range address mr rwx acc =
     bindK (liftK (map_range_len mr)) (\<lambda>count.
     bindK (liftK (map_range_start mr)) (\<lambda>ppn_min.
     bindK (liftK (unwrapO (try_into count))) (\<lambda>count32.
     case checked_add ppn_min count32 of
       None \<Rightarrow> retK (Inl AE_OutOfRange)
     | Some ppn_max \<Rightarrow>
         if address mod push_bit 30 1 = 0 \<and> ppn_min mod push_bit 18 1 = 0 \<and> ppn_max mod push_bit 18 1 = 0
         then add_range_loop (push_bit 18 1) get_pte_alloc_giga rwx acc mr address
         else if address mod push_bit 21 1 = 0 \<and> ppn_min mod push_bit 9 1 = 0 \<and> ppn_max mod push_bit 9 1 = 0
         then add_range_loop (push_bit 9 1) get_pte_alloc_mega rwx acc mr address
         else add_range_loop 1 get_pte_alloc rwx acc mr address)))"

text \<open>The result of the call with the part of the slice it has written, in order.\<close>

(* src/kernel/src/arch/riscv/vms/sv39.rs:753-803 Sv39::physical_addresses *)
primrec physical_addresses :: "nat \<Rightarrow> page option \<Rightarrow> usize list \<Rightarrow> ((unit + unit) \<times> usize list) kern" where
  "physical_addresses 0 address store = retK (Inr (), store)"
| "physical_addresses (Suc n) address store =
     bindK (liftK (unwrapO address)) (\<lambda>va.
     bindK (entry_ptr ROOT (ppn_2 va)) (\<lambda>p. bindK (load_u64 p) (\<lambda>pte.
     if \<not> entry_is_valid pte then retK (Inl (), store)
     else if \<not> is_table pte then
       physical_addresses n address (store @ [push_bit 2 (pte AND NOT 0x3ff) OR (va AND mask 30)])
     else
     bindK (table_a (entry_ppn pte)) (\<lambda>tbl.
     bindK (entry_ptr tbl (ppn_1 va)) (\<lambda>p. bindK (load_u64 p) (\<lambda>pte.
     if \<not> entry_is_valid pte then retK (Inl (), store)
     else if \<not> is_table pte then
       physical_addresses n address (store @ [push_bit 2 (pte AND NOT 0x3ff) OR (va AND mask 21)])
     else
     bindK (table_a (entry_ppn pte)) (\<lambda>tbl.
     bindK (entry_ptr tbl (ppn_0 va)) (\<lambda>p. bindK (load_u64 p) (\<lambda>pte.
       physical_addresses n (page_next va) (store @ [push_bit 2 (pte AND NOT 0x3ff)]))))))))))"

subsection \<open>Address spaces\<close>

(* src/kernel/src/arch/riscv/vms/sv39.rs:917-921 Sv39::current *)
definition vms_current :: "sv39 kern" where
  "vms_current m = Inr (mc_satp m, m)"

(* src/kernel/src/arch/riscv/vms/sv39.rs:961-967 Sv39::activate *)
definition vms_activate :: "sv39 \<Rightarrow> unit kern" where
  "vms_activate self m = Inr ((), m\<lparr>mc_satp := self\<rparr>)"

(* src/kernel/src/arch/riscv/vms/sv39.rs:910-915 Sv39::clear_identity_maps *)
primrec clear_identity_maps :: "nat \<Rightarrow> unit kern" where
  "clear_identity_maps 0 = retK ()"
| "clear_identity_maps (Suc n) =
     bindK (clear_identity_maps n) (\<lambda>_.
     bindK (entry_ptr ROOT (of_nat n)) (\<lambda>p. store_u64 p new_invalid))"

text \<open>The loop \<open>for i in GLOBAL_KERNEL_TABLE_START_INDEX..512 { new[i] = curr[i]; }\<close>.\<close>

(* src/kernel/src/arch/riscv/vms/sv39.rs:551-553 Sv39::new *)
primrec copy_globals :: "page \<Rightarrow> nat \<Rightarrow> unit kern" where
  "copy_globals new 0 = retK ()"
| "copy_globals new (Suc n) =
     bindK (copy_globals new n) (\<lambda>_.
     let i = GLOBAL_KERNEL_TABLE_START_INDEX + of_nat n in
     bindK (entry_ptr ROOT i) (\<lambda>p. bindK (load_u64 p) (\<lambda>v.
     bindK (entry_ptr new i) (\<lambda>q. store_u64 q v))))"

(* src/kernel/src/arch/riscv/vms/sv39.rs:531-602 Sv39::new *)
definition vms_new :: "sv39 kern" where
  "vms_new =
     bindK allocK (\<lambda>ppn_2'. bindK allocK (\<lambda>ppn_1'. bindK allocK (\<lambda>ppn_0'.
     let va = ROOT; satp = ucast ppn_2' OR push_bit 63 1 in
     bindK (table_a ppn_2') (\<lambda>new.
     bindK (copy_globals new (512 - unat GLOBAL_KERNEL_TABLE_START_INDEX)) (\<lambda>_.
     bindK (table_a ppn_0') (\<lambda>tbl. bindK (entry_ptr tbl (ppn_0 va)) (\<lambda>p.
     bindK (unwrapK (set_leaf p (Map_Private ppn_2') RWX_RW KernelLocal)) (\<lambda>_.
     bindK (table_a ppn_1') (\<lambda>tbl. bindK (entry_ptr tbl (ppn_1 va)) (\<lambda>p.
     bindK (store_u64 p (new_table ppn_0')) (\<lambda>_.
     bindK (table_a ppn_2') (\<lambda>tbl. bindK (entry_ptr tbl (ppn_2 va)) (\<lambda>p.
     bindK (store_u64 p (new_table ppn_1')) (\<lambda>_.
     bindK (map_highmem_a None) (\<lambda>_. retK satp)))))))))))))))"

subsection \<open>Early boot\<close>

text \<open>
  \<open>allocate_pages\<close> takes its frames from a closure with a state of its own. Before the root table maps
  itself, tables are written through the identity map, where a frame's virtual address is its
  physical address.
\<close>

definition callK :: "('s \<Rightarrow> ('a \<times> 's) may_panic) \<Rightarrow> 's \<Rightarrow> ('a \<times> 's) kern" where
  "callK f s = liftK (f s)"

(* src/kernel/src/arch/riscv/vms/sv39.rs:817-851 Sv39::allocate_pages *)
definition map_root :: "('s \<Rightarrow> (ppn \<times> 's) may_panic) \<Rightarrow> 's \<Rightarrow> 's kern" where
  "map_root f s =
     bindK vms_current (\<lambda>satp. let root = push_bit 12 satp; va = ROOT in
     bindK (callK f s) (\<lambda>(ppn_0', s). bindK (callK f s) (\<lambda>(ppn_1', s).
     let ppn_2' = ppn_from_ptr root;
         leaf = snd (leaf_set 0 (Map_Private (ppn_from_ptr root)) RWX_RW KernelLocal) in
     bindK (store_u64 (ppn_as_usize ppn_0' + 8 * ppn_0 va) leaf) (\<lambda>_.
     bindK (store_u64 (ppn_as_usize ppn_1' + 8 * ppn_1 va) (new_table ppn_0')) (\<lambda>_.
     bindK (store_u64 (ppn_as_usize ppn_2' + 8 * ppn_2 va) (new_table ppn_1')) (\<lambda>_. retK s))))))"

text \<open>The entry at \<open>p\<close> as a table, made from a frame of the closure if there is none yet.\<close>

(* src/kernel/src/arch/riscv/vms/sv39.rs:858-867 Sv39::allocate_pages *)
definition ensure_table_from :: "('s \<Rightarrow> (ppn \<times> 's) may_panic) \<Rightarrow> usize \<Rightarrow> 's \<Rightarrow> (ppn \<times> 's) kern" where
  "ensure_table_from f p s =
     bindK (load_u64 p) (\<lambda>pte.
     if \<not> entry_is_valid pte then
       bindK (callK f s) (\<lambda>(e, s). bindK (store_u64 p (new_table e)) (\<lambda>_.
       bindK (load_u64 p) (\<lambda>pte. retK (entry_ppn pte, s))))
     else if \<not> is_table pte then panicK Explicit_Panic
     else retK (entry_ppn pte, s))"

(* src/kernel/src/arch/riscv/vms/sv39.rs:853-900 Sv39::allocate_pages *)
primrec allocate_pages_loop :: "nat \<Rightarrow> ('s \<Rightarrow> (ppn \<times> 's) may_panic) \<Rightarrow> usize \<Rightarrow> 's \<Rightarrow> 's kern" where
  "allocate_pages_loop 0 f va s = retK s"
| "allocate_pages_loop (Suc n) f va s =
     bindK (entry_ptr ROOT (ppn_2 va)) (\<lambda>p. bindK (ensure_table_from f p s) (\<lambda>(ppn, s).
     bindK (table_a ppn) (\<lambda>tbl. bindK (entry_ptr tbl (ppn_1 va)) (\<lambda>p.
     bindK (ensure_table_from f p s) (\<lambda>(ppn, s).
     bindK (table_a ppn) (\<lambda>tbl. bindK (entry_ptr tbl (ppn_0 va)) (\<lambda>p.
     bindK (callK f s) (\<lambda>(e, s).
     bindK (unwrapK (set_leaf p (Map_Private e) RWX_RW KernelGlobal)) (\<lambda>_.
     allocate_pages_loop n f (va + PAGE_SIZE) s)))))))))"

(* src/kernel/src/arch/riscv/vms/sv39.rs:805-905 Sv39::allocate_pages *)
definition allocate_pages :: "('s \<Rightarrow> (ppn \<times> 's) may_panic) \<Rightarrow> page \<Rightarrow> usize \<Rightarrow> 's \<Rightarrow> 's kern" where
  "allocate_pages f address cnt s =
     bindK (map_root f s) (\<lambda>s.
     bindK (allocate_pages_loop (unat cnt) f address s) (\<lambda>s.
     bindK (map_highmem_a None) (\<lambda>_. retK s)))"

text \<open>
  \<open>Allocator::new\<close>: three pages are mapped at \<open>PMM_STACK\<close> and the rest of the ranges pushed. The stack
  and its counters are whatever those pages hold; \<open>stacks_at\<close> stands for reading them.
\<close>

(* src/kernel/src/memory/allocator.rs:150-153 Allocator::new *)
definition stack_pages :: "usize" where
  "stack_pages = ((1 * MEM_TOTAL_SIZE + PAGE_OFFSET_MASK) AND NOT PAGE_OFFSET_MASK) div PAGE_SIZE"

(* src/kernel/src/memory/allocator.rs:145-188 Allocator::new *)
definition allocator_new :: "(machine \<Rightarrow> stacks) \<Rightarrow> ppn_range list \<Rightarrow> (unit + allocator) kern" where
  "allocator_new stacks_at pages =
     bindK (allocate_pages (\<lambda>(pages, i). bindP (new_pop_page pages i) (\<lambda>(p, pages', i'). Inr (p, pages', i')))
       (rr_start (reserved ''PMM_STACK'')) stack_pages (pages, 0)) (\<lambda>(pages, i) m.
     bindP (insert_ranges \<lparr>al_stacks = stacks_at m\<rparr> pages) (\<lambda>a. Inr (Inr a, m)))"

(* src/kernel/src/memory/mod.rs:58-66 mem_add_ranges *)
definition mem_add_ranges :: "(machine \<Rightarrow> stacks) \<Rightarrow> bool \<Rightarrow> ppn_range list \<Rightarrow> unit kern" where
  "mem_add_ranges stacks_at initialised ranges =
     (if initialised then panicK Explicit_Panic
      else bindK (unwrapK (allocator_new stacks_at ranges)) (\<lambda>a m. Inr ((), m\<lparr>mc_alloc := a\<rparr>)))"

end
