(* ===== verification/Sv39_Tree.thy ===== *)
theory Sv39_Tree
  imports Sv39
begin

text \<open>
  Page tables in memory as a tree: the tables below a root, the abstract map from page indices to
  leaves they stand for, and how that map and the tree change when one entry is written.
\<close>

subsection \<open>Tables and lookups\<close>

definition tab :: "phys \<Rightarrow> ppn \<Rightarrow> idx \<Rightarrow> ppn option" where
  "tab mem f i = (if entry_is_valid (mem f i) \<and> is_table (mem f i) then Some (entry_ppn (mem f i)) else None)"

definition tab0 :: "phys \<Rightarrow> ppn \<Rightarrow> idx \<Rightarrow> idx \<Rightarrow> ppn option" where
  "tab0 mem r i j = (case tab mem r i of None \<Rightarrow> None | Some t \<Rightarrow> tab mem t j)"

definition tables :: "phys \<Rightarrow> ppn \<Rightarrow> ppn set" where
  "tables mem r = {r} \<union> {t. \<exists>i. tab mem r i = Some t} \<union> {t. \<exists>i j. tab0 mem r i j = Some t}"

text \<open>What a page address is mapped to: the level of the leaf and the leaf, in the order of the indices.\<close>

definition vm_lookup :: "phys \<Rightarrow> ppn \<Rightarrow> idx \<times> idx \<times> idx \<Rightarrow> (nat \<times> leaf) option" where
  "vm_lookup mem r = (\<lambda>(i, j, k).
     if \<not> entry_is_valid (mem r i) then None
     else if \<not> is_table (mem r i) then Some (2, mem r i)
     else let t1 = entry_ppn (mem r i) in
     if \<not> entry_is_valid (mem t1 j) then None
     else if \<not> is_table (mem t1 j) then Some (1, mem t1 j)
     else let t0 = entry_ppn (mem t1 j) in
     if \<not> leaf_is_valid (mem t0 k) then None else Some (0, mem t0 k))"

text \<open>No two paths from the root reach the same table.\<close>

definition tree :: "phys \<Rightarrow> ppn \<Rightarrow> bool" where
  "tree mem r \<longleftrightarrow>
     (\<forall>i. tab mem r i \<noteq> Some r) \<and> (\<forall>i j. tab0 mem r i j \<noteq> Some r)
     \<and> (\<forall>i i' t. tab mem r i = Some t \<and> tab mem r i' = Some t \<longrightarrow> i = i')
     \<and> (\<forall>i j i' j' t. tab0 mem r i j = Some t \<and> tab0 mem r i' j' = Some t \<longrightarrow> i = i' \<and> j = j')
     \<and> (\<forall>i i' j' t. tab mem r i = Some t \<longrightarrow> tab0 mem r i' j' \<noteq> Some t)"

lemma treeD:
  assumes "tree mem r"
  shows "tab mem r i \<noteq> Some r" "tab0 mem r i j \<noteq> Some r"
    "tab mem r i = Some t \<Longrightarrow> tab mem r i' = Some t \<Longrightarrow> i = i'"
    "tab0 mem r i j = Some t \<Longrightarrow> tab0 mem r i' j' = Some t \<Longrightarrow> i = i' \<and> j = j'"
    "tab mem r i = Some t \<Longrightarrow> tab0 mem r i' j' \<noteq> Some t"
  using assms unfolding tree_def by blast+

lemma tables_intros [intro]:
  "r \<in> tables mem r" "tab mem r i = Some t \<Longrightarrow> t \<in> tables mem r" "tab0 mem r i j = Some t \<Longrightarrow> t \<in> tables mem r"
  by (auto simp: tables_def)

lemma tab_new_table [simp]: "tab (mem_upd mem f i (new_table p)) f i = Some p"
  by (simp add: tab_def new_table_pte entry_is_valid_bit is_table_bits bit_pte)

lemma tab_upd_other: "(f, i) \<noteq> (g, j) \<Longrightarrow> tab (mem_upd mem f i v) g j = tab mem g j"
  by (auto simp: tab_def mem_upd_apply)

lemma tab_zero: "mem p i = 0 \<Longrightarrow> tab mem p i = None"
  by (simp add: tab_def entry_is_valid_bit)

lemma vm_lookup_alt:
  "vm_lookup mem r (i, j, k) =
    (case tab mem r i of None \<Rightarrow> if entry_is_valid (mem r i) then Some (2, mem r i) else None
     | Some t1 \<Rightarrow> (case tab mem t1 j of None \<Rightarrow> if entry_is_valid (mem t1 j) then Some (1, mem t1 j) else None
       | Some t0 \<Rightarrow> if leaf_is_valid (mem t0 k) then Some (0, mem t0 k) else None))"
  by (simp add: vm_lookup_def tab_def Let_def)

subsection \<open>Writes outside the tables\<close>

lemma tables_cong:
  assumes "\<And>f i. f \<in> tables mem r \<Longrightarrow> mem' f i = mem f i"
  shows "tab mem' r = tab mem r" "tab0 mem' r = tab0 mem r" "tables mem' r = tables mem r"
    "tree mem' r = tree mem r" "vm_lookup mem' r = vm_lookup mem r"
proof -
  have r: "mem' r = mem r" using assms tables_intros(1) by blast
  then show t1: "tab mem' r = tab mem r" by (simp add: fun_eq_iff tab_def)
  have t: "mem' t = mem t" if "tab mem r i = Some t" for t i using that assms tables_intros(2) by blast
  have s: "mem' t = mem t" if "tab0 mem r i j = Some t" for t i j using that assms tables_intros(3) by blast
  have tt: "tab mem' t j = tab mem t j" if "tab mem r i = Some t" for t i j using t [OF that] by (simp add: tab_def)
  show t0: "tab0 mem' r = tab0 mem r"
    by (intro ext) (auto simp: tab0_def t1 tt split: option.splits)
  show "tables mem' r = tables mem r" by (simp add: tables_def t1 t0)
  show "tree mem' r = tree mem r" by (simp add: tree_def t1 t0)
  show "vm_lookup mem' r = vm_lookup mem r"
  proof (rule ext, clarify)
    fix i j k
    show "vm_lookup mem' r (i, j, k) = vm_lookup mem r (i, j, k)"
    proof (cases "tab mem r i")
      case None
      then show ?thesis by (simp add: vm_lookup_alt t1 r)
    next
      case (Some t)
      have a: "tab mem' t j = tab mem t j" using t [OF Some] by (simp add: tab_def)
      show ?thesis
      proof (cases "tab mem t j")
        case None
        then show ?thesis using Some t [OF Some] a by (simp add: vm_lookup_alt t1)
      next
        case (Some u)
        then have "mem' u = mem u" using s [of i j u] \<open>tab mem r i = Some t\<close> by (simp add: tab0_def)
        then show ?thesis using Some \<open>tab mem r i = Some t\<close> a by (simp add: vm_lookup_alt t1)
      qed
    qed
  qed
qed

lemma tables_upd_outside:
  assumes "f \<notin> tables mem r"
  shows "tab (mem_upd mem f i v) r = tab mem r" "tab0 (mem_upd mem f i v) r = tab0 mem r"
    "tables (mem_upd mem f i v) r = tables mem r" "tree (mem_upd mem f i v) r = tree mem r"
    "vm_lookup (mem_upd mem f i v) r = vm_lookup mem r"
  using assms by (intro tables_cong; auto simp: mem_upd_apply)+

subsection \<open>New tables\<close>

text \<open>
  An invalid entry of the root, or of a table below it, becomes a fresh table of zeros: the tree gains
  that table and the map stands for the same leaves.
\<close>

lemma tree_new_table_root:
  assumes tree: "tree mem r" and inval: "\<not> entry_is_valid (mem r i)" and p: "p \<notin> tables mem r" "\<And>j. mem p j = 0"
  defines "mem' \<equiv> mem_upd mem r i (new_table p)"
  shows "tree mem' r" "tables mem' r = insert p (tables mem r)" "vm_lookup mem' r = vm_lookup mem r" "tab mem' r i = Some p"
proof -
  have i: "tab mem r i = None" using inval by (simp add: tab_def)
  have pr: "p \<noteq> r" using p(1) by auto
  have t1: "tab mem' r i' = (if i' = i then Some p else tab mem r i')" for i'
    using tab_upd_other [of r i r i' mem] by (simp add: mem'_def)
  have tp: "tab mem' p j = None" for j using pr p(2) by (intro tab_zero) (simp add: mem'_def mem_upd_apply)
  have tt: "tab mem' t j = tab mem t j" if "t \<noteq> r" for t j
    using that by (simp add: mem'_def tab_upd_other)
  have t0: "tab0 mem' r = tab0 mem r"
  proof (intro ext)
    fix i' j'
    have "tab mem' t j' = tab mem t j'" if "tab mem r i' = Some t" for t
      using that treeD(1) [OF tree, of i'] by (intro tt) auto
    then show "tab0 mem' r i' j' = tab0 mem r i' j'" using i tp by (auto simp: tab0_def t1 split: option.splits)
  qed
  have T1: "tab mem' r i' = Some t \<longleftrightarrow> (i' = i \<and> t = p) \<or> tab mem r i' = Some t" for i' t using t1 i by auto
  show "tab mem' r i = Some p" by (simp add: t1)
  show "tables mem' r = insert p (tables mem r)"
    unfolding tables_def t0 T1 by auto
  have p1: "tab mem r i' \<noteq> Some p" and p0: "tab0 mem r i' j' \<noteq> Some p" for i' j' using p(1) by blast+
  show "tree mem' r"
    unfolding tree_def t0 T1 using tree pr p1 p0 i unfolding tree_def by (elim conjE) (intro conjI; metis option.distinct(1))
  show "vm_lookup mem' r = vm_lookup mem r"
  proof (rule ext, clarify)
    fix i' j k
    show "vm_lookup mem' r (i', j, k) = vm_lookup mem r (i', j, k)"
    proof (cases "i' = i")
      case True
      moreover have "\<not> entry_is_valid (mem' p j)" using p(2) pr by (simp add: mem'_def mem_upd_apply entry_is_valid_bit)
      ultimately show ?thesis using i inval tp by (simp add: vm_lookup_alt t1)
    next
      case False
      then have e: "mem' r i' = mem r i'" by (simp add: mem'_def mem_upd_apply)
      show ?thesis
      proof (cases "tab mem r i'")
        case None
        then show ?thesis using False e by (simp add: vm_lookup_alt t1)
      next
        case (Some t)
        then have "t \<noteq> r" using treeD(1) [OF tree] by auto
        then have m: "mem' t = mem t" by (auto simp: mem'_def mem_upd_def)
        have "u \<noteq> r" if "tab mem t j = Some u" for u
          using that Some treeD(2) [OF tree, of i' j] by (auto simp: tab0_def)
        then have "mem' u = mem u" if "tab mem t j = Some u" for u
          using that by (auto simp: mem'_def mem_upd_def)
        then show ?thesis using False Some m \<open>t \<noteq> r\<close> by (auto simp: vm_lookup_alt t1 tt split: option.splits)
      qed
    qed
  qed
qed

lemma tree_new_table_mid:
  assumes tree: "tree mem r" and t1: "tab mem r i = Some t1" and inval: "\<not> entry_is_valid (mem t1 j)"
    and p: "p \<notin> tables mem r" "\<And>j. mem p j = 0"
  defines "mem' \<equiv> mem_upd mem t1 j (new_table p)"
  shows "tree mem' r" "tables mem' r = insert p (tables mem r)" "vm_lookup mem' r = vm_lookup mem r"
    "tab mem' r = tab mem r" "tab0 mem' r i j = Some p"
proof -
  have j: "tab mem t1 j = None" using inval by (simp add: tab_def)
  have t1r: "t1 \<noteq> r" using t1 treeD(1) [OF tree] by auto
  have pr: "p \<noteq> r" "p \<noteq> t1" using p(1) t1 by auto
  show r: "tab mem' r = tab mem r" using t1r by (auto simp: fun_eq_iff mem'_def tab_upd_other)
  have tt: "tab mem' t j' = (if t = t1 \<and> j' = j then Some p else tab mem t j')" for t j'
    by (auto simp: mem'_def tab_upd_other)
  have t0: "tab0 mem' r i' j' = (if i' = i \<and> j' = j then Some p else tab0 mem r i' j')" for i' j'
  proof (cases "tab mem r i'")
    case None
    then show ?thesis using t1 by (auto simp: tab0_def r)
  next
    case (Some t)
    then have "t = t1 \<longleftrightarrow> i' = i" using t1 treeD(3) [OF tree t1, of i'] by auto
    then show ?thesis using Some by (simp add: tab0_def r tt)
  qed
  show "tab0 mem' r i j = Some p" by (simp add: t0)
  have ij: "tab0 mem r i j = None" using t1 j by (simp add: tab0_def)
  have T0: "tab0 mem' r i' j' = Some t \<longleftrightarrow> (i' = i \<and> j' = j \<and> t = p) \<or> tab0 mem r i' j' = Some t" for i' j' t
    using t0 ij by auto
  show "tables mem' r = insert p (tables mem r)"
    unfolding tables_def r T0 by auto
  have p1: "tab mem r i' \<noteq> Some p" and p0: "tab0 mem r i' j' \<noteq> Some p" for i' j' using p(1) by blast+
  show "tree mem' r"
    unfolding tree_def r T0 using tree pr p1 p0 ij unfolding tree_def by (elim conjE) (intro conjI; metis option.distinct(1))
  show "vm_lookup mem' r = vm_lookup mem r"
  proof (rule ext, clarify)
    fix i' j' k
    have mr: "mem' r = mem r" using t1r by (auto simp: mem'_def mem_upd_def)
    show "vm_lookup mem' r (i', j', k) = vm_lookup mem r (i', j', k)"
    proof (cases "tab mem r i'")
      case None
      then show ?thesis by (simp add: vm_lookup_alt r mr)
    next
      case (Some t)
      show ?thesis
      proof (cases "t = t1 \<and> j' = j")
        case True
        moreover have "\<not> leaf_is_valid (mem' p k)" using p(2) pr by (simp add: mem'_def mem_upd_apply leaf_is_valid_bit)
        ultimately show ?thesis using Some j inval by (simp add: vm_lookup_alt r tt)
      next
        case False
        then have e: "mem' t j' = mem t j'" by (auto simp: mem'_def mem_upd_apply)
        have "u \<noteq> t1" if "tab mem t j' = Some u" for u
          using that Some t1 treeD(5) [OF tree t1, of i' j'] by (auto simp: tab0_def)
        then have "mem' u = mem u" if "tab mem t j' = Some u" for u
          using that by (auto simp: mem'_def mem_upd_def)
        then show ?thesis using False Some e by (auto simp: vm_lookup_alt r tt split: option.splits)
      qed
    qed
  qed
qed

subsection \<open>Leaves and windows\<close>

lemma tree_set_leaf:
  fixes k :: idx and v :: leaf
  assumes tree: "tree mem r" and t0: "tab0 mem r i j = Some t0"
  defines "mem' \<equiv> mem_upd mem t0 k v"
  shows "tab mem' r = tab mem r" "tab0 mem' r = tab0 mem r" "tree mem' r" "tables mem' r = tables mem r"
    "vm_lookup mem' r = (vm_lookup mem r)((i, j, k) := (if leaf_is_valid v then Some (0, v) else None))"
proof -
  obtain t1 where t1: "tab mem r i = Some t1" "tab mem t1 j = Some t0"
    using t0 by (auto simp: tab0_def split: option.splits)
  have n: "t0 \<noteq> r" using t0 treeD(2) [OF tree] by auto
  have m: "t0 \<noteq> t" if "tab mem r i' = Some t" for i' t using that t0 treeD(5) [OF tree that] by auto
  show r: "tab mem' r = tab mem r" using n by (auto simp: fun_eq_iff mem'_def tab_upd_other)
  have tt: "tab mem' t = tab mem t" if "tab mem r i' = Some t" for i' t
    using m [OF that] by (auto simp: fun_eq_iff mem'_def tab_upd_other)
  show s: "tab0 mem' r = tab0 mem r" by (intro ext) (auto simp: tab0_def r tt split: option.splits)
  show "tree mem' r" using tree by (simp add: tree_def r s)
  show "tables mem' r = tables mem r" by (simp add: tables_def r s)
  have mm: "mem' t x = (if t = t0 \<and> x = k then v else mem t x)" for t x
    by (simp add: mem'_def mem_upd_apply)
  have lk: "vm_lookup mem' r (i', j', k') =
      (if (i', j', k') = (i, j, k) then (if leaf_is_valid v then Some (0, v) else None) else vm_lookup mem r (i', j', k'))"
    for i' j' k'
  proof (cases "tab mem r i'")
    case None
    then show ?thesis using n t1(1) by (auto simp: vm_lookup_alt r mm)
  next
    case (Some t)
    show ?thesis
    proof (cases "tab mem t j'")
      case None
      then show ?thesis using Some t1 m [OF Some] tt [OF Some] by (auto simp: vm_lookup_alt r mm)
    next
      case (Some u)
      then have u: "tab0 mem r i' j' = Some u" using \<open>tab mem r i' = Some t\<close> by (simp add: tab0_def)
      have "u = t0 \<longleftrightarrow> i' = i \<and> j' = j" using u t0 treeD(4) [OF tree u, of i j] by auto
      then show ?thesis using Some \<open>tab mem r i' = Some t\<close> tt [OF \<open>tab mem r i' = Some t\<close>]
        by (simp add: vm_lookup_alt r mm)
    qed
  qed
  then show "vm_lookup mem' r = (vm_lookup mem r)((i, j, k) := (if leaf_is_valid v then Some (0, v) else None))"
    by (auto simp: fun_eq_iff)
qed

lemma tree_window:
  assumes tree: "tree mem r" and w: "tab mem r w = None" "\<not> (entry_is_valid v \<and> is_table v)"
  defines "mem' \<equiv> mem_upd mem r w v"
  shows "tab mem' r = tab mem r" "tab0 mem' r = tab0 mem r" "tree mem' r" "tables mem' r = tables mem r"
    "i \<noteq> w \<Longrightarrow> vm_lookup mem' r (i, j, k) = vm_lookup mem r (i, j, k)"
proof -
  have tw: "tab mem' r w = None" using w(2) by (auto simp: mem'_def tab_def)
  have "tab mem' r x = tab mem r x" for x
    using w(1) tw by (cases "x = w") (auto simp: mem'_def tab_upd_other)
  then show r: "tab mem' r = tab mem r" by (simp add: fun_eq_iff)
  have tt: "mem' t = mem t" if "tab mem r i' = Some t" for i' t
    using that treeD(1) [OF tree] by (auto simp: mem'_def mem_upd_def)
  have tt': "tab mem' t = tab mem t" if "tab mem r i' = Some t" for i' t
    using tt [OF that] by (simp add: fun_eq_iff tab_def)
  show s: "tab0 mem' r = tab0 mem r" by (intro ext) (auto simp: tab0_def r tt' split: option.splits)
  show "tree mem' r" using tree by (simp add: tree_def r s)
  show "tables mem' r = tables mem r" by (simp add: tables_def r s)
  have uu: "mem' u = mem u" if "tab0 mem r i' j' = Some u" for i' j' u
    using that treeD(2) [OF tree] by (auto simp: mem'_def mem_upd_def)
  assume iw: "i \<noteq> w"
  then have ri: "mem' r i = mem r i" by (simp add: mem'_def mem_upd_apply)
  show "vm_lookup mem' r (i, j, k) = vm_lookup mem r (i, j, k)"
  proof (cases "tab mem r i")
    case None
    then show ?thesis by (simp add: vm_lookup_alt r ri)
  next
    case (Some t)
    then show ?thesis using tt [OF Some] tt' [OF Some] uu [of i j]
      by (cases "tab mem t j") (simp_all add: vm_lookup_alt r tab0_def)
  qed
qed

end
