(* ===== verification/Sv39_Access.thy ===== *)
theory Sv39_Access
  imports Sv39_Tree
begin

text \<open>
  Access to page tables through virtual addresses: when the root table maps itself, a store to \<open>ROOT\<close>
  writes the root table, and after \<open>map_highmem_a\<close> or \<open>map_highmem_b\<close> the page returned by the
  translation functions shows exactly the table asked for.
\<close>

subsection \<open>Words of a page\<close>

lemma page_word:
  assumes "4096 dvd unat p" "unat i < 512"
  shows "unat (p + 8 * i) = unat p + 8 * unat i" "drop_bit 12 (p + 8 * i) = drop_bit 12 (p :: usize)"
    "word_index (p + 8 * i) = ucast i"
proof -
  obtain k where k: "unat p = 4096 * k" using assms(1) by auto
  have p: "unat p \<le> 2 ^ 64 - 4096" using unat_bounds(4) [of p] unfolding k by simp
  have e: "unat (8 * i) = 8 * unat i" using assms(2) by (subst unat_mult_no_overflow) simp_all
  show u: "unat (p + 8 * i) = unat p + 8 * unat i"
    using p e assms(2) by (subst unat_add_no_overflow) simp_all
  have "unat (drop_bit 12 (p + 8 * i)) = unat (drop_bit 12 p)"
    unfolding unat_drop_bit u k using assms(2) by simp
  then show "drop_bit 12 (p + 8 * i) = drop_bit 12 p" by (simp only: word_unat_eq_iff)
  have "unat (ucast (drop_bit 3 (p + 8 * i)) :: idx) = unat (ucast i :: idx)"
    using assms(2) by (simp add: unsigned_ucast_eq take_bit_eq_mod unat_drop_bit u k)
  then show "word_index (p + 8 * i) = ucast i" by (simp only: word_unat_eq_iff word_index_def)
qed

lemma vpn_page:
  assumes "drop_bit 12 va = drop_bit 12 (va' :: usize)"
  shows "vpn2 va = vpn2 va'" "vpn1 va = vpn1 va'" "vpn0 va = vpn0 va'" "hw_canonical va = hw_canonical va'"
proof -
  have "drop_bit 30 x = drop_bit 18 (drop_bit 12 x)" "drop_bit 21 x = drop_bit 9 (drop_bit 12 x)" for x :: usize
    by (simp_all add: drop_bit_drop_bit)
  then have "drop_bit 30 va = drop_bit 30 va'" "drop_bit 21 va = drop_bit 21 va'" using assms by metis+
  then show "vpn2 va = vpn2 va'" "vpn1 va = vpn1 va'" "vpn0 va = vpn0 va'"
    using assms by (simp_all only: vpn2_def vpn1_def vpn0_def)
  have "unat va div 4096 = unat va' div 4096" using arg_cong [OF assms, of unat] by (simp add: unat_drop_bit)
  moreover have "hw_canonical x \<longleftrightarrow> unat x div 4096 < 2 ^ 26 \<or> 2 ^ 52 - 2 ^ 26 \<le> unat x div 4096" for x
    by (simp add: hw_canonical_def div_less_iff_less_mult less_eq_div_iff_mult_less_eq)
  ultimately show "hw_canonical va = hw_canonical va'" by simp
qed

lemma hw_translate_page:
  assumes "drop_bit 12 va = drop_bit 12 va'"
  shows "hw_translate mem r a va = hw_translate mem r a va'"
proof -
  have "hw_leaf_frame a n e va = hw_leaf_frame a n e va'" for n e
    by (simp only: hw_leaf_frame_def assms)
  then show ?thesis by (simp only: hw_translate_def vpn_page [OF assms])
qed

definition maps_page :: "machine \<Rightarrow> page \<Rightarrow> ppn \<Rightarrow> bool" where
  "maps_page m p f \<longleftrightarrow> 4096 dvd unat p \<and> (\<forall>a. a \<noteq> Fetch \<longrightarrow> hw_translate (mc_mem m) (mc_root m) a p = Some f)"

lemma load_page [kern_simps]:
  "maps_page m p f \<Longrightarrow> unat i < 512 \<Longrightarrow> load_u64 (p + 8 * i) m = Inr (mc_mem m f (ucast i), m)"
  using page_word [of p i] hw_translate_page [of "p + 8 * i" p "mc_mem m" "mc_root m" Load]
  by (simp add: maps_page_def load_u64_def)

lemma store_page [kern_simps]:
  "maps_page m p f \<Longrightarrow> unat i < 512 \<Longrightarrow>
    store_u64 (p + 8 * i) v m = Inr ((), m\<lparr>mc_mem := mem_upd (mc_mem m) f (ucast i) v\<rparr>)"
  using page_word [of p i] hw_translate_page [of "p + 8 * i" p "mc_mem m" "mc_root m" Store]
  by (simp add: maps_page_def store_u64_def)

subsection \<open>The root table\<close>

abbreviation A_INDEX :: idx where "A_INDEX \<equiv> 365"
abbreviation B_INDEX :: idx where "B_INDEX \<equiv> 364"
abbreviation ROOT_INDEX :: idx where "ROOT_INDEX \<equiv> 363"

text \<open>The chain of entries that maps \<open>ROOT\<close> to the root table itself, as \<open>new\<close> and \<open>allocate_pages\<close> make it.\<close>

definition self_map :: "phys \<Rightarrow> ppn \<Rightarrow> bool" where
  "self_map mem r \<longleftrightarrow> (\<exists>t1 t0. mem r ROOT_INDEX = new_table t1 \<and> mem t1 511 = new_table t0
     \<and> mem t0 511 = pte (ucast r) (leaf_flags (Map_Private r) RWX_RW KernelLocal))"

lemma root_indices:
  "vpn2 ROOT = ROOT_INDEX" "vpn1 ROOT = 511" "vpn0 ROOT = 511" "vpn2 HIGHMEM_A = A_INDEX" "vpn2 HIGHMEM_B = B_INDEX"
  "hw_canonical ROOT" "4096 dvd unat ROOT"
  by (simp_all add: vpn2_def vpn1_def vpn0_def window_addresses hw_canonical_def)

lemma leaf_hw:
  "hw_valid (pte (ucast p) (leaf_flags mp RWX_RW KernelLocal))"
  "hw_leaf (pte (ucast p) (leaf_flags mp RWX_RW KernelLocal))"
  "a \<noteq> Fetch \<Longrightarrow> hw_perm a (pte (ucast (p :: ppn)) (leaf_flags mp RWX_RW KernelLocal))"
  by (auto simp: hw_valid_def hw_leaf_def hw_perm_def bit_pte bit_leaf_flags simp del: One_nat_def split: access.split)

lemma self_map_ROOT: "self_map (mc_mem m) (mc_root m) \<Longrightarrow> maps_page m ROOT (mc_root m)"
  by (auto simp: self_map_def maps_page_def root_indices hw_translate_def hw_leaf_frame_def Let_def new_table_pte
      table_entry_hw leaf_hw)

subsection \<open>The windows\<close>

definition window_page :: "page \<Rightarrow> ppn \<Rightarrow> page" where
  "window_page base p = base + (ucast p mod push_bit 18 1) * 4096"

lemma unat_window_offset: "unat (ucast (p :: ppn) mod push_bit 18 1 :: usize) = unat p mod 2 ^ 18"
  by (simp add: unat_mod)

lemma window_page_facts:
  assumes "base = HIGHMEM_A \<or> base = HIGHMEM_B"
  shows "unat (window_page base p) = unat base + unat p mod 2 ^ 18 * 4096"
    "page_skip base (ucast p mod push_bit 18 1) = Some (window_page base p)"
    "4096 dvd unat (window_page base p)" "vpn2 (window_page base p) = vpn2 base" "hw_canonical (window_page base p)"
    "ucast (drop_bit 12 (window_page base p)) AND mask 18 = p AND mask 18"
proof -
  let ?q = "unat p mod 2 ^ 18"
  have q: "?q < 2 ^ 18" by simp
  obtain K where K: "unat base = 2 ^ 30 * K" "K < 2 ^ 34 - 1" "2 ^ 34 - 2 ^ 8 \<le> K" "base \<noteq> 0"
    using assms by (auto simp: window_addresses)
  have l: "unat base + ?q * 4096 < 2 ^ 64" using K q by simp
  with K(4) have s: "page_skip base (ucast p mod push_bit 18 1) = Some (base + (ucast p mod push_bit 18 1) * 4096)"
      "unat (base + (ucast p mod push_bit 18 1) * 4096) = unat base + ?q * 4096"
    by (intro page_skip_Some [where n = "ucast p mod push_bit 18 1", unfolded unat_window_offset]; simp)+
  show "page_skip base (ucast p mod push_bit 18 1) = Some (window_page base p)" using s by (simp add: window_page_def)
  show u: "unat (window_page base p) = unat base + ?q * 4096" using s(2) by (simp add: window_page_def)
  show "4096 dvd unat (window_page base p)" unfolding u K by simp
  show "hw_canonical (window_page base p)" unfolding hw_canonical_def u using K q by simp
  have "unat (drop_bit 30 (window_page base p)) = unat (drop_bit 30 base)"
    unfolding unat_drop_bit u K using q by simp
  then have "drop_bit 30 (window_page base p) = drop_bit 30 base" by (simp only: word_unat_eq_iff)
  then show "vpn2 (window_page base p) = vpn2 base" by (simp only: vpn2_def)
  have "unat (ucast (drop_bit 12 (window_page base p)) AND mask 18 :: ppn) = unat (p AND mask 18)"
    unfolding unat_and_mask unsigned_ucast_eq take_bit_eq_mod unat_drop_bit u K using q
    by (simp add: mod_mod_cancel)
  then show "ucast (drop_bit 12 (window_page base p)) AND mask 18 = p AND mask 18" by (simp only: word_unat_eq_iff)
qed

text \<open>Page tables that the windows can show: bit 22 of their number is clear.\<close>

lemma window_frame_plus: "\<not> bit p 22 \<Longrightarrow> window_frame p + (p AND mask 18) = p"
  using unat_add_no_overflow [of "window_frame p" "p AND mask 18"] unat_bounds(3) [of p]
  by (simp add: word_unat_eq_iff window_frame_low unat_and_mask)

lemma window_translate:
  assumes "base = HIGHMEM_A \<or> base = HIGHMEM_B" "\<not> bit p 22"
    "mem r (vpn2 base) = pte (ucast (window_frame p)) 199" "a \<noteq> Fetch"
  shows "hw_translate mem r a (window_page base p) = Some p"
  using assms(2-4) window_page_facts [OF assms(1), of p] window_frame_plus [OF assms(2)]
  by (simp add: hw_translate_def hw_leaf_frame_def window_entry_hw window_frame_aligned Let_def)

end
