(* ===== verification/Sv39_Walk.thy ===== *)
theory Sv39_Walk
  imports Sv39_Access
begin

text \<open>
  The invariant of the page tables of the active address space, and what the walks do to it: a walk
  moves the windows and may add tables, and leaves the map of addresses to leaves as it was.
\<close>

subsection \<open>Invariant\<close>

definition vm_ok :: "phys \<Rightarrow> ppn \<Rightarrow> ppn set \<Rightarrow> bool" where
  "vm_ok mem r F \<longleftrightarrow> self_map mem r \<and> tree mem r \<and> tab mem r A_INDEX = None \<and> tab mem r B_INDEX = None
     \<and> (\<forall>t \<in> tables mem r. \<not> bit t 22 \<and> t \<notin> F) \<and> (\<forall>p \<in> F. \<not> bit p 22 \<and> (\<forall>j. mem p j = 0))"

definition vms_inv :: "machine \<Rightarrow> bool" where
  "vms_inv m \<longleftrightarrow> vm_ok (mc_mem m) (mc_root m) (set (free_pages (mc_alloc m)))
     \<and> alloc_inv (mc_alloc m) \<and> distinct (free_pages (mc_alloc m))"

abbreviation window_index :: "idx \<Rightarrow> bool" where
  "window_index i \<equiv> i = A_INDEX \<or> i = B_INDEX"

text \<open>The index of an ordinary address: not in a window, and not in the gigapage of \<open>ROOT\<close>.\<close>

definition plain_index :: "idx \<Rightarrow> bool" where
  "plain_index i \<longleftrightarrow> \<not> window_index i \<and> i \<noteq> ROOT_INDEX"

lemma vm_okD:
  assumes "vm_ok mem r F"
  shows "self_map mem r" "tree mem r" "tab mem r A_INDEX = None" "tab mem r B_INDEX = None"
    "t \<in> tables mem r \<Longrightarrow> \<not> bit t 22" "t \<in> tables mem r \<Longrightarrow> t \<notin> F" "p \<in> F \<Longrightarrow> \<not> bit p 22" "p \<in> F \<Longrightarrow> mem p j = 0"
  using assms unfolding vm_ok_def by blast+

lemma self_map_tabs:
  assumes "self_map mem r"
  obtains t1 t0 where "tab mem r ROOT_INDEX = Some t1" "tab mem t1 511 = Some t0"
    "mem r ROOT_INDEX = new_table t1" "mem t1 511 = new_table t0"
    "mem t0 511 = pte (ucast r) (leaf_flags (Map_Private r) RWX_RW KernelLocal)"
  using assms unfolding self_map_def
  by (auto simp: tab_def new_table_pte entry_is_valid_bit is_table_bits bit_pte)

text \<open>Writes that keep the chain of \<open>ROOT\<close>.\<close>

lemma self_map_upd:
  assumes "self_map mem r" "tree mem r"
    and "f = r \<and> i \<noteq> ROOT_INDEX \<or> (\<exists>i'. tab mem r i' = Some f \<and> i' \<noteq> ROOT_INDEX)
      \<or> (\<exists>i' j'. tab0 mem r i' j' = Some f \<and> i' \<noteq> ROOT_INDEX) \<or> f \<notin> tables mem r"
  shows "self_map (mem_upd mem f i v) r"
proof -
  obtain t1 t0 where t: "tab mem r ROOT_INDEX = Some t1" "tab mem t1 511 = Some t0"
    "mem r ROOT_INDEX = new_table t1" "mem t1 511 = new_table t0"
    "mem t0 511 = pte (ucast r) (leaf_flags (Map_Private r) RWX_RW KernelLocal)"
    using self_map_tabs [OF assms(1)] by metis
  have t0: "tab0 mem r ROOT_INDEX 511 = Some t0" using t by (simp add: tab0_def)
  note D = treeD [OF assms(2)]
  have "f \<noteq> t1"
  proof
    assume f: "f = t1"
    have "\<And>i'. tab mem r i' = Some t1 \<Longrightarrow> i' = ROOT_INDEX" using D(3) [OF t(1)] by blast
    moreover have "\<And>i' j'. tab0 mem r i' j' \<noteq> Some t1" using D(5) [OF t(1)] by blast
    moreover have "t1 \<in> tables mem r" "t1 \<noteq> r" using t(1) D(1) by auto
    ultimately show False using assms(3) unfolding f by blast
  qed
  moreover have "f \<noteq> t0"
  proof
    assume f: "f = t0"
    have "\<And>i'. tab mem r i' \<noteq> Some t0" using D(5) t0 by blast
    moreover have "\<And>i' j'. tab0 mem r i' j' = Some t0 \<Longrightarrow> i' = ROOT_INDEX" using D(4) [OF t0] by blast
    moreover have "t0 \<in> tables mem r" "t0 \<noteq> r" using t0 D(2) by auto
    ultimately show False using assms(3) unfolding f by blast
  qed
  moreover have "f = r \<Longrightarrow> i \<noteq> ROOT_INDEX" using assms(3) D(1,2) by blast
  ultimately show ?thesis
    using t(3-) unfolding self_map_def by (intro exI [of _ t1] exI [of _ t0]) (auto simp: mem_upd_apply)
qed

lemma not_table_window: "\<not> (entry_is_valid (pte (ucast (p :: ppn)) 199) \<and> is_table (pte (ucast p) 199))"
  by (simp add: is_table_bits bit_pte)

lemma not_table_invalid: "\<not> (entry_is_valid new_invalid \<and> is_table new_invalid)"
  by (simp add: new_invalid_def entry_is_valid_bit)

lemma vm_ok_window:
  assumes ok: "vm_ok mem r F" and w: "window_index w" "\<not> (entry_is_valid v \<and> is_table v)"
  shows "vm_ok (mem_upd mem r w v) r F"
proof -
  note D = vm_okD [OF ok]
  have tw: "tab mem r w = None" using w(1) D(3,4) by auto
  note W = tree_window [OF D(2) tw w(2)]
  have "r \<notin> F" using D(6) by blast
  then have "mem_upd mem r w v p j = 0" if "p \<in> F" for p j using that D(8) by (auto simp: mem_upd_apply)
  moreover have "self_map (mem_upd mem r w v) r" using D(1,2) w(1) by (intro self_map_upd) auto
  ultimately show ?thesis unfolding vm_ok_def W(1,2,4) using W(3) D by blast
qed

lemma vm_ok_new_table_root:
  assumes ok: "vm_ok mem r F" and i: "plain_index i" "\<not> entry_is_valid (mem r i)" and p: "p \<in> F"
  shows "vm_ok (mem_upd mem r i (new_table p)) r (F - {p})"
proof -
  note D = vm_okD [OF ok]
  have pt: "p \<notin> tables mem r" using D(6) p by blast
  note N = tree_new_table_root [OF D(2) i(2) pt D(8) [OF p]]
  have r: "r \<notin> F" using D(6) by blast
  then have z: "mem_upd mem r i (new_table p) q j = 0" if "q \<in> F" for q j
    using that D(8) by (auto simp: mem_upd_apply)
  have w: "tab (mem_upd mem r i (new_table p)) r w = None" if "window_index w" for w
    using that i(1) D(3,4) by (auto simp: plain_index_def tab_upd_other)
  have "self_map (mem_upd mem r i (new_table p)) r"
    using D(1,2) i(1) by (intro self_map_upd) (auto simp: plain_index_def)
  then show ?thesis unfolding vm_ok_def N(2) using N(1) w z D p by blast
qed

lemma vm_ok_new_table_mid:
  assumes ok: "vm_ok mem r F" and i: "plain_index i" "tab mem r i = Some t1" "\<not> entry_is_valid (mem t1 j)" and p: "p \<in> F"
  shows "vm_ok (mem_upd mem t1 j (new_table p)) r (F - {p})"
proof -
  note D = vm_okD [OF ok]
  have pt: "p \<notin> tables mem r" using D(6) p by blast
  note N = tree_new_table_mid [OF D(2) i(2,3) pt D(8) [OF p]]
  have "t1 \<notin> F" using D(6) i(2) by blast
  then have z: "mem_upd mem t1 j (new_table p) q j' = 0" if "q \<in> F" for q j'
    using that D(8) by (auto simp: mem_upd_apply)
  have "self_map (mem_upd mem t1 j (new_table p)) r"
    using D(1,2) i(1,2) by (intro self_map_upd) (auto simp: plain_index_def)
  then show ?thesis unfolding vm_ok_def N(2,4) using N(1) z D p by blast
qed

lemma vm_ok_set_leaf:
  assumes ok: "vm_ok mem r F" and i: "plain_index i" "tab0 mem r i j = Some t0"
  shows "vm_ok (mem_upd mem t0 k v) r F"
proof -
  note D = vm_okD [OF ok]
  note N = tree_set_leaf [OF D(2) i(2), of k v]
  have "t0 \<notin> F" using D(6) i(2) by blast
  then have z: "mem_upd mem t0 k v q j' = 0" if "q \<in> F" for q j'
    using that D(8) by (auto simp: mem_upd_apply)
  have "self_map (mem_upd mem t0 k v) r" using D(1,2) i by (intro self_map_upd) (auto simp: plain_index_def)
  then show ?thesis unfolding vm_ok_def N(1,2,4) using N(3) z D by blast
qed

subsection \<open>What a walk changes\<close>

definition walked :: "machine \<Rightarrow> machine \<Rightarrow> bool" where
  "walked m m' \<longleftrightarrow> vms_inv m' \<and> mc_satp m' = mc_satp m
     \<and> (\<forall>i j k. \<not> window_index i \<longrightarrow> vm_lookup (mc_mem m') (mc_root m) (i, j, k) = vm_lookup (mc_mem m) (mc_root m) (i, j, k))
     \<and> (\<forall>f. f \<notin> tables (mc_mem m') (mc_root m) \<longrightarrow> mc_mem m' f = mc_mem m f)
     \<and> (\<forall>i t. tab (mc_mem m) (mc_root m) i = Some t \<longrightarrow> tab (mc_mem m') (mc_root m) i = Some t)
     \<and> tables (mc_mem m) (mc_root m) \<subseteq> tables (mc_mem m') (mc_root m)
     \<and> tables (mc_mem m') (mc_root m) - tables (mc_mem m) (mc_root m)
         = set (free_pages (mc_alloc m)) - set (free_pages (mc_alloc m'))
     \<and> set (free_pages (mc_alloc m')) \<subseteq> set (free_pages (mc_alloc m))"

lemma walked_refl: "vms_inv m \<Longrightarrow> walked m m"
  by (simp add: walked_def)

lemma mc_root_satp: "mc_satp m' = mc_satp m \<Longrightarrow> mc_root m' = mc_root m"
  by (simp add: mc_root_def)

lemma diff_chain:
  assumes "A \<subseteq> B" "B \<subseteq> C" "G \<subseteq> F" "H \<subseteq> G" "B - A = F - G" "C - B = G - H"
  shows "C - A = F - H"
proof -
  have "C - A = (C - B) \<union> (B - A)" using assms(1,2) by auto
  also have "\<dots> = F - H" unfolding assms(5,6) using assms(3,4) by auto
  finally show ?thesis .
qed

lemma walked_trans:
  assumes "walked m m'" "walked m' m''"
  shows "walked m m''"
proof -
  have r: "mc_root m' = mc_root m" using assms(1) by (simp add: walked_def mc_root_def)
  note a = assms(1) [unfolded walked_def] and b = assms(2) [unfolded walked_def r]
  have sub: "tables (mc_mem m) (mc_root m) \<subseteq> tables (mc_mem m') (mc_root m)"
      "tables (mc_mem m') (mc_root m) \<subseteq> tables (mc_mem m'') (mc_root m)"
      "set (free_pages (mc_alloc m')) \<subseteq> set (free_pages (mc_alloc m))"
      "set (free_pages (mc_alloc m'')) \<subseteq> set (free_pages (mc_alloc m'))"
    using a b by blast+
  have new: "tables (mc_mem m') (mc_root m) - tables (mc_mem m) (mc_root m)
         = set (free_pages (mc_alloc m)) - set (free_pages (mc_alloc m'))"
      "tables (mc_mem m'') (mc_root m) - tables (mc_mem m') (mc_root m)
         = set (free_pages (mc_alloc m')) - set (free_pages (mc_alloc m''))"
    using a b by blast+
  have "mc_mem m'' f = mc_mem m f" if "f \<notin> tables (mc_mem m'') (mc_root m)" for f
  proof -
    have "f \<notin> tables (mc_mem m') (mc_root m)" using that sub(2) by blast
    then have "mc_mem m' f = mc_mem m f" using a by blast
    moreover have "mc_mem m'' f = mc_mem m' f" using that b by blast
    ultimately show ?thesis by simp
  qed
  moreover have "vms_inv m''" "mc_satp m'' = mc_satp m'" "mc_satp m' = mc_satp m" using a b by blast+
  moreover have "vm_lookup (mc_mem m'') (mc_root m) (i, j, k) = vm_lookup (mc_mem m) (mc_root m) (i, j, k)"
    if "\<not> window_index i" for i j k
  proof -
    have "vm_lookup (mc_mem m'') (mc_root m) (i, j, k) = vm_lookup (mc_mem m') (mc_root m) (i, j, k)" using b that by blast
    also have "\<dots> = vm_lookup (mc_mem m) (mc_root m) (i, j, k)" using a that by blast
    finally show ?thesis .
  qed
  moreover have "tab (mc_mem m'') (mc_root m) i = Some t" if "tab (mc_mem m) (mc_root m) i = Some t" for i t
    using a b that by blast
  ultimately show ?thesis
    unfolding walked_def using diff_chain [OF sub new] subset_trans [OF sub(1,2)] subset_trans [OF sub(4,3)]
    by (intro conjI allI impI) simp_all
qed

lemma walkedD:
  assumes "walked m m'"
  shows "vms_inv m'" "mc_root m' = mc_root m" "mc_satp m' = mc_satp m"
    "\<not> window_index i \<Longrightarrow> vm_lookup (mc_mem m') (mc_root m) (i, j, k) = vm_lookup (mc_mem m) (mc_root m) (i, j, k)"
    "f \<notin> tables (mc_mem m') (mc_root m) \<Longrightarrow> mc_mem m' f = mc_mem m f"
    "tab (mc_mem m) (mc_root m) i = Some t \<Longrightarrow> tab (mc_mem m') (mc_root m) i = Some t"
    "tables (mc_mem m) (mc_root m) \<subseteq> tables (mc_mem m') (mc_root m)"
proof -
  note a = assms [unfolded walked_def]
  show "vms_inv m'" "mc_satp m' = mc_satp m" using a by blast+
  then show "mc_root m' = mc_root m" by (simp add: mc_root_def)
qed (use assms in \<open>unfold walked_def, blast+\<close>)

lemma vms_invD:
  assumes "vms_inv m"
  shows "vm_ok (mc_mem m) (mc_root m) (set (free_pages (mc_alloc m)))" "alloc_inv (mc_alloc m)"
    "distinct (free_pages (mc_alloc m))"
  using assms by (auto simp: vms_inv_def)

lemma mc_root_upd [simp]: "mc_root (m\<lparr>mc_mem := x\<rparr>) = mc_root m" "mc_root (m\<lparr>mc_alloc := a\<rparr>) = mc_root m"
  by (simp_all add: mc_root_def)

lemma walked_window:
  assumes "vms_inv m" "window_index w" "\<not> (entry_is_valid v \<and> is_table v)"
  shows "walked m (m\<lparr>mc_mem := mem_upd (mc_mem m) (mc_root m) w v\<rparr>)"
proof -
  note I = vms_invD [OF assms(1)]
  note D = vm_okD [OF I(1)]
  have "tab (mc_mem m) (mc_root m) w = None" using assms(2) D(3,4) by auto
  note W = tree_window [OF D(2) this assms(3)]
  have "vms_inv (m\<lparr>mc_mem := mem_upd (mc_mem m) (mc_root m) w v\<rparr>)"
    using vm_ok_window [OF I(1) assms(2,3)] I(2,3) by (simp add: vms_inv_def)
  moreover have "mem_upd (mc_mem m) (mc_root m) w v f = mc_mem m f" if "f \<notin> tables (mc_mem m) (mc_root m)" for f
    using that by (auto simp: mem_upd_def)
  ultimately show ?thesis unfolding walked_def using W(5) assms(2) by (auto simp: W(1,2,4))
qed

lemma allocate_fresh:
  assumes "vms_inv m" "allocate (mc_alloc m) = Inr (p, a)"
  shows "alloc_inv a" "distinct (free_pages a)" "set (free_pages a) = set (free_pages (mc_alloc m)) - {p}"
    "p \<in> set (free_pages (mc_alloc m))"
proof -
  note I = vms_invD [OF assms(1)]
  from assms(2) have "alloc_inv a \<and> free_pages (mc_alloc m) = free_pages a @ [p]"
    by (cases rule: allocate_cases [OF I(2)]) auto
  with I(3) show "alloc_inv a" "distinct (free_pages a)" "set (free_pages a) = set (free_pages (mc_alloc m)) - {p}"
    "p \<in> set (free_pages (mc_alloc m))" by auto
qed

text \<open>A fresh frame becomes a table, at the root or below it.\<close>

lemma walked_new_table:
  assumes inv: "vms_inv m" and al: "allocate (mc_alloc m) = Inr (p, a)"
    and ok: "vm_ok mem' (mc_root m) (set (free_pages (mc_alloc m)) - {p})"
    and tb: "tables mem' (mc_root m) = insert p (tables (mc_mem m) (mc_root m))"
    and lk: "vm_lookup mem' (mc_root m) = vm_lookup (mc_mem m) (mc_root m)"
    and tab: "\<And>i t. tab (mc_mem m) (mc_root m) i = Some t \<Longrightarrow> tab mem' (mc_root m) i = Some t"
    and fr: "\<And>f. f \<notin> tables (mc_mem m) (mc_root m) \<Longrightarrow> mem' f = mc_mem m f"
  shows "walked m (m\<lparr>mc_alloc := a, mc_mem := mem'\<rparr>)"
proof -
  note F = allocate_fresh [OF inv al]
  have "p \<notin> tables (mc_mem m) (mc_root m)" using vm_okD(6) [OF vms_invD(1) [OF inv]] F(4) by blast
  moreover have "vms_inv (m\<lparr>mc_alloc := a, mc_mem := mem'\<rparr>)" using ok F by (simp add: vms_inv_def)
  ultimately show ?thesis using F(3,4) tab fr unfolding walked_def by (auto simp: tb lk)
qed

lemma walked_new_table_root:
  assumes "vms_inv m" "allocate (mc_alloc m) = Inr (p, a)" "plain_index i" "\<not> entry_is_valid (mc_mem m (mc_root m) i)"
  defines "m' \<equiv> m\<lparr>mc_alloc := a, mc_mem := mem_upd (mc_mem m) (mc_root m) i (new_table p)\<rparr>"
  shows "walked m m'" "tab (mc_mem m') (mc_root m) i = Some p"
proof -
  note I = vms_invD [OF assms(1)]
  note D = vm_okD [OF I(1)] and F = allocate_fresh [OF assms(1,2)]
  have p: "p \<notin> tables (mc_mem m) (mc_root m)" using D(6) F(4) by blast
  note N = tree_new_table_root [OF D(2) assms(4) p D(8) [OF F(4)]]
  show t: "tab (mc_mem m') (mc_root m) i = Some p" using N(4) by (simp add: m'_def)
  have "tab (mc_mem m) (mc_root m) i = None" using assms(4) by (simp add: tab_def)
  then show "walked m m'"
    unfolding m'_def
    by (intro walked_new_table [OF assms(1,2)] vm_ok_new_table_root [OF I(1) assms(3,4) F(4)] N(2,3))
      (auto simp: tab_def mem_upd_apply fun_eq_iff split: if_splits)
qed

lemma walked_new_table_mid:
  assumes "vms_inv m" "allocate (mc_alloc m) = Inr (p, a)" "plain_index i" "tab (mc_mem m) (mc_root m) i = Some t1"
    "\<not> entry_is_valid (mc_mem m t1 j)"
  defines "m' \<equiv> m\<lparr>mc_alloc := a, mc_mem := mem_upd (mc_mem m) t1 j (new_table p)\<rparr>"
  shows "walked m m'" "tab0 (mc_mem m') (mc_root m) i j = Some p"
proof -
  note I = vms_invD [OF assms(1)]
  note D = vm_okD [OF I(1)] and F = allocate_fresh [OF assms(1,2)]
  have p: "p \<notin> tables (mc_mem m) (mc_root m)" using D(6) F(4) by blast
  note N = tree_new_table_mid [OF D(2) assms(4,5) p D(8) [OF F(4)]]
  show t: "tab0 (mc_mem m') (mc_root m) i j = Some p" using N(5) by (simp add: m'_def)
  have "t1 \<in> tables (mc_mem m) (mc_root m)" using assms(4) by blast
  then show "walked m m'"
    unfolding m'_def
    by (intro walked_new_table [OF assms(1,2)] vm_ok_new_table_mid [OF I(1) assms(3,4,5) F(4)] N(2,3))
      (auto simp: N(4) mem_upd_apply fun_eq_iff)
qed

subsection \<open>Windows as kernel computations\<close>

definition shows_table :: "machine \<Rightarrow> page \<Rightarrow> ppn \<Rightarrow> bool" where
  "shows_table m base p \<longleftrightarrow> \<not> bit p 22 \<and> mc_mem m (mc_root m) (vpn2 base) = pte (ucast (window_frame p)) 199"

lemma shows_table_maps:
  assumes "base = HIGHMEM_A \<or> base = HIGHMEM_B" "shows_table m base p"
  shows "maps_page m (window_page base p) p"
  using window_page_facts [OF assms(1), of p] window_translate [OF assms(1)] assms(2)
  by (simp add: maps_page_def shows_table_def)

lemma ROOT_page: "vms_inv m \<Longrightarrow> maps_page m ROOT (mc_root m)"
  by (intro self_map_ROOT vm_okD(1)) (rule vms_invD(1))

lemma table_a_eq:
  assumes "vms_inv m" "\<not> bit p 22"
  shows "\<exists>m'. table_a p m = Inr (window_page HIGHMEM_A p, m') \<and> walked m m' \<and> shows_table m' HIGHMEM_A p
    \<and> mc_alloc m' = mc_alloc m \<and> mc_mem m' = mem_upd (mc_mem m) (mc_root m) A_INDEX (pte (ucast (window_frame p)) 199)"
  using assms ROOT_page [OF assms(1)] walked_window [OF assms(1) _ not_table_window, of A_INDEX "window_frame p"]
    window_page_facts(2) [of HIGHMEM_A p]
  by (simp add: table_a_def map_highmem_a_def translate_highmem_a_def bindK_def store_page window_entry_a
      root_indices shows_table_def)

lemma table_b_eq:
  assumes "vms_inv m" "\<not> bit p 22"
  shows "\<exists>m'. table_b p m = Inr (window_page HIGHMEM_B p, m') \<and> walked m m' \<and> shows_table m' HIGHMEM_B p
    \<and> mc_alloc m' = mc_alloc m \<and> mc_mem m' = mem_upd (mc_mem m) (mc_root m) B_INDEX (pte (ucast (window_frame p)) 199)"
  using assms ROOT_page [OF assms(1)] walked_window [OF assms(1) _ not_table_window, of B_INDEX "window_frame p"]
    window_page_facts(2) [of HIGHMEM_B p]
  by (simp add: table_b_def map_highmem_b_def translate_highmem_b_def bindK_def store_page window_entry_b
      root_indices shows_table_def)

subsection \<open>Walks that add tables\<close>

lemma maps_page_alloc [simp]: "maps_page (m\<lparr>mc_alloc := a\<rparr>) pg f = maps_page m pg f"
  by (simp add: maps_page_def)

lemma ensure_table_eq:
  assumes pg: "maps_page m pg f" "unat i < 512"
    and keep: "\<And>v. maps_page (m\<lparr>mc_mem := mem_upd (mc_mem m) f (ucast i) v\<rparr>) pg f"
  shows "ensure_table (pg + 8 * i) m = (let e = mc_mem m f (ucast i) in
    if \<not> entry_is_valid e then
      (case allocate (mc_alloc m) of Inl x \<Rightarrow> Inl x | Inr (p, a) \<Rightarrow>
         Inr (Inr p, m\<lparr>mc_alloc := a, mc_mem := mem_upd (mc_mem m) f (ucast i) (new_table p)\<rparr>))
    else if \<not> is_table e then Inr (Inl AE_Overlaps, m) else Inr (Inr (entry_ppn e), m))"
proof -
  have st: "store_u64 (pg + 8 * i) v (m\<lparr>mc_alloc := a\<rparr>)
      = Inr ((), m\<lparr>mc_alloc := a, mc_mem := mem_upd (mc_mem m) f (ucast i) v\<rparr>)" for v a
    using store_page [of "m\<lparr>mc_alloc := a\<rparr>" pg f i v] pg by simp
  have ld: "load_u64 (pg + 8 * i) (m\<lparr>mc_alloc := a, mc_mem := mem_upd (mc_mem m) f (ucast i) v\<rparr>)
      = Inr (v, m\<lparr>mc_alloc := a, mc_mem := mem_upd (mc_mem m) f (ucast i) v\<rparr>)" for v a
    using load_page [of "m\<lparr>mc_alloc := a, mc_mem := mem_upd (mc_mem m) f (ucast i) v\<rparr>" pg f i] pg(2) keep [of v]
    by (simp add: maps_page_def)
  have "entry_ppn (new_table p) = p" for p by (simp add: new_table_pte)
  then show ?thesis
    by (simp add: ensure_table_def load_page [OF pg] Let_def bindK_def allocK_def st ld split: sum.split prod.split)
qed

lemma ensure_root_cases:
  assumes inv: "vms_inv m" and i: "plain_index (vpn2 a)"
  defines "r \<equiv> mc_root m"
  obtains (overlap) "ensure_table (ROOT + 8 * ppn_2 a) m = Inr (Inl AE_Overlaps, m)"
      "entry_is_valid (mc_mem m r (vpn2 a))" "\<not> is_table (mc_mem m r (vpn2 a))"
  | (exhausted) "ensure_table (ROOT + 8 * ppn_2 a) m = Inl Unwrap_Failed" "free_pages (mc_alloc m) = []"
      "\<not> entry_is_valid (mc_mem m r (vpn2 a))"
  | (table) t m' where "ensure_table (ROOT + 8 * ppn_2 a) m = Inr (Inr t, m')" "walked m m'"
      "tab (mc_mem m') r (vpn2 a) = Some t" "length (free_pages (mc_alloc m)) \<le> Suc (length (free_pages (mc_alloc m')))"
proof -
  have keep: "maps_page (m\<lparr>mc_mem := mem_upd (mc_mem m) r (vpn2 a) v\<rparr>) ROOT r" for v
  proof -
    have "self_map (mem_upd (mc_mem m) r (vpn2 a) v) r"
      using vm_okD(1,2) [OF vms_invD(1) [OF inv]] i unfolding r_def
      by (intro self_map_upd) (auto simp: plain_index_def)
    then show ?thesis using self_map_ROOT [of "m\<lparr>mc_mem := mem_upd (mc_mem m) r (vpn2 a) v\<rparr>"] by (simp add: r_def)
  qed
  note E = ensure_table_eq [OF ROOT_page [OF inv], of "ppn_2 a", simplified, folded r_def, OF keep]
  consider "entry_is_valid (mc_mem m r (vpn2 a))" "\<not> is_table (mc_mem m r (vpn2 a))"
    | "entry_is_valid (mc_mem m r (vpn2 a))" "is_table (mc_mem m r (vpn2 a))"
    | "\<not> entry_is_valid (mc_mem m r (vpn2 a))" by blast
  then show ?thesis
  proof cases
    case 1
    then show ?thesis using E by (intro overlap) (simp_all add: Let_def)
  next
    case 2
    then show ?thesis using E by (intro table [OF _ walked_refl [OF inv]]) (simp_all add: Let_def tab_def)
  next
    case 3
    show ?thesis
    proof (cases rule: allocate_cases [OF vms_invD(2) [OF inv]])
      case 1
      then show ?thesis using 3 E by (intro exhausted) (simp_all add: Let_def)
    next
      case (2 p al)
      note W = walked_new_table_root [OF inv 2(1) i, folded r_def, OF 3]
      show ?thesis by (rule table [OF _ W]) (use E 2 3 in \<open>simp_all add: Let_def\<close>)
    qed
  qed
qed

lemma ensure_mid_cases:
  assumes inv: "vms_inv m" and i: "plain_index i" and t1: "tab (mc_mem m) (mc_root m) i = Some t1"
    and sh: "shows_table m HIGHMEM_B t1"
  defines "pg \<equiv> window_page HIGHMEM_B t1"
  obtains (overlap) "ensure_table (pg + 8 * ppn_1 a) m = Inr (Inl AE_Overlaps, m)"
      "entry_is_valid (mc_mem m t1 (vpn1 a))" "\<not> is_table (mc_mem m t1 (vpn1 a))"
  | (exhausted) "ensure_table (pg + 8 * ppn_1 a) m = Inl Unwrap_Failed" "free_pages (mc_alloc m) = []"
      "\<not> entry_is_valid (mc_mem m t1 (vpn1 a))"
  | (table) t m' where "ensure_table (pg + 8 * ppn_1 a) m = Inr (Inr t, m')" "walked m m'"
      "tab0 (mc_mem m') (mc_root m) i (vpn1 a) = Some t" "length (free_pages (mc_alloc m)) \<le> Suc (length (free_pages (mc_alloc m')))"
proof -
  have "t1 \<noteq> mc_root m" using t1 treeD(1) [OF vm_okD(2) [OF vms_invD(1) [OF inv]]] by auto
  then have "shows_table (m\<lparr>mc_mem := mem_upd (mc_mem m) t1 (vpn1 a) v\<rparr>) HIGHMEM_B t1" for v
    using sh by (simp add: shows_table_def mem_upd_apply)
  then have keep: "maps_page (m\<lparr>mc_mem := mem_upd (mc_mem m) t1 (vpn1 a) v\<rparr>) pg t1" for v
    unfolding pg_def by (intro shows_table_maps) auto
  have pg: "maps_page m pg t1" unfolding pg_def using sh by (intro shows_table_maps) auto
  note E = ensure_table_eq [OF pg, of "ppn_1 a", simplified, OF keep]
  consider "entry_is_valid (mc_mem m t1 (vpn1 a))" "\<not> is_table (mc_mem m t1 (vpn1 a))"
    | "entry_is_valid (mc_mem m t1 (vpn1 a))" "is_table (mc_mem m t1 (vpn1 a))"
    | "\<not> entry_is_valid (mc_mem m t1 (vpn1 a))" by blast
  then show ?thesis
  proof cases
    case 1
    then show ?thesis using E by (intro overlap) (simp_all add: Let_def)
  next
    case 2
    then have "tab0 (mc_mem m) (mc_root m) i (vpn1 a) = Some (entry_ppn (mc_mem m t1 (vpn1 a)))"
      using t1 by (simp add: tab0_def tab_def [of _ t1])
    with 2 show ?thesis using E by (intro table [OF _ walked_refl [OF inv]]) (simp_all add: Let_def)
  next
    case 3
    show ?thesis
    proof (cases rule: allocate_cases [OF vms_invD(2) [OF inv]])
      case 1
      then show ?thesis using 3 E by (intro exhausted) (simp_all add: Let_def)
    next
      case (2 p al)
      note W = walked_new_table_mid [OF inv 2(1) i t1 3]
      show ?thesis by (rule table [OF _ W]) (use E 2 3 in \<open>simp_all add: Let_def\<close>)
    qed
  qed
qed

lemma vm_lookup_tab:
  assumes "tab mem r i = Some t1"
  shows "vm_lookup mem r (i, j, k) =
    (case tab mem t1 j of None \<Rightarrow> if entry_is_valid (mem t1 j) then Some (1, mem t1 j) else None
     | Some t0 \<Rightarrow> if leaf_is_valid (mem t0 k) then Some (0, mem t0 k) else None)"
  using assms by (simp add: vm_lookup_alt)

lemma vm_lookup_tab0:
  assumes "tab0 mem r i j = Some t0"
  shows "vm_lookup mem r (i, j, k) = (if leaf_is_valid (mem t0 k) then Some (0, mem t0 k) else None)"
  using assms by (auto simp: vm_lookup_alt tab0_def split: option.splits)

lemma walked_vm_ok: "walked m m' \<Longrightarrow> vm_ok (mc_mem m') (mc_root m) (set (free_pages (mc_alloc m')))"
  using vms_invD(1) walkedD(1,2) by metis

text \<open>The three ways the walk to a leaf ends.\<close>

lemma get_pte_alloc_cases:
  assumes inv: "vms_inv m" and i: "plain_index (vpn2 a)"
  defines "r \<equiv> mc_root m" and "L \<equiv> vm_lookup (mc_mem m) (mc_root m) (vpn2 a, vpn1 a, vpn0 a)"
  obtains (overlap) m' l e where "get_pte_alloc a m = Inr (Inl AE_Overlaps, m')" "walked m m'" "L = Some (l, e)" "0 < l"
  | (exhausted) "get_pte_alloc a m = Inl Unwrap_Failed" "length (free_pages (mc_alloc m)) < 2" "L = None"
  | (leaf) m' t0 where "get_pte_alloc a m = Inr (Inr (window_page HIGHMEM_B t0 + 8 * ppn_0 a), m')" "walked m m'"
      "tab0 (mc_mem m') r (vpn2 a) (vpn1 a) = Some t0" "shows_table m' HIGHMEM_B t0"
      "L = (if leaf_is_valid (mc_mem m' t0 (vpn0 a)) then Some (0, mc_mem m' t0 (vpn0 a)) else None)"
      "length (free_pages (mc_alloc m)) \<le> length (free_pages (mc_alloc m')) + 2"
proof (cases rule: ensure_root_cases [OF inv i])
  case 1
  then have g: "get_pte_alloc a m = Inr (Inl AE_Overlaps, m)"
    by (simp add: get_pte_alloc_def get_pte_from_alloc_def tryK_def bindK_def)
  have "L = Some (2, mc_mem m r (vpn2 a))" using 1(2,3) by (simp add: L_def r_def vm_lookup_def)
  then show ?thesis by (rule overlap [OF g walked_refl [OF inv]]) simp
next
  case 2
  then have "get_pte_alloc a m = Inl Unwrap_Failed"
    by (simp add: get_pte_alloc_def get_pte_from_alloc_def tryK_def bindK_def)
  moreover have "L = None" using 2(3) by (simp add: L_def vm_lookup_def)
  ultimately show ?thesis using 2(2) by (intro exhausted) simp_all
next
  case (3 t1 m1)
  have ok1: "vm_ok (mc_mem m1) r (set (free_pages (mc_alloc m1)))" using walked_vm_ok [OF 3(2)] by (simp add: r_def)
  have r1: "mc_root m1 = r" using walkedD(2) [OF 3(2)] by (simp add: r_def)
  have "\<not> bit t1 22" using vm_okD(5) [OF ok1] 3(3) by (auto simp: r_def)
  then obtain m2 where m2: "table_b t1 m1 = Inr (window_page HIGHMEM_B t1, m2)" "walked m1 m2" "shows_table m2 HIGHMEM_B t1"
      "mc_alloc m2 = mc_alloc m1" using table_b_eq [OF walkedD(1) [OF 3(2)]] by blast
  have w2: "walked m m2" using walked_trans [OF 3(2) m2(2)] .
  have r2: "mc_root m2 = r" using walkedD(2) [OF w2] by (simp add: r_def)
  have t1: "tab (mc_mem m2) (mc_root m2) (vpn2 a) = Some t1"
    using walkedD(6) [OF m2(2)] 3(3) by (simp add: r1 r2 r_def)
  have L2: "L = vm_lookup (mc_mem m2) r (vpn2 a, vpn1 a, vpn0 a)"
    using walkedD(4) [OF w2] i by (simp add: L_def r_def plain_index_def)
  have G: "get_pte_alloc a m = tryK (ensure_table (window_page HIGHMEM_B t1 + 8 * ppn_1 a)) id (\<lambda>ppn.
     bindK (table_b ppn) (\<lambda>tbl. bindK (entry_ptr tbl (ppn_0 a)) (\<lambda>p. retK (Inr p)))) m2"
    using 3(1) m2(1) by (simp add: get_pte_alloc_def get_pte_from_alloc_def tryK_def bindK_def id_def)
  show ?thesis
  proof (cases rule: ensure_mid_cases [OF walkedD(1) [OF w2] i t1 m2(3), of a])
    case 1
    have "tab (mc_mem m2) t1 (vpn1 a) = None" using 1(3) by (simp add: tab_def)
    then have l: "L = Some (1, mc_mem m2 t1 (vpn1 a))" using 1(2) vm_lookup_tab [OF t1] by (simp add: L2 r2)
    have "get_pte_alloc a m = Inr (Inl AE_Overlaps, m2)" using G 1(1) by (simp add: tryK_def bindK_def)
    then show ?thesis by (rule overlap [OF _ w2 l]) simp
  next
    case 2
    have "tab (mc_mem m2) t1 (vpn1 a) = None" using 2(3) by (simp add: tab_def)
    then have "L = None" using 2(3) vm_lookup_tab [OF t1] by (simp add: L2 r2)
    moreover have "get_pte_alloc a m = Inl Unwrap_Failed" using G 2(1) by (simp add: tryK_def bindK_def)
    moreover have "length (free_pages (mc_alloc m)) < 2" using 2(2) 3(4) m2(4) by simp
    ultimately show ?thesis by (intro exhausted)
  next
    case T: (3 t0 m3)
    have w3: "walked m m3" using walked_trans [OF w2 T(2)] .
    have r3: "mc_root m3 = r" using walkedD(2) [OF w3] by (simp add: r_def)
    have "\<not> bit t0 22" using vm_okD(5) [OF walked_vm_ok [OF w3]] T(3) r2 by (auto simp: r_def)
    then obtain m4 where m4: "table_b t0 m3 = Inr (window_page HIGHMEM_B t0, m4)" "walked m3 m4" "shows_table m4 HIGHMEM_B t0"
        "mc_alloc m4 = mc_alloc m3" "mc_mem m4 = mem_upd (mc_mem m3) (mc_root m3) B_INDEX (pte (ucast (window_frame t0)) 199)"
      using table_b_eq [OF walkedD(1) [OF w3]] by blast
    have w4: "walked m m4" using walked_trans [OF w3 m4(2)] .
    have t0: "tab0 (mc_mem m4) r (vpn2 a) (vpn1 a) = Some t0"
    proof -
      have "tab (mc_mem m3) r B_INDEX = None" using vm_okD(4) [OF walked_vm_ok [OF w3]] by (simp add: r_def)
      with tree_window(2) [OF vm_okD(2) [OF walked_vm_ok [OF w3]], of B_INDEX, OF _ not_table_window]
      show ?thesis using T(3) m4(5) r2 r3 by (simp add: r_def)
    qed
    have "L = vm_lookup (mc_mem m4) r (vpn2 a, vpn1 a, vpn0 a)"
      using walkedD(4) [OF w4] i by (simp add: L_def r_def plain_index_def)
    then have l: "L = (if leaf_is_valid (mc_mem m4 t0 (vpn0 a)) then Some (0, mc_mem m4 t0 (vpn0 a)) else None)"
      using vm_lookup_tab0 [OF t0] by simp
    have "get_pte_alloc a m = Inr (Inr (window_page HIGHMEM_B t0 + 8 * ppn_0 a), m4)"
      using G T(1) m4(1) by (simp add: tryK_def bindK_def)
    then show ?thesis by (rule leaf [OF _ w4 t0 m4(3) l]) (use 3(4) T(4) m2(4) m4(4) in simp)
  qed
qed

end
