(* ===== verification/Sv39_Correct.thy ===== *)
theory Sv39_Correct
  imports Sv39_Walk
begin

text \<open>
  The operations on mappings against the abstract map of addresses to leaves: \<open>add\<close> is a map update
  that refuses to overwrite, \<open>remove\<close> deletes one entry and returns its page, and neither touches
  memory outside the page tables.
\<close>

subsection \<open>Adding a mapping\<close>

definition va_index :: "page \<Rightarrow> idx \<times> idx \<times> idx" where
  "va_index a = (vpn2 a, vpn1 a, vpn0 a)"

definition mapped_leaf :: "map_entry \<Rightarrow> rwx \<Rightarrow> accessibility \<Rightarrow> leaf" where
  "mapped_leaf mp rwx acc = pte (ucast (map_ppn mp)) (leaf_flags mp rwx acc)"

lemma mapped_leaf_valid [simp]: "leaf_is_valid (mapped_leaf mp rwx acc)"
  by (simp add: mapped_leaf_def leaf_is_valid_bit bit_pte bit_leaf_flags)

lemma set_leaf_eq:
  assumes "maps_page m pg f" "unat i < 512"
  shows "set_leaf (pg + 8 * i) mp rwx acc m =
    (if leaf_is_valid (mc_mem m f (ucast i)) then Inr (Inl AE_Overlaps, m)
     else Inr (Inr (), m\<lparr>mc_mem := mem_upd (mc_mem m) f (ucast i) (mapped_leaf mp rwx acc)\<rparr>))"
  by (simp add: set_leaf_def bindK_def load_page [OF assms] store_page [OF assms] leaf_set_eq mapped_leaf_def)

text \<open>The map after an update, outside the windows.\<close>

definition map_updated :: "machine \<Rightarrow> machine \<Rightarrow> idx \<times> idx \<times> idx \<Rightarrow> (nat \<times> leaf) option \<Rightarrow> bool" where
  "map_updated m m' x v \<longleftrightarrow> (\<forall>i j k. \<not> window_index i \<longrightarrow>
     vm_lookup (mc_mem m') (mc_root m) (i, j, k) = (if (i, j, k) = x then v else vm_lookup (mc_mem m) (mc_root m) (i, j, k)))"

definition map_kept :: "machine \<Rightarrow> machine \<Rightarrow> bool" where
  "map_kept m m' \<longleftrightarrow> (\<forall>i j k. \<not> window_index i \<longrightarrow>
     vm_lookup (mc_mem m') (mc_root m) (i, j, k) = vm_lookup (mc_mem m) (mc_root m) (i, j, k))"

definition only_tables :: "machine \<Rightarrow> machine \<Rightarrow> bool" where
  "only_tables m m' \<longleftrightarrow> mc_satp m' = mc_satp m \<and> (\<forall>f. f \<notin> tables (mc_mem m') (mc_root m) \<longrightarrow> mc_mem m' f = mc_mem m f)
     \<and> tables (mc_mem m) (mc_root m) \<subseteq> tables (mc_mem m') (mc_root m)
     \<and> tables (mc_mem m') (mc_root m) - tables (mc_mem m) (mc_root m)
         = set (free_pages (mc_alloc m)) - set (free_pages (mc_alloc m'))
     \<and> set (free_pages (mc_alloc m')) \<subseteq> set (free_pages (mc_alloc m))"

lemma walked_only_tables: "walked m m' \<Longrightarrow> only_tables m m' \<and> map_kept m m' \<and> vms_inv m'"
  unfolding walked_def only_tables_def map_kept_def by blast

text \<open>Writing one leaf after a walk.\<close>

lemma walked_set_leaf:
  fixes k :: idx and v :: leaf
  assumes w: "walked m m1" and t0: "tab0 (mc_mem m1) (mc_root m) i j = Some t0" and i: "plain_index i"
  defines "m' \<equiv> m1\<lparr>mc_mem := mem_upd (mc_mem m1) t0 k v\<rparr>"
  shows "vms_inv m'" "only_tables m m'"
    "map_updated m m' (i, j, k) (if leaf_is_valid v then Some (0, v) else None)"
    "tab0 (mc_mem m') (mc_root m) i j = Some t0"
proof -
  have r: "mc_root m1 = mc_root m" using walkedD(2) [OF w] .
  note I = vms_invD [OF walkedD(1) [OF w]]
  have ok: "vm_ok (mc_mem m1) (mc_root m) (set (free_pages (mc_alloc m1)))" using I(1) r by simp
  note N = tree_set_leaf [OF vm_okD(2) [OF ok] t0, of k v]
  show "vms_inv m'" using vm_ok_set_leaf [OF ok i t0, of k v] I(2,3) by (simp add: vms_inv_def m'_def r)
  have "t0 \<in> tables (mc_mem m1) (mc_root m)" using t0 by blast
  then have "mem_upd (mc_mem m1) t0 k v f = mc_mem m1 f" if "f \<notin> tables (mc_mem m1) (mc_root m)" for f
    using that by (auto simp: mem_upd_def)
  then show "only_tables m m'"
    using walked_only_tables [OF w] unfolding only_tables_def by (simp add: m'_def N(4))
  show "map_updated m m' (i, j, k) (if leaf_is_valid v then Some (0, v) else None)"
    using walkedD(4) [OF w] by (simp add: map_updated_def m'_def N(5))
  show "tab0 (mc_mem m') (mc_root m) i j = Some t0" using t0 by (simp add: m'_def N(2))
qed

lemma vms_add_cases:
  assumes inv: "vms_inv m" and i: "plain_index (vpn2 a)"
  defines "L \<equiv> vm_lookup (mc_mem m) (mc_root m) (va_index a)"
  obtains (overlap) m' where "vms_add a mp rwx acc m = Inr (Inl AE_Overlaps, m')" "walked m m'" "L \<noteq> None"
  | (exhausted) "vms_add a mp rwx acc m = Inl Unwrap_Failed" "length (free_pages (mc_alloc m)) < 2" "L = None"
  | (added) m' where "vms_add a mp rwx acc m = Inr (Inr (), m')" "L = None" "vms_inv m'" "only_tables m m'"
      "map_updated m m' (va_index a) (Some (0, mapped_leaf mp rwx acc))"
      "length (free_pages (mc_alloc m)) \<le> length (free_pages (mc_alloc m')) + 2"
proof (cases rule: get_pte_alloc_cases [OF inv i])
  case (1 m' l e)
  then have "vms_add a mp rwx acc m = Inr (Inl AE_Overlaps, m')" by (simp add: vms_add_def tryK_def bindK_def)
  then show ?thesis by (rule overlap [OF _ 1(2)]) (use 1(3) in \<open>simp add: L_def va_index_def\<close>)
next
  case 2
  then show ?thesis by (intro exhausted) (simp_all add: vms_add_def tryK_def bindK_def L_def va_index_def)
next
  case (3 m1 t0)
  have pg: "maps_page m1 (window_page HIGHMEM_B t0) t0" using 3(4) by (intro shows_table_maps) auto
  note S = set_leaf_eq [OF pg, of "ppn_0 a", simplified]
  show ?thesis
  proof (cases "leaf_is_valid (mc_mem m1 t0 (vpn0 a))")
    case True
    then have "vms_add a mp rwx acc m = Inr (Inl AE_Overlaps, m1)"
      using 3(1) S by (simp add: vms_add_def tryK_def bindK_def)
    then show ?thesis by (rule overlap [OF _ 3(2)]) (use 3(5) True in \<open>simp add: L_def va_index_def\<close>)
  next
    case False
    let ?m' = "m1\<lparr>mc_mem := mem_upd (mc_mem m1) t0 (vpn0 a) (mapped_leaf mp rwx acc)\<rparr>"
    have "vms_add a mp rwx acc m = Inr (Inr (), ?m')"
      using 3(1) S False by (simp add: vms_add_def tryK_def bindK_def)
    then show ?thesis
      using walked_set_leaf [OF 3(2,3) i, of "vpn0 a" "mapped_leaf mp rwx acc"] 3(5,6) False
      by (intro added [of ?m']) (simp_all add: L_def va_index_def)
  qed
qed

subsection \<open>Removing a mapping\<close>

lemma get_pte_table:
  assumes inv: "vms_inv m" and i: "plain_index (vpn2 a)" and t0: "tab0 (mc_mem m) (mc_root m) (vpn2 a) (vpn1 a) = Some t0"
  shows "\<exists>m'. get_pte a m = Inr (Inr (window_page HIGHMEM_A t0 + 8 * ppn_0 a), m') \<and> walked m m'
    \<and> shows_table m' HIGHMEM_A t0 \<and> tab0 (mc_mem m') (mc_root m) (vpn2 a) (vpn1 a) = Some t0
    \<and> mc_mem m' t0 = mc_mem m t0 \<and> mc_alloc m' = mc_alloc m"
proof -
  let ?r = "mc_root m"
  obtain t1 where t1: "tab (mc_mem m) ?r (vpn2 a) = Some t1" "tab (mc_mem m) t1 (vpn1 a) = Some t0"
    using t0 by (auto simp: tab0_def split: option.splits)
  note ok = vms_invD(1) [OF inv]
  note D = vm_okD [OF ok]
  have b: "\<not> bit t1 22" "\<not> bit t0 22" using D(5) t1(1) t0 by blast+
  have ne: "t1 \<noteq> ?r" "t0 \<noteq> ?r" using t1(1) t0 treeD(1,2) [OF D(2)] by auto
  obtain m1 where m1: "table_a t1 m = Inr (window_page HIGHMEM_A t1, m1)" "walked m m1" "shows_table m1 HIGHMEM_A t1"
      "mc_alloc m1 = mc_alloc m" "mc_mem m1 = mem_upd (mc_mem m) ?r A_INDEX (pte (ucast (window_frame t1)) 199)"
    using table_a_eq [OF inv b(1)] by blast
  obtain m2 where m2: "table_a t0 m1 = Inr (window_page HIGHMEM_A t0, m2)" "walked m1 m2" "shows_table m2 HIGHMEM_A t0"
      "mc_alloc m2 = mc_alloc m1" "mc_mem m2 = mem_upd (mc_mem m1) (mc_root m1) A_INDEX (pte (ucast (window_frame t0)) 199)"
    using table_a_eq [OF walkedD(1) [OF m1(2)] b(2)] by blast
  have r1: "mc_root m1 = ?r" using walkedD(2) [OF m1(2)] .
  have mem2: "mc_mem m2 = mem_upd (mc_mem m) ?r A_INDEX (pte (ucast (window_frame t0)) 199)"
    using m1(5) m2(5) r1 by simp
  have pg1: "maps_page m1 (window_page HIGHMEM_A t1) t1" using m1(3) by (intro shows_table_maps) auto
  have e2: "is_table (mc_mem m ?r (vpn2 a))" "entry_ppn (mc_mem m ?r (vpn2 a)) = t1"
    using t1(1) by (auto simp: tab_def split: if_splits)
  have "mc_mem m1 t1 = mc_mem m t1" using ne(1) m1(5) by (auto simp: mem_upd_def)
  then have e1: "is_table (mc_mem m1 t1 (vpn1 a))" "entry_ppn (mc_mem m1 t1 (vpn1 a)) = t0"
    using t1(2) by (auto simp: tab_def split: if_splits)
  have "get_pte a m = Inr (Inr (window_page HIGHMEM_A t0 + 8 * ppn_0 a), m2)"
    using load_page [OF ROOT_page [OF inv], of "ppn_2 a"] load_page [OF pg1, of "ppn_1 a"] e1 e2 m1(1) m2(1)
    by (simp add: get_pte_def bindK_def)
  moreover have "walked m m2" using walked_trans [OF m1(2) m2(2)] .
  moreover have "tab0 (mc_mem m2) ?r (vpn2 a) (vpn1 a) = Some t0"
    using tree_window(2) [OF D(2,3) not_table_window] t0 by (simp add: mem2)
  moreover have "mc_mem m2 t0 = mc_mem m t0" using ne(2) by (auto simp: mem2 mem_upd_def)
  ultimately show ?thesis using m2(3,4) m1(4) by auto
qed

lemma vms_remove_present:
  assumes inv: "vms_inv m" and i: "plain_index (vpn2 a)" and L: "vm_lookup (mc_mem m) (mc_root m) (va_index a) = Some (0, e)"
  shows "\<exists>m'. vms_remove a m = Inr (Inr (POS_Private (entry_ppn e)), m') \<and> vms_inv m' \<and> only_tables m m'
    \<and> map_updated m m' (va_index a) None \<and> mc_alloc m' = mc_alloc m
    \<and> tab0 (mc_mem m') (mc_root m) (vpn2 a) (vpn1 a) \<noteq> None"
proof -
  obtain t0 where t0: "tab0 (mc_mem m) (mc_root m) (vpn2 a) (vpn1 a) = Some t0" "leaf_is_valid (mc_mem m t0 (vpn0 a))"
      "e = mc_mem m t0 (vpn0 a)"
    using L by (auto simp: va_index_def vm_lookup_alt tab0_def split: option.splits if_splits)
  obtain m1 where m1: "get_pte a m = Inr (Inr (window_page HIGHMEM_A t0 + 8 * ppn_0 a), m1)" "walked m m1"
      "shows_table m1 HIGHMEM_A t0" "tab0 (mc_mem m1) (mc_root m) (vpn2 a) (vpn1 a) = Some t0"
      "mc_mem m1 t0 = mc_mem m t0" "mc_alloc m1 = mc_alloc m"
    using get_pte_table [OF inv i t0(1)] by blast
  have pg: "maps_page m1 (window_page HIGHMEM_A t0) t0" using m1(3) by (intro shows_table_maps) auto
  let ?m' = "m1\<lparr>mc_mem := mem_upd (mc_mem m1) t0 (vpn0 a) 0\<rparr>"
  have "vms_remove a m = Inr (Inr (POS_Private (entry_ppn e)), ?m')"
    using m1(1,5) t0(2,3) load_page [OF pg, of "ppn_0 a"] store_page [OF pg, of "ppn_0 a"]
    by (simp add: vms_remove_def tryK_def bindK_def leaf_clear_eq leaf_is_valid_bit)
  moreover note walked_set_leaf [OF m1(2,4) i, of "vpn0 a" 0]
  ultimately show ?thesis using m1(6) by (auto simp: va_index_def leaf_is_valid_bit)
qed

lemma vms_remove_absent:
  assumes inv: "vms_inv m" and i: "plain_index (vpn2 a)" and t0: "tab0 (mc_mem m) (mc_root m) (vpn2 a) (vpn1 a) = Some t0"
    and L: "vm_lookup (mc_mem m) (mc_root m) (va_index a) = None"
  shows "\<exists>m'. vms_remove a m = Inr (Inl (), m') \<and> walked m m'"
proof -
  obtain m1 where m1: "get_pte a m = Inr (Inr (window_page HIGHMEM_A t0 + 8 * ppn_0 a), m1)" "walked m m1"
      "shows_table m1 HIGHMEM_A t0" "mc_mem m1 t0 = mc_mem m t0"
    using get_pte_table [OF inv i t0] by blast
  have pg: "maps_page m1 (window_page HIGHMEM_A t0) t0" using m1(3) by (intro shows_table_maps) auto
  have "\<not> leaf_is_valid (mc_mem m t0 (vpn0 a))" using L vm_lookup_tab0 [OF t0] by (auto simp: va_index_def split: if_splits)
  then have "vms_remove a m = Inr (Inl (), m1)"
    using m1(1,4) load_page [OF pg, of "ppn_0 a"]
    by (simp add: vms_remove_def tryK_def bindK_def leaf_clear_eq leaf_is_valid_bit)
  then show ?thesis using m1(2) by blast
qed

text \<open>
  The walk of \<open>get_pte\<close> takes an invalid entry for a table, since it tests \<open>is_table\<close> only: where no
  table exists it goes on in physical frame 0.
\<close>

lemma get_pte_frame_0:
  assumes inv: "vms_inv m" and e: "mc_mem m (mc_root m) (vpn2 a) = 0" "mc_mem m 0 (vpn1 a) = 0" and z: "mc_root m \<noteq> 0"
  shows "\<exists>m'. get_pte a m = Inr (Inr (window_page HIGHMEM_A 0 + 8 * ppn_0 a), m') \<and> shows_table m' HIGHMEM_A 0
    \<and> mc_mem m' 0 = mc_mem m 0 \<and> mc_root m' = mc_root m"
proof -
  have t: "is_table 0" "entry_ppn 0 = 0" by (simp_all add: is_table_bits entry_ppn_def)
  obtain m1 where m1: "table_a 0 m = Inr (window_page HIGHMEM_A 0, m1)" "walked m m1" "shows_table m1 HIGHMEM_A 0"
      "mc_mem m1 = mem_upd (mc_mem m) (mc_root m) A_INDEX (pte (ucast (window_frame 0)) 199)"
    using table_a_eq [OF inv, of 0] by auto
  obtain m2 where m2: "table_a 0 m1 = Inr (window_page HIGHMEM_A 0, m2)" "walked m1 m2" "shows_table m2 HIGHMEM_A 0"
      "mc_mem m2 = mem_upd (mc_mem m1) (mc_root m1) A_INDEX (pte (ucast (window_frame 0)) 199)"
    using table_a_eq [OF walkedD(1) [OF m1(2)], of 0] by auto
  have r: "mc_root m1 = mc_root m" "mc_root m2 = mc_root m" using walkedD(2) [OF m1(2)] walkedD(2) [OF m2(2)] by simp_all
  have z1: "mc_mem m1 0 = mc_mem m 0" "mc_mem m2 0 = mc_mem m 0" using z m1(4) m2(4) r(1) by (auto simp: mem_upd_def)
  have pg1: "maps_page m1 (window_page HIGHMEM_A 0) 0" using m1(3) by (intro shows_table_maps) auto
  have "get_pte a m = Inr (Inr (window_page HIGHMEM_A 0 + 8 * ppn_0 a), m2)"
    using load_page [OF ROOT_page [OF inv], of "ppn_2 a"] load_page [OF pg1, of "ppn_1 a"] m1(1) m2(1) e t z1(1)
    by (simp add: get_pte_def bindK_def)
  then show ?thesis using m2(3) z1(2) r(2) by blast
qed

end
