(* ===== verification/Sv39_Alloc.thy ===== *)
theory Sv39_Alloc
  imports Sv39_Correct
begin

text \<open>
  Allocating and deallocating ranges of private pages. The invariant \<open>isolated\<close> says that a frame mapped
  privately at an ordinary address is neither a page table nor free, and is mapped there only.
\<close>

subsection \<open>Page indices of consecutive pages\<close>

lemma unat_vpn:
  "unat (vpn2 a) = unat a div 4096 div 512 div 512 mod 512" "unat (vpn1 a) = unat a div 4096 div 512 mod 512"
  "unat (vpn0 a) = unat a div 4096 mod 512"
  by (simp_all add: vpn2_def vpn1_def vpn0_def unsigned_ucast_eq take_bit_eq_mod unat_drop_bit div_mult2_eq [symmetric])

lemma va_index_eq_iff:
  "va_index a = va_index b \<longleftrightarrow> unat a div 4096 mod 2 ^ 27 = unat b div 4096 mod 2 ^ 27"
proof -
  have split: "n mod 2 ^ 27 = 512 * (512 * (n div 512 div 512 mod 512) + n div 512 mod 512) + n mod 512" for n :: nat
    using mod_mult2_eq [of n 512 "512 * 512"] mod_mult2_eq [of "n div 512" 512 512] by simp
  have inj: "512 * x + y = 512 * x' + y' \<longleftrightarrow> x = x' \<and> y = y'" if "y < 512" "y' < 512" for x y x' y' :: nat
  proof (cases x x' rule: linorder_cases)
    case less
    then show ?thesis using that by linarith
  next
    case greater
    then show ?thesis using that by linarith
  qed simp
  have m: "n mod 512 < 512" for n :: nat by simp
  show ?thesis
    unfolding va_index_def split prod.inject word_unat_eq_iff unat_vpn inj [OF m m] by blast
qed

definition page_at :: "page \<Rightarrow> nat \<Rightarrow> page" where
  "page_at va t = va + of_nat t * 4096"

lemma page_at_0 [simp]: "page_at va 0 = va"
  by (simp add: page_at_def)

lemma page_at_Suc: "page_at va (Suc t) = page_at (va + 4096) t"
  by (simp add: page_at_def algebra_simps)

lemma unat_page_at:
  assumes "unat va + t * 4096 < 2 ^ 64"
  shows "unat (page_at va t) = unat va + t * 4096"
proof -
  have "unat (of_nat t :: usize) = t" using assms by (intro unat_of_nat_less) simp
  then show ?thesis using page_skip_Some(2) [of va "of_nat t"] assms
    by (cases "va = 0") (simp_all add: page_at_def unat_mult_no_overflow)
qed

lemma va_index_page_at:
  assumes "unat va + t * 4096 < 2 ^ 64" "unat va + t' * 4096 < 2 ^ 64" "t < 2 ^ 27" "t' < 2 ^ 27" "t \<noteq> t'"
  shows "va_index (page_at va t) \<noteq> va_index (page_at va t')"
proof -
  have "(unat va div 4096 + t) mod 2 ^ 27 \<noteq> (unat va div 4096 + t') mod 2 ^ 27"
    using mod_add_inj [of "unat va div 4096" t "2 ^ 27" t'] assms(3-) by blast
  then show ?thesis unfolding va_index_eq_iff unat_page_at [OF assms(1)] unat_page_at [OF assms(2)] by (simp add: add.commute)
qed

lemma page_next_Some: "unat va + 4096 < 2 ^ 64 \<Longrightarrow> va \<noteq> 0 \<Longrightarrow> page_next va = Some (va + 4096)"
  using page_skip_Some [of va 1] by (simp add: page_next_def)

subsection \<open>Isolation\<close>

definition private_leaf :: "leaf \<Rightarrow> bool" where
  "private_leaf e \<longleftrightarrow> \<not> bit e 8 \<and> \<not> bit e 9"

text \<open>The frames mapped privately at ordinary addresses, with where they are mapped.\<close>

definition private_at :: "machine \<Rightarrow> idx \<times> idx \<times> idx \<Rightarrow> ppn \<Rightarrow> bool" where
  "private_at m x p \<longleftrightarrow> plain_index (fst x) \<and> (\<exists>e. vm_lookup (mc_mem m) (mc_root m) x = Some (0, e) \<and> private_leaf e \<and> entry_ppn e = p)"

definition isolated :: "machine \<Rightarrow> bool" where
  "isolated m \<longleftrightarrow> vms_inv m
     \<and> (\<forall>x p. private_at m x p \<longrightarrow> p \<notin> tables (mc_mem m) (mc_root m) \<and> p \<notin> set (free_pages (mc_alloc m)))
     \<and> (\<forall>x y p. private_at m x p \<longrightarrow> private_at m y p \<longrightarrow> x = y)"

definition frames_kept :: "machine \<Rightarrow> machine \<Rightarrow> bool" where
  "frames_kept m m' \<longleftrightarrow> mc_satp m' = mc_satp m \<and> tables (mc_mem m) (mc_root m) \<subseteq> tables (mc_mem m') (mc_root m)
     \<and> (\<forall>f. f \<notin> tables (mc_mem m') (mc_root m) \<longrightarrow> mc_mem m' f = mc_mem m f)"

lemma frames_kept_trans:
  assumes "frames_kept m m'" "frames_kept m' m''"
  shows "frames_kept m m''"
proof -
  have r: "mc_root m' = mc_root m" using assms(1) by (simp add: frames_kept_def mc_root_def)
  have sub: "tables (mc_mem m) (mc_root m) \<subseteq> tables (mc_mem m') (mc_root m)"
    "tables (mc_mem m') (mc_root m) \<subseteq> tables (mc_mem m'') (mc_root m)"
    using assms by (simp_all add: frames_kept_def r)
  have "mc_mem m'' f = mc_mem m f" if "f \<notin> tables (mc_mem m'') (mc_root m)" for f
  proof -
    have "f \<notin> tables (mc_mem m') (mc_root m)" using sub(2) that by blast
    then show ?thesis using assms that by (simp add: frames_kept_def r)
  qed
  then show ?thesis using sub assms by (auto simp: frames_kept_def r)
qed

lemma mapped_private:
  "private_leaf (mapped_leaf (Map_Private p) rwx acc)" "entry_ppn (mapped_leaf (Map_Private p) rwx acc) = p"
  by (simp_all add: private_leaf_def mapped_leaf_def bit_pte bit_leaf_type)

lemma vm_ok_mono: "vm_ok mem r F \<Longrightarrow> G \<subseteq> F \<Longrightarrow> vm_ok mem r G"
  unfolding vm_ok_def by blast

lemma alloc_fresh_inv:
  assumes "vms_inv m" "free_pages (mc_alloc m) \<noteq> []"
  obtains p a where "alloc (mc_alloc m) = Inr (Inr p, a)" "vms_inv (m\<lparr>mc_alloc := a\<rparr>)"
    "set (free_pages a) = set (free_pages (mc_alloc m)) - {p}" "p \<in> set (free_pages (mc_alloc m))"
    "length (free_pages (mc_alloc m)) = Suc (length (free_pages a))"
proof -
  note I = vms_invD [OF assms(1)]
  obtain ps p where ps: "free_pages (mc_alloc m) = ps @ [p]" using assms(2) by (cases "free_pages (mc_alloc m)" rule: rev_cases) auto
  obtain a where a: "alloc (mc_alloc m) = Inr (Inr p, a)" "alloc_inv a" "free_pages a = ps"
    using alloc_snoc [OF I(2) ps] by blast
  have s: "set (free_pages a) = set (free_pages (mc_alloc m)) - {p}" using I(3) ps a(3) by auto
  have "vms_inv (m\<lparr>mc_alloc := a\<rparr>)"
    using vm_ok_mono [OF I(1), of "set (free_pages a)"] s a(2,3) I(3) ps by (auto simp: vms_inv_def)
  then show ?thesis by (rule that [OF a(1) _ s]) (use ps a(3) in simp_all)
qed

text \<open>Mapping a frame that is neither free nor a table nor mapped privately.\<close>

lemma isolated_add_frame:
  assumes iso: "isolated m" and i: "plain_index (vpn2 va)" and un: "vm_lookup (mc_mem m) (mc_root m) (va_index va) = None"
    and room: "2 \<le> length (free_pages (mc_alloc m))"
    and p: "p \<notin> tables (mc_mem m) (mc_root m)" "p \<notin> set (free_pages (mc_alloc m))" "\<And>x. \<not> private_at m x p"
  obtains m' where "vms_add va (Map_Private p) rwx acc m = Inr (Inr (), m')" "isolated m'" "only_tables m m'"
    "map_updated m m' (va_index va) (Some (0, mapped_leaf (Map_Private p) rwx acc))"
    "length (free_pages (mc_alloc m)) \<le> length (free_pages (mc_alloc m')) + 2"
    "\<And>x q. private_at m' x q \<longleftrightarrow> (if x = va_index va then q = p else private_at m x q)"
proof -
  let ?r = "mc_root m" and ?x = "va_index va"
  have inv: "vms_inv m" using iso by (simp add: isolated_def)
  obtain m' where m': "vms_add va (Map_Private p) rwx acc m = Inr (Inr (), m')" "vms_inv m'" "only_tables m m'"
      "map_updated m m' ?x (Some (0, mapped_leaf (Map_Private p) rwx acc))"
      "length (free_pages (mc_alloc m)) \<le> length (free_pages (mc_alloc m')) + 2"
    by (cases rule: vms_add_cases [OF inv i, of "Map_Private p" rwx acc]) (use un room that in auto)
  have r: "mc_root m' = ?r" using m'(3) by (simp add: only_tables_def mc_root_def)
  have tb: "tables (mc_mem m') ?r - tables (mc_mem m) ?r = set (free_pages (mc_alloc m)) - set (free_pages (mc_alloc m'))"
      "set (free_pages (mc_alloc m')) \<subseteq> set (free_pages (mc_alloc m))"
    using m'(3) by (simp_all add: only_tables_def)
  have p': "p \<notin> tables (mc_mem m') ?r" "p \<notin> set (free_pages (mc_alloc m'))" using tb p(1,2) by blast+
  have pa: "private_at m' x q \<longleftrightarrow> (if x = ?x then q = p else private_at m x q)" for x q
  proof (cases x)
    case (fields u v w)
    show ?thesis
    proof (cases "plain_index u")
      case True
      then show ?thesis using m'(4) i un mapped_private [of p rwx acc]
        by (auto simp: fields private_at_def r map_updated_def plain_index_def va_index_def)
    next
      case False
      then show ?thesis using i by (auto simp: fields private_at_def va_index_def)
    qed
  qed
  have old: "q \<notin> tables (mc_mem m') ?r" "q \<notin> set (free_pages (mc_alloc m'))" "q \<noteq> p" if "private_at m x q" for x q
    using iso that tb p(3) unfolding isolated_def by blast+
  have uniq: "x = y" if "private_at m x q" "private_at m y q" for x y q using iso that unfolding isolated_def by blast
  have apart: "q \<notin> tables (mc_mem m') ?r \<and> q \<notin> set (free_pages (mc_alloc m'))" if "private_at m' x q" for x q
    using that p' old [of x q] unfolding pa by (cases "x = ?x") simp_all
  have excl: "x = y" if "private_at m' x q" "private_at m' y q" for x y q
    using that old(3) [of x q] old(3) [of y q] uniq [of x q y] unfolding pa by (cases "x = ?x"; cases "y = ?x") simp_all
  have "isolated m'" unfolding isolated_def r using m'(2) apart excl by blast
  then show ?thesis using that m'(1,3-5) pa by blast
qed

lemma isolated_add_private:
  assumes iso: "isolated m" and i: "plain_index (vpn2 va)" and un: "vm_lookup (mc_mem m) (mc_root m) (va_index va) = None"
    and room: "3 \<le> length (free_pages (mc_alloc m))"
  obtains p a m' where "alloc (mc_alloc m) = Inr (Inr p, a)"
    "vms_add va (Map_Private p) rwx acc (m\<lparr>mc_alloc := a\<rparr>) = Inr (Inr (), m')" "isolated m'" "frames_kept m m'"
    "map_updated m m' (va_index va) (Some (0, mapped_leaf (Map_Private p) rwx acc))"
    "length (free_pages (mc_alloc m)) \<le> length (free_pages (mc_alloc m')) + 3" "p \<in> set (free_pages (mc_alloc m))"
proof -
  have inv: "vms_inv m" using iso by (simp add: isolated_def)
  from room have "free_pages (mc_alloc m) \<noteq> []" by auto
  then obtain p a where a: "alloc (mc_alloc m) = Inr (Inr p, a)" "vms_inv (m\<lparr>mc_alloc := a\<rparr>)"
    "set (free_pages a) = set (free_pages (mc_alloc m)) - {p}" "p \<in> set (free_pages (mc_alloc m))"
    "length (free_pages (mc_alloc m)) = Suc (length (free_pages a))"
    using alloc_fresh_inv [OF inv] by blast
  let ?m = "m\<lparr>mc_alloc := a\<rparr>"
  have pa: "private_at ?m x q = private_at m x q" for x q by (simp add: private_at_def)
  have iso': "isolated ?m" using iso a(2,3) unfolding isolated_def pa by auto
  have p: "p \<notin> tables (mc_mem ?m) (mc_root ?m)" "p \<notin> set (free_pages (mc_alloc ?m))" "\<not> private_at ?m x p" for x
    using vm_okD(6) [OF vms_invD(1) [OF inv]] a(3,4) iso unfolding isolated_def pa by (auto, blast)
  obtain m' where m': "vms_add va (Map_Private p) rwx acc ?m = Inr (Inr (), m')" "isolated m'" "only_tables ?m m'"
      "map_updated ?m m' (va_index va) (Some (0, mapped_leaf (Map_Private p) rwx acc))"
      "length (free_pages (mc_alloc ?m)) \<le> length (free_pages (mc_alloc m')) + 2"
    by (rule isolated_add_frame [OF iso' i _ _ p, of rwx acc]) (use un room a(5) that in simp_all)
  have "frames_kept m m'" using m'(3) by (simp add: frames_kept_def only_tables_def)
  moreover have "map_updated m m' (va_index va) (Some (0, mapped_leaf (Map_Private p) rwx acc))"
    using m'(4) by (simp add: map_updated_def)
  ultimately show ?thesis using that a(1,4,5) m'(1,2,5) by auto
qed

subsection \<open>Ranges of pages\<close>

definition add_page_step :: "rwx \<Rightarrow> accessibility \<Rightarrow> ppn \<Rightarrow> page \<times> machine \<Rightarrow> allocator \<Rightarrow> ((page \<times> machine) \<times> allocator) may_panic" where
  "add_page_step rwx acc = (\<lambda>ppn (va, m) a.
     bindP (unwrapK (vms_add va (Map_Private ppn) rwx acc) (m\<lparr>mc_alloc := a\<rparr>)) (\<lambda>(_, m').
     bindP (unwrapO (page_next va)) (\<lambda>va'. Inr ((va', m'), mc_alloc m'))))"

lemma vms_allocate_step:
  "vms_allocate va cnt rwx acc m =
     bindP (mem_allocate_range (unat cnt) (add_page_step rwx acc) (va, m) (mc_alloc m))
     (\<lambda>(r, a). bindP (unwrapR r) (\<lambda>(va, m'). Inr (Inr (), m'\<lparr>mc_alloc := a\<rparr>)))"
  by (simp add: vms_allocate_def add_page_step_def)

text \<open>\<open>n\<close> pages from \<open>va\<close> on are mapped to pages \<open>ps\<close>, and nothing else is mapped differently.\<close>

definition range_mapped :: "machine \<Rightarrow> machine \<Rightarrow> page \<Rightarrow> ppn list \<Rightarrow> rwx \<Rightarrow> accessibility \<Rightarrow> bool" where
  "range_mapped m m' va ps rwx acc \<longleftrightarrow>
     (\<forall>t < length ps. vm_lookup (mc_mem m') (mc_root m) (va_index (page_at va t)) = Some (0, mapped_leaf (Map_Private (ps ! t)) rwx acc))
     \<and> (\<forall>i j k. \<not> window_index i \<longrightarrow> (\<forall>t < length ps. (i, j, k) \<noteq> va_index (page_at va t)) \<longrightarrow>
          vm_lookup (mc_mem m') (mc_root m) (i, j, k) = vm_lookup (mc_mem m) (mc_root m) (i, j, k))"

definition range_free :: "machine \<Rightarrow> page \<Rightarrow> nat \<Rightarrow> bool" where
  "range_free m va n \<longleftrightarrow> va \<noteq> 0 \<and> unat va + n * 4096 < 2 ^ 64 \<and> n < 2 ^ 27
     \<and> (\<forall>t < n. plain_index (vpn2 (page_at va t)) \<and> vm_lookup (mc_mem m) (mc_root m) (va_index (page_at va t)) = None)"

lemma range_mapped_Cons:
  assumes up: "map_updated m m1 (va_index va) (Some (0, mapped_leaf (Map_Private p) rwx acc))"
    and rest: "range_mapped m1 m' (va + 4096) ps rwx acc"
    and r: "mc_root m1 = mc_root m" and i: "plain_index (vpn2 va)"
    and b: "unat va + Suc (length ps) * 4096 < 2 ^ 64" "length ps < 2 ^ 27 - 1"
  shows "range_mapped m m' va (p # ps) rwx acc"
proof -
  have ne: "va_index va \<noteq> va_index (page_at (va + 4096) t)" if "t < length ps" for t
    using va_index_page_at [of va 0 "Suc t"] that b by (simp add: page_at_Suc)
  have "vm_lookup (mc_mem m') (mc_root m) (va_index va) = Some (0, mapped_leaf (Map_Private p) rwx acc)"
    using up rest i ne by (auto simp: range_mapped_def r map_updated_def va_index_def plain_index_def)
  then have here: "vm_lookup (mc_mem m') (mc_root m) (va_index (page_at va t)) = Some (0, mapped_leaf (Map_Private ((p # ps) ! t)) rwx acc)"
    if "t < Suc (length ps)" for t
    using that rest by (cases t) (auto simp: range_mapped_def r page_at_Suc)
  have "vm_lookup (mc_mem m') (mc_root m) (u, v, w) = vm_lookup (mc_mem m) (mc_root m) (u, v, w)"
    if "\<not> window_index u" "\<forall>t < Suc (length ps). (u, v, w) \<noteq> va_index (page_at va t)" for u v w
  proof -
    have "(u, v, w) \<noteq> va_index va" using that(2) by (auto dest: spec [of _ 0])
    moreover have "(u, v, w) \<noteq> va_index (page_at (va + 4096) t)" if "t < length ps" for t
      using \<open>\<forall>t < Suc (length ps). (u, v, w) \<noteq> va_index (page_at va t)\<close> that by (auto dest: spec [of _ "Suc t"] simp: page_at_Suc)
    ultimately show ?thesis using up rest that(1) by (simp add: range_mapped_def r map_updated_def)
  qed
  with here show ?thesis by (auto simp: range_mapped_def)
qed

lemma allocate_range_isolated:
  "isolated (m\<lparr>mc_alloc := a\<rparr>) \<Longrightarrow> range_free m va n \<Longrightarrow> 3 * n \<le> length (free_pages a) \<Longrightarrow>
    \<exists>m' a' ps. mem_allocate_range n (add_page_step rwx acc) (va, m) a = Inr (Inr (page_at va n, m'), a')
      \<and> isolated (m'\<lparr>mc_alloc := a'\<rparr>) \<and> frames_kept (m\<lparr>mc_alloc := a\<rparr>) (m'\<lparr>mc_alloc := a'\<rparr>) \<and> length ps = n
      \<and> range_mapped (m\<lparr>mc_alloc := a\<rparr>) (m'\<lparr>mc_alloc := a'\<rparr>) va ps rwx acc"
proof (induction n arbitrary: va m a)
  case 0
  then show ?case by (auto simp: range_mapped_def frames_kept_def)
next
  case (Suc n)
  let ?m = "m\<lparr>mc_alloc := a\<rparr>"
  note rf = Suc.prems(2) [unfolded range_free_def]
  have i: "plain_index (vpn2 va)" "vm_lookup (mc_mem m) (mc_root m) (va_index va) = None"
    using rf by (auto dest: spec [of _ 0])
  obtain p a1 m1 where s: "alloc a = Inr (Inr p, a1)" "vms_add va (Map_Private p) rwx acc (m\<lparr>mc_alloc := a1\<rparr>) = Inr (Inr (), m1)"
      "isolated m1" "frames_kept ?m m1" "map_updated ?m m1 (va_index va) (Some (0, mapped_leaf (Map_Private p) rwx acc))"
      "length (free_pages a) \<le> length (free_pages (mc_alloc m1)) + 3"
    by (rule isolated_add_private [OF Suc.prems(1) i(1), of rwx acc]) (use i(2) Suc.prems(3) in \<open>auto intro: that\<close>)
  have r1: "mc_root m1 = mc_root m" using s(4) by (simp add: frames_kept_def mc_root_def)
  have nz: "va + 4096 \<noteq> 0" "unat (va + 4096) = unat va + 4096" using unat_page_at [of va 1] rf by (auto simp: page_at_def)
  have rest: "range_free m1 (va + 4096) n"
  proof -
    have "plain_index (vpn2 (page_at (va + 4096) t)) \<and> vm_lookup (mc_mem m1) (mc_root m1) (va_index (page_at (va + 4096) t)) = None"
      if "t < n" for t
    proof -
      have st: "plain_index (vpn2 (page_at va (Suc t)))" "vm_lookup (mc_mem m) (mc_root m) (va_index (page_at va (Suc t))) = None"
        using rf that by auto
      have "va_index (page_at va (Suc t)) \<noteq> va_index (page_at va 0)"
        using rf that by (intro va_index_page_at) auto
      then show ?thesis using st s(5) r1
        by (auto simp: page_at_Suc map_updated_def va_index_def plain_index_def)
    qed
    then show ?thesis using rf nz by (auto simp: range_free_def)
  qed
  have IH: "\<exists>m' a' ps. mem_allocate_range n (add_page_step rwx acc) (va + 4096, m1) (mc_alloc m1) = Inr (Inr (page_at (va + 4096) n, m'), a')
      \<and> isolated (m'\<lparr>mc_alloc := a'\<rparr>) \<and> frames_kept m1 (m'\<lparr>mc_alloc := a'\<rparr>) \<and> length ps = n
      \<and> range_mapped m1 (m'\<lparr>mc_alloc := a'\<rparr>) (va + 4096) ps rwx acc"
    using Suc.IH [where m = m1 and a = "mc_alloc m1" and va = "va + 4096"] s(3,6) rest Suc.prems(3) by simp
  then obtain m' a' ps where h: "mem_allocate_range n (add_page_step rwx acc) (va + 4096, m1) (mc_alloc m1) = Inr (Inr (page_at (va + 4096) n, m'), a')"
      "isolated (m'\<lparr>mc_alloc := a'\<rparr>)" "frames_kept m1 (m'\<lparr>mc_alloc := a'\<rparr>)" "length ps = n"
      "range_mapped m1 (m'\<lparr>mc_alloc := a'\<rparr>) (va + 4096) ps rwx acc" by blast
  have "page_next va = Some (va + 4096)" using rf by (intro page_next_Some) auto
  then have "mem_allocate_range (Suc n) (add_page_step rwx acc) (va, m) a = Inr (Inr (page_at va (Suc n), m'), a')"
    using s(1,2) h(1) by (simp add: add_page_step_def unwrapK_def bindK_def page_at_Suc)
  moreover have "range_mapped ?m (m'\<lparr>mc_alloc := a'\<rparr>) va (p # ps) rwx acc"
    using range_mapped_Cons [OF s(5) h(5)] i(1) rf h(4) r1 by simp
  ultimately show ?case using h(2,4) frames_kept_trans [OF s(4) h(3)]
    by (intro exI [of _ m'] exI [of _ a'] exI [of _ "p # ps"]) simp
qed

lemma vms_allocate_range:
  assumes "isolated m" "range_free m va (unat cnt)" "3 * unat cnt \<le> length (free_pages (mc_alloc m))"
  shows "\<exists>m' ps. vms_allocate va cnt rwx acc m = Inr (Inr (), m') \<and> isolated m' \<and> frames_kept m m'
    \<and> length ps = unat cnt \<and> range_mapped m m' va ps rwx acc"
  using allocate_range_isolated [where m = m and a = "mc_alloc m" and va = va and n = "unat cnt" and rwx = rwx and acc = acc] assms
  by (auto simp: vms_allocate_step)

end
