(* ===== verification/Sv39_Props.thy ===== *)
theory Sv39_Props
  imports Sv39_Alloc
begin

text \<open>
  The properties of the Sv39 operations, with a small machine that satisfies the invariant: frame 1 is
  the root table, frames 2 and 3 map it to \<open>ROOT\<close>, and frames 4 to 9 are free.
\<close>

subsection \<open>A machine\<close>

definition mem_ex :: phys where
  "mem_ex = mem_upd (mem_upd (mem_upd (\<lambda>_ _. 0) 1 ROOT_INDEX (new_table 2)) 2 511 (new_table 3)) 3 511
     (pte (ucast (1 :: ppn)) (leaf_flags (Map_Private 1) RWX_RW KernelLocal))"

definition machine_ex :: machine where
  "machine_ex = \<lparr>mc_mem = mem_ex, mc_satp = push_bit 63 1 OR 1,
     mc_alloc = \<lparr>al_stacks = \<lparr>st_stacks = [[4, 5, 6, 7, 8, 9] @ replicate 2042 0], st_top_base = [(6, 0)]\<rparr>\<rparr>\<rparr>"

lemma mem_ex_apply:
  "mem_ex f i = (if f = 1 \<and> i = ROOT_INDEX then new_table 2 else if f = 2 \<and> i = 511 then new_table 3
     else if f = 3 \<and> i = 511 then pte (ucast (1 :: ppn)) (leaf_flags (Map_Private 1) RWX_RW KernelLocal) else 0)"
  by (auto simp: mem_ex_def mem_upd_apply)

lemma not_table_leaf: "\<not> is_table (pte (ucast (p :: ppn)) (leaf_flags mp RWX_RW acc))"
  by (simp add: is_table_bits bit_pte bit_leaf_flags del: One_nat_def)

lemma new_table_facts: "entry_is_valid (new_table p)" "is_table (new_table p)" "entry_ppn (new_table p) = p"
  by (simp_all add: new_table_pte entry_is_valid_bit is_table_bits bit_pte bit_flags_1)

lemma tab_ex: "tab mem_ex f i = (if f = 1 \<and> i = ROOT_INDEX then Some 2 else if f = 2 \<and> i = 511 then Some 3 else None)"
  using not_table_leaf [of 1 "Map_Private 1" KernelLocal]
  by (simp add: tab_def mem_ex_apply new_table_facts entry_is_valid_bit [of 0] del: ucast_1)

lemma tab0_ex: "tab0 mem_ex 1 i j = (if i = ROOT_INDEX \<and> j = 511 then Some 3 else None)"
  by (simp add: tab0_def tab_ex)

lemma tables_ex: "tables mem_ex 1 = {1, 2, 3}"
  by (auto simp: tables_def tab_ex tab0_ex split: if_splits)

lemma free_ex: "free_pages (mc_alloc machine_ex) = [4, 5, 6, 7, 8, 9]" "alloc_inv (mc_alloc machine_ex)"
  by (simp_all add: machine_ex_def free_pages_def alloc_inv_def stacks_inv_def stacks_slots_def stacks_contents_def
      ring_list_def upt_rec [of _ 6] nth_append)

lemma root_ex: "mc_root machine_ex = 1" "mc_mem machine_ex = mem_ex"
  by (simp_all add: machine_ex_def mc_root_def)

lemma self_map_ex: "self_map mem_ex 1"
  unfolding self_map_def by (rule exI [of _ 2], rule exI [of _ 3]) (simp add: mem_ex_apply)

lemma vm_ok_ex: "vm_ok mem_ex 1 {4, 5, 6, 7, 8, 9}"
  unfolding vm_ok_def tables_ex
  by (auto simp: tree_def tab_ex tab0_ex mem_ex_apply self_map_ex split: if_splits)

lemma vms_inv_ex: "vms_inv machine_ex"
  using vm_ok_ex by (simp add: vms_inv_def root_ex free_ex)

lemma lookup_ex: "plain_index i \<Longrightarrow> vm_lookup mem_ex 1 (i, j, k) = None"
  by (simp add: vm_lookup_def mem_ex_apply plain_index_def entry_is_valid_bit)

lemma isolated_ex: "isolated machine_ex"
  using vms_inv_ex by (auto simp: isolated_def private_at_def root_ex lookup_ex)

lemma plain_ex: "plain_index (vpn2 0x10000)" "plain_index (vpn2 0x11000)"
  by (simp_all add: plain_index_def vpn2_def)

subsection \<open>Properties\<close>

text \<open>
  C3. Adding a mapping to the active address space is an update of the map from addresses to leaves.
  With two free frames for tables it never panics: at an unmapped address exactly that address becomes
  mapped to the leaf asked for; at a mapped one, of any page size, the call reports an overlap and no
  mapping changes. In both cases the invariant of the page tables holds again and memory that is not a
  page table is untouched.
\<close>
theorem vms_add_updates_map:
  assumes "vms_inv m" "plain_index (vpn2 a)" "2 \<le> length (free_pages (mc_alloc m))"
  shows "\<exists>res m'. vms_add a mp rwx acc m = Inr (res, m') \<and> vms_inv m' \<and> only_tables m m'
    \<and> (if vm_lookup (mc_mem m) (mc_root m) (va_index a) = None
       then res = Inr () \<and> map_updated m m' (va_index a) (Some (0, mapped_leaf mp rwx acc))
       else res = Inl AE_Overlaps \<and> map_kept m m')"
proof (cases rule: vms_add_cases [OF assms(1,2), of mp rwx acc])
  case (1 m')
  then show ?thesis using walked_only_tables [OF 1(2)] by auto
next
  case 2
  then show ?thesis using assms(3) by simp
next
  case (3 m')
  then show ?thesis by auto
qed

theorem vms_add_updates_map_witness:
  "\<exists>m'. vms_add 0x10000 (Map_Private 4) RWX_RW UserLocal machine_ex = Inr (Inr (), m')
     \<and> vm_lookup (mc_mem m') 1 (va_index 0x10000) = Some (0, mapped_leaf (Map_Private 4) RWX_RW UserLocal)"
  using vms_add_updates_map [OF vms_inv_ex plain_ex(1), of "Map_Private 4" RWX_RW UserLocal] lookup_ex [OF plain_ex(1)] plain_ex(1)
  by (auto simp: free_ex root_ex va_index_def map_updated_def plain_index_def)

text \<open>
  C4. Removing is the inverse of adding: after a private page has been mapped at an unmapped address,
  removing that address returns exactly that page and leaves every mapping as it was before the two
  calls, and removing it a second time reports that there is no mapping.
\<close>
theorem vms_add_remove:
  assumes "vms_inv m" "plain_index (vpn2 a)" "2 \<le> length (free_pages (mc_alloc m))"
    and "vm_lookup (mc_mem m) (mc_root m) (va_index a) = None"
  shows "\<exists>m1 m2 m3. vms_add a (Map_Private p) rwx acc m = Inr (Inr (), m1)
    \<and> vms_remove a m1 = Inr (Inr (POS_Private p), m2) \<and> vms_inv m2 \<and> map_kept m m2
    \<and> vms_remove a m2 = Inr (Inl (), m3) \<and> map_kept m m3"
proof (cases rule: vms_add_cases [OF assms(1,2), of "Map_Private p" rwx acc])
  case (1 m')
  then show ?thesis using assms(4) by simp
next
  case 2
  then show ?thesis using assms(3) by simp
next
  case (3 m1)
  have r1: "mc_root m1 = mc_root m" using 3(4) by (simp add: only_tables_def mc_root_def)
  have L: "vm_lookup (mc_mem m1) (mc_root m1) (va_index a) = Some (0, mapped_leaf (Map_Private p) rwx acc)"
    using 3(5) assms(2) by (simp add: r1 map_updated_def va_index_def plain_index_def)
  obtain m2 where m2: "vms_remove a m1 = Inr (Inr (POS_Private p), m2)" "vms_inv m2" "only_tables m1 m2"
      "map_updated m1 m2 (va_index a) None" "tab0 (mc_mem m2) (mc_root m1) (vpn2 a) (vpn1 a) \<noteq> None"
    using vms_remove_present [OF 3(3) assms(2) L] by (auto simp: mapped_private)
  have r2: "mc_root m2 = mc_root m" using m2(3) r1 by (simp add: only_tables_def mc_root_def)
  have k2: "map_kept m m2" using m2(4) 3(5) assms(4) by (auto simp: map_kept_def map_updated_def r1)
  then have "vm_lookup (mc_mem m2) (mc_root m2) (va_index a) = None"
    using assms(2,4) by (simp add: map_kept_def r2 va_index_def plain_index_def)
  then obtain m3 where m3: "vms_remove a m2 = Inr (Inl (), m3)" "walked m2 m3"
    using vms_remove_absent [OF m2(2) assms(2)] m2(5) r1 r2 by auto
  have "map_kept m m3" using k2 walked_only_tables [OF m3(2)] by (simp add: map_kept_def r2)
  then show ?thesis using 3(1) m2(1,2) k2 m3(1) by blast
qed

theorem vms_add_remove_witness:
  "\<exists>m1 m2. vms_add 0x10000 (Map_Private 4) RWX_RW UserLocal machine_ex = Inr (Inr (), m1)
     \<and> vms_remove 0x10000 m1 = Inr (Inr (POS_Private 4), m2)"
  using vms_add_remove [OF vms_inv_ex plain_ex(1), of 4 RWX_RW UserLocal] lookup_ex [OF plain_ex(1)]
  by (auto simp: free_ex root_ex va_index_def)

text \<open>
  C2. Allocating a range of pages keeps private memory apart. When the range is unmapped and there are
  three free frames for each page, the call succeeds: page after page is mapped to a private frame of
  its own, every other address keeps its mapping, frames that are not page tables keep their contents,
  and afterwards no privately mapped frame is a page table, is free, or is mapped a second time.
\<close>
theorem vms_allocate_isolated:
  assumes "isolated m" "range_free m va (unat cnt)" "3 * unat cnt \<le> length (free_pages (mc_alloc m))"
  shows "\<exists>m' ps. vms_allocate va cnt rwx acc m = Inr (Inr (), m') \<and> isolated m' \<and> frames_kept m m'
    \<and> length ps = unat cnt \<and> range_mapped m m' va ps rwx acc"
  using assms by (rule vms_allocate_range)

theorem vms_allocate_isolated_witness:
  "\<exists>m' q. vms_allocate 0x10000 2 RWX_RW UserLocal machine_ex = Inr (Inr (), m') \<and> isolated m'
     \<and> vm_lookup (mc_mem m') 1 (va_index 0x11000) = Some (0, mapped_leaf (Map_Private q) RWX_RW UserLocal)"
proof -
  have "range_free machine_ex 0x10000 (unat (2 :: usize))"
    using plain_ex lookup_ex [OF plain_ex(1)] lookup_ex [OF plain_ex(2)]
    by (auto simp: range_free_def page_at_def root_ex va_index_def less_2_cases_iff)
  from vms_allocate_isolated [OF isolated_ex this, of RWX_RW UserLocal] obtain m' ps where
    h: "vms_allocate 0x10000 2 RWX_RW UserLocal machine_ex = Inr (Inr (), m')" "isolated m'" "length ps = 2"
    "range_mapped machine_ex m' 0x10000 ps RWX_RW UserLocal" by (auto simp: free_ex)
  have "vm_lookup (mc_mem m') 1 (va_index (page_at 0x10000 1)) = Some (0, mapped_leaf (Map_Private (ps ! 1)) RWX_RW UserLocal)"
    using h(3,4) by (simp add: range_mapped_def root_ex)
  then show ?thesis using h(1,2) by (auto simp: page_at_def)
qed

end
