(* ===== verification/Arena.thy ===== *)
theory Arena
  imports Sv39_Props
begin

text \<open>
  The arena allocator (\<open>allocator/arena.rs\<close>): slots with a reference counter, handed out by index and
  protected by guards. The model runs one hart; a \<open>compare_exchange_weak\<close> succeeds when the value is
  the expected one (a spurious failure repeats the iteration without an effect).

  The union in a slot is only ever written as an item, so a slot holds its counter and an item; reading
  the link of the free list reads the first word of the item, which the argument \<open>raw\<close> gives.
\<close>

subsection \<open>State\<close>

(* src/kernel/src/allocator/arena.rs:50-56 InsertError *)
datatype insert_error = IE_NoFreeSlots | IE_NoMemory

(* src/kernel/src/allocator/arena.rs:58-64 RemoveError *)
datatype remove_error = RE_NoItem | RE_Referenced

(* src/kernel/src/allocator/arena.rs:24-48 Arena *)
record 'a arena =
  ar_base :: page
  ar_slots :: "usize \<Rightarrow> usize \<times> 'a"
  ar_next :: usize
  ar_capacity :: usize
  ar_max :: usize

abbreviation USIZE_MAX :: usize where
  "USIZE_MAX \<equiv> - 1"

subsection \<open>Operations\<close>

(* src/kernel/src/allocator/arena.rs:67-84 Arena::new *)
definition arena_new :: "page \<Rightarrow> usize \<Rightarrow> usize \<Rightarrow> (usize \<Rightarrow> usize \<times> 'a) \<Rightarrow> 'a arena may_panic" where
  "arena_new address bytes slot_size memory =
     assertP (PAGE_SIZE \<ge> slot_size)
       (Inr \<lparr>ar_base = address, ar_slots = memory, ar_next = USIZE_MAX, ar_capacity = 0, ar_max = bytes div slot_size\<rparr>)"

text \<open>One pass through the loop of \<open>insert\<close>; \<open>None\<close> asks for another one.\<close>

(* src/kernel/src/allocator/arena.rs:88-140 Arena::insert *)
definition insert_pass :: "('a \<Rightarrow> usize) \<Rightarrow> 'a \<Rightarrow> 'a arena \<Rightarrow> ((insert_error + usize) \<times> 'a arena) option kern" where
  "insert_pass raw item ar =
     (let index = ar_next ar in
      if index \<noteq> USIZE_MAX then
        (let (counter, value) = ar_slots ar index in
         if counter = USIZE_MAX
         then retK (Some (Inr index, ar\<lparr>ar_next := raw value, ar_slots := (ar_slots ar)(index := (0, item))\<rparr>))
         else retK None)
      else
        (let cap = ar_capacity ar in
         if cap = USIZE_MAX then retK None
         else if cap = ar_max ar then retK (Some (Inl IE_NoFreeSlots, ar))
         else
           bindK allocK (\<lambda>p.
           bindK (liftK (unwrapR (page_new (ar_base ar)))) (\<lambda>address.
           bindK (unwrapK (vms_add address (Map_Private p) RWX_RW KernelGlobal)) (\<lambda>_.
           retK (Some (Inr 0, ar\<lparr>ar_slots := (ar_slots ar)(0 := (0, item)), ar_capacity := cap + 1\<rparr>)))))))"

(* src/kernel/src/allocator/arena.rs:86-141 Arena::insert *)
primrec arena_insert :: "nat \<Rightarrow> ('a \<Rightarrow> usize) \<Rightarrow> 'a \<Rightarrow> 'a arena \<Rightarrow> ((insert_error + usize) \<times> 'a arena) option kern" where
  "arena_insert 0 raw item ar = retK None"
| "arena_insert (Suc fuel) raw item ar =
     bindK (insert_pass raw item ar) (\<lambda>r.
     case r of None \<Rightarrow> arena_insert fuel raw item ar | Some x \<Rightarrow> retK (Some x))"

(* src/kernel/src/allocator/arena.rs:143-166 Arena::remove *)
definition arena_remove :: "usize \<Rightarrow> 'a arena \<Rightarrow> (remove_error + 'a) \<times> 'a arena" where
  "arena_remove index ar =
     (if \<not> index < ar_capacity ar then (Inl RE_NoItem, ar)
      else
        (let (val, item) = ar_slots ar index in
         if val > 0 then (Inl RE_Referenced, ar)
         else if val = USIZE_MAX then (Inl RE_NoItem, ar)
         else (Inr item, ar\<lparr>ar_slots := (ar_slots ar)(index := (USIZE_MAX, item))\<rparr>)))"

(* src/kernel/src/allocator/arena.rs:173-192 Arena::get *)
definition arena_get :: "usize \<Rightarrow> 'a arena \<Rightarrow> 'a option \<times> 'a arena" where
  "arena_get index ar =
     (if \<not> index < ar_capacity ar then (None, ar)
      else
        (let (val, item) = ar_slots ar index in
         if val \<noteq> USIZE_MAX then (Some item, ar\<lparr>ar_slots := (ar_slots ar)(index := (val + 1, item))\<rparr>)
         else (None, ar)))"

(* src/kernel/src/allocator/arena.rs:211-215 Guard::drop *)
definition guard_drop :: "usize \<Rightarrow> 'a arena \<Rightarrow> 'a arena" where
  "guard_drop index ar =
     (let (val, item) = ar_slots ar index in ar\<lparr>ar_slots := (ar_slots ar)(index := (val - 1, item))\<rparr>)"

text \<open>A write through a guard (items have interior mutability).\<close>

definition guard_write :: "usize \<Rightarrow> 'a \<Rightarrow> 'a arena \<Rightarrow> 'a arena" where
  "guard_write index item ar =
     (let (val, _) = ar_slots ar index in ar\<lparr>ar_slots := (ar_slots ar)(index := (val, item))\<rparr>)"

subsection \<open>Guards\<close>

text \<open>
  The steps of a client: it takes guards, writes through and drops the ones it holds, and asks for
  removals. \<open>gs\<close> is the list of the guards it holds, the last component the items it got back. The
  bound on the number of guards keeps the counter from reaching the value that marks a free slot.
\<close>

inductive arena_run :: "'a arena \<Rightarrow> usize list \<Rightarrow> 'a arena \<Rightarrow> usize list \<Rightarrow> (usize \<times> 'a) list \<Rightarrow> bool" where
  start: "arena_run ar gs ar gs []"
| take: "\<lbrakk>arena_run ar gs ar1 gs1 rs; length gs1 < 2 ^ 63; arena_get i ar1 = (Some x, ar2)\<rbrakk>
    \<Longrightarrow> arena_run ar gs ar2 (i # gs1) rs"
| miss: "\<lbrakk>arena_run ar gs ar1 gs1 rs; arena_get i ar1 = (None, ar2)\<rbrakk> \<Longrightarrow> arena_run ar gs ar2 gs1 rs"
| change: "\<lbrakk>arena_run ar gs ar1 gs1 rs; i \<in> set gs1\<rbrakk> \<Longrightarrow> arena_run ar gs (guard_write i x ar1) gs1 rs"
| drop: "\<lbrakk>arena_run ar gs ar1 gs1 rs; i \<in> set gs1\<rbrakk> \<Longrightarrow> arena_run ar gs (guard_drop i ar1) (remove1 i gs1) rs"
| remove: "\<lbrakk>arena_run ar gs ar1 gs1 rs; arena_remove i ar1 = (Inr x, ar2)\<rbrakk> \<Longrightarrow> arena_run ar gs ar2 gs1 ((i, x) # rs)"
| refuse: "\<lbrakk>arena_run ar gs ar1 gs1 rs; arena_remove i ar1 = (Inl e, ar2)\<rbrakk> \<Longrightarrow> arena_run ar gs ar2 gs1 rs"

text \<open>Each slot in use counts the guards on it; a free slot has none and was removed at most once.\<close>

definition guards_counted :: "'a arena \<Rightarrow> usize list \<Rightarrow> bool" where
  "guards_counted ar gs \<longleftrightarrow> length gs \<le> 2 ^ 63
     \<and> (\<forall>i \<in> set gs. i < ar_capacity ar)
     \<and> (\<forall>i < ar_capacity ar. fst (ar_slots ar i) = USIZE_MAX \<and> i \<notin> set gs
          \<or> unat (fst (ar_slots ar i)) = count_list gs i)"

lemma count_less_max:
  assumes "length gs \<le> 2 ^ 63" "unat c = count_list gs i"
  shows "c \<noteq> USIZE_MAX" "unat (c + 1) = count_list (i # gs) i" "i \<in> set gs \<Longrightarrow> unat (c - 1) = count_list (remove1 i gs) i"
proof -
  have le: "unat c \<le> 2 ^ 63" using assms count_le_length [of gs i] by simp
  have "unat USIZE_MAX = 2 ^ 64 - 1" using unsigned_minus_1_eq_mask [where ?'b = 64 and ?'a = nat] by (simp add: mask_eq_exp_minus_1)
  with le show "c \<noteq> USIZE_MAX" by auto
  then show "unat (c + 1) = count_list (i # gs) i"
    using le assms(2) unat_add_no_overflow [of c 1] by simp
  assume "i \<in> set gs"
  then have p: "0 < count_list gs i" by (simp add: count_list_0_iff neq0_conv [symmetric])
  have "count_list (remove1 i gs) i = count_list gs i - 1" by (induction gs) auto
  moreover have "1 \<le> c" using p assms(2) by (simp add: word_le_nat_alt)
  then have "unat (c - 1) = unat c - unat (1 :: usize)" by (rule unat_sub)
  ultimately show "unat (c - 1) = count_list (remove1 i gs) i" using assms(2) by simp
qed

lemma count_list_remove1_other: "j \<noteq> i \<Longrightarrow> count_list (remove1 i gs) j = count_list gs j"
  by (induction gs) auto

lemma guards_countedD:
  assumes "guards_counted ar gs" "i < ar_capacity ar" "fst (ar_slots ar i) \<noteq> USIZE_MAX"
  shows "unat (fst (ar_slots ar i)) = count_list gs i"
  using assms unfolding guards_counted_def by blast

lemma guards_counted_held:
  assumes "guards_counted ar gs" "i \<in> set gs"
  shows "i < ar_capacity ar" "fst (ar_slots ar i) \<noteq> USIZE_MAX" "unat (fst (ar_slots ar i)) = count_list gs i" "fst (ar_slots ar i) > 0"
proof -
  have c: "length gs \<le> 2 ^ 63" "i < ar_capacity ar" "unat (fst (ar_slots ar i)) = count_list gs i"
    using assms unfolding guards_counted_def by blast+
  show "i < ar_capacity ar" "unat (fst (ar_slots ar i)) = count_list gs i" by (rule c)+
  show "fst (ar_slots ar i) \<noteq> USIZE_MAX" by (rule count_less_max(1) [OF c(1,3)])
  have "count_list gs i \<noteq> 0" using assms(2) by (simp add: count_list_0_iff)
  with c(3) show "fst (ar_slots ar i) > 0" by (auto simp: word_gt_0)
qed

text \<open>The invariant of a run, with the indices that have been removed.\<close>

definition run_inv :: "'a arena \<Rightarrow> usize list \<Rightarrow> (usize \<times> 'a) list \<Rightarrow> bool" where
  "run_inv ar gs rs \<longleftrightarrow> guards_counted ar gs \<and> distinct (map fst rs)
     \<and> (\<forall>i \<in> fst ` set rs. i < ar_capacity ar \<and> fst (ar_slots ar i) = USIZE_MAX)"

lemma run_inv_slot:
  assumes inv: "run_inv ar gs rs" and i: "i < ar_capacity ar" "fst (ar_slots ar i) \<noteq> USIZE_MAX"
    and n: "unat c = count_list gs' i" "length gs' \<le> 2 ^ 63" "\<forall>j. j \<noteq> i \<longrightarrow> count_list gs' j = count_list gs j"
    and sub: "set gs' \<subseteq> insert i (set gs)"
  shows "run_inv (ar\<lparr>ar_slots := (ar_slots ar)(i := (c, x))\<rparr>) gs' rs"
proof -
  have "j \<in> set gs' \<longleftrightarrow> j \<in> set gs" if "j \<noteq> i" for j
    using n(3) that by (metis count_list_0_iff)
  then show ?thesis
    using inv i n sub unfolding run_inv_def guards_counted_def by auto
qed

lemma run_inv_get:
  assumes "run_inv ar gs rs" "length gs < 2 ^ 63" "arena_get i ar = (Some x, ar')"
  shows "run_inv ar' (i # gs) rs"
proof -
  obtain c where c: "i < ar_capacity ar" "ar_slots ar i = (c, x)" "c \<noteq> USIZE_MAX"
      "ar' = ar\<lparr>ar_slots := (ar_slots ar)(i := (c + 1, x))\<rparr>"
    using assms(3) by (auto simp: arena_get_def split: if_splits prod.splits)
  have g: "guards_counted ar gs" using assms(1) by (simp add: run_inv_def)
  have "unat c = count_list gs i" using guards_countedD [OF g c(1)] c(2,3) by simp
  then have "unat (c + 1) = count_list (i # gs) i" using count_less_max(2) [of gs c i] assms(2) by simp
  then show ?thesis unfolding c(4) using assms(1,2) c by (intro run_inv_slot) auto
qed

lemma run_inv_drop:
  assumes "run_inv ar gs rs" "i \<in> set gs"
  shows "run_inv (guard_drop i ar) (remove1 i gs) rs"
proof -
  obtain c x where c: "ar_slots ar i = (c, x)" by fastforce
  have g: "guards_counted ar gs" using assms(1) by (simp add: run_inv_def)
  note H = guards_counted_held [OF g assms(2)]
  have len: "length gs \<le> 2 ^ 63" using g by (simp add: guards_counted_def)
  have "unat (c - 1) = count_list (remove1 i gs) i" using count_less_max(3) [OF len _ assms(2), of c] H(3) c by simp
  moreover have "length (remove1 i gs) \<le> 2 ^ 63" using len by (auto simp: length_remove1)
  moreover have "set (remove1 i gs) \<subseteq> insert i (set gs)" using set_remove1_subset by fastforce
  ultimately have "run_inv (ar\<lparr>ar_slots := (ar_slots ar)(i := (c - 1, x))\<rparr>) (remove1 i gs) rs"
    using assms(1) H(1,2) by (intro run_inv_slot) (auto simp: count_list_remove1_other)
  then show ?thesis by (simp add: guard_drop_def c)
qed

lemma run_inv_write:
  assumes "run_inv ar gs rs" "i \<in> set gs"
  shows "run_inv (guard_write i x ar) gs rs"
proof -
  have g: "guards_counted ar gs" using assms(1) by (simp add: run_inv_def)
  note H = guards_counted_held [OF g assms(2)]
  have "run_inv (ar\<lparr>ar_slots := (ar_slots ar)(i := (fst (ar_slots ar i), x))\<rparr>) gs rs"
    using assms(1) H g by (intro run_inv_slot) (auto simp: guards_counted_def)
  then show ?thesis by (cases "ar_slots ar i") (simp add: guard_write_def)
qed

lemma arena_remove_Inr:
  assumes "arena_remove i ar = (Inr x, ar')"
  shows "i < ar_capacity ar" "ar_slots ar i = (0, x)" "ar' = ar\<lparr>ar_slots := (ar_slots ar)(i := (USIZE_MAX, x))\<rparr>"
  using assms by (auto simp: arena_remove_def word_gt_0 split: if_splits prod.splits)

lemma run_inv_remove:
  assumes "run_inv ar gs rs" "arena_remove i ar = (Inr x, ar')"
  shows "run_inv ar' gs ((i, x) # rs)"
proof -
  note R = arena_remove_Inr [OF assms(2)]
  have g: "guards_counted ar gs" using assms(1) by (simp add: run_inv_def)
  have "unat (fst (ar_slots ar i)) = count_list gs i" using guards_countedD [OF g R(1)] R(2) by simp
  then have "i \<notin> set gs" using R(2) by (simp add: count_list_0_iff)
  moreover have "i \<notin> fst ` set rs" using assms(1) R(2) unfolding run_inv_def by fastforce
  ultimately show ?thesis using assms(1) R unfolding run_inv_def guards_counted_def by auto
qed

lemma arena_unchanged:
  "arena_get i ar = (None, ar') \<Longrightarrow> ar' = ar" "arena_remove i ar = (Inl e, ar') \<Longrightarrow> ar' = ar"
  by (auto simp: arena_get_def arena_remove_def split: if_splits prod.splits)

lemma arena_run_inv:
  assumes "arena_run ar gs ar' gs' rs" "guards_counted ar gs"
  shows "run_inv ar' gs' rs"
  using assms
proof (induction rule: arena_run.induct)
  case (start ar gs)
  then show ?case by (simp add: run_inv_def)
qed (auto dest: arena_unchanged intro: run_inv_get run_inv_drop run_inv_write run_inv_remove)

text \<open>
  C11. Guards protect the items of an arena. In any run in which a client takes guards, writes through
  and drops the ones it holds and asks for removals, every reference counter is the number of guards
  that are held, an item with a guard on it is never removed, every item without one can be removed,
  and each slot is given back at most once.
\<close>
theorem arena_guards_protect:
  assumes "arena_run ar [] ar' gs rs" "guards_counted ar []"
  shows "distinct (map fst rs)
    \<and> (\<forall>i \<in> set gs. arena_remove i ar' = (Inl RE_Referenced, ar') \<and> unat (fst (ar_slots ar' i)) = count_list gs i)
    \<and> (\<forall>i < ar_capacity ar'. i \<notin> set gs \<and> fst (ar_slots ar' i) \<noteq> USIZE_MAX
         \<longrightarrow> fst (arena_remove i ar') = Inr (snd (ar_slots ar' i)))"
proof -
  have R: "run_inv ar' gs rs" using arena_run_inv [OF assms] .
  then have g: "guards_counted ar' gs" by (simp add: run_inv_def)
  have "arena_remove i ar' = (Inl RE_Referenced, ar')" if "i \<in> set gs" for i
    using guards_counted_held [OF g that] by (auto simp: arena_remove_def split: prod.split)
  moreover have "fst (arena_remove i ar') = Inr (snd (ar_slots ar' i))"
    if "i < ar_capacity ar'" "i \<notin> set gs" "fst (ar_slots ar' i) \<noteq> USIZE_MAX" for i
  proof -
    have "fst (ar_slots ar' i) = 0" using guards_countedD [OF g that(1,3)] that(2) by (simp add: count_notin unat_eq_0)
    then show ?thesis using that by (cases "ar_slots ar' i") (simp add: arena_remove_def)
  qed
  moreover have "unat (fst (ar_slots ar' i)) = count_list gs i" if "i \<in> set gs" for i
    using guards_counted_held(3) [OF g that] .
  ultimately show ?thesis using R by (auto simp: run_inv_def)
qed

definition arena_ex :: "nat arena" where
  "arena_ex = \<lparr>ar_base = 0x1000, ar_slots = (\<lambda>_. (0, 7)), ar_next = USIZE_MAX, ar_capacity = 1, ar_max = 10\<rparr>"

theorem arena_guards_protect_witness:
  "\<exists>ar'. arena_run arena_ex [] ar' [0] [] \<and> arena_remove 0 ar' = (Inl RE_Referenced, ar')"
proof -
  let ?ar = "arena_ex\<lparr>ar_slots := (\<lambda>_. (0, 7))(0 := (1, 7))\<rparr>"
  have run: "arena_run arena_ex [] ?ar [0] []"
    by (rule arena_run.take [OF arena_run.start, where x = 7]) (simp_all add: arena_get_def arena_ex_def)
  have "guards_counted arena_ex []" by (simp add: guards_counted_def arena_ex_def)
  from arena_guards_protect [OF run this] run show ?thesis by (intro exI [of _ ?ar]) simp
qed

subsection \<open>Insertion\<close>

text \<open>A frame is taken and mapped: what becomes of the machine.\<close>

lemma alloc_and_map:
  assumes "isolated m" "plain_index (vpn2 va)" "vm_lookup (mc_mem m) (mc_root m) (va_index va) = None"
    "3 \<le> length (free_pages (mc_alloc m))"
  obtains p m1 m' where "allocK m = Inr (p, m1)" "vms_add va (Map_Private p) rwx acc m1 = Inr (Inr (), m')"
    "isolated m'" "frames_kept m m'" "map_updated m m' (va_index va) (Some (0, mapped_leaf (Map_Private p) rwx acc))"
proof (rule isolated_add_private [OF assms, of rwx acc])
  fix p a m'
  assume a: "alloc (mc_alloc m) = Inr (Inr p, a)" "vms_add va (Map_Private p) rwx acc (m\<lparr>mc_alloc := a\<rparr>) = Inr (Inr (), m')"
    "isolated m'" "frames_kept m m'" "map_updated m m' (va_index va) (Some (0, mapped_leaf (Map_Private p) rwx acc))"
  have "allocK m = Inr (p, m\<lparr>mc_alloc := a\<rparr>)" by (simp add: allocK_def allocate_def a(1))
  with a(2-) show thesis by (intro that)
qed

lemma alloc_and_overlap:
  assumes "vms_inv m" "plain_index (vpn2 va)" "vm_lookup (mc_mem m) (mc_root m) (va_index va) \<noteq> None"
    "free_pages (mc_alloc m) \<noteq> []"
  obtains p m1 m' where "allocK m = Inr (p, m1)" "vms_add va (Map_Private p) rwx acc m1 = Inr (Inl AE_Overlaps, m')"
proof -
  obtain p a where a: "alloc (mc_alloc m) = Inr (Inr p, a)" "vms_inv (m\<lparr>mc_alloc := a\<rparr>)"
    using alloc_fresh_inv [OF assms(1,4)] by blast
  have k: "allocK m = Inr (p, m\<lparr>mc_alloc := a\<rparr>)" by (simp add: allocK_def allocate_def a(1))
  show thesis
    by (cases rule: vms_add_cases [OF a(2) assms(2), of "Map_Private p" rwx acc])
      (use assms(3) in \<open>auto intro: that [OF k]\<close>)
qed

definition arena_fresh :: "'a arena \<Rightarrow> machine \<Rightarrow> bool" where
  "arena_fresh ar m \<longleftrightarrow> ar_next ar = USIZE_MAX \<and> ar_capacity ar = 0 \<and> ar_max ar \<noteq> 0
     \<and> page_inv (ar_base ar) \<and> plain_index (vpn2 (ar_base ar))
     \<and> vm_lookup (mc_mem m) (mc_root m) (va_index (ar_base ar)) = None"

lemma page_new_inv: "page_inv p \<Longrightarrow> page_new p = Inr p"
  by (simp add: page_inv_def page_new_def page_consts and_4095_0_iff)

lemma arena_insert_first:
  assumes fr: "arena_fresh ar m" and iso: "isolated m" and room: "3 \<le> length (free_pages (mc_alloc m))"
  shows "\<exists>m'. arena_insert (Suc n) raw x ar m
      = Inr (Some (Inr 0, ar\<lparr>ar_slots := (ar_slots ar)(0 := (0, x)), ar_capacity := 1\<rparr>), m')
    \<and> isolated m' \<and> vm_lookup (mc_mem m') (mc_root m') (va_index (ar_base ar)) \<noteq> None"
proof -
  let ?b = "ar_base ar"
  have b: "page_inv ?b" "plain_index (vpn2 ?b)" "vm_lookup (mc_mem m) (mc_root m) (va_index ?b) = None"
    using fr by (auto simp: arena_fresh_def)
  obtain p m1 m' where m': "allocK m = Inr (p, m1)" "vms_add ?b (Map_Private p) RWX_RW KernelGlobal m1 = Inr (Inr (), m')"
    "isolated m'" "frames_kept m m'" "map_updated m m' (va_index ?b) (Some (0, mapped_leaf (Map_Private p) RWX_RW KernelGlobal))"
    using alloc_and_map [OF iso b(2,3) room] by metis
  have r: "mc_root m' = mc_root m" using m'(4) by (simp add: frames_kept_def mc_root_def)
  have pg: "page_new ?b = Inr ?b" using page_new_inv [OF b(1)] .
  have "vm_lookup (mc_mem m') (mc_root m') (va_index ?b) \<noteq> None"
    using m'(5) b(2) by (simp add: r map_updated_def va_index_def plain_index_def)
  moreover have "arena_insert (Suc n) raw x ar m
      = Inr (Some (Inr 0, ar\<lparr>ar_slots := (ar_slots ar)(0 := (0, x)), ar_capacity := 1\<rparr>), m')"
    using fr m'(1,2) pg by (simp add: insert_pass_def arena_fresh_def bindK_def unwrapK_def)
  ultimately show ?thesis using m'(3) by blast
qed

text \<open>
  C12. An arena takes one item only. The first insertion into a fresh arena maps its page and stores the
  item at index 0, where a lookup finds it; any later one panics although the arena has free slots,
  because it maps the same page again.
\<close>
theorem arena_insert_once:
  assumes "arena_fresh ar m" "isolated m" "3 \<le> length (free_pages (mc_alloc m))"
  shows "\<exists>ar' m'. arena_insert (Suc n) raw x ar m = Inr (Some (Inr 0, ar'), m') \<and> isolated m'
    \<and> fst (arena_get 0 ar') = Some x
    \<and> (ar_max ar \<noteq> 1 \<and> free_pages (mc_alloc m') \<noteq> []
         \<longrightarrow> (\<forall>k raw' y. arena_insert (Suc k) raw' y ar' m' = Inl Unwrap_Failed))"
proof -
  let ?ar = "ar\<lparr>ar_slots := (ar_slots ar)(0 := (0, x)), ar_capacity := 1\<rparr>" and ?b = "ar_base ar"
  obtain m' where m': "arena_insert (Suc n) raw x ar m = Inr (Some (Inr 0, ?ar), m')" "isolated m'"
    "vm_lookup (mc_mem m') (mc_root m') (va_index ?b) \<noteq> None"
    using arena_insert_first [OF assms] by blast
  have inv: "vms_inv m'" using m'(2) by (simp add: isolated_def)
  have b: "page_inv ?b" "plain_index (vpn2 ?b)" "ar_next ar = USIZE_MAX" using assms(1) by (auto simp: arena_fresh_def)
  have pg: "page_new ?b = Inr ?b" using page_new_inv [OF b(1)] .
  have "arena_insert (Suc k) raw' y ?ar m' = Inl Unwrap_Failed"
    if h: "ar_max ar \<noteq> 1" "free_pages (mc_alloc m') \<noteq> []" for k raw' y
  proof (rule alloc_and_overlap [OF inv b(2) m'(3) h(2)])
    fix p m1 m2
    assume "allocK m' = Inr (p, m1)" "vms_add ?b (Map_Private p) RWX_RW KernelGlobal m1 = Inr (Inl AE_Overlaps, m2)"
    then show ?thesis using h(1) b(3) pg by (auto simp: insert_pass_def bindK_def unwrapK_def)
  qed
  moreover have "fst (arena_get 0 ?ar) = Some x" by (simp add: arena_get_def)
  ultimately show ?thesis using m'(1,2) by blast
qed

theorem arena_insert_once_witness:
  "\<exists>ar' m'. arena_insert (Suc 0) id 5 \<lparr>ar_base = 0x10000, ar_slots = (\<lambda>_. (0, 0)), ar_next = USIZE_MAX, ar_capacity = 0, ar_max = 7\<rparr> machine_ex
     = Inr (Some (Inr 0, ar'), m') \<and> fst (arena_get 0 ar') = Some 5"
proof -
  let ?ar = "\<lparr>ar_base = 0x10000, ar_slots = (\<lambda>_. (0, 0)), ar_next = USIZE_MAX, ar_capacity = 0, ar_max = 7\<rparr> :: usize arena"
  have "arena_fresh ?ar machine_ex"
    using plain_ex(1) lookup_ex [OF plain_ex(1)] by (simp add: arena_fresh_def page_inv_def root_ex va_index_def)
  from arena_insert_once [OF this isolated_ex, of 0 id 5] show ?thesis by (auto simp: free_ex simp del: arena_insert.simps)
qed

end
