(* ===== verification/Task_Address.thy ===== *)
theory Task_Address
  imports Norost_Prelude
begin

text \<open>
  Task addresses (\<open>task/address.rs\<close>) on a 64-bit target: a group ID in the upper half of a word and a
  task ID in the lower one, and the conversions between them. A shift of a \<open>u32\<close> by 32 takes its
  amount modulo 32 in a release build.
\<close>

(* src/kernel/src/task/address.rs:21-24 TaskID *)
type_synonym task_id = u32

(* src/kernel/src/task/address.rs:39-42 GroupID *)
type_synonym group_id = u32

(* src/kernel/src/task/address.rs:48-51 Address *)
type_synonym task_address = usize

definition shl_u32 :: "u32 \<Rightarrow> usize \<Rightarrow> u32" where
  "shl_u32 x n = push_bit (unat n mod 32) x"

(* src/kernel/src/task/address.rs:54-57 Address::new *)
definition address_new :: "task_id \<Rightarrow> group_id \<Rightarrow> task_address" where
  "address_new t g = ucast t OR ucast (shl_u32 g (8 * 4))"

(* src/kernel/src/task/address.rs:59-65 Address::task *)
definition address_task :: "task_address \<Rightarrow> task_id may_panic" where
  "address_task a = unwrapO (try_into (a AND (push_bit 4 0x100 - 1)))"

(* src/kernel/src/task/address.rs:67-73 Address::group *)
definition address_group :: "task_address \<Rightarrow> group_id may_panic" where
  "address_group a = unwrapO (try_into (drop_bit (8 * 4) a))"

(* src/kernel/src/task/address.rs:75-77 Address::todo *)
definition address_todo :: "usize \<Rightarrow> task_address" where
  "address_todo n = n"

lemma task_mask: "push_bit 4 0x100 - 1 = (mask 12 :: usize)"
  by (simp add: mask_eq_exp_minus_1 push_bit_eq_mult)

lemma address_task_eq: "address_task a = Inr (ucast (a AND mask 12))"
proof -
  have "unat (a AND mask 12) < 2 ^ 32" using unat_and_mask [of a 12] by simp
  then show ?thesis unfolding address_task_def task_mask by (simp add: try_into_def)
qed

lemma address_group_eq: "address_group a = Inr (ucast (drop_bit 32 a))"
proof -
  have "unat (drop_bit 32 a) < 2 ^ 32" using unat_drop_bit [of 32 a] unat_bounds(4) [of a] by simp
  then show ?thesis by (simp add: address_group_def try_into_def)
qed

lemma address_new_eq: "address_new t g = ucast t OR ucast g"
  by (simp add: address_new_def shl_u32_def)

lemma ucast_or_32: "ucast ((ucast (t :: u32) OR ucast (g :: u32)) AND mask 12 :: usize) = (t OR g) AND mask 12"
  by (rule bit_word_eqI) (auto simp: bit_simps)

lemma drop_bit_ucast_32 [simp]: "drop_bit 32 (ucast (t :: u32) :: usize) = 0"
  by (rule bit_word_eqI) (auto simp: bit_simps dest: bit_imp_le_length)

lemma and_mask_eq_self_iff: "t AND mask n = t \<longleftrightarrow> unat t < 2 ^ n" for t :: "'a::len word"
proof -
  have "t AND mask n = t \<longleftrightarrow> unat t mod 2 ^ n = unat t" by (metis unat_and_mask word_unat_eq_iff)
  also have "\<dots> \<longleftrightarrow> unat t < 2 ^ n" by (metis mod_less mod_less_divisor zero_less_numeral zero_less_power)
  finally show ?thesis .
qed

text \<open>
  C13. A task ID and a group ID survive being put into an address and taken out again exactly when the
  group is 0 and the task ID is below 4096. The two accessors never panic.
\<close>
theorem address_roundtrip:
  "(\<exists>t' g'. address_task a = Inr t' \<and> address_group a = Inr g')
   \<and> (address_task (address_new t g) = Inr t \<and> address_group (address_new t g) = Inr g \<longleftrightarrow> g = 0 \<and> unat t < 4096)"
proof -
  have "address_task (address_new t g) = Inr ((t OR g) AND mask 12)" "address_group (address_new t g) = Inr 0"
    by (simp_all add: address_task_eq address_group_eq address_new_eq ucast_or_32)
  then show ?thesis
    using and_mask_eq_self_iff [of t 12] by (auto simp: address_task_eq address_group_eq)
qed

end
