(* ===== verification/Task_Groups.thy ===== *)
theory Task_Groups
  imports Arena Task_Address
begin

text \<open>
  Task groups (\<open>task/group.rs\<close>): sixteen task pointers, null for a free place, kept in an arena. The
  operations are modelled for one hart, and \<open>insert\<close>, whose slots are atomics, also for any number of
  harts that run it at the same time, one atomic access at a step.
\<close>

subsection \<open>Operations\<close>

(* src/kernel/src/task/group.rs:23-29 GroupData *)
type_synonym group_data = "usize list"

(* src/kernel/src/task/group.rs:34-35 NoTask *)
datatype no_task = NoTask

(* src/kernel/src/task/group.rs:37-38 Full *)
datatype group_full = Full

text \<open>The link field of a slot shares its place with the first task pointer.\<close>

definition group_raw :: "group_data \<Rightarrow> usize" where
  "group_raw g = hd g"

(* src/kernel/src/task/group.rs:51-77 Group::new *)
definition group_new :: "nat \<Rightarrow> usize \<Rightarrow> group_data arena \<Rightarrow> ((insert_error + usize) \<times> group_data arena) option kern" where
  "group_new fuel task = arena_insert fuel group_raw (task # replicate 15 0)"

(* src/kernel/src/task/group.rs:79-89 Group::task *)
definition group_task :: "group_data \<Rightarrow> usize \<Rightarrow> no_task + usize" where
  "group_task tasks i =
     (if unat i < length tasks \<and> tasks ! unat i \<noteq> 0 then Inr (tasks ! unat i) else Inl NoTask)"

(* src/kernel/src/task/group.rs:125-138 Group::insert *)
fun insert_scan :: "usize \<Rightarrow> nat \<Rightarrow> group_data \<Rightarrow> (nat \<times> group_data) option" where
  "insert_scan task i [] = None"
| "insert_scan task i (s # ss) =
     (if s = 0 then Some (i, task # ss)
      else case insert_scan task (Suc i) ss of None \<Rightarrow> None | Some (k, ss') \<Rightarrow> Some (k, s # ss'))"

(* src/kernel/src/task/group.rs:123-140 Group::insert *)
definition group_insert :: "usize \<Rightarrow> group_data \<Rightarrow> (group_full + usize) \<times> group_data" where
  "group_insert task tasks =
     (case insert_scan task 0 tasks of None \<Rightarrow> (Inl Full, tasks) | Some (i, tasks') \<Rightarrow> (Inr (of_nat i), tasks'))"

text \<open>
  \<open>remove_task\<close> consumes a guard on the group \<open>index\<close>. The result \<open>Some\<close> stands for the group that is
  handed back, with its guard still counted.
\<close>

(* src/kernel/src/task/group.rs:91-115 Group::remove_task *)
definition remove_task :: "usize \<Rightarrow> usize \<Rightarrow> group_data arena \<Rightarrow> usize option \<times> group_data arena" where
  "remove_task index i ar =
     (let tasks = snd (ar_slots ar index);
          tasks = (if unat i < length tasks then tasks[unat i := 0] else tasks);
          ar = guard_write index tasks ar in
      if \<forall>ptr \<in> set tasks. ptr = 0 then (None, snd (arena_remove index (guard_drop index ar)))
      else (Some index, ar))"

(* src/kernel/src/task/group.rs:143-149 Group::get *)
definition group_get :: "usize \<Rightarrow> group_data arena \<Rightarrow> group_data option \<times> group_data arena" where
  "group_get index ar = arena_get index ar"

lemma insert_scan_None: "insert_scan t i ss = None \<longleftrightarrow> 0 \<notin> set ss"
  by (induction t i ss rule: insert_scan.induct) (auto split: option.splits)

lemma insert_scan_Some:
  "insert_scan t i ss = Some (k, ss') \<Longrightarrow>
     i \<le> k \<and> k - i < length ss \<and> ss ! (k - i) = 0 \<and> (\<forall>j < k - i. ss ! j \<noteq> 0) \<and> ss' = ss[k - i := t]"
proof (induction t i ss arbitrary: k ss' rule: insert_scan.induct)
  case (2 task i s ss)
  show ?case
  proof (cases "s = 0")
    case False
    then obtain ts where ts: "insert_scan task (Suc i) ss = Some (k, ts)" "ss' = s # ts"
      using "2.prems" by (auto split: option.splits)
    have IH: "Suc i \<le> k" "k - Suc i < length ss" "ss ! (k - Suc i) = 0" "\<forall>j < k - Suc i. ss ! j \<noteq> 0"
        "ts = ss[k - Suc i := task]"
      using "2.IH" [OF False ts(1)] by auto
    then have e: "k - i = Suc (k - Suc i)" by simp
    have "(s # ss) ! j \<noteq> 0" if "j < k - i" for j
      using that IH(4) False by (cases j) (auto simp: e)
    then show ?thesis using IH ts(2) by (auto simp: e)
  qed (use "2.prems" in auto)
qed simp

lemma group_insert_cases:
  assumes "length tasks < 2 ^ 64"
  obtains (full) "group_insert t tasks = (Inl Full, tasks)" "0 \<notin> set tasks"
  | (inserted) k where "group_insert t tasks = (Inr (of_nat k), tasks[k := t])" "k < length tasks" "tasks ! k = 0"
      "\<forall>j < k. tasks ! j \<noteq> 0" "unat (of_nat k :: usize) = k"
proof (cases "insert_scan t 0 tasks")
  case None
  moreover have "0 \<notin> set tasks" using None by (simp add: insert_scan_None)
  ultimately show ?thesis by (intro full) (simp_all add: group_insert_def)
next
  case (Some r)
  then obtain k ts where r: "insert_scan t 0 tasks = Some (k, ts)" by (cases r) auto
  note S = insert_scan_Some [OF r]
  show ?thesis
    by (rule inserted [of k]) (use S assms r in \<open>auto simp: group_insert_def intro: unat_of_nat_less\<close>)
qed

subsection \<open>Harts that insert at the same time\<close>

text \<open>
  A hart is about to load slot \<open>i\<close>, has seen a null pointer there and is about to exchange it, or has
  left the loop.
\<close>

datatype hart = Scanning nat | Trying nat | Inserted nat | Failed

(* src/kernel/src/task/group.rs:125-138 Group::insert *)
inductive insert_step :: "(nat \<Rightarrow> usize) \<Rightarrow> group_data \<times> (nat \<Rightarrow> hart) \<Rightarrow> group_data \<times> (nat \<Rightarrow> hart) \<Rightarrow> bool"
  for task :: "nat \<Rightarrow> usize" where
  load_null: "\<lbrakk>hs h = Scanning i; i < length ts; ts ! i = 0\<rbrakk> \<Longrightarrow> insert_step task (ts, hs) (ts, hs(h := Trying i))"
| load_used: "\<lbrakk>hs h = Scanning i; i < length ts; ts ! i \<noteq> 0\<rbrakk> \<Longrightarrow> insert_step task (ts, hs) (ts, hs(h := Scanning (Suc i)))"
| exchange: "\<lbrakk>hs h = Trying i; ts ! i = 0\<rbrakk> \<Longrightarrow> insert_step task (ts, hs) (ts[i := task h], hs(h := Inserted i))"
| taken: "\<lbrakk>hs h = Trying i; ts ! i \<noteq> 0\<rbrakk> \<Longrightarrow> insert_step task (ts, hs) (ts, hs(h := Scanning (Suc i)))"
| out: "\<lbrakk>hs h = Scanning i; i = length ts\<rbrakk> \<Longrightarrow> insert_step task (ts, hs) (ts, hs(h := Failed))"

inductive_cases insert_stepE: "insert_step task (ts, hs) s"

definition insert_inv :: "(nat \<Rightarrow> usize) \<Rightarrow> group_data \<Rightarrow> group_data \<times> (nat \<Rightarrow> hart) \<Rightarrow> bool" where
  "insert_inv task ts0 = (\<lambda>(ts, hs). length ts = length ts0
     \<and> (\<forall>i < length ts. ts0 ! i \<noteq> 0 \<longrightarrow> ts ! i = ts0 ! i)
     \<and> (\<forall>i < length ts. ts0 ! i = 0 \<and> ts ! i \<noteq> 0 \<longrightarrow> (\<exists>h. hs h = Inserted i \<and> ts ! i = task h))
     \<and> (\<forall>h i. hs h = Inserted i \<longrightarrow> i < length ts \<and> ts0 ! i = 0 \<and> ts ! i = task h)
     \<and> (\<forall>h h' i. hs h = Inserted i \<and> hs h' = Inserted i \<longrightarrow> h = h')
     \<and> (\<forall>h i. hs h = Trying i \<longrightarrow> i < length ts \<and> (\<forall>j < i. ts ! j \<noteq> 0))
     \<and> (\<forall>h i. hs h = Scanning i \<longrightarrow> i \<le> length ts \<and> (\<forall>j < i. ts ! j \<noteq> 0))
     \<and> (\<forall>h. hs h = Failed \<longrightarrow> 0 \<notin> set ts))"

text \<open>The invariant as facts about one reachable state.\<close>

lemma insert_invD:
  assumes "insert_inv task ts0 (ts, hs)"
  shows "length ts = length ts0" "i < length ts \<Longrightarrow> ts0 ! i \<noteq> 0 \<Longrightarrow> ts ! i = ts0 ! i"
    "i < length ts \<Longrightarrow> ts0 ! i = 0 \<Longrightarrow> ts ! i \<noteq> 0 \<Longrightarrow> \<exists>h. hs h = Inserted i \<and> ts ! i = task h"
    "hs h = Inserted i \<Longrightarrow> i < length ts \<and> ts0 ! i = 0 \<and> ts ! i = task h"
    "hs h = Inserted i \<Longrightarrow> hs h' = Inserted i \<Longrightarrow> h = h'"
    "hs h = Trying i \<Longrightarrow> i < length ts \<and> (\<forall>j < i. ts ! j \<noteq> 0)"
    "hs h = Scanning i \<Longrightarrow> i \<le> length ts \<and> (\<forall>j < i. ts ! j \<noteq> 0)"
    "hs h = Failed \<Longrightarrow> 0 \<notin> set ts"
proof -
  have a: "length ts = length ts0" "\<forall>i < length ts. ts0 ! i \<noteq> 0 \<longrightarrow> ts ! i = ts0 ! i"
    "\<forall>i < length ts. ts0 ! i = 0 \<and> ts ! i \<noteq> 0 \<longrightarrow> (\<exists>h. hs h = Inserted i \<and> ts ! i = task h)"
    "\<forall>h i. hs h = Inserted i \<longrightarrow> i < length ts \<and> ts0 ! i = 0 \<and> ts ! i = task h"
    "\<forall>h h' i. hs h = Inserted i \<and> hs h' = Inserted i \<longrightarrow> h = h'"
    "\<forall>h i. hs h = Trying i \<longrightarrow> i < length ts \<and> (\<forall>j < i. ts ! j \<noteq> 0)"
    "\<forall>h i. hs h = Scanning i \<longrightarrow> i \<le> length ts \<and> (\<forall>j < i. ts ! j \<noteq> 0)"
    "\<forall>h. hs h = Failed \<longrightarrow> 0 \<notin> set ts"
    using assms unfolding insert_inv_def case_prod_conv by - (elim conjE, assumption)+
  show "length ts = length ts0" by (rule a)
  show "i < length ts \<Longrightarrow> ts0 ! i \<noteq> 0 \<Longrightarrow> ts ! i = ts0 ! i" using a(2) by blast
  show "i < length ts \<Longrightarrow> ts0 ! i = 0 \<Longrightarrow> ts ! i \<noteq> 0 \<Longrightarrow> \<exists>h. hs h = Inserted i \<and> ts ! i = task h" using a(3) by blast
  show "hs h = Inserted i \<Longrightarrow> i < length ts \<and> ts0 ! i = 0 \<and> ts ! i = task h" using a(4) by blast
  show "hs h = Inserted i \<Longrightarrow> hs h' = Inserted i \<Longrightarrow> h = h'" using a(5) by blast
  show "hs h = Trying i \<Longrightarrow> i < length ts \<and> (\<forall>j < i. ts ! j \<noteq> 0)" using a(6) by blast
  show "hs h = Scanning i \<Longrightarrow> i \<le> length ts \<and> (\<forall>j < i. ts ! j \<noteq> 0)" using a(7) by blast
  show "hs h = Failed \<Longrightarrow> 0 \<notin> set ts" using a(8) by blast
qed

text \<open>A step that fills no slot only has to justify the hart's new state.\<close>

lemma insert_inv_local:
  assumes "insert_inv task ts0 (ts, hs)" "\<forall>i. hs h \<noteq> Inserted i"
    and "\<forall>i. st \<noteq> Inserted i" "\<And>i. st = Trying i \<Longrightarrow> i < length ts \<and> (\<forall>j < i. ts ! j \<noteq> 0)"
      "\<And>i. st = Scanning i \<Longrightarrow> i \<le> length ts \<and> (\<forall>j < i. ts ! j \<noteq> 0)" "st = Failed \<Longrightarrow> 0 \<notin> set ts"
  shows "insert_inv task ts0 (ts, hs(h := st))"
proof -
  have "\<exists>g. (hs(h := st)) g = Inserted i \<and> ts ! i = task g" if x: "i < length ts" "ts0 ! i = 0" "ts ! i \<noteq> 0" for i
  proof -
    obtain g where g: "hs g = Inserted i" "ts ! i = task g" using insert_invD(3) [OF assms(1) x] by blast
    with assms(2) have "g \<noteq> h" by metis
    with g show ?thesis by (intro exI [of _ g]) simp
  qed
  then show ?thesis
    using insert_invD [OF assms(1)] assms(3-) unfolding insert_inv_def case_prod_conv fun_upd_apply
    by (intro conjI allI impI) (auto split: if_splits)
qed

lemma insert_inv_fill:
  assumes inv: "insert_inv task ts0 (ts, hs)" and t: "\<And>h. task h \<noteq> 0" and h: "hs h = Trying i" "ts ! i = 0"
  shows "insert_inv task ts0 (ts[i := task h], hs(h := Inserted i))"
proof -
  note D = insert_invD [OF inv]
  have i: "i < length ts" "ts0 ! i = 0" using D(6) [OF h(1)] D(2) [of i] h(2) by auto
  have new: "hs g \<noteq> Inserted i" for g using D(4) [of g i] h(2) t [of g] by auto
  have kept: "ts[i := task h] ! j \<noteq> 0" if "ts ! j \<noteq> 0" for j
    using that t i(1) by (cases "j = i") auto
  have "0 \<notin> set (ts[i := task h])" if "0 \<notin> set ts" using that t set_update_subset_insert by fastforce
  moreover have "\<exists>g. (hs(h := Inserted i)) g = Inserted j \<and> ts[i := task h] ! j = task g"
    if x: "j < length ts" "ts0 ! j = 0" "ts[i := task h] ! j \<noteq> 0" for j
  proof (cases "j = i")
    case True
    then show ?thesis using i by (intro exI [of _ h]) simp
  next
    case False
    then obtain g where "hs g = Inserted j" "ts ! j = task g" using D(3) [of j] x by auto
    then show ?thesis using False h(1) by (intro exI [of _ g]) auto
  qed
  ultimately show ?thesis
    using D i new kept unfolding insert_inv_def by (auto simp: nth_list_update)
qed

lemma insert_step_inv:
  assumes "insert_step task s s'" "insert_inv task ts0 s" "\<And>h. task h \<noteq> 0"
  shows "insert_inv task ts0 s'"
  using assms
proof (cases rule: insert_step.cases)
  case (load_null hs h i ts)
  then show ?thesis using assms(2) insert_invD(7) [of task ts0 ts hs h i] by (auto intro!: insert_inv_local)
next
  case (load_used hs h i ts)
  then show ?thesis using assms(2) insert_invD(7) [of task ts0 ts hs h i] by (auto intro!: insert_inv_local simp: less_Suc_eq)
next
  case (exchange hs h i ts)
  then show ?thesis using assms(2,3) by (auto intro: insert_inv_fill)
next
  case (taken hs h i ts)
  then show ?thesis using assms(2) insert_invD(6) [of task ts0 ts hs h i] by (auto intro!: insert_inv_local simp: less_Suc_eq)
next
  case (out hs h i ts)
  then show ?thesis using assms(2) insert_invD(7) [of task ts0 ts hs h i] by (auto intro!: insert_inv_local simp: in_set_conv_nth)
qed

lemma insert_reachable_inv:
  assumes "(insert_step task)\<^sup>*\<^sup>* s s'" "insert_inv task ts0 s" "\<And>h. task h \<noteq> 0"
  shows "insert_inv task ts0 s'"
  using assms(1,2) by (induction rule: rtranclp_induct) (auto intro: insert_step_inv [OF _ _ assms(3)])

text \<open>
  C10. Harts that insert tasks into one group at the same time never share a slot: however their loads
  and exchanges interleave, tasks already in the group stay, every hart that reports an index finds
  its own task there and nobody else was given that index, every new entry belongs to such a hart,
  and a hart reports a full group only when there is no free slot.
\<close>
theorem group_insert_concurrent:
  assumes "(insert_step task)\<^sup>*\<^sup>* (ts0, \<lambda>_. Scanning 0) (ts, hs)" "\<forall>h. task h \<noteq> 0"
  shows "length ts = length ts0 \<and> (\<forall>i < length ts. ts0 ! i \<noteq> 0 \<longrightarrow> ts ! i = ts0 ! i)
    \<and> (\<forall>h i. hs h = Inserted i \<longrightarrow> i < length ts \<and> ts0 ! i = 0 \<and> ts ! i = task h \<and> (\<forall>h'. hs h' = Inserted i \<longrightarrow> h' = h))
    \<and> (\<forall>i < length ts. ts0 ! i = 0 \<and> ts ! i \<noteq> 0 \<longrightarrow> (\<exists>h. hs h = Inserted i))
    \<and> (\<forall>h. hs h = Failed \<longrightarrow> 0 \<notin> set ts)"
proof -
  have "insert_inv task ts0 (ts0, \<lambda>_. Scanning 0)" by (simp add: insert_inv_def)
  then have I: "insert_inv task ts0 (ts, hs)" using insert_reachable_inv [OF assms(1)] assms(2) by blast
  note D = insert_invD [OF I]
  show ?thesis
    using D(1,2,4,8) by (intro conjI allI impI) (blast dest: D(3) D(5))+
qed

definition tasks_ex :: "nat \<Rightarrow> usize" where
  "tasks_ex h = (if h = 2 then 3 else 1)"

theorem group_insert_concurrent_witness:
  "\<exists>hs. (insert_step tasks_ex)\<^sup>*\<^sup>* ([0, 5], \<lambda>_. Scanning 0) ([3, 5], hs) \<and> hs 2 = Inserted 0
     \<and> hs 4 = Scanning 1 \<and> (\<forall>h'. hs h' = Inserted 0 \<longrightarrow> h' = 2)"
proof -
  let ?s = "\<lambda>_ :: nat. Scanning 0"
  have 1: "insert_step tasks_ex ([0, 5], ?s) ([0, 5], ?s(2 := Trying 0))" by (rule load_null) simp_all
  have 2: "insert_step tasks_ex ([0, 5], ?s(2 := Trying 0)) ([0, 5], ?s(2 := Trying 0, 4 := Trying 0))" by (rule load_null) simp_all
  have 3: "insert_step tasks_ex ([0, 5], ?s(2 := Trying 0, 4 := Trying 0)) ([3, 5], ?s(4 := Trying 0, 2 := Inserted 0))"
    using exchange [of "?s(2 := Trying 0, 4 := Trying 0)" 2 0 "[0, 5]" tasks_ex] by (simp add: tasks_ex_def fun_upd_twist)
  have 4: "insert_step tasks_ex ([3, 5], ?s(4 := Trying 0, 2 := Inserted 0)) ([3, 5], ?s(2 := Inserted 0, 4 := Scanning 1))"
    using taken [of "?s(4 := Trying 0, 2 := Inserted 0)" 4 0 "[3, 5]" tasks_ex] by (simp add: fun_upd_twist)
  have run: "(insert_step tasks_ex)\<^sup>*\<^sup>* ([0, 5], ?s) ([3, 5], ?s(2 := Inserted 0, 4 := Scanning 1))"
    using 1 2 3 4 by (meson converse_rtranclp_into_rtranclp rtranclp.rtrancl_refl)
  moreover have "\<forall>h. tasks_ex h \<noteq> 0" by (simp add: tasks_ex_def)
  ultimately show ?thesis using group_insert_concurrent [OF run] by (intro exI [of _ "?s(2 := Inserted 0, 4 := Scanning 1)"]) auto
qed

end
