(* ===== verification/Tasks.thy ===== *)
theory Tasks
  imports Task_Groups
begin

text \<open>
  Tasks, their notification handlers and the executor (\<open>task/mod.rs\<close>, \<open>task/notification.rs\<close>,
  \<open>task/executor.rs\<close>), on one hart. A task is a pointer to a \<open>TaskData\<close>; the structures themselves are a
  store from pointers to records. \<open>sscratch\<close> holds the pointer of the running task, \<open>time\<close> is the time
  register, which does not advance during a call.
\<close>

subsection \<open>State\<close>

(* src/kernel/src/arch/riscv/mod.rs:18-27 RegisterState *)
record register_state =
  rs_pc :: usize
  rs_x :: "usize list"

(* src/kernel/src/task/ipc.rs:82-94 IPC *)
record ipc =
  ipc_packets :: usize
  ipc_last_transmit_index :: u16
  ipc_ring_mask :: u16
  ipc_free_pages :: usize
  ipc_max_free_pages :: usize

(* src/kernel/src/task/mod.rs:79-109 TaskData *)
record task_data =
  td_register_state :: register_state
  td_stack :: page
  td_virtual_memory :: sv39
  td_notification_handler :: "usize option"
  td_current_irq :: u32
  td_flags :: u16
  td_executor_id :: u16
  td_priority :: u16
  td_priority_factor :: u16
  td_wait_time :: u64
  td_ipc :: "ipc option"

text \<open>
  The statics of the module (\<open>TASK_DATA_ADDRESS\<close>, \<open>GROUPS\<close>, \<open>NEXT_ID\<close>, \<open>IDLE_TASK_STUB\<close>), the task store
  and the registers the code uses.
\<close>

record sched =
  sc_machine :: machine
  sc_tasks :: "usize \<Rightarrow> task_data"
  sc_task_data_address :: page
  sc_groups :: "group_data arena"
  sc_next_id :: usize
  sc_idle_stub :: usize
  sc_sscratch :: usize
  sc_time :: u64
  sc_timer :: u64
  sc_user_access :: bool
  sc_interrupts :: bool
  sc_kernel_interrupts :: bool

type_synonym 'a schedK = "(sched, 'a) comp"

abbreviation U16_MAX :: u16 where
  "U16_MAX \<equiv> - 1"

abbreviation U64_MAX :: u64 where
  "U64_MAX \<equiv> - 1"

text \<open>An operation of the virtual memory system or the frame allocator.\<close>

definition onM :: "'a kern \<Rightarrow> 'a schedK" where
  "onM f s = (case f (sc_machine s) of Inl p \<Rightarrow> Inl p | Inr (x, m) \<Rightarrow> Inr (x, s\<lparr>sc_machine := m\<rparr>))"

text \<open>\<open>task.inner().field = ...\<close>\<close>

definition upd_task :: "usize \<Rightarrow> (task_data \<Rightarrow> task_data) \<Rightarrow> sched \<Rightarrow> sched" where
  "upd_task t f s = s\<lparr>sc_tasks := (sc_tasks s)(t := f (sc_tasks s t))\<rparr>"

subsection \<open>The architecture's helpers\<close>

(* src/kernel/src/arch/riscv/mod.rs:28-40 RegisterState *)
definition set_pc_reg :: "usize \<Rightarrow> register_state \<Rightarrow> register_state" where
  "set_pc_reg address r = r\<lparr>rs_pc := address\<rparr>"

(* src/kernel/src/arch/riscv/mod.rs:35-39 RegisterState::set_stack_pointer *)
definition set_stack_pointer_reg :: "usize \<Rightarrow> register_state \<Rightarrow> register_state" where
  "set_stack_pointer_reg address r = r\<lparr>rs_x := (rs_x r)[2 - 1 := address]\<rparr>"

(* src/kernel/src/arch/riscv/mod.rs:41-49 RegisterState::default *)
definition register_state_default :: register_state where
  "register_state_default = \<lparr>rs_pc = 0, rs_x = replicate 31 0\<rparr>"

(* src/kernel/src/arch/mod.rs:101-110 set_supervisor_userpage_access *)
definition set_supervisor_userpage_access :: "bool \<Rightarrow> sched \<Rightarrow> sched" where
  "set_supervisor_userpage_access enable s = s\<lparr>sc_user_access := enable\<rparr>"

(* src/kernel/src/arch/mod.rs:112-123 enable_interrupts *)
definition enable_interrupts :: "bool \<Rightarrow> sched \<Rightarrow> sched" where
  "enable_interrupts enable s = s\<lparr>sc_interrupts := enable\<rparr>"

(* src/kernel/src/arch/mod.rs:125-134 enable_kernel_interrupts *)
definition enable_kernel_interrupts :: "bool \<Rightarrow> sched \<Rightarrow> sched" where
  "enable_kernel_interrupts enable s = s\<lparr>sc_kernel_interrupts := enable\<rparr>"

(* src/kernel/src/arch/mod.rs:136-141 set_timer *)
definition set_timer :: "u64 \<Rightarrow> sched \<Rightarrow> sched" where
  "set_timer time s = s\<lparr>sc_timer := time\<rparr>"

definition saturating_u64 :: "u64 \<Rightarrow> u64 \<Rightarrow> u64" where
  "saturating_u64 a b = (case checked_add a b of None \<Rightarrow> U64_MAX | Some c \<Rightarrow> c)"

(* src/kernel/src/arch/mod.rs:143-148 schedule_timer *)
definition schedule_timer :: "u64 \<Rightarrow> sched \<Rightarrow> sched" where
  "schedule_timer delay s = set_timer (saturating_u64 (sc_time s) delay) s"

subsection \<open>Tasks\<close>

(* src/kernel/src/task/mod.rs:41-49 Flags *)
definition FLAG_NOTIFYING :: u16 where
  "FLAG_NOTIFYING = 0x1"

(* src/kernel/src/task/mod.rs:45-49 Flags::NOTIFIED *)
definition FLAG_NOTIFIED :: u16 where
  "FLAG_NOTIFIED = 0x2"

(* src/kernel/src/task/mod.rs:111-111 STACK_ADDRESS *)
definition STACK_ADDRESS :: page where
  "STACK_ADDRESS = rr_start (reserved ''HART_STACKS'')"

(* src/kernel/src/task/mod.rs:114-151 Task::new *)
definition task_new :: "sv39 \<Rightarrow> usize schedK" where
  "task_new vms =
     bindK (onM allocK) (\<lambda>p s.
     let address = sc_task_data_address s in
     bindK (onM (unwrapK (add_to vms address (Map_Private p) RWX_RW KernelGlobal))) (\<lambda>_ s.
     bindP (unwrapO (page_next STACK_ADDRESS)) (\<lambda>stack.
     let data = \<lparr>td_register_state = register_state_default, td_stack = stack, td_virtual_memory = vms,
                  td_notification_handler = None, td_current_irq = 0, td_flags = 0, td_executor_id = U16_MAX,
                  td_priority = 0, td_priority_factor = 0, td_wait_time = 0, td_ipc = None\<rparr>;
         s = upd_task address (\<lambda>_. data) s in
     bindP (unwrapO (page_next address)) (\<lambda>next.
     Inr (address, s\<lparr>sc_task_data_address := next\<rparr>)))) s)"

(* src/kernel/src/task/mod.rs:153-156 Task::set_pc *)
definition set_pc :: "usize \<Rightarrow> usize \<Rightarrow> sched \<Rightarrow> sched" where
  "set_pc t address = upd_task t (\<lambda>d. d\<lparr>td_register_state := set_pc_reg address (td_register_state d)\<rparr>)"

(* src/kernel/src/task/mod.rs:158-161 Task::set_stack_pointer *)
definition set_stack_pointer :: "usize \<Rightarrow> usize \<Rightarrow> sched \<Rightarrow> sched" where
  "set_stack_pointer t address =
     upd_task t (\<lambda>d. d\<lparr>td_register_state := set_stack_pointer_reg address (td_register_state d)\<rparr>)"

text \<open>
  \<open>Inr ()\<close>: the hart has left the kernel and runs the task; \<open>trap_start_task\<close> loads its page tables and
  makes it the current task.
\<close>

(* src/kernel/src/task/mod.rs:163-171 Task::execute *)
definition task_execute :: "usize \<Rightarrow> u16 \<Rightarrow> (u16 + unit) schedK" where
  "task_execute t executor_id =
     bindK (\<lambda>s. onM (vms_activate (td_virtual_memory (sc_tasks s t))) s) (\<lambda>_ s.
     let claimed = td_executor_id (sc_tasks s t) in
     if claimed = U16_MAX
     then Inr (Inr (), (upd_task t (\<lambda>d. d\<lparr>td_executor_id := executor_id\<rparr>) s)\<lparr>sc_sscratch := t\<rparr>)
     else Inr (Inl claimed, s))"

(* src/kernel/src/task/mod.rs:173-181 Task::allocate_memory *)
definition allocate_memory :: "page \<Rightarrow> usize \<Rightarrow> rwx \<Rightarrow> (add_error + unit) schedK" where
  "allocate_memory address cnt rwx = onM (vms_allocate address cnt rwx UserLocal)"

(* src/kernel/src/task/mod.rs:183-192 Task::deallocate_memory *)
definition deallocate_memory :: "page \<Rightarrow> usize \<Rightarrow> (unit + unit) schedK" where
  "deallocate_memory address cnt = onM (vms_deallocate (unat cnt) address)"

(* src/kernel/src/task/mod.rs:194-197 Task::set_queues *)
definition set_queues :: "usize \<Rightarrow> ipc option \<Rightarrow> sched \<Rightarrow> sched" where
  "set_queues t buffers = upd_task t (\<lambda>d. d\<lparr>td_ipc := buffers\<rparr>)"

(* src/kernel/src/task/mod.rs:199-202 Task::was_notified *)
definition was_notified :: "usize \<Rightarrow> sched \<Rightarrow> bool" where
  "was_notified t s \<longleftrightarrow> td_flags (sc_tasks s t) AND FLAG_NOTIFIED > 0"

(* src/kernel/src/task/mod.rs:204-207 Task::clear_notified *)
definition clear_notified :: "usize \<Rightarrow> sched \<Rightarrow> sched" where
  "clear_notified t = upd_task t (\<lambda>d. d\<lparr>td_flags := td_flags d AND NOT FLAG_NOTIFIED\<rparr>)"

(* src/kernel/src/task/notification.rs:33-40 SendError *)
datatype send_error = NoHandler | Busy

(* src/kernel/src/task/notification.rs:42-53 Task::send_notification *)
definition send_notification :: "usize \<Rightarrow> (send_error + unit) schedK" where
  "send_notification t s =
     (case td_notification_handler (sc_tasks s t) of None \<Rightarrow> Inr (Inl NoHandler, s) | Some h \<Rightarrow> Inl Todo_Reached)"

(* src/kernel/src/task/notification.rs:55-59 Task::set_notification_handler *)
definition set_notification_handler :: "usize \<Rightarrow> usize option \<Rightarrow> sched \<Rightarrow> usize option \<times> sched" where
  "set_notification_handler t handler s =
     (td_notification_handler (sc_tasks s t), upd_task t (\<lambda>d. d\<lparr>td_notification_handler := handler\<rparr>) s)"

subsection \<open>The executor\<close>

(* src/kernel/src/task/executor.rs:151-163 Executor::current_task *)
definition current_task :: "sched \<Rightarrow> usize" where
  "current_task s = sc_sscratch s"

(* src/kernel/src/task/executor.rs:143-149 Executor::id *)
definition executor_id :: "sched \<Rightarrow> u16" where
  "executor_id s = td_executor_id (sc_tasks s (current_task s))"

(* src/kernel/src/task/executor.rs:86-90 Executor::current_address *)
definition current_address :: "sched \<Rightarrow> task_address" where
  "current_address s = address_todo (sc_next_id s)"

(* src/kernel/src/task/executor.rs:92-104 Executor::idle *)
definition executor_idle :: "u64 \<Rightarrow> sched \<Rightarrow> sched" where
  "executor_idle time s = enable_kernel_interrupts True (set_timer time (s\<lparr>sc_sscratch := sc_idle_stub s\<rparr>))"

text \<open>How \<open>next\<close>, which never returns, leaves the kernel: into a task, or waiting for an interrupt.\<close>

datatype outcome = Run usize | Idle u64

(* src/kernel/src/task/executor.rs:63-83 Executor::next *)
primrec executor_loop :: "nat \<Rightarrow> usize \<Rightarrow> u64 \<Rightarrow> group_data \<Rightarrow> usize \<Rightarrow> u64 \<Rightarrow> bool \<Rightarrow> outcome option schedK" where
  "executor_loop 0 prev_id curr_time tasks i min_time stop_next = retK None"
| "executor_loop (Suc fuel) prev_id curr_time tasks i min_time stop_next =
     (let continue = (\<lambda>min_time s.
            let i = (i + 7) AND 0xf in
            if i = prev_id then executor_loop fuel prev_id curr_time tasks i min_time True s
            else if stop_next then Inr (Some (Idle min_time), executor_idle min_time s)
            else executor_loop fuel prev_id curr_time tasks i min_time stop_next s) in
      case group_task tasks i of
        Inl NoTask \<Rightarrow> continue min_time
      | Inr t \<Rightarrow> (\<lambda>s.
          let wait_time = td_wait_time (sc_tasks s t) in
          if wait_time < curr_time then
            (let s = enable_interrupts True (schedule_timer (10000000 div 10) (s\<lparr>sc_next_id := i\<rparr>)) in
             bindP (task_execute t (executor_id s) s) (\<lambda>(r, s).
             case r of Inr _ \<Rightarrow> Inr (Some (Run t), s) | Inl _ \<Rightarrow> continue (min min_time wait_time) s))
          else continue (min min_time wait_time) s))"

(* src/kernel/src/task/executor.rs:42-84 Executor::next *)
definition executor_next :: "nat \<Rightarrow> outcome option schedK" where
  "executor_next fuel s =
     (let s = upd_task (current_task s) (\<lambda>d. d\<lparr>td_executor_id := U16_MAX\<rparr>) s;
          (g, groups) = group_get 0 (sc_groups s);
          s = s\<lparr>sc_groups := groups\<rparr> in
      bindP (unwrapO g) (\<lambda>tasks.
      let prev_id = sc_next_id s in
      executor_loop fuel prev_id (sc_time s) tasks ((prev_id + 7) AND 0xf) U64_MAX False s))"

(* src/kernel/src/task/executor.rs:106-141 Executor::init *)
definition executor_init :: "u16 \<Rightarrow> unit schedK" where
  "executor_init i s =
     bindP (unwrapO (page_skip STACK_ADDRESS 1)) (\<lambda>stack.
     let stub = sc_idle_stub s;
         s = upd_task stub (\<lambda>d. d\<lparr>td_stack := stack, td_executor_id := i\<rparr>) s;
         s = s\<lparr>sc_sscratch := stub\<rparr> in
     bindK (onM allocK) (\<lambda>p.
     onM (unwrapK (vms_add STACK_ADDRESS (Map_Private p) RWX_RW KernelGlobal))) s)"

(* src/kernel/src/task/executor.rs:166-172 Task::wait_duration *)
definition wait_duration :: "usize \<Rightarrow> u64 \<Rightarrow> sched \<Rightarrow> sched" where
  "wait_duration t delay s = upd_task t (\<lambda>d. d\<lparr>td_wait_time := saturating_u64 (sc_time s) delay\<rparr>) s"

(* src/kernel/src/task/executor.rs:174-180 get_task *)
definition get_task :: "task_address \<Rightarrow> usize option schedK" where
  "get_task address s =
     (let s = s\<lparr>sc_next_id := address\<rparr> in
      bindP (address_group address) (\<lambda>g.
      case group_get (ucast g) (sc_groups s) of
        (None, groups) \<Rightarrow> Inr (None, s\<lparr>sc_groups := groups\<rparr>)
      | (Some tasks, groups) \<Rightarrow>
          bindP (address_task address) (\<lambda>t.
          let r = (case group_task tasks (ucast t) of Inl _ \<Rightarrow> None | Inr p \<Rightarrow> Some p) in
          Inr (r, s\<lparr>sc_groups := guard_drop (ucast g) groups\<rparr>))))"

end
