(* ===== verification/Executor.thy ===== *)
theory Executor
  imports Tasks
begin

text \<open>
  The scheduling loop of the executor: which slots of the root group it looks at and in which order,
  that it ends, that it is fair, and when it does not end.
\<close>

subsection \<open>The order of the slots\<close>

text \<open>The slot looked at in pass \<open>k\<close> when the last task had slot \<open>p\<close>.\<close>

definition visit :: "nat \<Rightarrow> nat \<Rightarrow> nat" where
  "visit p k = (p + 7 * Suc k) mod 16"

lemma visit_less [simp]: "visit p k < 16"
  by (simp add: visit_def)

lemma visit_15: "p < 16 \<Longrightarrow> visit p 15 = p"
  using mod_mult_self1 [of p 7 16] by (simp add: visit_def)

lemma visit_Suc: "visit p (Suc k) = (visit p k + 7) mod 16"
  by (simp add: visit_def mod_simps ac_simps)

text \<open>The pass in which slot \<open>i\<close> is looked at.\<close>

definition visited_at :: "nat \<Rightarrow> nat \<Rightarrow> nat" where
  "visited_at p i = (7 * (i + 16 - p) + 15) mod 16"

lemma visit_inj:
  assumes "a < 16" "b < 16" "visit p a = visit p b"
  shows "a = b"
proof -
  have "int (p + 7 * Suc a) mod 16 = int (p + 7 * Suc b) mod 16"
    using assms(3) unfolding visit_def by (metis of_nat_mod of_nat_numeral)
  then have "16 dvd int (p + 7 * Suc a) - int (p + 7 * Suc b)" by (simp only: mod_eq_dvd_iff)
  then obtain q where "int (p + 7 * Suc a) - int (p + 7 * Suc b) = 16 * q" by (rule dvdE)
  then have q: "7 * int a - 7 * int b = 16 * q" by simp
  define r where "r = 7 * q - 3 * int a + 3 * int b"
  have "int a - int b = 16 * r" using q unfolding r_def by (simp add: algebra_simps)
  moreover have "int a < 16" "int b < 16" "0 \<le> int a" "0 \<le> int b" using assms(1,2) by simp_all
  ultimately have "16 * r < 16 * 1" "16 * (- 1) < 16 * r" by linarith+
  then have "r = 0" by simp
  with \<open>int a - int b = 16 * r\<close> show ?thesis by simp
qed

lemma mod_add_mult: "(c + m * (x mod n)) mod n = (c + m * x) mod n" for c m n x :: nat
  by (metis mod_add_right_eq mod_mult_right_eq)

lemma visit_visited_at:
  assumes "p < 16" "i < 16"
  shows "visit p (visited_at p i) = i"
proof -
  let ?d = "i + 16 - p"
  have "visit p (visited_at p i) = (p + 7 + 7 * (7 * ?d + 15)) mod 16"
    unfolding visit_def visited_at_def using mod_add_mult [of "p + 7" 7 "7 * ?d + 15" 16] by (simp add: ac_simps)
  also have "p + 7 + 7 * (7 * ?d + 15) = i + 16 * (3 * ?d + 8)" using assms by simp
  also have "\<dots> mod 16 = i" unfolding mod_mult_self2 using assms(2) by (rule mod_less)
  finally show ?thesis .
qed

lemma visited_at_visit: "p < 16 \<Longrightarrow> k < 16 \<Longrightarrow> visited_at p (visit p k) = k"
  by (rule visit_inj [of _ _ p]) (simp_all add: visit_visited_at, simp add: visited_at_def)

lemma visited_at_less [simp]: "visited_at p i < 16"
  by (simp add: visited_at_def)

text \<open>After another slot has been chosen earlier in the round, slot \<open>i\<close> is closer than before.\<close>

lemma visit_visit: "visit (visit p k) j = visit p (Suc (k + j))"
  using mod_add_left_eq [of "p + 7 * Suc k" 16 "7 * Suc j"] by (simp add: visit_def algebra_simps)

lemma visited_at_closer:
  assumes "p < 16" "i < 16" "k < visited_at p i"
  shows "visited_at (visit p k) i = visited_at p i - Suc k"
proof -
  have "visit (visit p k) (visited_at p i - Suc k) = i"
    using assms by (simp add: visit_visit visit_visited_at)
  moreover have "visited_at p i - Suc k < 16" using visited_at_less [of p i] by linarith
  ultimately show ?thesis
    using visited_at_visit [of "visit p k" "visited_at p i - Suc k"] by simp
qed

lemma unat_id: "n < 16 \<Longrightarrow> unat (of_nat n :: usize) = n"
  by (rule unat_of_nat_less) simp

lemma next_id: "n < 16 \<Longrightarrow> (of_nat n + 7 :: usize) AND 0xf = of_nat ((n + 7) mod 16)"
proof -
  assume n: "n < 16"
  have "unat ((of_nat n + 7 :: usize) AND mask 4) = (n + 7) mod 16"
    using n unat_id [OF n] unat_add_no_overflow [of "of_nat n :: usize" 7] by (simp add: unat_and_mask)
  moreover have "unat (of_nat ((n + 7) mod 16) :: usize) = (n + 7) mod 16" by (rule unat_id) simp
  ultimately show ?thesis by (simp add: word_unat_eq_iff mask_eq_exp_minus_1)
qed

lemma visit_next: "(of_nat (visit p k) + 7 :: usize) AND 0xf = of_nat (visit p (Suc k))"
  by (simp add: next_id visit_Suc)

lemma id_eq_iff: "n < 16 \<Longrightarrow> m < 16 \<Longrightarrow> (of_nat n :: usize) = of_nat m \<longleftrightarrow> n = m"
  by (metis unat_id)

subsection \<open>One pass\<close>

text \<open>The task in slot \<open>n\<close> exists, its wait is over, and no executor has claimed it.\<close>

definition runnable :: "sched \<Rightarrow> group_data \<Rightarrow> nat \<Rightarrow> bool" where
  "runnable s tasks n \<longleftrightarrow> (\<exists>t. group_task tasks (of_nat n) = Inr t \<and> td_wait_time (sc_tasks s t) < sc_time s
     \<and> td_executor_id (sc_tasks s t) = U16_MAX)"

definition same_tasks :: "sched \<Rightarrow> sched \<Rightarrow> bool" where
  "same_tasks s s' \<longleftrightarrow> sc_tasks s' = sc_tasks s \<and> sc_sscratch s' = sc_sscratch s \<and> sc_time s' = sc_time s"

lemma same_tasks_refl [simp]: "same_tasks s s"
  by (simp add: same_tasks_def)

lemma same_tasks_trans: "same_tasks s s' \<Longrightarrow> same_tasks s' s'' \<Longrightarrow> same_tasks s s''"
  by (simp add: same_tasks_def)

lemma runnable_same: "same_tasks s s' \<Longrightarrow> runnable s' tasks n = runnable s tasks n"
  by (simp add: runnable_def same_tasks_def)

lemmas arch_defs = enable_interrupts_def schedule_timer_def set_timer_def executor_idle_def
  enable_kernel_interrupts_def upd_task_def current_task_def executor_id_def onM_def vms_activate_def

text \<open>The state when task \<open>t\<close> of slot \<open>n\<close> has been tried, and when it has been started.\<close>

definition tried :: "sched \<Rightarrow> usize \<Rightarrow> nat \<Rightarrow> sched" where
  "tried s t n = s\<lparr>sc_next_id := of_nat n, sc_timer := saturating_u64 (sc_time s) 1000000, sc_interrupts := True,
     sc_machine := (sc_machine s)\<lparr>mc_satp := td_virtual_memory (sc_tasks s t)\<rparr>\<rparr>"

definition started :: "sched \<Rightarrow> usize \<Rightarrow> nat \<Rightarrow> sched" where
  "started s t n = (tried s t n)\<lparr>sc_sscratch := t,
     sc_tasks := (sc_tasks s)(t := (sc_tasks s t)\<lparr>td_executor_id := executor_id s\<rparr>)\<rparr>"

lemma same_tasks_tried [simp]: "same_tasks s (tried s t n)"
  by (simp add: same_tasks_def tried_def)

lemma executor_loop_run1:
  assumes "group_task tasks (of_nat n) = Inr t" "td_wait_time (sc_tasks s t) < sc_time s"
    "td_executor_id (sc_tasks s t) = U16_MAX"
  shows "executor_loop (Suc f) prev (sc_time s) tasks (of_nat n) mt stop s = Inr (Some (Run t), started s t n)"
  using assms by (simp add: task_execute_def bindK_def arch_defs started_def tried_def)

definition pass_min :: "sched \<Rightarrow> group_data \<Rightarrow> nat \<Rightarrow> u64 \<Rightarrow> u64" where
  "pass_min s tasks n mt = (case group_task tasks (of_nat n) of Inl _ \<Rightarrow> mt | Inr t \<Rightarrow> min mt (td_wait_time (sc_tasks s t)))"

lemma executor_loop_skip1:
  assumes "\<not> runnable s tasks n"
  obtains s' where "same_tasks s s'"
    "executor_loop (Suc f) prev (sc_time s) tasks (of_nat n) mt stop s =
       (let i = (of_nat n + 7) AND 0xf; mt = pass_min s tasks n mt in
        if i = prev then executor_loop f prev (sc_time s) tasks i mt True s'
        else if stop then Inr (Some (Idle mt), executor_idle mt s')
        else executor_loop f prev (sc_time s) tasks i mt stop s')"
proof (cases "group_task tasks (of_nat n)")
  case (Inl e)
  moreover have "e = NoTask" by (cases e)
  ultimately show ?thesis by (intro that [of s]) (simp_all add: pass_min_def Let_def)
next
  case (Inr t)
  show ?thesis
  proof (cases "td_wait_time (sc_tasks s t) < sc_time s")
    case False
    with Inr show ?thesis by (intro that [of s]) (simp_all add: pass_min_def Let_def)
  next
    case True
    then have "td_executor_id (sc_tasks s t) \<noteq> U16_MAX" using assms Inr by (auto simp: runnable_def)
    with True Inr show ?thesis
      by (intro that [OF same_tasks_tried [of s t n]]) (simp add: pass_min_def Let_def task_execute_def bindK_def arch_defs tried_def)
  qed
qed

subsection \<open>A round\<close>

lemma executor_loop_run:
  assumes p: "p < 16" and j: "k \<le> j" "j < 16" "runnable s tasks (visit p j)" "\<forall>i. k \<le> i \<and> i < j \<longrightarrow> \<not> runnable s tasks (visit p i)"
    and f: "16 \<le> f + k"
  shows "\<exists>t s1. same_tasks s s1 \<and> group_task tasks (of_nat (visit p j)) = Inr t
    \<and> executor_loop f (of_nat p) (sc_time s) tasks (of_nat (visit p k)) mt (k = 15) s = Inr (Some (Run t), started s1 t (visit p j))"
  using j f
proof (induction "j - k" arbitrary: k f mt s)
  case 0
  then obtain g t where "f = Suc g" "k = j" "group_task tasks (of_nat (visit p j)) = Inr t"
      "td_wait_time (sc_tasks s t) < sc_time s" "td_executor_id (sc_tasks s t) = U16_MAX"
    by (cases f) (auto simp: runnable_def)
  then show ?case by (intro exI [of _ t] exI [of _ s]) (simp add: executor_loop_run1 del: executor_loop.simps)
next
  case (Suc d)
  obtain g where g: "f = Suc g" using Suc.prems Suc.hyps(2) by (cases f) auto
  have k: "k < j" "k \<noteq> 15" "\<not> runnable s tasks (visit p k)" using Suc.hyps(2) Suc.prems by auto
  obtain s' where s': "same_tasks s s'"
      "executor_loop (Suc g) (of_nat p) (sc_time s) tasks (of_nat (visit p k)) mt (k = 15) s =
       (let i = (of_nat (visit p k) + 7) AND 0xf; mt = pass_min s tasks (visit p k) mt in
        if i = of_nat p then executor_loop g (of_nat p) (sc_time s) tasks i mt True s'
        else if k = 15 then Inr (Some (Idle mt), executor_idle mt s')
        else executor_loop g (of_nat p) (sc_time s) tasks i mt (k = 15) s')"
    using executor_loop_skip1 [OF k(3), where f = g and prev = "of_nat p" and mt = mt and stop = "k = 15"] by blast
  have "(of_nat (visit p (Suc k)) = (of_nat p :: usize)) \<longleftrightarrow> Suc k = 15"
    using visit_inj [of "Suc k" 15 p] visit_15 [OF p] p k(1) Suc.prems(2) by (auto simp: id_eq_iff)
  then have e: "executor_loop f (of_nat p) (sc_time s) tasks (of_nat (visit p k)) mt (k = 15) s
      = executor_loop g (of_nat p) (sc_time s') tasks (of_nat (visit p (Suc k))) (pass_min s tasks (visit p k) mt) (Suc k = 15) s'"
    using s' k(2) by (simp add: g visit_next Let_def same_tasks_def del: executor_loop.simps)
  have "\<exists>t s1. same_tasks s' s1 \<and> group_task tasks (of_nat (visit p j)) = Inr t
    \<and> executor_loop g (of_nat p) (sc_time s') tasks (of_nat (visit p (Suc k))) (pass_min s tasks (visit p k) mt) (Suc k = 15) s'
      = Inr (Some (Run t), started s1 t (visit p j))"
    by (rule Suc.hyps(1)) (use Suc.hyps(2) Suc.prems k g s'(1) in \<open>auto simp: runnable_same\<close>)
  then show ?case unfolding e using s'(1) same_tasks_trans by blast
qed

lemma pass_min_le:
  "pass_min s tasks n mt \<le> mt" "group_task tasks (of_nat n) = Inr t \<Longrightarrow> pass_min s tasks n mt \<le> td_wait_time (sc_tasks s t)"
  by (auto simp: pass_min_def split: sum.split)

lemma executor_loop_idle:
  assumes p: "p < 16" and k: "k < 16" "\<forall>i. k \<le> i \<and> i < 16 \<longrightarrow> \<not> runnable s tasks (visit p i)" and f: "16 \<le> f + k"
  shows "\<exists>m s1. same_tasks s s1 \<and> m \<le> mt
    \<and> executor_loop f (of_nat p) (sc_time s) tasks (of_nat (visit p k)) mt (k = 15) s = Inr (Some (Idle m), executor_idle m s1)
    \<and> (\<forall>i t. k \<le> i \<and> i < 16 \<and> group_task tasks (of_nat (visit p i)) = Inr t \<longrightarrow> m \<le> td_wait_time (sc_tasks s t))"
  using k f
proof (induction "15 - k" arbitrary: k f mt s)
  case 0
  then obtain g where g: "f = Suc g" "k = 15" by (cases f) auto
  then have nr: "\<not> runnable s tasks (visit p 15)" using 0 by auto
  let ?m = "pass_min s tasks (visit p 15) mt"
  obtain s' where s': "same_tasks s s'"
      "executor_loop (Suc g) (of_nat p) (sc_time s) tasks (of_nat (visit p 15)) mt True s =
       (let i = (of_nat (visit p 15) + 7) AND 0xf; mt = ?m in
        if i = of_nat p then executor_loop g (of_nat p) (sc_time s) tasks i mt True s'
        else if True then Inr (Some (Idle mt), executor_idle mt s')
        else executor_loop g (of_nat p) (sc_time s) tasks i mt True s')"
    using executor_loop_skip1 [OF nr, where f = g and prev = "of_nat p" and mt = mt and stop = True] by blast
  have "visit p (Suc 15) = visit p 0" using mod_mult_self1 [of "p + 7" 7 16] by (simp add: visit_def ac_simps)
  then have "visit p (Suc 15) \<noteq> p" using visit_inj [of 0 15 p] visit_15 [OF p] by auto
  then have "executor_loop f (of_nat p) (sc_time s) tasks (of_nat (visit p k)) mt (k = 15) s = Inr (Some (Idle ?m), executor_idle ?m s')"
    using s'(2) p by (simp add: g visit_next id_eq_iff Let_def del: executor_loop.simps)
  moreover have "?m \<le> td_wait_time (sc_tasks s t)"
    if h: "15 \<le> i" "i < 16" "group_task tasks (of_nat (visit p i)) = Inr t" for i t
  proof -
    have "i = 15" using h(1,2) by simp
    with h(3) show ?thesis by (intro pass_min_le(2)) simp
  qed
  ultimately show ?case using s'(1) g(2) pass_min_le(1) by (intro exI [of _ ?m] exI [of _ s']) auto
next
  case (Suc d)
  obtain g where g: "f = Suc g" using Suc.prems by (cases f) auto
  have k: "k < 15" "\<not> runnable s tasks (visit p k)" using Suc.hyps(2) Suc.prems by auto
  let ?m = "pass_min s tasks (visit p k) mt"
  obtain s' where s': "same_tasks s s'"
      "executor_loop (Suc g) (of_nat p) (sc_time s) tasks (of_nat (visit p k)) mt (k = 15) s =
       (let i = (of_nat (visit p k) + 7) AND 0xf; mt = ?m in
        if i = of_nat p then executor_loop g (of_nat p) (sc_time s) tasks i mt True s'
        else if k = 15 then Inr (Some (Idle mt), executor_idle mt s')
        else executor_loop g (of_nat p) (sc_time s) tasks i mt (k = 15) s')"
    using executor_loop_skip1 [OF k(2), where f = g and prev = "of_nat p" and mt = mt and stop = "k = 15"] by blast
  have "(of_nat (visit p (Suc k)) = (of_nat p :: usize)) \<longleftrightarrow> Suc k = 15"
    using visit_inj [of "Suc k" 15 p] visit_15 [OF p] p k(1) by (auto simp: id_eq_iff)
  then have e: "executor_loop f (of_nat p) (sc_time s) tasks (of_nat (visit p k)) mt (k = 15) s
      = executor_loop g (of_nat p) (sc_time s') tasks (of_nat (visit p (Suc k))) ?m (Suc k = 15) s'"
    using s' k(1) by (simp add: g visit_next Let_def same_tasks_def del: executor_loop.simps)
  have "\<exists>m s1. same_tasks s' s1 \<and> m \<le> ?m
    \<and> executor_loop g (of_nat p) (sc_time s') tasks (of_nat (visit p (Suc k))) ?m (Suc k = 15) s' = Inr (Some (Idle m), executor_idle m s1)
    \<and> (\<forall>i t. Suc k \<le> i \<and> i < 16 \<and> group_task tasks (of_nat (visit p i)) = Inr t \<longrightarrow> m \<le> td_wait_time (sc_tasks s' t))"
    by (rule Suc.hyps(1)) (use Suc.hyps(2) Suc.prems k g s'(1) in \<open>auto simp: runnable_same\<close>)
  then obtain m s1 where "same_tasks s' s1" "m \<le> ?m"
      "executor_loop g (of_nat p) (sc_time s') tasks (of_nat (visit p (Suc k))) ?m (Suc k = 15) s' = Inr (Some (Idle m), executor_idle m s1)"
      "\<forall>i t. Suc k \<le> i \<and> i < 16 \<and> group_task tasks (of_nat (visit p i)) = Inr t \<longrightarrow> m \<le> td_wait_time (sc_tasks s' t)"
    by blast
  moreover have "m \<le> td_wait_time (sc_tasks s t)"
    if "k \<le> i" "i < 16" "group_task tasks (of_nat (visit p i)) = Inr t" for i t
  proof (cases "i = k")
    case True
    then show ?thesis using calculation(2) pass_min_le(2) that(3) order_trans by blast
  next
    case False
    then have "Suc k \<le> i" using that(1) by simp
    then show ?thesis using calculation(4) that(2,3) s'(1) by (auto simp: same_tasks_def)
  qed
  ultimately show ?case unfolding e using same_tasks_trans [OF s'(1)] order_trans [OF _ pass_min_le(1)] by blast
qed

text \<open>When the last slot is not one of the sixteen, the condition to stop is never met.\<close>

lemma executor_loop_stuck:
  assumes "\<forall>n < 16. \<not> runnable s tasks n" "16 \<le> unat prev" "n < 16"
  shows "\<exists>s'. executor_loop f prev (sc_time s) tasks (of_nat n) mt False s = Inr (None, s')"
  using assms(1,3)
proof (induction f arbitrary: n mt s)
  case (Suc f)
  have nr: "\<not> runnable s tasks n" using Suc.prems by blast
  obtain s' where s': "same_tasks s s'"
      "executor_loop (Suc f) prev (sc_time s) tasks (of_nat n) mt False s =
       (let i = (of_nat n + 7) AND 0xf; mt = pass_min s tasks n mt in
        if i = prev then executor_loop f prev (sc_time s) tasks i mt True s'
        else if False then Inr (Some (Idle mt), executor_idle mt s')
        else executor_loop f prev (sc_time s) tasks i mt False s')"
    using executor_loop_skip1 [OF nr, where f = f and prev = prev and mt = mt and stop = False] by blast
  have "prev \<noteq> of_nat ((n + 7) mod 16)" using assms(2) unat_id [of "(n + 7) mod 16"] by auto
  then have "executor_loop (Suc f) prev (sc_time s) tasks (of_nat n) mt False s
      = executor_loop f prev (sc_time s') tasks (of_nat ((n + 7) mod 16)) (pass_min s tasks n mt) False s'"
    using s' Suc.prems(2) by (simp add: next_id Let_def same_tasks_def del: executor_loop.simps)
  then show ?case using Suc.IH [of s' "(n + 7) mod 16"] Suc.prems(1) runnable_same [OF s'(1)] by (simp del: executor_loop.simps)
qed simp

subsection \<open>Choosing the next task\<close>

text \<open>The state in which the tasks are looked at: the current one has been unclaimed.\<close>

definition unclaimed :: "sched \<Rightarrow> sched" where
  "unclaimed s = upd_task (current_task s) (\<lambda>d. d\<lparr>td_executor_id := U16_MAX\<rparr>) s"

lemma unclaimed_simps [simp]:
  "sc_groups (unclaimed s) = sc_groups s" "sc_next_id (unclaimed s) = sc_next_id s" "sc_time (unclaimed s) = sc_time s"
  "td_wait_time (sc_tasks (unclaimed s) t) = td_wait_time (sc_tasks s t)"
  "td_virtual_memory (sc_tasks (unclaimed s) t) = td_virtual_memory (sc_tasks s t)"
  "executor_id (unclaimed s) = U16_MAX"
  by (simp_all add: unclaimed_def upd_task_def current_task_def executor_id_def)

lemma executor_next_eq:
  assumes "fst (group_get 0 (sc_groups s)) = Some tasks"
  shows "executor_next fuel s = executor_loop fuel (sc_next_id s) (sc_time s) tasks ((sc_next_id s + 7) AND 0xf) U64_MAX False
    ((unclaimed s)\<lparr>sc_groups := snd (group_get 0 (sc_groups s))\<rparr>)"
  using assms by (cases "group_get 0 (sc_groups s)") (simp add: executor_next_def unclaimed_def upd_task_def Let_def)

abbreviation ready :: "sched \<Rightarrow> group_data \<Rightarrow> nat \<Rightarrow> bool" where
  "ready s tasks n \<equiv> runnable (unclaimed s) tasks n"

lemma ready_groups [simp]: "runnable (s\<lparr>sc_groups := g\<rparr>) tasks n = runnable s tasks n"
  by (simp add: runnable_def)

lemma executor_next_run:
  assumes g: "fst (group_get 0 (sc_groups s)) = Some tasks" and p: "unat (sc_next_id s) < 16" and f: "16 \<le> fuel"
    and k: "k < 16" "ready s tasks (visit (unat (sc_next_id s)) k)" "\<forall>j < k. \<not> ready s tasks (visit (unat (sc_next_id s)) j)"
  obtains t s' where "executor_next fuel s = Inr (Some (Run t), s')" "sc_next_id s' = of_nat (visit (unat (sc_next_id s)) k)"
    "group_task tasks (sc_next_id s') = Inr t" "sc_sscratch s' = t" "mc_satp (sc_machine s') = td_virtual_memory (sc_tasks s t)"
    "td_executor_id (sc_tasks s' t) = U16_MAX"
proof -
  let ?p = "unat (sc_next_id s)" and ?s = "(unclaimed s)\<lparr>sc_groups := snd (group_get 0 (sc_groups s))\<rparr>"
  have ex: "executor_id ?s = U16_MAX" using unclaimed_simps(6) [of s] by (simp add: executor_id_def current_task_def)
  have "(sc_next_id s + 7) AND 0xf = of_nat (visit ?p 0)" using next_id [OF p] by (simp add: visit_def)
  then have n: "executor_next fuel s = executor_loop fuel (of_nat ?p) (sc_time ?s) tasks (of_nat (visit ?p 0)) U64_MAX ((0 :: nat) = 15) ?s"
    using executor_next_eq [OF g] by simp
  have "\<exists>t s1. same_tasks ?s s1 \<and> group_task tasks (of_nat (visit ?p k)) = Inr t
    \<and> executor_loop fuel (of_nat ?p) (sc_time ?s) tasks (of_nat (visit ?p 0)) U64_MAX ((0 :: nat) = 15) ?s = Inr (Some (Run t), started s1 t (visit ?p k))"
    by (rule executor_loop_run) (use p k f in simp_all)
  then obtain t s1 where t: "same_tasks ?s s1" "group_task tasks (of_nat (visit ?p k)) = Inr t"
      "executor_next fuel s = Inr (Some (Run t), started s1 t (visit ?p k))"
    unfolding n by blast
  have "executor_id s1 = U16_MAX" using t(1) ex by (simp add: same_tasks_def executor_id_def current_task_def)
  moreover have "td_virtual_memory (sc_tasks s1 t) = td_virtual_memory (sc_tasks s t)" using t(1) by (simp add: same_tasks_def)
  ultimately show thesis
    using that [OF t(3)] t(2) by (simp add: started_def tried_def)
qed

lemma executor_next_idle:
  assumes g: "fst (group_get 0 (sc_groups s)) = Some tasks" and p: "unat (sc_next_id s) < 16" and f: "16 \<le> fuel"
    and k: "\<forall>n < 16. \<not> ready s tasks n"
  obtains m s' where "executor_next fuel s = Inr (Some (Idle m), s')" "sc_timer s' = m" "sc_sscratch s' = sc_idle_stub s'"
    "\<And>n t. n < 16 \<Longrightarrow> group_task tasks (of_nat n) = Inr t \<Longrightarrow> m \<le> td_wait_time (sc_tasks s t)"
proof -
  let ?p = "unat (sc_next_id s)" and ?s = "(unclaimed s)\<lparr>sc_groups := snd (group_get 0 (sc_groups s))\<rparr>"
  have "(sc_next_id s + 7) AND 0xf = of_nat (visit ?p 0)" using next_id [OF p] by (simp add: visit_def)
  then have n: "executor_next fuel s = executor_loop fuel (of_nat ?p) (sc_time ?s) tasks (of_nat (visit ?p 0)) U64_MAX ((0 :: nat) = 15) ?s"
    using executor_next_eq [OF g] by simp
  have "\<exists>m s1. same_tasks ?s s1 \<and> m \<le> U64_MAX
    \<and> executor_loop fuel (of_nat ?p) (sc_time ?s) tasks (of_nat (visit ?p 0)) U64_MAX ((0 :: nat) = 15) ?s = Inr (Some (Idle m), executor_idle m s1)
    \<and> (\<forall>i t. 0 \<le> i \<and> i < 16 \<and> group_task tasks (of_nat (visit ?p i)) = Inr t \<longrightarrow> m \<le> td_wait_time (sc_tasks ?s t))"
    by (rule executor_loop_idle) (use p k f in simp_all)
  then obtain m s1 where m: "executor_next fuel s = Inr (Some (Idle m), executor_idle m s1)"
      "\<And>i t. i < 16 \<Longrightarrow> group_task tasks (of_nat (visit ?p i)) = Inr t \<Longrightarrow> m \<le> td_wait_time (sc_tasks s t)"
    unfolding n by auto
  have "m \<le> td_wait_time (sc_tasks s t)" if "n < 16" "group_task tasks (of_nat n) = Inr t" for n t
    using m(2) [of "visited_at ?p n" t] visit_visited_at [OF p that(1)] that(2) by simp
  then show thesis using that [OF m(1)] by (simp add: arch_defs)
qed

lemma executor_next_cases:
  assumes "fst (group_get 0 (sc_groups s)) = Some tasks" "unat (sc_next_id s) < 16" "16 \<le> fuel"
  shows "(\<exists>k t s'. executor_next fuel s = Inr (Some (Run t), s') \<and> k < 16
      \<and> ready s tasks (visit (unat (sc_next_id s)) k) \<and> (\<forall>j < k. \<not> ready s tasks (visit (unat (sc_next_id s)) j))
      \<and> sc_next_id s' = of_nat (visit (unat (sc_next_id s)) k) \<and> group_task tasks (sc_next_id s') = Inr t
      \<and> mc_satp (sc_machine s') = td_virtual_memory (sc_tasks s t))
    \<or> (\<exists>m s'. executor_next fuel s = Inr (Some (Idle m), s') \<and> (\<forall>n < 16. \<not> ready s tasks n) \<and> sc_timer s' = m
      \<and> (\<forall>n t. n < 16 \<and> group_task tasks (of_nat n) = Inr t \<longrightarrow> m \<le> td_wait_time (sc_tasks s t)))"
    (is "?thesis1 \<or> ?thesis2")
proof (cases "\<exists>k < 16. ready s tasks (visit (unat (sc_next_id s)) k)")
  case True
  let ?P = "\<lambda>k. k < 16 \<and> ready s tasks (visit (unat (sc_next_id s)) k)"
  have L: "?P (LEAST k. ?P k)" using True by (rule LeastI_ex)
  define k where "k = (LEAST k. ?P k)"
  have k: "k < 16" "ready s tasks (visit (unat (sc_next_id s)) k)" using L unfolding k_def by (rule conjunct1, rule conjunct2)
  have l: "\<forall>j < k. \<not> ready s tasks (visit (unat (sc_next_id s)) j)"
  proof (intro allI impI)
    fix j assume j: "j < k"
    then have "\<not> ?P j" unfolding k_def by (rule not_less_Least)
    with j k(1) show "\<not> ready s tasks (visit (unat (sc_next_id s)) j)" by simp
  qed
  show ?thesis
  proof (rule disjI1, rule executor_next_run [OF assms k l])
    fix t s'
    assume "executor_next fuel s = Inr (Some (Run t), s')" "sc_next_id s' = of_nat (visit (unat (sc_next_id s)) k)"
      "group_task tasks (sc_next_id s') = Inr t" "mc_satp (sc_machine s') = td_virtual_memory (sc_tasks s t)"
    with k l show ?thesis1 by (intro exI [of _ k] exI [of _ t] exI [of _ s'] conjI)
  qed
next
  case False
  have n: "\<forall>n < 16. \<not> ready s tasks n"
  proof (intro allI impI)
    fix n :: nat assume n: "n < 16"
    then show "\<not> ready s tasks n" using False visit_visited_at [OF assms(2) n] visited_at_less by metis
  qed
  show ?thesis
  proof (rule disjI2, rule executor_next_idle [OF assms n])
    fix m s'
    assume "executor_next fuel s = Inr (Some (Idle m), s')" "sc_timer s' = m"
      "\<And>n t. n < 16 \<Longrightarrow> group_task tasks (of_nat n) = Inr t \<Longrightarrow> m \<le> td_wait_time (sc_tasks s t)"
    with n show ?thesis2 by (intro exI [of _ m] exI [of _ s'] conjI allI impI) blast+
  qed
qed

text \<open>
  The executor ends its search within one round and chooses in round-robin order. With the last
  slot among the sixteen, sixteen passes are enough: if some task is ready the first one after the
  last slot, in steps of seven, is started, with its page tables active; if none is, the hart idles
  until a time not after the end of any task's wait.
\<close>
theorem executor_next_round_robin:
  assumes "fst (group_get 0 (sc_groups s)) = Some tasks" "unat (sc_next_id s) < 16" "16 \<le> fuel"
  shows "(\<exists>k t s'. executor_next fuel s = Inr (Some (Run t), s') \<and> k < 16
      \<and> ready s tasks (visit (unat (sc_next_id s)) k) \<and> (\<forall>j < k. \<not> ready s tasks (visit (unat (sc_next_id s)) j))
      \<and> sc_next_id s' = of_nat (visit (unat (sc_next_id s)) k) \<and> group_task tasks (sc_next_id s') = Inr t
      \<and> mc_satp (sc_machine s') = td_virtual_memory (sc_tasks s t))
    \<or> (\<exists>m s'. executor_next fuel s = Inr (Some (Idle m), s') \<and> (\<forall>n < 16. \<not> ready s tasks n) \<and> sc_timer s' = m
      \<and> (\<forall>n t. n < 16 \<and> group_task tasks (of_nat n) = Inr t \<longrightarrow> m \<le> td_wait_time (sc_tasks s t)))"
  using assms by (rule executor_next_cases)

definition task_ex :: task_data where
  "task_ex = \<lparr>td_register_state = register_state_default, td_stack = 0x2000, td_virtual_memory = 0, td_notification_handler = None,
     td_current_irq = 0, td_flags = 0, td_executor_id = U16_MAX, td_priority = 0, td_priority_factor = 0, td_wait_time = 100, td_ipc = None\<rparr>"

definition sched_ex :: "u64 \<Rightarrow> sched" where
  "sched_ex time = \<lparr>sc_machine = machine_ex, sc_tasks = (\<lambda>_. task_ex), sc_task_data_address = 0x3000,
     sc_groups = \<lparr>ar_base = 0x1000, ar_slots = (\<lambda>_. (0, [0, 0, 0, 0x5000] @ replicate 12 0)), ar_next = USIZE_MAX, ar_capacity = 1, ar_max = 1\<rparr>,
     sc_next_id = 3, sc_idle_stub = 0x9000, sc_sscratch = 0x5000, sc_time = time, sc_timer = 0,
     sc_user_access = False, sc_interrupts = False, sc_kernel_interrupts = False\<rparr>"

abbreviation tasks_slot_3 :: group_data where
  "tasks_slot_3 \<equiv> [0, 0, 0, 0x5000] @ replicate 12 0"

lemma sched_ex_group: "group_get 0 (sc_groups (sched_ex time)) = (Some tasks_slot_3, (sc_groups (sched_ex time))\<lparr>ar_slots := (\<lambda>_. (0, tasks_slot_3))(0 := (1, tasks_slot_3))\<rparr>)"
  by (simp add: sched_ex_def group_get_def arena_get_def)

lemma slot_3_task: "n < 16 \<Longrightarrow> group_task tasks_slot_3 (of_nat n) = Inr t \<longleftrightarrow> n = 3 \<and> t = 0x5000"
  using unat_id [of n] by (auto simp: group_task_def nth_append nth_Cons split: nat.split if_splits)

lemma sched_ex_ready: "n < 16 \<Longrightarrow> ready (sched_ex time) tasks_slot_3 n \<longleftrightarrow> n = 3 \<and> 100 < time"
  using slot_3_task [of n] by (auto simp: runnable_def sched_ex_def task_ex_def unclaimed_def upd_task_def current_task_def)

lemma sched_ex_root: "fst (group_get 0 (sc_groups (sched_ex 200))) = Some tasks_slot_3" "unat (sc_next_id (sched_ex 200)) < 16"
  by (simp only: sched_ex_group fst_conv, simp add: sched_ex_def)

lemma sched_ex_first: "ready (sched_ex 200) tasks_slot_3 (visit 3 15)" "\<forall>j < 15. \<not> ready (sched_ex 200) tasks_slot_3 (visit 3 j)"
proof -
  show "ready (sched_ex 200) tasks_slot_3 (visit 3 15)" using sched_ex_ready [of 3 200] visit_15 [of 3] by simp
  show "\<forall>j < 15. \<not> ready (sched_ex 200) tasks_slot_3 (visit 3 j)"
  proof (intro allI impI)
    fix j :: nat assume j: "j < 15"
    then have "visit 3 j \<noteq> 3" using visit_inj [of j 15 3] visit_15 [of 3] by auto
    then show "\<not> ready (sched_ex 200) tasks_slot_3 (visit 3 j)" using sched_ex_ready [OF visit_less, of 200 3 j] by blast
  qed
qed

lemma sched_ex_runs: "\<exists>t s'. executor_next 16 (sched_ex 200) = Inr (Some (Run t), s') \<and> sc_next_id s' = 3"
proof -
  have n: "unat (sc_next_id (sched_ex 200)) = 3" by (simp add: sched_ex_def)
  show ?thesis
    by (rule executor_next_run [OF sched_ex_root, of 16 15]) (use sched_ex_first visit_15 [of 3] in \<open>simp_all add: n\<close>)
qed

theorem executor_next_round_robin_witness:
  "\<exists>k t s'. executor_next 16 (sched_ex 200) = Inr (Some (Run t), s') \<and> sc_next_id s' = of_nat (visit 3 k)"
proof -
  have n: "unat (sc_next_id (sched_ex 200)) = 3" by (simp add: sched_ex_def)
  from executor_next_round_robin [OF sched_ex_root order_refl] sched_ex_runs show ?thesis unfolding n by fastforce
qed



subsection \<open>Claims\<close>

text \<open>
  C15. Starting a task does not claim it. The executor reads its own ID from the task it has just
  unclaimed, so the task it starts is marked with the value that means unclaimed, and any other
  executor can start it as well.
\<close>
theorem executor_claims_nothing:
  assumes "fst (group_get 0 (sc_groups s)) = Some tasks" "unat (sc_next_id s) < 16" "16 \<le> fuel"
    and "executor_next fuel s = Inr (Some (Run t), s')"
  shows "current_task s' = t \<and> td_executor_id (sc_tasks s' t) = U16_MAX
    \<and> (\<exists>s''. task_execute t e s' = Inr (Inr (), s''))"
proof -
  obtain k where k: "k < 16" "ready s tasks (visit (unat (sc_next_id s)) k)" "\<forall>j < k. \<not> ready s tasks (visit (unat (sc_next_id s)) j)"
    using executor_next_cases [OF assms(1-3)] assms(4) by auto
  have "sc_sscratch s' = t \<and> td_executor_id (sc_tasks s' t) = U16_MAX"
    by (rule executor_next_run [OF assms(1-3) k]) (use assms(4) in auto)
  then show ?thesis by (simp add: task_execute_def bindK_def arch_defs)
qed

theorem executor_claims_nothing_witness:
  "\<exists>t s' s''. executor_next 16 (sched_ex 200) = Inr (Some (Run t), s') \<and> task_execute t 1 s' = Inr (Inr (), s'')"
proof -
  obtain t s' where r: "executor_next 16 (sched_ex 200) = Inr (Some (Run t), s')" using sched_ex_runs by blast
  with executor_claims_nothing [OF sched_ex_root order_refl r, of 1] show ?thesis by blast
qed

subsection \<open>A slot out of range\<close>

lemma get_task_next_id: "get_task a s = Inr (r, s') \<Longrightarrow> sc_next_id s' = a"
  by (auto simp: get_task_def address_group_eq address_task_eq Let_def split: prod.splits option.splits)

text \<open>
  C16. A task address with bits set between the task's and the group's part makes the executor hang. Looking
  up a task by its address stores the whole address as the last slot but uses only its lower twelve
  bits, so the lookup can succeed with an address of sixteen or more; the executor's loop, when no
  task is ready, then never ends.
\<close>
theorem executor_hangs:
  assumes "get_task a s = Inr (Some t, s')" "16 \<le> unat a"
    and "fst (group_get 0 (sc_groups s')) = Some tasks" "\<forall>n < 16. \<not> ready s' tasks n"
  shows "\<exists>s''. executor_next fuel s' = Inr (None, s'')"
proof -
  have a: "sc_next_id s' = a" using get_task_next_id [OF assms(1)] .
  let ?n = "unat ((a + 7) AND 0xf)" and ?s = "(unclaimed s')\<lparr>sc_groups := snd (group_get 0 (sc_groups s'))\<rparr>"
  have n: "?n < 16" using unat_and_mask [of "a + 7" 4] by (simp add: mask_eq_exp_minus_1)
  have "\<exists>s''. executor_loop fuel a (sc_time ?s) tasks (of_nat ?n) U64_MAX False ?s = Inr (None, s'')"
    by (rule executor_loop_stuck) (use assms(2,4) n in simp_all)
  then show ?thesis using executor_next_eq [OF assms(3), of fuel] a by simp
qed

theorem executor_hangs_witness:
  "\<exists>s'. get_task 0x1003 (sched_ex 50) = Inr (Some 0x5000, s') \<and> (\<exists>s''. executor_next 1000 s' = Inr (None, s''))"
proof -
  let ?g = "(sc_groups (sched_ex 50))\<lparr>ar_slots := (\<lambda>_. (0, tasks_slot_3))(0 := (0, tasks_slot_3))\<rparr>"
  let ?s = "(sched_ex 50)\<lparr>sc_next_id := 0x1003, sc_groups := ?g\<rparr>"
  have g3: "group_task tasks_slot_3 3 = Inr 0x5000" using slot_3_task [of 3 "0x5000"] by simp
  have t: "address_group 0x1003 = Inr 0" "address_task 0x1003 = Inr 3" by (simp_all add: address_group_eq address_task_eq mask_eq_exp_minus_1)
  have 1: "get_task 0x1003 (sched_ex 50) = Inr (Some 0x5000, ?s)"
    using g3 by (simp add: get_task_def t group_get_def arena_get_def guard_drop_def sched_ex_def)
  have 2: "fst (group_get 0 (sc_groups ?s)) = Some tasks_slot_3" by (simp add: group_get_def arena_get_def sched_ex_def)
  have "ready ?s tasks_slot_3 n = ready (sched_ex 50) tasks_slot_3 n" for n
    by (simp add: runnable_def unclaimed_def upd_task_def current_task_def)
  then have 3: "\<forall>n < 16. \<not> ready ?s tasks_slot_3 n" using sched_ex_ready [of _ 50] by simp
  have "16 \<le> unat (0x1003 :: usize)" by simp
  from executor_hangs [OF 1 this 2 3] 1 show ?thesis by blast
qed

end
