(* ===== verification/Ipc_Kernel.thy ===== *)
theory Ipc_Kernel
  imports Executor
begin

text \<open>
  Inter-task communication in the kernel (\<open>task/ipc.rs\<close>). The packet table of a task lies in its own
  memory: a packet array, a transmit ring, a receive ring and a stack of free slots, followed by the
  list of free address ranges elsewhere. The model keeps these structures as typed values under the
  page tables (\<open>satp\<close>) and the address through which the kernel reaches them, so that an access goes to
  the table of the address space that is active; an access without supervisor access to user pages
  is a page fault. The kernel and the task look at a table with the same number of packets.
\<close>

subsection \<open>Packets and tables\<close>

(* src/kernel/src/task/ipc.rs:12-26 Packet *)
record packet =
  pk_uuid :: "u64 \<times> u64"
  pk_data :: "usize option"
  pk_name :: "usize option"
  pk_data_offset :: u64
  pk_data_length :: usize
  pk_address :: task_address
  pk_flags :: u16
  pk_name_length :: u16
  pk_id :: u8
  pk_opcode :: "u8 option"

(* src/kernel/src/task/ipc.rs:361-367 FreePage *)
record free_page =
  fp_address :: "usize option"
  fp_count :: usize

record ipc_table =
  it_packets :: "u16 \<Rightarrow> packet"
  it_tx_index :: u16
  it_tx_slots :: "u16 \<Rightarrow> u16"
  it_rx_index :: u16
  it_rx_slots :: "u16 \<Rightarrow> u16"
  it_free_top :: u16
  it_free_slots :: "u16 \<Rightarrow> u16"

record io =
  io_sched :: sched
  io_tables :: "sv39 \<Rightarrow> usize \<Rightarrow> ipc_table"
  io_free_pages :: "sv39 \<Rightarrow> usize \<Rightarrow> free_page list"

type_synonym 'a ioK = "(io, 'a) comp"

definition onS :: "'a schedK \<Rightarrow> 'a ioK" where
  "onS f s = (case f (io_sched s) of Inl p \<Rightarrow> Inl p | Inr (x, sc) \<Rightarrow> Inr (x, s\<lparr>io_sched := sc\<rparr>))"

definition getS :: "(sched \<Rightarrow> 'a) \<Rightarrow> 'a ioK" where
  "getS f s = Inr (f (io_sched s), s)"

definition modS :: "(sched \<Rightarrow> sched) \<Rightarrow> unit ioK" where
  "modS f s = Inr ((), s\<lparr>io_sched := f (io_sched s)\<rparr>)"

abbreviation active_vms :: "io \<Rightarrow> sv39" where
  "active_vms s \<equiv> mc_satp (sc_machine (io_sched s))"

text \<open>Reading and writing the table at an address of the active address space.\<close>

definition get_table :: "usize \<Rightarrow> ipc_table ioK" where
  "get_table a s = (if sc_user_access (io_sched s) then Inr (io_tables s (active_vms s) a, s) else Inl Page_Fault)"

definition put_table :: "usize \<Rightarrow> ipc_table \<Rightarrow> unit ioK" where
  "put_table a t s =
     (if sc_user_access (io_sched s)
      then Inr ((), s\<lparr>io_tables := (io_tables s)(active_vms s := (io_tables s (active_vms s))(a := t))\<rparr>)
      else Inl Page_Fault)"

definition get_free_pages :: "usize \<Rightarrow> free_page list ioK" where
  "get_free_pages a s = (if sc_user_access (io_sched s) then Inr (io_free_pages s (active_vms s) a, s) else Inl Page_Fault)"

definition put_free_pages :: "usize \<Rightarrow> free_page list \<Rightarrow> unit ioK" where
  "put_free_pages a l s =
     (if sc_user_access (io_sched s)
      then Inr ((), s\<lparr>io_free_pages := (io_free_pages s)(active_vms s := (io_free_pages s (active_vms s))(a := l))\<rparr>)
      else Inl Page_Fault)"

subsection \<open>The IPC structure\<close>

(* src/kernel/src/task/ipc.rs:67-68 TooLarge *)
datatype too_large = TooLarge

(* src/kernel/src/task/ipc.rs:70-74 PopFreeSlotError *)
datatype pop_free_slot_error = POP_LockTimeout | POP_NoFreeSlots

(* src/kernel/src/task/ipc.rs:76-80 PushFreeSlotError *)
datatype push_free_slot_error = PUSH_LockTimeout | PUSH_Full

(* src/kernel/src/task/ipc.rs:96-122 IPC::new *)
definition ipc_new :: "usize \<Rightarrow> u8 \<Rightarrow> usize \<Rightarrow> usize \<Rightarrow> too_large + ipc" where
  "ipc_new packets mask_bits pages max_free_pages =
     (if mask_bits \<le> 15
      then Inr \<lparr>ipc_packets = packets, ipc_last_transmit_index = 0, ipc_ring_mask = push_bit (unat mask_bits) 1 - 1,
                ipc_free_pages = pages, ipc_max_free_pages = max_free_pages\<rparr>
      else Inl TooLarge)"

(* src/kernel/src/task/ipc.rs:354-358 IPC::len *)
definition ipc_len :: "ipc \<Rightarrow> u16" where
  "ipc_len i = ipc_ring_mask i + 1"

text \<open>The slot \<open>packet\<close> gives access to, and the checked index into a ring or the free stack.\<close>

(* src/kernel/src/task/ipc.rs:250-258 IPC::packet *)
definition packet_slot :: "ipc \<Rightarrow> u16 \<Rightarrow> u16 option" where
  "packet_slot i index = (if index \<le> ipc_ring_mask i then Some index else None)"

definition ring_slot :: "ipc \<Rightarrow> u16 \<Rightarrow> u16 may_panic" where
  "ring_slot i k = (if k < ipc_len i then Inr k else Inl Index_Out_Of_Range)"

(* src/kernel/src/task/ipc.rs:260-270 IPC::transmit_ring *)
definition transmit_ring :: "ipc \<Rightarrow> (u16 \<times> (u16 \<Rightarrow> u16)) ioK" where
  "transmit_ring i = bindK (get_table (ipc_packets i)) (\<lambda>t. retK (it_tx_index t, it_tx_slots t))"

(* src/kernel/src/task/ipc.rs:272-288 IPC::received_ring *)
definition received_ring :: "ipc \<Rightarrow> (u16 \<times> (u16 \<Rightarrow> u16)) ioK" where
  "received_ring i = bindK (get_table (ipc_packets i)) (\<lambda>t. retK (it_rx_index t, it_rx_slots t))"

text \<open>
  \<open>lock_free_stack\<close>: the lock word is the top of the stack, or the maximum while it is locked. A
  kernel that waits on one hart sees the word unchanged thirty times and gives up.
\<close>

(* src/kernel/src/task/ipc.rs:316-352 IPC::lock_free_stack *)
definition lock_free_stack ::
    "ipc \<Rightarrow> (u16 \<Rightarrow> (u16 \<Rightarrow> u16) \<Rightarrow> ('r \<times> u16 \<times> (u16 \<Rightarrow> u16)) may_panic) \<Rightarrow> 'r option ioK" where
  "lock_free_stack i f =
     bindK (get_table (ipc_packets i)) (\<lambda>t.
     if it_free_top t = U16_MAX then retK None
     else
       bindK (liftK (f (it_free_top t) (it_free_slots t))) (\<lambda>(r, top, stack).
       bindK (put_table (ipc_packets i) (t\<lparr>it_free_top := top, it_free_slots := stack\<rparr>)) (\<lambda>_. retK (Some r))))"

(* src/kernel/src/task/ipc.rs:290-301 IPC::pop_free_slot *)
definition pop_free_slot :: "ipc \<Rightarrow> (pop_free_slot_error + u16) ioK" where
  "pop_free_slot i =
     bindK (lock_free_stack i (\<lambda>top stack.
       case checked_sub top 1 of
         None \<Rightarrow> Inr (Inl POP_NoFreeSlots, top, stack)
       | Some tv \<Rightarrow> bindP (ring_slot i tv) (\<lambda>k. Inr (Inr (stack k), tv, stack)))) (\<lambda>r.
     retK (case r of None \<Rightarrow> Inl POP_LockTimeout | Some x \<Rightarrow> x))"

(* src/kernel/src/task/ipc.rs:303-314 IPC::push_free_slot *)
definition push_free_slot :: "ipc \<Rightarrow> u16 \<Rightarrow> (push_free_slot_error + unit) ioK" where
  "push_free_slot i slot =
     bindK (lock_free_stack i (\<lambda>top stack.
       if top \<le> ipc_ring_mask i
       then bindP (ring_slot i top) (\<lambda>k. Inr (Inr (), top + 1, stack(k := slot)))
       else Inr (Inl PUSH_Full, top, stack))) (\<lambda>r.
     retK (case r of None \<Rightarrow> Inl PUSH_LockTimeout | Some x \<Rightarrow> x))"

(* src/kernel/src/task/ipc.rs:239-247 IPC::pop_free_range *)
fun pop_range :: "free_page list \<Rightarrow> usize \<Rightarrow> page option \<times> free_page list" where
  "pop_range [] sz = (None, [])"
| "pop_range (fp # fps) sz =
     (case fp_address fp of
        None \<Rightarrow> (case pop_range fps sz of (r, fps') \<Rightarrow> (r, fp # fps'))
      | Some addr \<Rightarrow>
          (case checked_sub (fp_count fp) sz of
             None \<Rightarrow> (case pop_range fps sz of (r, fps') \<Rightarrow> (r, fp # fps'))
           | Some remaining \<Rightarrow>
               ((case page_new addr of Inl _ \<Rightarrow> None | Inr p \<Rightarrow> page_skip p remaining), fp\<lparr>fp_count := remaining\<rparr> # fps)))"

(* src/kernel/src/task/ipc.rs:235-248 IPC::pop_free_range *)
definition pop_free_range :: "ipc \<Rightarrow> usize \<Rightarrow> page option ioK" where
  "pop_free_range i sz =
     bindK (get_free_pages (ipc_free_pages i)) (\<lambda>l.
     let n = unat (ipc_max_free_pages i); (r, l') = pop_range (take n l) sz in
     bindK (put_free_pages (ipc_free_pages i) (l' @ drop n l)) (\<lambda>_. retK r))"

subsection \<open>Transmitting\<close>

text \<open>The address ranges for a pointer of a packet: where it is, where it goes, and how many pages.\<close>

(* src/kernel/src/task/ipc.rs:162-174 IPC::process_packets *)
definition reserve_range :: "ipc \<Rightarrow> usize option \<Rightarrow> usize \<Rightarrow> (page \<times> page \<times> usize) option ioK" where
  "reserve_range i ptr len =
     (case ptr of
        None \<Rightarrow> retK None
      | Some a \<Rightarrow>
          bindK (liftK (unwrapR (page_new a))) (\<lambda>page.
          let cnt = min_pages_for_byte_count len in
          bindK (pop_free_range i cnt) (\<lambda>r. bindK (liftK (unwrapO r)) (\<lambda>rx. retK (Some (page, rx, cnt))))))"

(* src/kernel/src/task/ipc.rs:203-225 IPC::process_packets *)
primrec share_pages :: "nat \<Rightarrow> sv39 \<Rightarrow> page \<Rightarrow> page \<Rightarrow> rwx \<Rightarrow> unit ioK" where
  "share_pages 0 vm rx tx rwx = retK ()"
| "share_pages (Suc n) vm rx tx rwx =
     bindK (share_pages n vm rx tx rwx) (\<lambda>_.
     bindK (liftK (unwrapO (page_skip rx (of_nat n)))) (\<lambda>rx'.
     bindK (liftK (unwrapO (page_skip tx (of_nat n)))) (\<lambda>tx'.
     onS (onM (unwrapK (vms_share vm rx' tx' rwx UserLocal))))))"

definition share_range :: "(page \<times> page \<times> usize) option \<Rightarrow> sv39 \<Rightarrow> rwx \<Rightarrow> unit ioK" where
  "share_range r vm rwx = (case r of None \<Rightarrow> retK () | Some (tx, rx, cnt) \<Rightarrow> share_pages (unat cnt) vm rx tx rwx)"

(* src/kernel/src/task/ipc.rs:139-140 IPC::process_packets *)
definition receiver :: "task_address \<Rightarrow> usize ioK" where
  "receiver address s =
     bindP (address_group address) (\<lambda>g. bindP (address_task address) (\<lambda>t.
     let (group, groups) = group_get (ucast g) (sc_groups (io_sched s)) in
     bindP (unwrapO group) (\<lambda>tasks.
     bindP (unwrapR (group_task tasks (ucast t))) (\<lambda>ptr.
     Inr (ptr, s\<lparr>io_sched := (io_sched s)\<lparr>sc_groups := guard_drop (ucast g) groups\<rparr>\<rparr>)))))"

text \<open>
  One pass of the loop with the IPC structure \<open>i\<close> of task \<open>slf\<close>; the result tells whether the packet
  was delivered, or the loop is left because the receiver has no queues.
\<close>

(* src/kernel/src/task/ipc.rs:132-230 IPC::process_packets *)
definition process_packet :: "ipc \<Rightarrow> usize \<Rightarrow> task_address \<Rightarrow> (u16 \<Rightarrow> u16) \<Rightarrow> u16 \<Rightarrow> bool ioK" where
  "process_packet i slf slf_address tx_slots last_transmit_index =
     (let tx_pkt_slot = last_transmit_index AND ipc_ring_mask i in
      bindK (liftK (ring_slot i tx_pkt_slot)) (\<lambda>k.
      bindK (liftK (unwrapO (packet_slot i (tx_slots k)))) (\<lambda>index.
      bindK (get_table (ipc_packets i)) (\<lambda>table.
      let tx_pkt = it_packets table index in
      bindK (liftK (assertP (pk_address tx_pkt \<noteq> slf_address) (Inr ()))) (\<lambda>_.
      bindK (receiver (pk_address tx_pkt)) (\<lambda>task.
      bindK (getS (\<lambda>s. sc_tasks s task)) (\<lambda>td.
      bindK (getS (\<lambda>s. td_virtual_memory (sc_tasks s slf))) (\<lambda>self_vms.
      bindK (onS (onM (vms_activate (td_virtual_memory td)))) (\<lambda>_.
      case td_ipc td of
        None \<Rightarrow> bindK (modS (upd_task slf (\<lambda>d. d\<lparr>td_wait_time := 0\<rparr>))) (\<lambda>_. retK False)
      | Some task_ipc \<Rightarrow>
          bindK (unwrapK (pop_free_slot task_ipc)) (\<lambda>rx_pkt_slot.
          bindK (reserve_range task_ipc (pk_data tx_pkt) (pk_data_length tx_pkt)) (\<lambda>tx_rx_data.
          bindK (reserve_range task_ipc (pk_name tx_pkt) (ucast (pk_name_length tx_pkt))) (\<lambda>tx_rx_name.
          bindK (get_table (ipc_packets task_ipc)) (\<lambda>t.
          bindK (liftK (ring_slot task_ipc (it_rx_index t AND ipc_ring_mask task_ipc))) (\<lambda>rx.
          bindK (liftK (unwrapO (packet_slot task_ipc rx_pkt_slot))) (\<lambda>rx_index.
          let rx_pkt = tx_pkt\<lparr>pk_data := map_option (\<lambda>(_, p, _). p) tx_rx_data,
                              pk_name := map_option (\<lambda>(_, p, _). p) tx_rx_name, pk_address := slf_address\<rparr> in
          bindK (put_table (ipc_packets task_ipc)
            (t\<lparr>it_rx_slots := (it_rx_slots t)(rx := rx_pkt_slot), it_packets := (it_packets t)(rx_index := rx_pkt),
               it_rx_index := it_rx_index t + 1\<rparr>)) (\<lambda>_.
          bindK (modS (upd_task task (\<lambda>d. d\<lparr>td_wait_time := 0\<rparr>))) (\<lambda>_.
          bindK (onS (onM (vms_activate self_vms))) (\<lambda>_.
          bindK (share_range tx_rx_data (td_virtual_memory td) RWX_RW) (\<lambda>_.
          bindK (share_range tx_rx_name (td_virtual_memory td) RWX_R) (\<lambda>_.
          bindK (unwrapK (push_free_slot i tx_pkt_slot)) (\<lambda>_. retK True)))))))))))))))))))))"

text \<open>The loop runs until the index it started with has been reached, which is this many passes away.\<close>

(* src/kernel/src/task/ipc.rs:131-230 IPC::process_packets *)
primrec process_loop :: "nat \<Rightarrow> ipc \<Rightarrow> usize \<Rightarrow> task_address \<Rightarrow> (u16 \<Rightarrow> u16) \<Rightarrow> u16 \<Rightarrow> u16 ioK" where
  "process_loop 0 i slf slf_address tx_slots last_transmit_index = retK last_transmit_index"
| "process_loop (Suc n) i slf slf_address tx_slots last_transmit_index =
     bindK (process_packet i slf slf_address tx_slots last_transmit_index) (\<lambda>delivered.
     if delivered then process_loop n i slf slf_address tx_slots (last_transmit_index + 1)
     else retK last_transmit_index)"

(* src/kernel/src/task/ipc.rs:124-233 IPC::process_packets *)
definition process_packets :: "ipc \<Rightarrow> usize \<Rightarrow> task_address \<Rightarrow> unit ioK" where
  "process_packets i slf slf_address =
     bindK (getS (\<lambda>s. td_virtual_memory (sc_tasks s slf))) (\<lambda>vms.
     bindK (onS (onM (vms_activate vms))) (\<lambda>_.
     bindK (modS (set_supervisor_userpage_access True)) (\<lambda>_.
     bindK (transmit_ring i) (\<lambda>(tx_index, tx_slots).
     let last_transmit_index = ipc_last_transmit_index i in
     bindK (process_loop (unat (tx_index - last_transmit_index)) i slf slf_address tx_slots last_transmit_index) (\<lambda>last.
     bindK (modS (upd_task slf (\<lambda>d. d\<lparr>td_ipc := Some (i\<lparr>ipc_last_transmit_index := last\<rparr>)\<rparr>))) (\<lambda>_.
     modS (set_supervisor_userpage_access False)))))))"

(* src/kernel/src/task/ipc.rs:369-377 Task::process_io *)
definition process_io :: "usize \<Rightarrow> task_address \<Rightarrow> unit ioK" where
  "process_io slf slf_address s =
     (case td_ipc (sc_tasks (io_sched s) slf) of
        None \<Rightarrow> Inr ((), s)
      | Some i \<Rightarrow> process_packets i slf slf_address s)"

end
