(* ===== verification/Registry.thy ===== *)
theory Registry
  imports Task_Address
begin

text \<open>
  The task registry (\<open>task/registry.rs\<close>): a table of sixteen named addresses behind a counter that also
  serves as a lock. \<open>add\<close> and \<open>get\<close> are modelled for a hart that runs alone, where they implement a list
  of names in which the first match counts, and \<open>add\<close> also for harts that run at the same time.
\<close>

subsection \<open>State and operations\<close>

(* src/kernel/src/task/registry.rs:36-40 Entry *)
record registry_entry =
  en_name_len :: u8
  en_name :: "u8 list"
  en_address :: task_address

(* src/kernel/src/task/registry.rs:11-34 REGISTRY *)
record registry =
  rg_count :: usize
  rg_entries :: "registry_entry option list"

(* src/kernel/src/task/registry.rs:42-47 AddError *)
datatype registry_error = RG_Occupied | RG_NameTooLong | RG_RegistryFull

text \<open>A hart that runs alone finds the counter as it has loaded it.\<close>

(* src/kernel/src/task/registry.rs:84-97 lock *)
definition registry_lock :: "registry \<Rightarrow> usize \<times> registry" where
  "registry_lock r = (rg_count r, r\<lparr>rg_count := - 1\<rparr>)"

(* src/kernel/src/task/registry.rs:99-101 unlock *)
definition registry_unlock :: "usize \<Rightarrow> registry \<Rightarrow> registry" where
  "registry_unlock len r = r\<lparr>rg_count := len\<rparr>"

(* src/kernel/src/task/registry.rs:55-63 add *)
definition new_entry :: "u8 list \<Rightarrow> task_address \<Rightarrow> registry_entry" where
  "new_entry name address =
     \<lparr>en_name_len = of_nat (length name), en_name = name @ replicate (31 - length name) 0, en_address = address\<rparr>"

(* src/kernel/src/task/registry.rs:49-70 add *)
definition registry_add :: "u8 list \<Rightarrow> task_address \<Rightarrow> registry \<Rightarrow> (registry_error + unit) \<times> registry" where
  "registry_add name address r =
     (if length name > 31 then (Inl RG_NameTooLong, r)
      else
        (let (len, r) = registry_lock r in
         if unat len < length (rg_entries r)
         then (Inr (), registry_unlock (len + 1) (r\<lparr>rg_entries := (rg_entries r)[unat len := Some (new_entry name address)]\<rparr>))
         else (Inl RG_RegistryFull, registry_unlock len r)))"

text \<open>The slice \<open>&e.name[..usize::from(e.name_len)]\<close>, within bounds for every entry \<open>add\<close> makes.\<close>

definition entry_name :: "registry_entry \<Rightarrow> u8 list" where
  "entry_name e = take (unat (en_name_len e)) (en_name e)"

(* src/kernel/src/task/registry.rs:72-82 get *)
definition registry_get :: "u8 list \<Rightarrow> registry \<Rightarrow> (task_address option \<times> registry) may_panic" where
  "registry_get name r =
     (let (len, r) = registry_lock r in
      if unat len > length (rg_entries r) then Inl Index_Out_Of_Range
      else
        Inr (map_option en_address (find (\<lambda>e. entry_name e = name) (List.map_filter id (take (unat len) (rg_entries r)))),
             registry_unlock len r))"

subsection \<open>One hart\<close>

text \<open>The entries of a registry as a list of names and addresses.\<close>

definition registry_list :: "registry \<Rightarrow> (u8 list \<times> task_address) list" where
  "registry_list r = map (\<lambda>e. (entry_name (the e), en_address (the e))) (take (unat (rg_count r)) (rg_entries r))"

definition registry_inv :: "registry \<Rightarrow> bool" where
  "registry_inv r \<longleftrightarrow> length (rg_entries r) = 16 \<and> unat (rg_count r) \<le> 16
     \<and> (\<forall>i < unat (rg_count r). rg_entries r ! i \<noteq> None)"

definition registry_empty :: registry where
  "registry_empty = \<lparr>rg_count = 0, rg_entries = replicate 16 None\<rparr>"

lemma registry_inv_empty: "registry_inv registry_empty" "registry_list registry_empty = []"
  by (simp_all add: registry_inv_def registry_empty_def registry_list_def)

lemma entry_name_new:
  assumes "length name \<le> 31"
  shows "entry_name (new_entry name a) = name" "en_address (new_entry name a) = a"
proof -
  have "unat (of_nat (length name) :: u8) = length name" using assms by (intro unat_of_nat_less) simp
  then show "entry_name (new_entry name a) = name" by (simp add: entry_name_def new_entry_def)
qed (simp add: new_entry_def)

lemma find_map_filter:
  assumes "\<forall>x \<in> set xs. x \<noteq> None"
  shows "map_option en_address (find (\<lambda>e. entry_name e = n) (List.map_filter id xs))
    = map_of (map (\<lambda>e. (entry_name (the e), en_address (the e))) xs) n"
  using assms
proof (induction xs)
  case (Cons x xs)
  then obtain e where "x = Some e" by auto
  with Cons show ?case by (simp add: List.map_filter_simps)
qed (simp add: List.map_filter_simps)

lemma registry_get_eq:
  assumes "registry_inv r"
  shows "registry_get name r = Inr (map_of (registry_list r) name, r)"
proof -
  have "\<forall>x \<in> set (take (unat (rg_count r)) (rg_entries r)). x \<noteq> None"
    using assms by (auto simp: registry_inv_def in_set_conv_nth)
  then show ?thesis
    using assms find_map_filter [of "take (unat (rg_count r)) (rg_entries r)" name]
    by (simp add: registry_get_def registry_lock_def registry_unlock_def registry_list_def registry_inv_def)
qed

lemma registry_add_eq:
  assumes inv: "registry_inv r" and n: "length name \<le> 31"
  shows "unat (rg_count r) < 16 \<Longrightarrow> \<exists>r'. registry_add name a r = (Inr (), r') \<and> registry_inv r' \<and> registry_list r' = registry_list r @ [(name, a)]"
    and "unat (rg_count r) = 16 \<Longrightarrow> registry_add name a r = (Inl RG_RegistryFull, r)"
proof -
  let ?c = "rg_count r" and ?es = "rg_entries r"
  have len: "length ?es = 16" and some: "\<forall>i < unat ?c. ?es ! i \<noteq> None" using inv by (auto simp: registry_inv_def)
  show "registry_add name a r = (Inl RG_RegistryFull, r)" if "unat ?c = 16"
    using that n len by (simp add: registry_add_def registry_lock_def registry_unlock_def)
  assume c: "unat ?c < 16"
  let ?r = "r\<lparr>rg_count := ?c + 1, rg_entries := ?es[unat ?c := Some (new_entry name a)]\<rparr>"
  have c1: "unat (?c + 1) = Suc (unat ?c)" using c unat_add_no_overflow [of ?c 1] by simp
  have "registry_add name a r = (Inr (), ?r)"
    using c n len by (simp add: registry_add_def registry_lock_def registry_unlock_def)
  moreover have "registry_inv ?r"
    using c c1 len some by (auto simp: registry_inv_def nth_list_update less_Suc_eq)
  moreover have "registry_list ?r = registry_list r @ [(name, a)]"
    using c c1 len entry_name_new [OF n] by (simp add: registry_list_def take_Suc_conv_app_nth)
  ultimately show "\<exists>r'. registry_add name a r = (Inr (), r') \<and> registry_inv r' \<and> registry_list r' = registry_list r @ [(name, a)]" by blast
qed

text \<open>
  C19. For a hart that runs alone the registry is a list of at most sixteen names. Adding appends the
  name, or reports that it is longer than 31 bytes or that the list is full and changes nothing;
  looking a name up never panics and finds the first entry of that name, so a name added again is
  accepted but stays hidden.
\<close>
theorem registry_refines_list:
  assumes "registry_inv r"
  shows "(if length name > 31 then registry_add name a r = (Inl RG_NameTooLong, r)
      else if length (registry_list r) = 16 then registry_add name a r = (Inl RG_RegistryFull, r)
      else \<exists>r'. registry_add name a r = (Inr (), r') \<and> registry_inv r' \<and> registry_list r' = registry_list r @ [(name, a)]
        \<and> (\<forall>n. registry_get n r' = Inr (if n = name \<and> map_of (registry_list r) name = None then Some a else map_of (registry_list r) n, r')))"
proof -
  have l: "length (registry_list r) = unat (rg_count r)" "unat (rg_count r) \<le> 16" using assms by (auto simp: registry_list_def registry_inv_def)
  consider "length name > 31" | "length name \<le> 31" "unat (rg_count r) = 16" | "length name \<le> 31" "unat (rg_count r) < 16"
    using l(2) by linarith
  then show ?thesis
  proof cases
    case 1
    then show ?thesis by (simp add: registry_add_def)
  next
    case 2
    then show ?thesis using registry_add_eq(2) [OF assms] l(1) by simp
  next
    case 3
    then obtain r' where r': "registry_add name a r = (Inr (), r')" "registry_inv r'" "registry_list r' = registry_list r @ [(name, a)]"
      using registry_add_eq(1) [OF assms] by blast
    have "registry_get n r' = Inr (if n = name \<and> map_of (registry_list r) name = None then Some a else map_of (registry_list r) n, r')" for n
      using registry_get_eq [OF r'(2), of n] r'(3) by (simp add: map_add_def split: option.split)
    then show ?thesis using r' 3 l(1) by auto
  qed
qed

theorem registry_refines_list_witness:
  "\<exists>r'. registry_add [117, 97] 5 registry_empty = (Inr (), r') \<and> registry_get [117, 97] r' = Inr (Some 5, r')"
  using registry_refines_list [OF registry_inv_empty(1), of "[117, 97]" 5] by (auto simp: registry_inv_empty(2))

subsection \<open>Harts that add at the same time\<close>

text \<open>
  A hart before its load of the counter, with the value it has seen, inside the lock with the value it
  took, and after its call. \<open>load\<close>, the exchange, the write of the entry and the store of the counter
  are one step each.
\<close>

datatype adder = Begin | Loaded usize | Holding usize | Written usize | Returned "registry_error + unit"

(* src/kernel/src/task/registry.rs:49-101 add *)
inductive add_step :: "(nat \<Rightarrow> u8 list \<times> task_address) \<Rightarrow> registry \<times> (nat \<Rightarrow> adder) \<Rightarrow> registry \<times> (nat \<Rightarrow> adder) \<Rightarrow> bool"
  for arg :: "nat \<Rightarrow> u8 list \<times> task_address" where
  too_long: "\<lbrakk>hs h = Begin; length (fst (arg h)) > 31\<rbrakk> \<Longrightarrow> add_step arg (r, hs) (r, hs(h := Returned (Inl RG_NameTooLong)))"
| load: "\<lbrakk>hs h = Begin; length (fst (arg h)) \<le> 31\<rbrakk> \<Longrightarrow> add_step arg (r, hs) (r, hs(h := Loaded (rg_count r)))"
| exchange: "\<lbrakk>hs h = Loaded len; rg_count r = len\<rbrakk> \<Longrightarrow> add_step arg (r, hs) (r\<lparr>rg_count := - 1\<rparr>, hs(h := Holding len))"
| retry: "\<lbrakk>hs h = Loaded len; rg_count r \<noteq> len\<rbrakk> \<Longrightarrow> add_step arg (r, hs) (r, hs(h := Loaded (rg_count r)))"
| write_entry: "\<lbrakk>hs h = Holding len; unat len < length (rg_entries r)\<rbrakk>
    \<Longrightarrow> add_step arg (r, hs) (r\<lparr>rg_entries := (rg_entries r)[unat len := Some (new_entry (fst (arg h)) (snd (arg h)))]\<rparr>, hs(h := Written len))"
| release: "hs h = Written len \<Longrightarrow> add_step arg (r, hs) (registry_unlock (len + 1) r, hs(h := Returned (Inr ())))"
| full: "\<lbrakk>hs h = Holding len; \<not> unat len < length (rg_entries r)\<rbrakk>
    \<Longrightarrow> add_step arg (r, hs) (registry_unlock len r, hs(h := Returned (Inl RG_RegistryFull)))"

text \<open>
  C20. The counter is no lock. Two harts that add to an empty registry at the same time can both hold
  it: while the first does, the second takes the value that means locked as the number of entries. The
  first goes on and reports success, with its entry in the table. The second reports a full registry
  and stores the value that means locked for good. From then on every lookup panics, so the entry that
  was added is never found, and every further addition is refused.
\<close>
theorem registry_lock_broken:
  "\<exists>r1 hs1 r hs. (add_step (\<lambda>h. ([], of_nat h)))\<^sup>*\<^sup>* (registry_empty, \<lambda>_. Begin) (r1, hs1)
     \<and> hs1 0 = Holding 0 \<and> hs1 1 = Holding (- 1)
     \<and> (add_step (\<lambda>h. ([], of_nat h)))\<^sup>*\<^sup>* (r1, hs1) (r, hs)
     \<and> hs 0 = Returned (Inr ()) \<and> hs 1 = Returned (Inl RG_RegistryFull) \<and> rg_entries r ! 0 = Some (new_entry [] 0)
     \<and> (\<forall>name. registry_get name r = Inl Index_Out_Of_Range)
     \<and> (\<forall>name a. registry_add name a r = (Inl (if length name > 31 then RG_NameTooLong else RG_RegistryFull), r))"
proof -
  let ?arg = "\<lambda>h. ([], of_nat h) :: u8 list \<times> task_address" and ?b = "\<lambda>_ :: nat. Begin"
  let ?e = "[Some (new_entry [] 0)] @ replicate 15 None"
  let ?r0 = "registry_empty" and ?r1 = "registry_empty\<lparr>rg_count := - 1\<rparr>"
  let ?r2 = "\<lparr>rg_count = - 1, rg_entries = ?e\<rparr>" and ?r3 = "\<lparr>rg_count = 1, rg_entries = ?e\<rparr>"
  have max: "unat (- 1 :: usize) = 18446744073709551615" using unsigned_minus_1_eq_mask [where ?'b = 64 and ?'a = nat] by (simp add: mask_eq_exp_minus_1)
  have "add_step ?arg (?r0, ?b) (?r0, ?b(0 := Loaded 0))"
    using load [of ?b 0 ?arg ?r0] by (simp add: registry_empty_def)
  moreover have "add_step ?arg (?r0, ?b(0 := Loaded 0)) (?r1, ?b(0 := Holding 0))"
    using exchange [of "?b(0 := Loaded 0)" 0 0 ?r0 ?arg] by (simp add: registry_empty_def)
  moreover have "add_step ?arg (?r1, ?b(0 := Holding 0)) (?r1, ?b(0 := Holding 0, 1 := Loaded (- 1)))"
    using load [of "?b(0 := Holding 0)" 1 ?arg ?r1] by (simp add: registry_empty_def)
  moreover have "add_step ?arg (?r1, ?b(0 := Holding 0, 1 := Loaded (- 1))) (?r1, ?b(0 := Holding 0, 1 := Holding (- 1)))"
    using exchange [of "?b(0 := Holding 0, 1 := Loaded (- 1))" 1 "- 1" ?r1 ?arg] by (simp add: registry_empty_def)
  ultimately have both: "(add_step ?arg)\<^sup>*\<^sup>* (?r0, ?b) (?r1, ?b(0 := Holding 0, 1 := Holding (- 1)))"
    by (meson converse_rtranclp_into_rtranclp rtranclp.rtrancl_refl)
  have "add_step ?arg (?r1, ?b(0 := Holding 0, 1 := Holding (- 1))) (?r2, ?b(1 := Holding (- 1), 0 := Written 0))"
    using write_entry [of "?b(0 := Holding 0, 1 := Holding (- 1))" 0 0 ?r1 ?arg]
    by (simp add: registry_empty_def fun_upd_twist replicate_Suc [symmetric] numeral_eq_Suc)
  moreover have "add_step ?arg (?r2, ?b(1 := Holding (- 1), 0 := Written 0)) (?r3, ?b(1 := Holding (- 1), 0 := Returned (Inr ())))"
    using release [of "?b(1 := Holding (- 1), 0 := Written 0)" 0 0 ?arg ?r2] by (simp add: registry_unlock_def)
  moreover have "add_step ?arg (?r3, ?b(1 := Holding (- 1), 0 := Returned (Inr ()))) (?r2, ?b(0 := Returned (Inr ()), 1 := Returned (Inl RG_RegistryFull)))"
    using full [of "?b(1 := Holding (- 1), 0 := Returned (Inr ()))" 1 "- 1" ?r3 ?arg]
    by (simp add: registry_unlock_def max fun_upd_twist)
  ultimately have "(add_step ?arg)\<^sup>*\<^sup>* (?r1, ?b(0 := Holding 0, 1 := Holding (- 1))) (?r2, ?b(0 := Returned (Inr ()), 1 := Returned (Inl RG_RegistryFull)))"
    by (meson converse_rtranclp_into_rtranclp rtranclp.rtrancl_refl)
  moreover have "registry_get name ?r2 = Inl Index_Out_Of_Range" for name
    by (simp add: registry_get_def registry_lock_def max)
  moreover have "registry_add name a ?r2 = (Inl (if length name > 31 then RG_NameTooLong else RG_RegistryFull), ?r2)" for name a
    by (simp add: registry_add_def registry_lock_def registry_unlock_def max)
  ultimately show ?thesis using both
    by (intro exI [of _ ?r1] exI [of _ "?b(0 := Holding 0, 1 := Holding (- 1))"] exI [of _ ?r2] exI conjI) (assumption | simp)+
qed

end
