(* ===== verification/Plic.thy ===== *)
theory Plic
  imports Tasks
begin

text \<open>
  The platform-level interrupt controller (\<open>arch/riscv/plic.rs\<close>). Its registers are an array of 32-bit
  words behind the base address; reading a register gives what was written to it last, except for the
  claim register, whose reads the device answers. A \<open>NonZeroU16\<close> is a \<open>u16\<close> here.
\<close>

subsection \<open>State and registers\<close>

(* src/kernel/src/arch/riscv/plic.rs:17-37 RESERVATIONS *)
record plic =
  pl_total_sources :: u16
  pl_reservations :: "usize list"
  pl_regs :: "usize \<Rightarrow> u32"

(* src/kernel/src/arch/riscv/plic.rs:39-43 ReserveError *)
datatype reserve_error = RV_Occupied | RV_NonExistent

(* src/kernel/src/arch/riscv/plic.rs:105-107 InvalidSource *)
datatype invalid_source = InvalidSource

(* src/kernel/src/arch/riscv/plic.rs:109-111 InvalidContext *)
datatype invalid_context = InvalidContext

(* src/kernel/src/arch/riscv/plic.rs:113-129 InvalidContextOrSource *)
datatype invalid_context_or_source = ICS_InvalidSource | ICS_InvalidContext

(* src/kernel/src/arch/riscv/plic.rs:132-133 PLIC::OFFSET_PRIORITY *)
definition OFFSET_PRIORITY :: usize where
  "OFFSET_PRIORITY = 0x0000 div 4"

(* src/kernel/src/arch/riscv/plic.rs:134-134 PLIC::OFFSET_PENDING_BITS *)
definition OFFSET_PENDING_BITS :: usize where
  "OFFSET_PENDING_BITS = 0x1000 div 4"

(* src/kernel/src/arch/riscv/plic.rs:135-135 PLIC::OFFSET_ENABLE_BITS *)
definition OFFSET_ENABLE_BITS :: usize where
  "OFFSET_ENABLE_BITS = 0x2000 div 4"

(* src/kernel/src/arch/riscv/plic.rs:136-136 PLIC::OFFSET_PRIORITY_THRESHOLDS *)
definition OFFSET_PRIORITY_THRESHOLDS :: usize where
  "OFFSET_PRIORITY_THRESHOLDS = 0x200000 div 4"

(* src/kernel/src/arch/riscv/plic.rs:137-138 PLIC::OFFSET_CLAIM_COMPLETE *)
definition OFFSET_CLAIM_COMPLETE :: usize where
  "OFFSET_CLAIM_COMPLETE = 0x200004 div 4"

(* src/kernel/src/arch/riscv/plic.rs:140-140 PLIC::STRIDE_ENABLE_BITS *)
definition STRIDE_ENABLE_BITS :: usize where
  "STRIDE_ENABLE_BITS = 0x80 div 4"

(* src/kernel/src/arch/riscv/plic.rs:141-143 PLIC::STRIDE_PRIORITY_THRESHOLDS *)
definition STRIDE_PRIORITY_THRESHOLDS :: usize where
  "STRIDE_PRIORITY_THRESHOLDS = 0x1000 div 4"

lemmas plic_layout = OFFSET_PRIORITY_def OFFSET_PENDING_BITS_def OFFSET_ENABLE_BITS_def OFFSET_PRIORITY_THRESHOLDS_def
  OFFSET_CLAIM_COMPLETE_def STRIDE_ENABLE_BITS_def STRIDE_PRIORITY_THRESHOLDS_def

(* src/kernel/src/arch/riscv/plic.rs:245-248 PLIC::source_in_range *)
definition source_in_range :: "u16 \<Rightarrow> invalid_source + unit" where
  "source_in_range source = (if source < 1024 then Inr () else Inl InvalidSource)"

(* src/kernel/src/arch/riscv/plic.rs:250-253 PLIC::context_in_range *)
definition context_in_range :: "u16 \<Rightarrow> invalid_context + unit" where
  "context_in_range ctx = (if ctx < 0x3e00 then Inr () else Inl InvalidContext)"

(* src/kernel/src/arch/riscv/plic.rs:255-263 PLIC::split_source *)
definition split_source :: "u16 \<Rightarrow> invalid_source + (usize \<times> nat)" where
  "split_source source =
     (case source_in_range source of Inl e \<Rightarrow> Inl e | Inr _ \<Rightarrow> Inr (ucast (source div 32), unat (source AND 31)))"

(* src/kernel/src/arch/riscv/plic.rs:145-157 PLIC::set_priority *)
definition set_priority :: "u16 \<Rightarrow> u32 \<Rightarrow> plic \<Rightarrow> (invalid_source + unit) \<times> plic" where
  "set_priority source priority p =
     (case source_in_range source of
        Inl e \<Rightarrow> (Inl e, p)
      | Inr _ \<Rightarrow> (let addr = OFFSET_PRIORITY + ucast source in
          (Inr (), p\<lparr>pl_regs := (pl_regs p)(addr := priority)\<rparr>)))"

(* src/kernel/src/arch/riscv/plic.rs:159-171 PLIC::check_pending *)
definition check_pending :: "u16 \<Rightarrow> plic \<Rightarrow> invalid_source + bool" where
  "check_pending source p =
     (case split_source source of
        Inl e \<Rightarrow> Inl e
      | Inr (offt, b) \<Rightarrow> Inr (pl_regs p (OFFSET_PENDING_BITS + offt) AND push_bit b 1 > 0))"

(* src/kernel/src/arch/riscv/plic.rs:173-193 PLIC::enable *)
definition plic_enable :: "u16 \<Rightarrow> u16 \<Rightarrow> bool \<Rightarrow> plic \<Rightarrow> (invalid_context_or_source + unit) \<times> plic" where
  "plic_enable ctx source enable p =
     (case context_in_range ctx of
        Inl _ \<Rightarrow> (Inl ICS_InvalidContext, p)
      | Inr _ \<Rightarrow>
          (case split_source source of
             Inl _ \<Rightarrow> (Inl ICS_InvalidSource, p)
           | Inr (offt, b) \<Rightarrow>
               (let addr = OFFSET_ENABLE_BITS + ucast ctx * STRIDE_ENABLE_BITS + offt; val = pl_regs p addr in
                (Inr (), p\<lparr>pl_regs := (pl_regs p)(addr := (val AND NOT (push_bit b 1)) OR push_bit b (of_bool enable))\<rparr>))))"

(* src/kernel/src/arch/riscv/plic.rs:195-211 PLIC::set_priority_threshold *)
definition set_priority_threshold :: "u16 \<Rightarrow> u32 \<Rightarrow> plic \<Rightarrow> (invalid_context + unit) \<times> plic" where
  "set_priority_threshold ctx threshold p =
     (case context_in_range ctx of
        Inl e \<Rightarrow> (Inl e, p)
      | Inr _ \<Rightarrow> (let addr = OFFSET_PRIORITY_THRESHOLDS + ucast ctx * STRIDE_PRIORITY_THRESHOLDS in
          (Inr (), p\<lparr>pl_regs := (pl_regs p)(addr := threshold)\<rparr>)))"

text \<open>\<open>claimed\<close> is the device's answer to the read.\<close>

(* src/kernel/src/arch/riscv/plic.rs:213-227 PLIC::claim *)
definition plic_claim :: "u16 \<Rightarrow> u32 \<Rightarrow> (invalid_context + u16 option) may_panic" where
  "plic_claim ctx claimed =
     (case context_in_range ctx of
        Inl e \<Rightarrow> Inr (Inl e)
      | Inr _ \<Rightarrow> assertP (claimed < 1024)
          (bindP (unwrapO (try_into claimed)) (\<lambda>source :: u16. Inr (Inr (if source = 0 then None else Some source)))))"

(* src/kernel/src/arch/riscv/plic.rs:229-243 PLIC::complete *)
definition plic_complete :: "u16 \<Rightarrow> u16 \<Rightarrow> plic \<Rightarrow> (invalid_context_or_source + unit) \<times> plic" where
  "plic_complete ctx source p =
     (case context_in_range ctx of
        Inl _ \<Rightarrow> (Inl ICS_InvalidContext, p)
      | Inr _ \<Rightarrow>
          (case source_in_range source of
             Inl _ \<Rightarrow> (Inl ICS_InvalidSource, p)
           | Inr _ \<Rightarrow> (let addr = OFFSET_CLAIM_COMPLETE + ucast ctx * STRIDE_PRIORITY_THRESHOLDS in
               (Inr (), p\<lparr>pl_regs := (pl_regs p)(addr := ucast source)\<rparr>))))"

subsection \<open>Reservations\<close>

(* src/kernel/src/arch/riscv/plic.rs:45-66 set_controller *)
definition set_controller :: "map_range \<Rightarrow> u16 \<Rightarrow> plic \<Rightarrow> plic kern" where
  "set_controller mr max_devices p =
     bindK (unwrapK (add_range (rr_start (reserved ''PLIC'')) mr RWX_RW KernelGlobal)) (\<lambda>_.
     retK (p\<lparr>pl_total_sources := max_devices, pl_reservations := map (\<lambda>_. USIZE_MAX) (pl_reservations p)\<rparr>))"

(* src/kernel/src/arch/riscv/plic.rs:84-96 reserve *)
definition enable_reserved :: "u16 \<Rightarrow> plic \<Rightarrow> plic may_panic" where
  "enable_reserved source p =
     (let ctx = 1 in
      case plic_enable ctx source True p of (r, p) \<Rightarrow> bindP (unwrapR r) (\<lambda>_.
      case set_priority source 1 p of (r, p) \<Rightarrow> bindP (unwrapR r) (\<lambda>_.
      case set_priority_threshold ctx 0 p of (r, p) \<Rightarrow> bindP (unwrapR r) (\<lambda>_. Inr p))))"

(* src/kernel/src/arch/riscv/plic.rs:68-97 reserve *)
definition plic_reserve :: "u16 \<Rightarrow> task_address \<Rightarrow> plic \<Rightarrow> ((reserve_error + unit) \<times> plic) may_panic" where
  "plic_reserve source address p =
     (case checked_sub source 1 of
        None \<Rightarrow> Inr (Inl RV_NonExistent, p)
      | Some source \<Rightarrow>
          if \<not> source < pl_total_sources p then Inr (Inl RV_NonExistent, p)
          else
            bindP (indexP (pl_reservations p) (unat source)) (\<lambda>entry.
            if entry \<noteq> USIZE_MAX then Inr (Inl RV_Occupied, p)
            else
              (let p = p\<lparr>pl_reservations := (pl_reservations p)[unat source := address]\<rparr> in
               bindP (unwrapO (if source + 1 = 0 then None else Some (source + 1))) (\<lambda>source.
               bindP (enable_reserved source p) (\<lambda>p. Inr (Inr (), p))))))"

subsection \<open>What the registers hold\<close>

definition enable_reg :: "u16 \<Rightarrow> u16 \<Rightarrow> usize" where
  "enable_reg ctx source = OFFSET_ENABLE_BITS + ucast ctx * STRIDE_ENABLE_BITS + ucast (source div 32)"

definition plic_enabled :: "plic \<Rightarrow> u16 \<Rightarrow> u16 \<Rightarrow> bool" where
  "plic_enabled p ctx source \<longleftrightarrow> bit (pl_regs p (enable_reg ctx source)) (unat source mod 32)"

definition plic_priority :: "plic \<Rightarrow> u16 \<Rightarrow> u32" where
  "plic_priority p source = pl_regs p (OFFSET_PRIORITY + ucast source)"

definition plic_threshold :: "plic \<Rightarrow> u16 \<Rightarrow> u32" where
  "plic_threshold p ctx = pl_regs p (OFFSET_PRIORITY_THRESHOLDS + ucast ctx * STRIDE_PRIORITY_THRESHOLDS)"

lemma unat_ucast_u16: "unat (ucast (x :: u16) :: usize) = unat x"
  by (rule unat_ucast_up) simp

lemma unat_enable_reg:
  "ctx < 0x3e00 \<Longrightarrow> source < 1024 \<Longrightarrow> unat (enable_reg ctx source) = 2048 + unat ctx * 32 + unat source div 32"
proof -
  assume "ctx < 0x3e00" "source < 1024"
  then have b: "unat ctx < 15872" "unat source < 1024" by (simp_all add: word_less_nat_alt)
  have d: "unat (ucast (source div 32) :: usize) = unat source div 32" using unat_ucast_u16 [of "source div 32"] by (simp add: unat_div)
  have m: "unat (ucast ctx * 32 :: usize) = unat ctx * 32"
    using unat_mult_no_overflow [of "ucast ctx :: usize" 32] b(1) unat_ucast_u16 [of ctx] by simp
  have "unat (2048 + ucast ctx * 32 :: usize) = 2048 + unat ctx * 32"
    using unat_add_no_overflow [of 2048 "ucast ctx * 32 :: usize"] m b(1) by simp
  then show ?thesis
    using unat_add_no_overflow [of "2048 + ucast ctx * 32 :: usize" "ucast (source div 32)"] d b
    by (simp add: enable_reg_def plic_layout)
qed

lemma unat_priority_reg: "unat (OFFSET_PRIORITY + ucast (source :: u16)) = unat source"
  using unat_ucast_u16 [of source] by (simp add: plic_layout)

lemma unat_threshold_reg:
  "ctx < 0x3e00 \<Longrightarrow> unat (OFFSET_PRIORITY_THRESHOLDS + ucast ctx * STRIDE_PRIORITY_THRESHOLDS) = 524288 + unat ctx * 1024"
  for ctx :: u16
proof -
  assume "ctx < 0x3e00"
  then have b: "unat ctx < 15872" by (simp add: word_less_nat_alt)
  have m: "unat (ucast ctx * 1024 :: usize) = unat ctx * 1024"
    using unat_mult_no_overflow [of "ucast ctx :: usize" 1024] b(1) unat_ucast_u16 [of ctx] by simp
  then show ?thesis
    using unat_add_no_overflow [of 524288 "ucast ctx * 1024 :: usize"] b by (simp add: plic_layout)
qed

lemma mult_add_inj:
  assumes "a * k + x = b * k + y" "x < k" "y < k"
  shows "a = b \<and> x = (y :: nat)"
proof -
  have "(a * k + x) div k = (b * k + y) div k" "(a * k + x) mod k = (b * k + y) mod k" using assms(1) by simp_all
  then show ?thesis using assms(2,3) by simp
qed

text \<open>The three groups of registers do not overlap.\<close>

lemma plic_regs_disjoint:
  assumes "c < 0x3e00" "s < 1024" "c' < 0x3e00" "s' < 1024"
  shows "enable_reg c s \<noteq> OFFSET_PRIORITY + ucast s'"
    "enable_reg c s \<noteq> OFFSET_PRIORITY_THRESHOLDS + ucast c' * STRIDE_PRIORITY_THRESHOLDS"
    "OFFSET_PRIORITY + ucast s' \<noteq> OFFSET_PRIORITY_THRESHOLDS + ucast c * STRIDE_PRIORITY_THRESHOLDS"
    "enable_reg c s = enable_reg c' s' \<longleftrightarrow> c = c' \<and> unat s div 32 = unat s' div 32"
    "OFFSET_PRIORITY + ucast s = OFFSET_PRIORITY + ucast s' \<longleftrightarrow> s = s'"
    "OFFSET_PRIORITY_THRESHOLDS + ucast c * STRIDE_PRIORITY_THRESHOLDS
       = OFFSET_PRIORITY_THRESHOLDS + ucast c' * STRIDE_PRIORITY_THRESHOLDS \<longleftrightarrow> c = c'"
proof -
  have b: "unat c < 15872" "unat s < 1024" "unat c' < 15872" "unat s' < 1024" using assms by (simp_all add: word_less_nat_alt)
  note e = unat_enable_reg [OF assms(1,2)] unat_enable_reg [OF assms(3,4)]
  note t = unat_threshold_reg [OF assms(1)] unat_threshold_reg [OF assms(3)]
  have q: "unat s div 32 < 32" "unat s' div 32 < 32" using b by simp_all
  show "enable_reg c s \<noteq> OFFSET_PRIORITY + ucast s'" using e(1) unat_priority_reg [of s'] b by auto
  show "enable_reg c s \<noteq> OFFSET_PRIORITY_THRESHOLDS + ucast c' * STRIDE_PRIORITY_THRESHOLDS"
    using e(1) t(2) b q by auto
  show "OFFSET_PRIORITY + ucast s' \<noteq> OFFSET_PRIORITY_THRESHOLDS + ucast c * STRIDE_PRIORITY_THRESHOLDS"
    using unat_priority_reg [of s'] t(1) b by auto
  show "enable_reg c s = enable_reg c' s' \<longleftrightarrow> c = c' \<and> unat s div 32 = unat s' div 32"
  proof
    assume "enable_reg c s = enable_reg c' s'"
    then have "unat c * 32 + unat s div 32 = unat c' * 32 + unat s' div 32" using e by simp
    from mult_add_inj [OF this q] have "unat c = unat c' \<and> unat s div 32 = unat s' div 32" .
    then show "c = c' \<and> unat s div 32 = unat s' div 32" by (simp add: word_unat_eq_iff)
  next
    assume "c = c' \<and> unat s div 32 = unat s' div 32"
    then show "enable_reg c s = enable_reg c' s'" using e by (simp add: word_unat_eq_iff)
  qed
  show "OFFSET_PRIORITY + ucast s = OFFSET_PRIORITY + ucast s' \<longleftrightarrow> s = s'"
    by (metis unat_priority_reg word_unat_eq_iff)
  show "OFFSET_PRIORITY_THRESHOLDS + ucast c * STRIDE_PRIORITY_THRESHOLDS
       = OFFSET_PRIORITY_THRESHOLDS + ucast c' * STRIDE_PRIORITY_THRESHOLDS \<longleftrightarrow> c = c'"
    using t by (metis add_left_cancel mult_cancel2 word_unat_eq_iff zero_neq_numeral)
qed

subsection \<open>Effect of the operations\<close>

lemma split_source_eq:
  "source < 1024 \<Longrightarrow> split_source source = Inr (ucast (source div 32), unat source mod 32)"
proof -
  assume "source < 1024"
  moreover have "unat (source AND mask 5) = unat source mod 2 ^ 5" by (rule unat_and_mask)
  then have "unat (source AND 31) = unat source mod 32" by (simp add: mask_eq_exp_minus_1)
  ultimately show ?thesis by (simp add: split_source_def source_in_range_def)
qed

lemma plic_enable_Inr:
  assumes "ctx < 0x3e00" "source < 1024"
  obtains p' where "plic_enable ctx source en p = (Inr (), p')" "pl_reservations p' = pl_reservations p"
    "pl_total_sources p' = pl_total_sources p"
    "\<And>c s. c < 0x3e00 \<Longrightarrow> s < 1024 \<Longrightarrow> plic_enabled p' c s = (if c = ctx \<and> s = source then en else plic_enabled p c s)"
    "\<And>s. s < 1024 \<Longrightarrow> plic_priority p' s = plic_priority p s" "\<And>c. c < 0x3e00 \<Longrightarrow> plic_threshold p' c = plic_threshold p c"
proof -
  let ?b = "unat source mod 32" and ?r = "enable_reg ctx source"
  define v where "v = (pl_regs p ?r AND NOT (push_bit ?b 1)) OR push_bit ?b (of_bool en)"
  have v: "bit v n = (if n = ?b then en else bit (pl_regs p ?r) n)" if "n < 32" for n
    using that by (auto simp: v_def bit_simps)
  let ?p = "p\<lparr>pl_regs := (pl_regs p)(?r := v)\<rparr>"
  have "plic_enable ctx source en p = (Inr (), ?p)"
    using assms split_source_eq by (simp add: plic_enable_def context_in_range_def enable_reg_def v_def Let_def)
  moreover have "plic_enabled ?p c s = (if c = ctx \<and> s = source then en else plic_enabled p c s)" if cs: "c < 0x3e00" "s < 1024" for c s
  proof (cases "enable_reg c s = ?r")
    case True
    then have k: "c = ctx" "unat s div 32 = unat source div 32" using plic_regs_disjoint(4) [OF cs assms] by auto
    have "s = source \<longleftrightarrow> unat s mod 32 = ?b"
      using k(2) div_mult_mod_eq [of "unat s" 32] div_mult_mod_eq [of "unat source" 32] by (metis word_unat_eq_iff)
    then show ?thesis using True k(1) v [of "unat s mod 32"] by (simp add: plic_enabled_def)
  next
    case False
    then show ?thesis by (auto simp: plic_enabled_def)
  qed
  moreover have "plic_priority ?p s = plic_priority p s" if "s < 1024" for s
    using plic_regs_disjoint(1) [OF assms assms(1) that] by (auto simp: plic_priority_def)
  moreover have "plic_threshold ?p c = plic_threshold p c" if "c < 0x3e00" for c
    using plic_regs_disjoint(2) [OF assms that assms(2)] by (auto simp: plic_threshold_def)
  ultimately show thesis by (intro that [of ?p]) auto
qed

lemma set_priority_Inr:
  assumes "source < 1024"
  obtains p' where "set_priority source v p = (Inr (), p')" "pl_reservations p' = pl_reservations p"
    "pl_total_sources p' = pl_total_sources p"
    "\<And>c s. c < 0x3e00 \<Longrightarrow> s < 1024 \<Longrightarrow> plic_enabled p' c s = plic_enabled p c s"
    "\<And>s. s < 1024 \<Longrightarrow> plic_priority p' s = (if s = source then v else plic_priority p s)"
    "\<And>c. c < 0x3e00 \<Longrightarrow> plic_threshold p' c = plic_threshold p c"
proof -
  let ?p = "p\<lparr>pl_regs := (pl_regs p)(OFFSET_PRIORITY + ucast source := v)\<rparr>"
  have "set_priority source v p = (Inr (), ?p)" using assms by (simp add: set_priority_def source_in_range_def)
  moreover have "plic_enabled ?p c s = plic_enabled p c s" if "c < 0x3e00" "s < 1024" for c s
    using plic_regs_disjoint(1) [OF that that(1) assms] by (auto simp: plic_enabled_def)
  moreover have "plic_priority ?p s = (if s = source then v else plic_priority p s)" if "s < 1024" for s
    using plic_regs_disjoint(5) [of 0 s 0 source] that assms by (auto simp: plic_priority_def)
  moreover have "plic_threshold ?p c = plic_threshold p c" if "c < 0x3e00" for c
    using plic_regs_disjoint(3) [OF that assms that assms] by (auto simp: plic_threshold_def)
  ultimately show thesis by (intro that [of ?p]) auto
qed

lemma set_priority_threshold_Inr:
  assumes "ctx < 0x3e00"
  obtains p' where "set_priority_threshold ctx v p = (Inr (), p')" "pl_reservations p' = pl_reservations p"
    "pl_total_sources p' = pl_total_sources p"
    "\<And>c s. c < 0x3e00 \<Longrightarrow> s < 1024 \<Longrightarrow> plic_enabled p' c s = plic_enabled p c s"
    "\<And>s. s < 1024 \<Longrightarrow> plic_priority p' s = plic_priority p s"
    "\<And>c. c < 0x3e00 \<Longrightarrow> plic_threshold p' c = (if c = ctx then v else plic_threshold p c)"
proof -
  let ?p = "p\<lparr>pl_regs := (pl_regs p)(OFFSET_PRIORITY_THRESHOLDS + ucast ctx * STRIDE_PRIORITY_THRESHOLDS := v)\<rparr>"
  have "set_priority_threshold ctx v p = (Inr (), ?p)" using assms by (simp add: set_priority_threshold_def context_in_range_def)
  moreover have "plic_enabled ?p c s = plic_enabled p c s" if "c < 0x3e00" "s < 1024" for c s
    using plic_regs_disjoint(2) [OF that assms that(2)] by (auto simp: plic_enabled_def)
  moreover have "plic_priority ?p s = plic_priority p s" if "s < 1024" for s
    using plic_regs_disjoint(3) [OF assms that assms that] by (auto simp: plic_priority_def)
  moreover have "plic_threshold ?p c = (if c = ctx then v else plic_threshold p c)" if "c < 0x3e00" for c
    using plic_regs_disjoint(6) [of c 0 ctx 0] that assms by (auto simp: plic_threshold_def)
  ultimately show thesis by (intro that [of ?p]) auto
qed

text \<open>
  C21. Enabling or disabling an interrupt source changes that source in that context and nothing else:
  no other source, no other context, no priority and no threshold. A context or source out of range
  is reported and changes nothing.
\<close>
theorem plic_enable_exact:
  "if ctx < 0x3e00 \<and> source < 1024
   then \<exists>p'. plic_enable ctx source en p = (Inr (), p')
     \<and> (\<forall>c s. c < 0x3e00 \<and> s < 1024 \<longrightarrow> plic_enabled p' c s = (if c = ctx \<and> s = source then en else plic_enabled p c s))
     \<and> (\<forall>s. s < 1024 \<longrightarrow> plic_priority p' s = plic_priority p s) \<and> (\<forall>c. c < 0x3e00 \<longrightarrow> plic_threshold p' c = plic_threshold p c)
   else plic_enable ctx source en p = (Inl (if ctx < 0x3e00 then ICS_InvalidSource else ICS_InvalidContext), p)"
proof (cases "ctx < 0x3e00 \<and> source < 1024")
  case True
  then have h: "ctx < 0x3e00" "source < 1024" by simp_all
  show ?thesis unfolding if_P [OF True]
    by (rule plic_enable_Inr [OF h, of en p]) blast
next
  case False
  then show ?thesis by (auto simp: plic_enable_def context_in_range_def split_source_def source_in_range_def)
qed

theorem plic_enable_exact_witness:
  "\<exists>p'. plic_enable 1 10 True \<lparr>pl_total_sources = 53, pl_reservations = [], pl_regs = (\<lambda>_. 0)\<rparr> = (Inr (), p') \<and> plic_enabled p' 1 10 \<and> \<not> plic_enabled p' 1 11"
proof -
  have f: "\<not> plic_enabled \<lparr>pl_total_sources = 53, pl_reservations = [], pl_regs = (\<lambda>_. 0)\<rparr> 1 11" by (simp add: plic_enabled_def)
  from plic_enable_exact [of 1 10 True "\<lparr>pl_total_sources = 53, pl_reservations = [], pl_regs = (\<lambda>_. 0)\<rparr>"]
  obtain p' where p': "plic_enable 1 10 True \<lparr>pl_total_sources = 53, pl_reservations = [], pl_regs = (\<lambda>_. 0)\<rparr> = (Inr (), p')"
    "\<forall>c s. c < 0x3e00 \<and> s < 1024 \<longrightarrow> plic_enabled p' c s = (if c = 1 \<and> s = 10 then True else plic_enabled \<lparr>pl_total_sources = 53, pl_reservations = [], pl_regs = (\<lambda>_. 0)\<rparr> c s)"
    by auto
  have "plic_enabled p' 1 10" "\<not> plic_enabled p' 1 11" using p'(2) f by simp_all
  with p'(1) show ?thesis by blast
qed

subsection \<open>Reserving\<close>

definition plic_inv :: "plic \<Rightarrow> bool" where
  "plic_inv p \<longleftrightarrow> length (pl_reservations p) = 1023 \<and> pl_total_sources p \<le> 1023"

lemma enable_reserved_Inr:
  assumes "source < 1024"
  obtains p' where "enable_reserved source p = Inr p'" "pl_reservations p' = pl_reservations p"
    "pl_total_sources p' = pl_total_sources p" "plic_enabled p' 1 source" "plic_priority p' source = 1" "plic_threshold p' 1 = 0"
    "\<And>s. s < 1024 \<Longrightarrow> s \<noteq> source \<Longrightarrow> plic_enabled p' 1 s = plic_enabled p 1 s \<and> plic_priority p' s = plic_priority p s"
proof -
  have c: "(1 :: u16) < 0x3e00" by simp
  obtain p1 where p1: "plic_enable 1 source True p = (Inr (), p1)" "pl_reservations p1 = pl_reservations p"
    "pl_total_sources p1 = pl_total_sources p"
    "\<And>c s. c < 0x3e00 \<Longrightarrow> s < 1024 \<Longrightarrow> plic_enabled p1 c s = (if c = 1 \<and> s = source then True else plic_enabled p c s)"
    "\<And>s. s < 1024 \<Longrightarrow> plic_priority p1 s = plic_priority p s"
    by (rule plic_enable_Inr [OF c assms, of True p]) blast
  obtain p2 where p2: "set_priority source 1 p1 = (Inr (), p2)" "pl_reservations p2 = pl_reservations p1"
    "pl_total_sources p2 = pl_total_sources p1"
    "\<And>c s. c < 0x3e00 \<Longrightarrow> s < 1024 \<Longrightarrow> plic_enabled p2 c s = plic_enabled p1 c s"
    "\<And>s. s < 1024 \<Longrightarrow> plic_priority p2 s = (if s = source then 1 else plic_priority p1 s)"
    by (rule set_priority_Inr [OF assms, of 1 p1]) blast
  obtain p3 where p3: "set_priority_threshold 1 0 p2 = (Inr (), p3)" "pl_reservations p3 = pl_reservations p2"
    "pl_total_sources p3 = pl_total_sources p2"
    "\<And>c s. c < 0x3e00 \<Longrightarrow> s < 1024 \<Longrightarrow> plic_enabled p3 c s = plic_enabled p2 c s"
    "\<And>s. s < 1024 \<Longrightarrow> plic_priority p3 s = plic_priority p2 s"
    "\<And>c. c < 0x3e00 \<Longrightarrow> plic_threshold p3 c = (if c = 1 then 0 else plic_threshold p2 c)"
    by (rule set_priority_threshold_Inr [OF c, of 0 p2]) blast
  have "enable_reserved source p = Inr p3" using p1(1) p2(1) p3(1) by (simp add: enable_reserved_def Let_def)
  then show thesis
    using p1 p2 p3 assms c by (intro that [of p3]) auto
qed

lemma plic_reserve_free:
  assumes inv: "plic_inv p" and s: "source \<noteq> 0" "source \<le> pl_total_sources p" "pl_reservations p ! (unat source - 1) = USIZE_MAX"
  obtains p' where "plic_reserve source a p = Inr (Inr (), p')" "pl_reservations p' = (pl_reservations p)[unat source - 1 := a]"
    "pl_total_sources p' = pl_total_sources p" "plic_enabled p' 1 source" "plic_priority p' source = 1" "plic_threshold p' 1 = 0"
    "\<And>s. s < 1024 \<Longrightarrow> s \<noteq> source \<Longrightarrow> plic_enabled p' 1 s = plic_enabled p 1 s \<and> plic_priority p' s = plic_priority p s"
proof -
  let ?p = "p\<lparr>pl_reservations := (pl_reservations p)[unat source - 1 := a]\<rparr>"
  have n: "unat (source - 1) = unat source - 1" using unat_minus_1 [OF s(1)] by simp
  have le: "unat source \<le> unat (pl_total_sources p)" "unat (pl_total_sources p) \<le> 1023" "0 < unat source"
    using s inv by (simp_all add: plic_inv_def word_le_nat_alt unat_gt_0)
  then have src: "source < 1024" "source - 1 < pl_total_sources p" "unat source - 1 < length (pl_reservations p)"
    using inv n by (simp_all add: word_less_nat_alt plic_inv_def)
  obtain p' where p': "enable_reserved source ?p = Inr p'" "pl_reservations p' = pl_reservations ?p"
    "pl_total_sources p' = pl_total_sources ?p" "plic_enabled p' 1 source" "plic_priority p' source = 1" "plic_threshold p' 1 = 0"
    "\<And>s. s < 1024 \<Longrightarrow> s \<noteq> source \<Longrightarrow> plic_enabled p' 1 s = plic_enabled ?p 1 s \<and> plic_priority p' s = plic_priority ?p s"
    by (rule enable_reserved_Inr [OF src(1), of ?p]) blast
  have "plic_reserve source a p = Inr (Inr (), p')"
    using s src p'(1) by (simp add: plic_reserve_def checked_sub_1 n Let_def)
  then show thesis using p' by (intro that [of p']) (simp_all add: plic_enabled_def plic_priority_def)
qed

text \<open>
  C22. Reserving an interrupt source is exclusive and complete. With at most 1023 sources it never
  panics: source 0 and sources the controller does not have are refused, a reserved source is
  reported as occupied, and neither changes anything; a free source is given to the caller, and only
  that source is enabled, with priority 1 and threshold 0, after which nobody else can reserve it.
\<close>
theorem plic_reserve_exclusive:
  assumes "plic_inv p" "a \<noteq> USIZE_MAX"
  shows "if source = 0 \<or> pl_total_sources p < source then plic_reserve source a p = Inr (Inl RV_NonExistent, p)
    else if pl_reservations p ! (unat source - 1) \<noteq> USIZE_MAX then plic_reserve source a p = Inr (Inl RV_Occupied, p)
    else \<exists>p'. plic_reserve source a p = Inr (Inr (), p') \<and> plic_inv p' \<and> pl_reservations p' = (pl_reservations p)[unat source - 1 := a]
      \<and> plic_enabled p' 1 source \<and> plic_priority p' source = 1 \<and> plic_threshold p' 1 = 0
      \<and> (\<forall>s. s < 1024 \<and> s \<noteq> source \<longrightarrow> plic_enabled p' 1 s = plic_enabled p 1 s \<and> plic_priority p' s = plic_priority p s)
      \<and> (\<forall>b. plic_reserve source b p' = Inr (Inl RV_Occupied, p'))"
proof -
  have occ: "plic_reserve source b q = Inr (Inl RV_Occupied, q)"
    if "plic_inv q" "source \<noteq> 0" "source \<le> pl_total_sources q" "pl_reservations q ! (unat source - 1) \<noteq> USIZE_MAX" for b q
  proof -
    have n: "unat (source - 1) = unat source - 1" using unat_minus_1 [OF that(2)] by simp
    have "unat source \<le> unat (pl_total_sources q)" "unat (pl_total_sources q) \<le> 1023" "0 < unat source"
      using that by (simp_all add: plic_inv_def word_le_nat_alt unat_gt_0)
    then have "source - 1 < pl_total_sources q" "unat source - 1 < length (pl_reservations q)"
      using that(1) n by (simp_all add: word_less_nat_alt plic_inv_def)
    then show ?thesis using that by (simp add: plic_reserve_def checked_sub_1 n)
  qed
  consider "source = 0" | "source \<noteq> 0" "pl_total_sources p < source"
    | "source \<noteq> 0" "source \<le> pl_total_sources p" "pl_reservations p ! (unat source - 1) \<noteq> USIZE_MAX"
    | "source \<noteq> 0" "source \<le> pl_total_sources p" "pl_reservations p ! (unat source - 1) = USIZE_MAX" by fastforce
  then show ?thesis
  proof cases
    case 1
    then show ?thesis by (simp add: plic_reserve_def checked_sub_1)
  next
    case 2
    then have "\<not> source - 1 < pl_total_sources p"
      using unat_minus_1 [OF 2(1)] by (simp add: word_less_nat_alt)
    with 2 show ?thesis by (simp add: plic_reserve_def checked_sub_1)
  next
    case 3
    then show ?thesis using occ [OF assms(1) 3] by auto
  next
    case 4
    obtain p' where p': "plic_reserve source a p = Inr (Inr (), p')" "pl_reservations p' = (pl_reservations p)[unat source - 1 := a]"
      "pl_total_sources p' = pl_total_sources p" "plic_enabled p' 1 source" "plic_priority p' source = 1" "plic_threshold p' 1 = 0"
      "\<And>s. s < 1024 \<Longrightarrow> s \<noteq> source \<Longrightarrow> plic_enabled p' 1 s = plic_enabled p 1 s \<and> plic_priority p' s = plic_priority p s"
      by (rule plic_reserve_free [OF assms(1) 4, of a]) blast
    have inv: "plic_inv p'" using assms(1) p'(2,3) by (simp add: plic_inv_def)
    have "unat source \<le> 1023" "0 < unat source" using 4 assms(1) by (simp_all add: plic_inv_def word_le_nat_alt unat_gt_0)
    then have "pl_reservations p' ! (unat source - 1) = a" using p'(2) assms(1) by (simp add: plic_inv_def)
    then have "plic_reserve source b p' = Inr (Inl RV_Occupied, p')" for b using occ [OF inv 4(1)] 4(2) p'(3) assms(2) by simp
    then show ?thesis using 4 p' inv by auto
  qed
qed

definition plic_ex :: plic where
  "plic_ex = \<lparr>pl_total_sources = 53, pl_reservations = replicate 1023 USIZE_MAX, pl_regs = (\<lambda>_. 0)\<rparr>"

theorem plic_reserve_exclusive_witness:
  "\<exists>p'. plic_reserve 10 3 plic_ex = Inr (Inr (), p') \<and> plic_enabled p' 1 10 \<and> plic_reserve 10 4 p' = Inr (Inl RV_Occupied, p')"
proof -
  have "plic_inv plic_ex" by (simp add: plic_inv_def plic_ex_def)
  from plic_reserve_exclusive [OF this, of 3 10] show ?thesis by (auto simp: plic_ex_def)
qed

text \<open>A controller that announces more than 1023 sources makes a reservation panic.\<close>

lemma plic_reserve_panics:
  assumes "length (pl_reservations p) = 1023" "1024 \<le> pl_total_sources p"
  shows "plic_reserve 1024 a p = Inl Index_Out_Of_Range"
proof -
  have "(1023 :: u16) < pl_total_sources p" using assms(2) by (simp add: word_le_nat_alt word_less_nat_alt)
  then show ?thesis using assms(1) by (simp add: plic_reserve_def checked_sub_def)
qed

end
