(* ===== verification/Kernel_Log.thy ===== *)
theory Kernel_Log
  imports Norost_Prelude
begin

text \<open>
  The kernel's log (\<open>log.rs\<close>) and the formatter \<open>BrokenStr\<close> of the call \<open>sys_log\<close> (\<open>syscall.rs\<close>), which
  prints bytes that need not be UTF-8. \<open>utf8_next\<close> and \<open>from_utf8\<close> describe the validation of the
  standard library: the length of the character at the front, or how many bytes are certainly not the
  start of one, or that the text ends within a character.
\<close>

subsection \<open>Validation\<close>

datatype utf8 = U_Valid nat | U_Invalid nat | U_Truncated

definition u_cont :: "u8 \<Rightarrow> bool" where
  "u_cont b \<longleftrightarrow> 0x80 \<le> b \<and> b \<le> 0xbf"

text \<open>The bytes that may follow the first byte of a character of three or four bytes.\<close>

definition u_second :: "u8 \<Rightarrow> u8 \<Rightarrow> bool" where
  "u_second a b \<longleftrightarrow>
     (if a = 0xe0 then 0xa0 \<le> b \<and> b \<le> 0xbf
      else if a = 0xed then 0x80 \<le> b \<and> b \<le> 0x9f
      else if a = 0xf0 then 0x90 \<le> b \<and> b \<le> 0xbf
      else if a = 0xf4 then 0x80 \<le> b \<and> b \<le> 0x8f
      else u_cont b)"

fun utf8_next :: "u8 list \<Rightarrow> utf8" where
  "utf8_next [] = U_Truncated"
| "utf8_next (a # r) =
     (if a < 0x80 then U_Valid 1
      else if 0xc2 \<le> a \<and> a \<le> 0xdf then
        (case r of [] \<Rightarrow> U_Truncated | b # _ \<Rightarrow> if u_cont b then U_Valid 2 else U_Invalid 1)
      else if 0xe0 \<le> a \<and> a \<le> 0xef then
        (case r of [] \<Rightarrow> U_Truncated
         | b # r \<Rightarrow> if \<not> u_second a b then U_Invalid 1
             else (case r of [] \<Rightarrow> U_Truncated | c # _ \<Rightarrow> if u_cont c then U_Valid 3 else U_Invalid 2))
      else if 0xf0 \<le> a \<and> a \<le> 0xf4 then
        (case r of [] \<Rightarrow> U_Truncated
         | b # r \<Rightarrow> if \<not> u_second a b then U_Invalid 1
             else (case r of [] \<Rightarrow> U_Truncated
                   | c # r \<Rightarrow> if \<not> u_cont c then U_Invalid 2
                       else (case r of [] \<Rightarrow> U_Truncated | d # _ \<Rightarrow> if u_cont d then U_Valid 4 else U_Invalid 3)))
      else U_Invalid 1)"

lemma utf8_next_valid: "utf8_next bs = U_Valid k \<Longrightarrow> 0 < k \<and> k \<le> length bs"
  by (cases bs) (auto split: if_splits list.splits)

lemma utf8_next_invalid: "utf8_next bs = U_Invalid k \<Longrightarrow> 0 < k"
  by (cases bs) (auto split: if_splits list.splits)

text \<open>\<open>valid_up_to\<close> and \<open>error_len\<close> of the error; \<open>n\<close> bytes have been validated.\<close>

function utf8_scan :: "nat \<Rightarrow> u8 list \<Rightarrow> (nat \<times> nat option) + unit" where
  "utf8_scan n bs =
     (if bs = [] then Inr ()
      else case utf8_next bs of
        U_Valid k \<Rightarrow> utf8_scan (n + k) (drop k bs)
      | U_Invalid l \<Rightarrow> Inl (n, Some l)
      | U_Truncated \<Rightarrow> Inl (n, None))"
  by pat_completeness auto
termination
  by (relation "measure (length \<circ> snd)") (auto dest: utf8_next_valid)

declare utf8_scan.simps [simp del]

definition from_utf8 :: "u8 list \<Rightarrow> (nat \<times> nat option) + unit" where
  "from_utf8 bs = utf8_scan 0 bs"

subsection \<open>Printing\<close>

text \<open>The bytes of \<open>U+FFFD\<close>.\<close>

definition replacement :: "u8 list" where
  "replacement = [0xef, 0xbf, 0xbd]"

lemma utf8_scan_invalid: "utf8_scan n bs = Inl (v, Some l) \<Longrightarrow> 0 < l"
  by (induction n bs rule: utf8_scan.induct)
    (subst (asm) (2) utf8_scan.simps, auto split: if_splits utf8.splits dest: utf8_next_invalid)

(* src/kernel/src/syscall.rs:483-505 BrokenStr::fmt *)
function broken_str :: "u8 list \<Rightarrow> u8 list" where
  "broken_str bs =
     (if bs = [] then []
      else case from_utf8 bs of
        Inr _ \<Rightarrow> bs
      | Inl (v, Some l) \<Rightarrow> take v bs @ replacement @ broken_str (drop (v + l) bs)
      | Inl (v, None) \<Rightarrow> [])"
  by pat_completeness auto
termination
  by (relation "measure length") (auto simp: from_utf8_def dest: utf8_scan_invalid)

declare broken_str.simps [simp del]

(* src/kernel/src/log.rs:9-16 Log::write_str *)
definition log_write_str :: "u8 list \<Rightarrow> u8 list \<Rightarrow> u8 list" where
  "log_write_str s console = console @ s"

subsection \<open>What is printed\<close>

text \<open>A character is a list of bytes that validation takes as one; text is a sequence of characters.\<close>

definition u_char :: "u8 list \<Rightarrow> bool" where
  "u_char c \<longleftrightarrow> utf8_next c = U_Valid (length c)"

definition u_text :: "u8 list \<Rightarrow> bool" where
  "u_text bs \<longleftrightarrow> (\<exists>cs. bs = concat cs \<and> list_all u_char cs)"

lemma u_text_Nil [simp]: "u_text []"
  unfolding u_text_def by (intro exI [of _ "[]"]) simp

lemma u_text_append: "u_text a \<Longrightarrow> u_text b \<Longrightarrow> u_text (a @ b)"
  unfolding u_text_def by (metis concat_append list_all_append)

lemma u_text_char: "u_char c \<Longrightarrow> u_text c"
  unfolding u_text_def by (intro exI [of _ "[c]"]) simp

lemma u_text_replacement: "u_text replacement"
  by (intro u_text_char) (simp add: u_char_def replacement_def u_second_def u_cont_def word_le_nat_alt word_less_nat_alt)

text \<open>What validation says of the front depends only on the bytes it looks at.\<close>

lemma utf8_next_take: "utf8_next bs = U_Valid k \<Longrightarrow> u_char (take k bs)"
  unfolding u_char_def by (cases bs) (auto split: if_splits list.splits)

lemma utf8_next_append: "u_char c \<Longrightarrow> utf8_next (c @ x) = U_Valid (length c)"
  unfolding u_char_def by (cases c) (auto split: if_splits list.splits)

lemma u_char_not_Nil: "u_char c \<Longrightarrow> c \<noteq> []"
  by (auto simp: u_char_def)

lemma utf8_scan_char: "u_char c \<Longrightarrow> utf8_scan n (c @ r) = utf8_scan (n + length c) r"
  using utf8_scan.simps [of n "c @ r"] utf8_next_append [of c r] u_char_not_Nil [of c] by simp

lemma utf8_scan_text:
  assumes "u_text a"
  shows "utf8_scan n (a @ x) = utf8_scan (n + length a) x"
proof -
  obtain cs where "a = concat cs" "list_all u_char cs" using assms unfolding u_text_def by blast
  then show ?thesis
  proof (induction cs arbitrary: n a)
    case (Cons c cs)
    then have "utf8_scan n (a @ x) = utf8_scan (n + length c) (concat cs @ x)"
      using utf8_scan_char [of c n "concat cs @ x"] by simp
    with Cons show ?case by (simp add: add.assoc)
  qed simp
qed

lemma utf8_scan_prefix:
  "utf8_scan n bs = Inr () \<Longrightarrow> u_text bs"
  "utf8_scan n bs = Inl (v, l) \<Longrightarrow> n \<le> v \<and> u_text (take (v - n) bs)"
proof (induction n bs rule: utf8_scan.induct)
  case (1 n bs)
  { case 1
    show ?case
    proof (cases "bs = []")
      case False
      with 1 obtain k where k: "utf8_next bs = U_Valid k" "utf8_scan (n + k) (drop k bs) = Inr ()"
        using utf8_scan.simps [of n bs] by (auto split: utf8.splits)
      then show ?thesis
        using "1.IH"(1) [OF False k(1)] u_text_append [of "take k bs" "drop k bs"] u_text_char [OF utf8_next_take [OF k(1)]]
        by simp
    qed simp
  next
    case 2
    then have ne: "bs \<noteq> []" using utf8_scan.simps [of n bs] by auto
    show ?case
    proof (cases "utf8_next bs")
      case (U_Valid k)
      with 2 ne have "utf8_scan (n + k) (drop k bs) = Inl (v, l)" using utf8_scan.simps [of n bs] by simp
      then have v: "n + k \<le> v" "u_text (take (v - (n + k)) (drop k bs))" using "1.IH"(2) [OF ne U_Valid] by auto
      have "take (v - n) bs = take k bs @ take (v - (n + k)) (drop k bs)"
        using v(1) take_add [of k "v - (n + k)" bs] by simp
      with v show ?thesis using u_text_append u_text_char [OF utf8_next_take [OF U_Valid]] by simp
    qed (use 2 ne utf8_scan.simps [of n bs] in simp_all)
  }
qed



end
