(* ===== verification/Syscalls.thy ===== *)
theory Syscalls
  imports Ipc_Kernel Registry Plic Kernel_Log
begin

text \<open>
  The system calls (\<open>syscall.rs\<close>). Each handler is a computation on the state of the whole kernel that
  ends by returning a status and a value, or leaves the kernel in another way: it resumes the caller
  with its own registers, enters the notification code or lets the executor choose the next task.

  Memory of a task that the kernel reads as bytes, words or mappings is a view under its page tables
  (\<open>satp\<close>); where it has no value the access is a page fault, as it is while supervisor access to user
  pages is off. \<open>logcall!\<close> prints nothing without the feature \<open>log-syscalls\<close>.
\<close>

subsection \<open>State\<close>

(* src/kernel/src/syscall.rs:59-86 Status *)
datatype status =
    ST_Ok
  | ST_InvalidCall
  | ST_NullArgument
  | ST_MemoryOverlap
  | ST_MemoryUnavailable
  | ST_MemoryLocked
  | ST_MemoryNotAllocated
  | ST_MemoryInvalidProtectionFlags
  | ST_BadAlignment
  | ST_NotFound
  | ST_TooLong
  | ST_Occupied
  | ST_Unavailable

(* src/kernel/src/syscall.rs:88-94 u8::from *)
fun status_u8 :: "status \<Rightarrow> u8" where
  "status_u8 ST_Ok = 0"
| "status_u8 ST_InvalidCall = 1"
| "status_u8 ST_NullArgument = 2"
| "status_u8 ST_MemoryOverlap = 3"
| "status_u8 ST_MemoryUnavailable = 4"
| "status_u8 ST_MemoryLocked = 5"
| "status_u8 ST_MemoryNotAllocated = 6"
| "status_u8 ST_MemoryInvalidProtectionFlags = 7"
| "status_u8 ST_BadAlignment = 8"
| "status_u8 ST_NotFound = 9"
| "status_u8 ST_TooLong = 10"
| "status_u8 ST_Occupied = 11"
| "status_u8 ST_Unavailable = 12"

(* src/kernel/src/syscall.rs:95-102 Mapping *)
record mapping =
  mp_task_address :: usize
  mp_typ :: u8
  mp_flags :: u8
  mp_self_address :: usize

text \<open>\<open>k_platform_info_phys_ptr\<close> and \<open>k_platform_info_size\<close> are statics of \<open>main.rs\<close>.\<close>

record kernel =
  k_io :: io
  k_registry :: registry
  k_plic :: plic
  k_platform_info_phys_ptr :: usize
  k_platform_info_size :: usize
  k_bytes :: "sv39 \<Rightarrow> usize \<Rightarrow> u8 option"
  k_words :: "sv39 \<Rightarrow> usize \<Rightarrow> usize option"
  k_mappings :: "sv39 \<Rightarrow> usize \<Rightarrow> mapping option"
  k_console :: "u8 list"

type_synonym 'a sysK = "(kernel, 'a) comp"

text \<open>How a handler ends: \<open>Return\<close>, or one of the functions that do not return.\<close>

(* src/kernel/src/syscall.rs:24-29 Return *)
datatype sys_exit =
    Return status usize
  | Return_Transparent
  | Notify_Return usize
  | Notify_Defer usize task_address task_address
  | Next_Task "outcome option"

definition onIO :: "'a ioK \<Rightarrow> 'a sysK" where
  "onIO f k = (case f (k_io k) of Inl p \<Rightarrow> Inl p | Inr (x, i) \<Rightarrow> Inr (x, k\<lparr>k_io := i\<rparr>))"

abbreviation onSched :: "'a schedK \<Rightarrow> 'a sysK" where
  "onSched f \<equiv> onIO (onS f)"

abbreviation modSched :: "(sched \<Rightarrow> sched) \<Rightarrow> unit sysK" where
  "modSched f \<equiv> onIO (modS f)"

abbreviation onMem :: "'a kern \<Rightarrow> 'a sysK" where
  "onMem f \<equiv> onSched (onM f)"

abbreviation k_sched :: "kernel \<Rightarrow> sched" where
  "k_sched k \<equiv> io_sched (k_io k)"

definition getK :: "(kernel \<Rightarrow> 'a) \<Rightarrow> 'a sysK" where
  "getK f k = Inr (f k, k)"

text \<open>Reading \<open>n\<close> elements of a slice in the memory of the task whose page tables are active.\<close>

primrec user_slice :: "(kernel \<Rightarrow> sv39 \<Rightarrow> usize \<Rightarrow> 'a option) \<Rightarrow> usize \<Rightarrow> usize \<Rightarrow> nat \<Rightarrow> 'a list sysK" where
  "user_slice view stride base 0 = retK []"
| "user_slice view stride base (Suc n) = (\<lambda>k.
     case (if sc_user_access (k_sched k) then view k (active_vms (k_io k)) base else None) of
       None \<Rightarrow> Inl Page_Fault
     | Some x \<Rightarrow> bindK (user_slice view stride (base + stride) n) (\<lambda>xs. retK (x # xs)) k)"

text \<open>Writing words from an address on.\<close>

primrec user_store :: "usize \<Rightarrow> usize list \<Rightarrow> unit sysK" where
  "user_store base [] = retK ()"
| "user_store base (x # xs) = (\<lambda>k.
     if sc_user_access (k_sched k) \<and> k_words k (active_vms (k_io k)) base \<noteq> None
     then user_store (base + 8) xs
       (k\<lparr>k_words := (k_words k)(active_vms (k_io k) := (k_words k (active_vms (k_io k)))(base \<mapsto> x))\<rparr>)
     else Inl Page_Fault)"

subsection \<open>Flags\<close>

(* src/kernel/src/syscall.rs:107-115 PROTECT_R *)
definition PROTECT_R :: usize where
  "PROTECT_R = 0x1"

(* src/kernel/src/syscall.rs:109-109 PROTECT_W *)
definition PROTECT_W :: usize where
  "PROTECT_W = 0x2"

(* src/kernel/src/syscall.rs:110-110 PROTECT_X *)
definition PROTECT_X :: usize where
  "PROTECT_X = 0x4"

(* src/kernel/src/syscall.rs:118-119 InvalidPageFlags *)
datatype invalid_page_flags = InvalidPageFlags

(* src/kernel/src/syscall.rs:121-130 decode_rwx_flags *)
definition decode_rwx_flags :: "usize \<Rightarrow> invalid_page_flags + rwx" where
  "decode_rwx_flags flags =
     (let f = flags AND 7 in
      if f = PROTECT_R then Inr RWX_R
      else if f = PROTECT_X then Inr RWX_X
      else if f = PROTECT_R OR PROTECT_W then Inr RWX_RW
      else if f = PROTECT_R OR PROTECT_X then Inr RWX_RX
      else if f = PROTECT_R OR PROTECT_W OR PROTECT_X then Inr RWX_RWX
      else Inl InvalidPageFlags)"

subsection \<open>I/O\<close>

text \<open>\<open>fuel\<close> bounds the passes of the executor's search; see \<open>executor_next\<close>.\<close>

(* src/kernel/src/syscall.rs:192-217 io_wait *)
definition sys_io_wait :: "nat \<Rightarrow> usize \<Rightarrow> usize \<Rightarrow> sys_exit sysK" where
  "sys_io_wait fuel task time =
     bindK (getK (\<lambda>k. was_notified task (k_sched k))) (\<lambda>notified.
     if notified then bindK (modSched (clear_notified task)) (\<lambda>_. retK Return_Transparent)
     else
       bindK (modSched (wait_duration task time)) (\<lambda>_.
       bindK (getK (\<lambda>k. current_address (k_sched k))) (\<lambda>address.
       bindK (onIO (process_io task address)) (\<lambda>_.
       bindK (onSched (executor_next fuel)) (\<lambda>r. retK (Next_Task r))))))"

(* src/kernel/src/syscall.rs:219-245 io_set_queues *)
definition sys_io_set_queues :: "usize \<Rightarrow> usize \<Rightarrow> usize \<Rightarrow> usize \<Rightarrow> usize \<Rightarrow> sys_exit sysK" where
  "sys_io_set_queues task packet_table mask_bits free_addr free_pages_size =
     (if packet_table = 0 then bindK (modSched (set_queues task None)) (\<lambda>_. retK (Return ST_Ok 0))
      else if free_addr = 0 then retK (Return ST_NullArgument 0)
      else
        bindK (liftK (unwrapR (ipc_new packet_table (ucast mask_bits) free_addr free_pages_size))) (\<lambda>i.
        bindK (modSched (set_queues task (Some i))) (\<lambda>_. retK (Return ST_Ok 0))))"

(* src/kernel/src/syscall.rs:247-257 io_set_notify_handler *)
definition sys_io_set_notify_handler :: "usize \<Rightarrow> usize \<Rightarrow> sys_exit sysK" where
  "sys_io_set_notify_handler task handler k =
     (let h = (if handler = 0 then None else Some handler);
          (prev, s) = set_notification_handler task h (k_sched k) in
      Inr (Return ST_Ok (case prev of Some p \<Rightarrow> p | None \<Rightarrow> 0), k\<lparr>k_io := (k_io k)\<lparr>io_sched := s\<rparr>\<rparr>))"

(* src/kernel/src/syscall.rs:259-280 io_notify_return *)
definition sys_io_notify_return :: "usize \<Rightarrow> usize \<Rightarrow> sys_exit sysK" where
  "sys_io_notify_return task defer_to =
     (if defer_to = USIZE_MAX then retK (Notify_Return task)
      else bindK (getK (\<lambda>k. current_address (k_sched k))) (\<lambda>from_addr. retK (Notify_Defer task from_addr defer_to)))"

subsection \<open>Memory\<close>

definition pointer_status :: "from_pointer_error \<Rightarrow> status" where
  "pointer_status e = (case e of FP_Null \<Rightarrow> ST_NullArgument | FP_BadAlignment \<Rightarrow> ST_BadAlignment)"

(* src/kernel/src/syscall.rs:282-298 mem_alloc *)
definition sys_mem_alloc :: "usize \<Rightarrow> usize \<Rightarrow> usize \<Rightarrow> sys_exit sysK" where
  "sys_mem_alloc address cnt flags =
     (case page_from_pointer address of
        Inr page \<Rightarrow>
          (case decode_rwx_flags flags of
             Inr rwx \<Rightarrow> bindK (onSched (unwrapK (allocate_memory page cnt rwx))) (\<lambda>_. retK (Return ST_Ok page))
           | Inl _ \<Rightarrow> retK (Return ST_MemoryInvalidProtectionFlags 0))
      | Inl e \<Rightarrow> retK (Return (pointer_status e) 0))"

(* src/kernel/src/syscall.rs:300-312 mem_dealloc *)
definition sys_mem_dealloc :: "usize \<Rightarrow> usize \<Rightarrow> sys_exit sysK" where
  "sys_mem_dealloc address cnt =
     (case page_from_usize address of
        Inr page \<Rightarrow> bindK (onSched (unwrapK (deallocate_memory page cnt))) (\<lambda>_. retK (Return ST_Ok 0))
      | Inl e \<Rightarrow> retK (Return (pointer_status e) 0))"

(* src/kernel/src/syscall.rs:314-318 mem_get_flags *)
definition sys_mem_get_flags :: "sys_exit sysK" where
  "sys_mem_get_flags = panicK Todo_Reached"

(* src/kernel/src/syscall.rs:320-324 mem_set_flags *)
definition sys_mem_set_flags :: "sys_exit sysK" where
  "sys_mem_set_flags = panicK Todo_Reached"

text \<open>The walk writes each address to the slice as it finds it.\<close>

(* src/kernel/src/syscall.rs:326-339 mem_physical_addresses *)
definition sys_mem_physical_addresses :: "usize \<Rightarrow> usize \<Rightarrow> usize \<Rightarrow> sys_exit sysK" where
  "sys_mem_physical_addresses address store cnt =
     (if address AND PAGE_OFFSET_MASK \<noteq> 0 then retK (Return ST_BadAlignment 0)
      else
        bindK (liftK (unwrapR (page_from_pointer address))) (\<lambda>page.
        bindK (modSched (set_supervisor_userpage_access True)) (\<lambda>_.
        bindK (onMem (physical_addresses (unat cnt) (Some page) [])) (\<lambda>(ret, written).
        bindK (user_store store written) (\<lambda>_.
        bindK (modSched (set_supervisor_userpage_access False)) (\<lambda>_.
        retK (Return (case ret of Inr _ \<Rightarrow> ST_Ok | Inl _ \<Rightarrow> ST_MemoryNotAllocated) 0))))))) "

text \<open>The loop over the mappings of a new task; a mapping is read when its turn comes.\<close>

(* src/kernel/src/syscall.rs:348-364 task_spawn *)
primrec spawn_mappings :: "sv39 \<Rightarrow> usize \<Rightarrow> nat \<Rightarrow> unit sysK" where
  "spawn_mappings vms base 0 = retK ()"
| "spawn_mappings vms base (Suc n) =
     bindK (user_slice k_mappings 24 base 1) (\<lambda>ms.
     let m = hd ms in
     if mp_typ m = 0 then
       bindK (liftK (unwrapR (decode_rwx_flags (ucast (mp_flags m))))) (\<lambda>rwx.
       bindK (liftK (unwrapR (page_from_pointer (mp_task_address m)))) (\<lambda>task_page.
       bindK (liftK (unwrapR (page_from_pointer (mp_self_address m)))) (\<lambda>self_page.
       bindK (onMem (unwrapK (vms_share vms task_page self_page rwx UserLocal))) (\<lambda>_.
       spawn_mappings vms (base + 24) n))))
     else panicK Todo_Reached)"

text \<open>\<open>Group::get(0).unwrap().insert(task).unwrap()\<close>; the guard is dropped at the end of the call.\<close>

(* src/kernel/src/syscall.rs:371-373 task_spawn *)
definition insert_task :: "usize \<Rightarrow> usize schedK" where
  "insert_task task s =
     (case group_get 0 (sc_groups s) of (g, groups) \<Rightarrow>
      bindP (unwrapO g) (\<lambda>tasks.
      case group_insert task tasks of (r, tasks') \<Rightarrow>
      bindP (unwrapR r) (\<lambda>i. Inr (i, s\<lparr>sc_groups := guard_drop 0 (guard_write 0 tasks' groups)\<rparr>))))"

(* src/kernel/src/syscall.rs:341-375 task_spawn *)
definition sys_task_spawn :: "usize \<Rightarrow> usize \<Rightarrow> usize \<Rightarrow> usize \<Rightarrow> sys_exit sysK" where
  "sys_task_spawn mappings mappings_count program_counter stack_pointer =
     bindK (onMem vms_new) (\<lambda>vms.
     bindK (modSched (set_supervisor_userpage_access True)) (\<lambda>_.
     bindK (spawn_mappings vms mappings (unat mappings_count)) (\<lambda>_.
     bindK (modSched (set_supervisor_userpage_access False)) (\<lambda>_.
     bindK (onSched (task_new vms)) (\<lambda>task.
     bindK (modSched (set_pc task program_counter)) (\<lambda>_.
     bindK (modSched (set_stack_pointer task stack_pointer)) (\<lambda>_.
     bindK (onSched (insert_task task)) (\<lambda>i. retK (Return ST_Ok i)))))))))"

text \<open>The array of eight pages that \<open>dev_dma_alloc\<close> fills, and the loop that maps them.\<close>

(* src/kernel/src/syscall.rs:382-389 dev_dma_alloc *)
primrec dma_take :: "nat \<Rightarrow> nat \<Rightarrow> ppn option list \<Rightarrow> ppn option list sysK" where
  "dma_take i 0 ppns = retK ppns"
| "dma_take i (Suc n) ppns =
     bindK (onMem allocK) (\<lambda>p. bindK (liftK (storeP ppns i (Some p))) (dma_take (Suc i) n))"

(* src/kernel/src/syscall.rs:392-402 dev_dma_alloc *)
primrec dma_map :: "nat \<Rightarrow> nat \<Rightarrow> page option \<Rightarrow> ppn option list \<Rightarrow> unit sysK" where
  "dma_map i 0 addr ppns = retK ()"
| "dma_map i (Suc n) addr ppns =
     (case addr of
        Some a \<Rightarrow>
          bindK (liftK (indexP ppns i)) (\<lambda>p.
          bindK (liftK (unwrapO p)) (\<lambda>p.
          bindK (onMem (unwrapK (vms_add a (Map_Private p) RWX_RW UserLocal))) (\<lambda>_.
          dma_map (Suc i) n (page_next a) (ppns[i := None]))))
      | None \<Rightarrow> panicK Todo_Reached)"

(* src/kernel/src/syscall.rs:377-407 dev_dma_alloc *)
definition sys_dev_dma_alloc :: "usize \<Rightarrow> usize \<Rightarrow> sys_exit sysK" where
  "sys_dev_dma_alloc address sz =
     (if sz = 0 then panicK Assert_Failed
      else
        (let cnt = (sz + PAGE_SIZE - 1) div PAGE_SIZE in
         bindK (dma_take 0 1 (replicate 8 None)) (\<lambda>ppns.
         bindK (dma_take 1 (unat cnt - 1) ppns) (\<lambda>ppns.
         if address = 0 then panicK Todo_Reached
         else
           bindK (dma_map 0 (unat cnt) (case page_new address of Inr a \<Rightarrow> Some a | Inl _ \<Rightarrow> None) ppns) (\<lambda>_.
           retK (Return ST_Ok address))))))"

subsection \<open>The platform\<close>

(* src/kernel/src/syscall.rs:409-430 sys_platform_info *)
definition sys_platform_info :: "usize \<Rightarrow> sys_exit sysK" where
  "sys_platform_info address =
     (if address = 0 then retK (Return ST_NullArgument 0)
      else (case page_new address of
        Inl _ \<Rightarrow> retK (Return ST_BadAlignment 0)
      | Inr a \<Rightarrow>
          bindK (getK (\<lambda>k. (k_platform_info_phys_ptr k, k_platform_info_size k))) (\<lambda>(ptr, sz).
          bindK (liftK (unwrapR (ppn_direct_from_usize ptr))) (\<lambda>p.
          case direct_new p sz of
            Inr r \<Rightarrow> bindK (onMem (unwrapK (add_range a (MR_Direct r) RWX_R UserLocal))) (\<lambda>_. retK (Return ST_Ok sz))
          | Inl _ \<Rightarrow> panicK Todo_Reached))))"

(* src/kernel/src/syscall.rs:432-458 sys_direct_alloc *)
definition sys_direct_alloc :: "usize \<Rightarrow> usize \<Rightarrow> usize \<Rightarrow> sys_exit sysK" where
  "sys_direct_alloc address ppn cnt =
     (if address = 0 then retK (Return ST_NullArgument 0)
      else (case page_new address of
        Inl _ \<Rightarrow> retK (Return ST_NullArgument 0)
      | Inr addr \<Rightarrow>
          (case try_into ppn of
             None \<Rightarrow> retK (Return ST_MemoryUnavailable 0)
           | Some (p :: u32) \<Rightarrow>
               (case direct_new p cnt of
                  Inl _ \<Rightarrow> panicK Todo_Reached
                | Inr r \<Rightarrow>
                    bindK (onMem (add_range addr (MR_Direct r) RWX_RW UserLocal)) (\<lambda>res.
                    retK (case res of Inr _ \<Rightarrow> Return ST_Ok 0 | Inl _ \<Rightarrow> Return ST_MemoryOverlap 0))))))"

definition onPlic :: "(plic \<Rightarrow> ('a \<times> plic) may_panic) \<Rightarrow> 'a sysK" where
  "onPlic f k = bindP (f (k_plic k)) (\<lambda>(x, p). Inr (x, k\<lparr>k_plic := p\<rparr>))"

(* src/kernel/src/syscall.rs:460-472 sys_reserve_interrupt *)
definition sys_reserve_interrupt :: "usize \<Rightarrow> sys_exit sysK" where
  "sys_reserve_interrupt interrupt =
     bindK (getK (\<lambda>k. current_address (k_sched k))) (\<lambda>address.
     bindK (onPlic (plic_reserve (ucast interrupt) address)) (\<lambda>r.
     retK (case r of
        Inr _ \<Rightarrow> Return ST_Ok 0
      | Inl RV_Occupied \<Rightarrow> Return ST_Occupied 0
      | Inl RV_NonExistent \<Rightarrow> Return ST_Unavailable 0)))"

(* src/kernel/src/syscall.rs:474-516 sys_log *)
definition sys_log :: "usize \<Rightarrow> usize \<Rightarrow> sys_exit sysK" where
  "sys_log address len =
     bindK (modSched (set_supervisor_userpage_access True)) (\<lambda>_.
     bindK (user_slice k_bytes 1 address (unat len)) (\<lambda>bs.
     bindK (\<lambda>k. Inr ((), k\<lparr>k_console := log_write_str (broken_str bs) (k_console k)\<rparr>)) (\<lambda>_.
     bindK (modSched (set_supervisor_userpage_access False)) (\<lambda>_. retK (Return ST_Ok 0)))))"

(* src/kernel/src/syscall.rs:518-532 sys_set_interrupt_controller *)
definition sys_set_interrupt_controller :: "usize \<Rightarrow> usize \<Rightarrow> usize \<Rightarrow> sys_exit sysK" where
  "sys_set_interrupt_controller ppn pages max_devices =
     bindK (liftK (assertP (pages \<le> page_count (reserved ''PLIC'')) (Inr ()))) (\<lambda>_.
     bindK (liftK (unwrapO (try_into ppn))) (\<lambda>p :: u32.
     bindK (liftK (unwrapR (direct_new p pages))) (\<lambda>r.
     bindK (getK k_plic) (\<lambda>pl.
     bindK (onMem (set_controller (MR_Direct r) (ucast max_devices) pl)) (\<lambda>pl'.
     bindK (\<lambda>k. Inr ((), k\<lparr>k_plic := pl'\<rparr>)) (\<lambda>_. retK (Return ST_Ok 0)))))))"

subsection \<open>The registry\<close>

text \<open>\<open>registry::add\<close> refuses a name that is too long before it reads it.\<close>

(* src/kernel/src/syscall.rs:534-553 sys_registry_add *)
definition sys_registry_add :: "usize \<Rightarrow> usize \<Rightarrow> usize \<Rightarrow> sys_exit sysK" where
  "sys_registry_add name name_len address =
     bindK (getK (\<lambda>k. if address = USIZE_MAX then current_address (k_sched k) else address_todo address)) (\<lambda>addr.
     bindK (modSched (set_supervisor_userpage_access True)) (\<lambda>_.
     bindK (if 31 < unat name_len then retK (Inl RG_NameTooLong)
            else bindK (user_slice k_bytes 1 name (unat name_len)) (\<lambda>bs k.
              case registry_add bs addr (k_registry k) of (r, reg) \<Rightarrow> Inr (r, k\<lparr>k_registry := reg\<rparr>))) (\<lambda>r.
     let ret = (case r of
           Inr _ \<Rightarrow> Return ST_Ok 0
         | Inl RG_Occupied \<Rightarrow> Return ST_Occupied 0
         | Inl RG_NameTooLong \<Rightarrow> Return ST_TooLong 0
         | Inl RG_RegistryFull \<Rightarrow> Return ST_MemoryUnavailable 0) in
     bindK (modSched (set_supervisor_userpage_access False)) (\<lambda>_. retK ret))))"

text \<open>
  \<open>registry::get\<close> compares the bytes of a name only with names of the same length. Where there is none
  it finds nothing without reading the name, which the model gives some bytes then.
\<close>

definition has_length :: "registry \<Rightarrow> nat \<Rightarrow> bool" where
  "has_length r n \<longleftrightarrow> (\<exists>e \<in> set (take (unat (rg_count r)) (rg_entries r)). case e of None \<Rightarrow> False | Some e \<Rightarrow> length (entry_name e) = n)"

(* src/kernel/src/syscall.rs:555-566 sys_registry_get *)
definition sys_registry_get :: "usize \<Rightarrow> usize \<Rightarrow> sys_exit sysK" where
  "sys_registry_get name name_len =
     bindK (modSched (set_supervisor_userpage_access True)) (\<lambda>_.
     bindK (\<lambda>k. if has_length (k_registry k) (unat name_len) then user_slice k_bytes 1 name (unat name_len) k
                else Inr (replicate (unat name_len) 0, k)) (\<lambda>bs.
     bindK (\<lambda>k. bindP (registry_get bs (k_registry k)) (\<lambda>(r, reg). Inr (r, k\<lparr>k_registry := reg\<rparr>))) (\<lambda>r.
     let ret = (case r of Some addr \<Rightarrow> Return ST_Ok addr | None \<Rightarrow> Return ST_NotFound 0) in
     bindK (modSched (set_supervisor_userpage_access False)) (\<lambda>_. retK ret))))"

(* src/kernel/src/syscall.rs:568-574 placeholder *)
definition sys_placeholder :: "sys_exit sysK" where
  "sys_placeholder = retK (Return ST_InvalidCall 0)"

subsection \<open>The table\<close>

text \<open>The table of \<open>syscall.rs\<close>, applied to the arguments \<open>a0\<close> to \<open>a4\<close> and the calling task.\<close>

(* src/kernel/src/syscall.rs:31-57 TABLE *)
definition syscall_table :: "nat \<Rightarrow> usize \<Rightarrow> usize \<Rightarrow> usize \<Rightarrow> usize \<Rightarrow> usize \<Rightarrow> sys_exit sysK list" where
  "syscall_table fuel a0 a1 a2 a3 task =
    [sys_io_wait fuel task a0,
     sys_io_set_queues task a0 a1 a2 a3,
     sys_io_set_notify_handler task a0,
     sys_mem_alloc a0 a1 a2,
     sys_mem_dealloc a0 a1,
     sys_mem_get_flags,
     sys_mem_set_flags,
     sys_mem_physical_addresses a0 a1 a2,
     sys_set_interrupt_controller a0 a1 a2,
     sys_io_notify_return task a0,
     sys_reserve_interrupt a0,
     sys_task_spawn a0 a1 a2 a3,
     sys_dev_dma_alloc a0 a1,
     sys_platform_info a0,
     sys_direct_alloc a0 a1 a2,
     sys_log a0 a1,
     sys_registry_add a0 a1 a2,
     sys_registry_get a0 a1,
     sys_placeholder,
     sys_placeholder]"

end
