(* ===== verification/Ipc_Props.thy ===== *)
theory Ipc_Props
  imports Ipc_Kernel "HOL-Library.Multiset"
begin

text \<open>
  Properties of the kernel's side of the communication between tasks: the address ranges a receiver
  offers, its stack of free slots, the lock on that stack, and the delivery of a packet.
\<close>

subsection \<open>Free address ranges\<close>

text \<open>The page numbers of a range of pages, and those of all the ranges a task offers.\<close>

definition pages_of :: "page \<Rightarrow> usize \<Rightarrow> nat list" where
  "pages_of p n = [unat p div 4096 ..< unat p div 4096 + unat n]"

definition offered :: "free_page list \<Rightarrow> nat list" where
  "offered fps = concat (map (\<lambda>fp. case fp_address fp of None \<Rightarrow> [] | Some a \<Rightarrow> pages_of a (fp_count fp)) fps)"

definition free_page_ok :: "free_page \<Rightarrow> bool" where
  "free_page_ok fp \<longleftrightarrow> (\<forall>a. fp_address fp = Some a \<longrightarrow> page_inv a \<and> unat a + 4096 * unat (fp_count fp) < 2 ^ 64)"

lemma offered_Cons: "offered (fp # fps) = (case fp_address fp of None \<Rightarrow> [] | Some a \<Rightarrow> pages_of a (fp_count fp)) @ offered fps"
  by (simp add: offered_def)

lemma pages_of_split:
  assumes "page_inv a" "unat a + 4096 * unat c < 2 ^ 64" "checked_sub c n = Some r"
  obtains p where "page_skip a r = Some p" "page_inv p" "pages_of a c = pages_of a r @ pages_of p n"
proof -
  have r: "unat r = unat c - unat n" "unat n \<le> unat c"
    using assms(3) unat_checked_sub by (auto simp: checked_sub_Some word_le_nat_alt)
  have le: "unat a + unat r * 4096 < 2 ^ 64" using assms(2) r by simp
  have a: "a \<noteq> 0" "4096 dvd unat a" using assms(1) by (auto simp: page_inv_def)
  note S = page_skip_Some [OF a(1) le]
  have "unat (a + r * 4096) div 4096 = unat a div 4096 + unat r" unfolding S(2) using a(2) by simp
  then have "pages_of a c = pages_of a r @ pages_of (a + r * 4096) n"
    using r upt_add_eq_append [of "unat a div 4096" "unat a div 4096 + unat r" "unat n"] by (simp add: pages_of_def add.assoc)
  with S(1) show thesis using page_skip_inv [OF S(1) a(2)] by (intro that)
qed

lemma pop_range_spec:
  assumes "\<forall>fp \<in> set fps. free_page_ok fp" "pop_range fps n = (r, fps')"
  shows "(\<forall>fp \<in> set fps'. free_page_ok fp)
    \<and> (case r of None \<Rightarrow> fps' = fps \<and> (\<forall>fp \<in> set fps. fp_address fp \<noteq> None \<longrightarrow> fp_count fp < n)
       | Some p \<Rightarrow> page_inv p \<and> mset (offered fps) = mset (pages_of p n) + mset (offered fps'))"
  using assms
proof (induction fps n arbitrary: r fps' rule: pop_range.induct)
  case (2 fp fps n)
  have skip: ?case if "pop_range fps n = (r, fps'')" "fps' = fp # fps''" "fp_address fp = None \<or> fp_count fp < n"
      "\<And>r fps'. \<forall>fp \<in> set fps. free_page_ok fp \<Longrightarrow> pop_range fps n = (r, fps') \<Longrightarrow> (\<forall>fp \<in> set fps'. free_page_ok fp)
         \<and> (case r of None \<Rightarrow> fps' = fps \<and> (\<forall>fp \<in> set fps. fp_address fp \<noteq> None \<longrightarrow> fp_count fp < n)
            | Some p \<Rightarrow> page_inv p \<and> mset (offered fps) = mset (pages_of p n) + mset (offered fps'))" for fps''
    using that(4) [OF _ that(1)] that(2,3) "2.prems"(1) by (auto simp: offered_Cons split: option.splits)
  show ?case
  proof (cases "fp_address fp")
    case None
    then obtain fps'' where "pop_range fps n = (r, fps'')" "fps' = fp # fps''" using "2.prems"(2) by (auto split: prod.splits)
    then show ?thesis using skip "2.IH"(1) None by blast
  next
    case (Some a)
    show ?thesis
    proof (cases "checked_sub (fp_count fp) n")
      case None
      then obtain fps'' where "pop_range fps n = (r, fps'')" "fps' = fp # fps''" using "2.prems"(2) Some by (auto split: prod.splits)
      moreover have "fp_count fp < n" using None by (simp add: checked_sub_None)
      ultimately show ?thesis using skip "2.IH"(2) Some None by blast
    next
      case rem: (Some m)
      have ok: "page_inv a" "unat a + 4096 * unat (fp_count fp) < 2 ^ 64" using "2.prems"(1) Some by (auto simp: free_page_ok_def)
      obtain p where p: "page_skip a m = Some p" "page_inv p" "pages_of a (fp_count fp) = pages_of a m @ pages_of p n"
        by (rule pages_of_split [OF ok rem])
      have r: "r = Some p" "fps' = fp\<lparr>fp_count := m\<rparr> # fps" using "2.prems"(2) Some rem p(1) page_new_inv [OF ok(1)] by simp_all
      have "unat m \<le> unat (fp_count fp)" using unat_checked_sub [OF rem] by simp
      then have "free_page_ok (fp\<lparr>fp_count := m\<rparr>)" using ok Some by (simp add: free_page_ok_def)
      moreover have "mset (offered (fp # fps)) = mset (pages_of p n) + mset (offered fps')"
        using p(3) Some by (simp add: offered_Cons r(2) ac_simps)
      ultimately show ?thesis using r p(2) "2.prems"(1) by auto
    qed
  qed
qed (auto simp: offered_def)

text \<open>A sequence of requests, with the ranges that were granted.\<close>

fun pop_ranges :: "free_page list \<Rightarrow> usize list \<Rightarrow> (page \<times> usize) list \<times> free_page list" where
  "pop_ranges fps [] = ([], fps)"
| "pop_ranges fps (n # ns) =
     (case pop_range fps n of (r, fps1) \<Rightarrow> case pop_ranges fps1 ns of (rs, fps2) \<Rightarrow>
        (case r of None \<Rightarrow> rs | Some p \<Rightarrow> (p, n) # rs, fps2))"

lemma pop_ranges_spec:
  assumes "\<forall>fp \<in> set fps. free_page_ok fp" "pop_ranges fps ns = (rs, fps')"
  shows "(\<forall>fp \<in> set fps'. free_page_ok fp) \<and> mset (offered fps) = mset (concat (map (\<lambda>(p, n). pages_of p n) rs)) + mset (offered fps')"
  using assms
proof (induction fps ns arbitrary: rs fps' rule: pop_ranges.induct)
  case (2 fps n ns)
  obtain r fps1 where 1: "pop_range fps n = (r, fps1)" by fastforce
  obtain rs2 fps2 where 3: "pop_ranges fps1 ns = (rs2, fps2)" by fastforce
  note S = pop_range_spec [OF "2.prems"(1) 1]
  have IH: "(\<forall>fp \<in> set fps2. free_page_ok fp) \<and> mset (offered fps1) = mset (concat (map (\<lambda>(p, n). pages_of p n) rs2)) + mset (offered fps2)"
    using "2.IH" [OF 1 [symmetric] _ 3] S by blast
  show ?case using "2.prems"(2) 1 3 S IH by (auto split: option.splits simp: ac_simps)
qed auto

text \<open>
  C17. The address ranges the kernel takes from a receiver never overlap. Whatever sizes are asked for
  and in whichever order, the ranges granted and the pages still on offer are together exactly the
  pages offered at the start, each of them once if they were distinct, and a request that is refused
  takes nothing.
\<close>
theorem ipc_ranges_disjoint:
  assumes "\<forall>fp \<in> set fps. free_page_ok fp" "distinct (offered fps)" "pop_ranges fps ns = (rs, fps')"
  shows "distinct (concat (map (\<lambda>(p, n). pages_of p n) rs) @ offered fps')
    \<and> set (concat (map (\<lambda>(p, n). pages_of p n) rs)) \<union> set (offered fps') = set (offered fps)"
proof -
  have "mset (offered fps) = mset (concat (map (\<lambda>(p, n). pages_of p n) rs) @ offered fps')"
    using pop_ranges_spec [OF assms(1,3)] by simp
  then have "distinct (concat (map (\<lambda>(p, n). pages_of p n) rs) @ offered fps')"
    "set (offered fps) = set (concat (map (\<lambda>(p, n). pages_of p n) rs) @ offered fps')"
    using assms(2) by (metis mset_eq_imp_distinct_iff, metis mset_eq_setD)
  then show ?thesis by simp
qed

theorem ipc_ranges_disjoint_witness:
  "\<exists>rs fps'. pop_ranges [\<lparr>fp_address = Some 0x10000, fp_count = 4\<rparr>] [3, 2, 1] = (rs, fps') \<and> rs = [(0x11000, 3), (0x10000, 1)]
     \<and> distinct (concat (map (\<lambda>(p, n). pages_of p n) rs) @ offered fps')"
proof -
  have e: "pop_ranges [\<lparr>fp_address = Some 0x10000, fp_count = 4\<rparr>] [3, 2, 1]
      = ([(0x11000, 3), (0x10000, 1)], [\<lparr>fp_address = Some 0x10000, fp_count = 0\<rparr>])"
    by (simp add: checked_sub_def page_new_def page_skip_def page_consts word_le_nat_alt)
  have "\<forall>fp \<in> set [\<lparr>fp_address = Some 0x10000, fp_count = 4\<rparr>]. free_page_ok fp" by (simp add: free_page_ok_def page_inv_def)
  moreover have "distinct (offered [\<lparr>fp_address = Some 0x10000, fp_count = 4\<rparr>])" by (simp add: offered_def pages_of_def)
  ultimately have "distinct (concat (map (\<lambda>(p, n). pages_of p n) [(0x11000, 3), (0x10000, 1)]) @ offered [\<lparr>fp_address = Some 0x10000, fp_count = 0\<rparr>])"
    using ipc_ranges_disjoint [OF _ _ e] by blast
  with e show ?thesis by blast
qed

subsection \<open>The stack of free slots\<close>

abbreviation table :: "io \<Rightarrow> ipc \<Rightarrow> ipc_table" where
  "table s i \<equiv> io_tables s (active_vms s) (ipc_packets i)"

definition free_stack :: "ipc_table \<Rightarrow> u16 list" where
  "free_stack t = map (\<lambda>k. it_free_slots t (of_nat k)) [0..<unat (it_free_top t)]"

definition ipc_ok :: "ipc \<Rightarrow> bool" where
  "ipc_ok i \<longleftrightarrow> unat (ipc_ring_mask i) \<le> 32767"

lemma ipc_new_ok: "ipc_new packets mask_bits pages n = Inr i \<Longrightarrow> ipc_ok i"
proof -
  assume a: "ipc_new packets mask_bits pages n = Inr i"
  then have b: "unat mask_bits \<le> 15" and m: "ipc_ring_mask i = push_bit (unat mask_bits) 1 - 1"
    by (auto simp: ipc_new_def word_le_nat_alt split: if_splits)
  have lt: "(2 :: nat) ^ unat mask_bits \<le> 2 ^ 15" using b by (intro power_increasing) auto
  have p: "unat (2 ^ unat mask_bits :: u16) = 2 ^ unat mask_bits"
    using unat_of_nat_less [of "2 ^ unat mask_bits", where ?'a = 16] lt by simp
  have "(2 ^ unat mask_bits :: u16) \<noteq> 0" using p by (metis power_eq_0_iff unsigned_0 zero_neq_numeral)
  then have "unat (ipc_ring_mask i) = 2 ^ unat mask_bits - 1"
    using m p unat_minus_1 [of "2 ^ unat mask_bits :: u16"] by (simp add: push_bit_eq_mult)
  also have "\<dots> \<le> 2 ^ 15 - 1" using power_increasing [OF b, of "2 :: nat"] by simp
  finally show ?thesis by (simp add: ipc_ok_def)
qed

lemma ring_slot_ok: "ipc_ok i \<Longrightarrow> ring_slot i k = (if k \<le> ipc_ring_mask i then Inr k else Inl Index_Out_Of_Range)"
proof -
  assume "ipc_ok i"
  then have "unat (ipc_len i) = Suc (unat (ipc_ring_mask i))"
    using unat_add_no_overflow [of "ipc_ring_mask i" 1] by (simp add: ipc_ok_def ipc_len_def)
  then show ?thesis by (simp add: ring_slot_def word_less_nat_alt word_le_nat_alt less_Suc_eq_le)
qed

definition set_table :: "io \<Rightarrow> ipc \<Rightarrow> ipc_table \<Rightarrow> io" where
  "set_table s i t = s\<lparr>io_tables := (io_tables s)(active_vms s := (io_tables s (active_vms s))(ipc_packets i := t))\<rparr>"

lemma set_table_simps [simp]:
  "table (set_table s i t) i = t" "io_sched (set_table s i t) = io_sched s" "io_free_pages (set_table s i t) = io_free_pages s"
  "set_table s i (table s i) = s"
  by (simp_all add: set_table_def)

lemma table_access:
  assumes "sc_user_access (io_sched s)"
  shows "get_table (ipc_packets i) s = Inr (table s i, s)" "put_table (ipc_packets i) t s = Inr ((), set_table s i t)"
  using assms by (simp_all add: get_table_def put_table_def set_table_def)

lemma push_free_slot_eq:
  assumes "sc_user_access (io_sched s)" "ipc_ok i" "it_free_top (table s i) \<noteq> U16_MAX"
  shows "push_free_slot i x s =
    (if it_free_top (table s i) \<le> ipc_ring_mask i
     then Inr (Inr (), set_table s i ((table s i)\<lparr>it_free_top := it_free_top (table s i) + 1,
            it_free_slots := (it_free_slots (table s i))(it_free_top (table s i) := x)\<rparr>))
     else Inr (Inl PUSH_Full, s))"
  using assms by (simp add: push_free_slot_def lock_free_stack_def bindK_def table_access ring_slot_ok)

lemma pop_free_slot_eq:
  assumes "sc_user_access (io_sched s)" "ipc_ok i" "it_free_top (table s i) \<noteq> U16_MAX"
    "unat (it_free_top (table s i)) \<le> unat (ipc_ring_mask i) + 1"
  shows "pop_free_slot i s =
    (if it_free_top (table s i) = 0 then Inr (Inl POP_NoFreeSlots, s)
     else Inr (Inr (it_free_slots (table s i) (it_free_top (table s i) - 1)),
            set_table s i ((table s i)\<lparr>it_free_top := it_free_top (table s i) - 1\<rparr>)))"
proof (cases "it_free_top (table s i) = 0")
  case True
  have "(table s i)\<lparr>it_free_top := 0\<rparr> = table s i" using True by (cases "table s i") simp
  then have "set_table s i ((table s i)\<lparr>it_free_top := 0\<rparr>) = s" by (simp only: set_table_simps)
  with True show ?thesis
    using assms by (simp add: pop_free_slot_def lock_free_stack_def bindK_def table_access checked_sub_1)
next
  case False
  have "it_free_top (table s i) - 1 \<le> ipc_ring_mask i"
    using assms(4) unat_minus_1 [OF False] by (simp add: word_le_nat_alt)
  with False show ?thesis
    using assms by (simp add: pop_free_slot_def lock_free_stack_def bindK_def table_access checked_sub_1 ring_slot_ok)
qed

lemma free_stack_push:
  assumes "unat (it_free_top t) < 65535"
  shows "free_stack (t\<lparr>it_free_top := it_free_top t + 1, it_free_slots := (it_free_slots t)(it_free_top t := x)\<rparr>) = free_stack t @ [x]"
proof -
  have u: "unat (it_free_top t + 1) = Suc (unat (it_free_top t))" using assms unat_add_no_overflow [of "it_free_top t" 1] by simp
  have "of_nat k \<noteq> it_free_top t" if "k < unat (it_free_top t)" for k
    using that unat_of_nat_less [of k, where ?'a = 16] assms by auto
  then show ?thesis by (simp add: free_stack_def u)
qed

lemma free_stack_pop:
  assumes "it_free_top t \<noteq> 0"
  shows "free_stack t = free_stack (t\<lparr>it_free_top := it_free_top t - 1\<rparr>) @ [it_free_slots t (it_free_top t - 1)]"
proof -
  have "of_nat (unat (it_free_top t - 1)) = it_free_top t - 1" by simp
  then show ?thesis using unat_minus_1 [OF assms] by (simp add: free_stack_def)
qed

text \<open>
  C18. The free slots of a packet table are a stack of at most as many slots as the table has packets.
  While it is not locked, pushing a slot appends it, or reports that the stack is full; popping gives
  back the slot pushed last, or reports that there is none. Nothing else of the table changes, and a
  stack that stays locked is reported.
\<close>
theorem free_slots_stack:
  assumes "sc_user_access (io_sched s)" "ipc_ok i" "unat (it_free_top (table s i)) \<le> unat (ipc_ring_mask i) + 1"
  shows "(if length (free_stack (table s i)) = unat (ipc_ring_mask i) + 1 then push_free_slot i x s = Inr (Inl PUSH_Full, s)
      else \<exists>t. push_free_slot i x s = Inr (Inr (), set_table s i t) \<and> free_stack t = free_stack (table s i) @ [x]
        \<and> t\<lparr>it_free_top := 0, it_free_slots := id\<rparr> = (table s i)\<lparr>it_free_top := 0, it_free_slots := id\<rparr>)
    \<and> (if free_stack (table s i) = [] then pop_free_slot i s = Inr (Inl POP_NoFreeSlots, s)
      else \<exists>t. pop_free_slot i s = Inr (Inr (last (free_stack (table s i))), set_table s i t) \<and> free_stack t = butlast (free_stack (table s i))
        \<and> t\<lparr>it_free_top := 0, it_free_slots := id\<rparr> = (table s i)\<lparr>it_free_top := 0, it_free_slots := id\<rparr>)
    \<and> (\<forall>s'. sc_user_access (io_sched s') \<and> it_free_top (table s' i) = U16_MAX
        \<longrightarrow> push_free_slot i x s' = Inr (Inl PUSH_LockTimeout, s') \<and> pop_free_slot i s' = Inr (Inl POP_LockTimeout, s'))"
proof -
  let ?t = "table s i" and ?top = "it_free_top (table s i)"
  have m: "unat (ipc_ring_mask i) \<le> 32767" using assms(2) by (simp add: ipc_ok_def)
  have len: "length (free_stack ?t) = unat ?top" by (simp add: free_stack_def)
  have "unat U16_MAX = 65535" using unsigned_minus_1_eq_mask [where ?'b = 16 and ?'a = nat] by (simp add: mask_eq_exp_minus_1)
  then have nm: "?top \<noteq> U16_MAX" using assms(3) m by auto
  note push = push_free_slot_eq [OF assms(1,2) nm, of x] and pop = pop_free_slot_eq [OF assms(1,2) nm assms(3)]
  have le: "?top \<le> ipc_ring_mask i \<longleftrightarrow> unat ?top \<noteq> unat (ipc_ring_mask i) + 1" using assms(3) by (auto simp: word_le_nat_alt)
  have e: "free_stack ?t = [] \<longleftrightarrow> ?top = 0" by (simp add: free_stack_def unat_eq_0)
  have "\<exists>t. push_free_slot i x s = Inr (Inr (), set_table s i t) \<and> free_stack t = free_stack ?t @ [x]
      \<and> t\<lparr>it_free_top := 0, it_free_slots := id\<rparr> = ?t\<lparr>it_free_top := 0, it_free_slots := id\<rparr>" if "unat ?top \<noteq> unat (ipc_ring_mask i) + 1"
    using push le that free_stack_push [of ?t x] m assms(3)
    by (intro exI [of _ "?t\<lparr>it_free_top := ?top + 1, it_free_slots := (it_free_slots ?t)(?top := x)\<rparr>"]) simp
  moreover have "\<exists>t. pop_free_slot i s = Inr (Inr (last (free_stack ?t)), set_table s i t) \<and> free_stack t = butlast (free_stack ?t)
      \<and> t\<lparr>it_free_top := 0, it_free_slots := id\<rparr> = ?t\<lparr>it_free_top := 0, it_free_slots := id\<rparr>" if "?top \<noteq> 0"
    using pop that free_stack_pop [OF that] by (intro exI [of _ "?t\<lparr>it_free_top := ?top - 1\<rparr>"]) simp
  moreover have "push_free_slot i x s' = Inr (Inl PUSH_LockTimeout, s') \<and> pop_free_slot i s' = Inr (Inl POP_LockTimeout, s')"
    if "sc_user_access (io_sched s')" "it_free_top (table s' i) = U16_MAX" for s'
    using that by (simp add: push_free_slot_def pop_free_slot_def lock_free_stack_def bindK_def table_access)
  moreover have "push_free_slot i x s = Inr (Inl PUSH_Full, s)" if "unat ?top = unat (ipc_ring_mask i) + 1"
    using push le that by simp
  moreover have "pop_free_slot i s = Inr (Inl POP_NoFreeSlots, s)" if "?top = 0"
    using pop that by simp
  ultimately show ?thesis unfolding len e by simp
qed

definition ipc_ex :: ipc where
  "ipc_ex = \<lparr>ipc_packets = 0x1000, ipc_last_transmit_index = 0, ipc_ring_mask = 1,
     ipc_free_pages = 0x5000, ipc_max_free_pages = 4\<rparr>"

lemma free_slots_stack_witness:
  "\<exists>t. push_free_slot ipc_ex 7 \<lparr>io_sched = (sched_ex 0)\<lparr>sc_user_access := True\<rparr>,
      io_tables = \<lambda>_ _. \<lparr>it_packets = \<lambda>_. undefined, it_tx_index = 0, it_tx_slots = id, it_rx_index = 0, it_rx_slots = id,
        it_free_top = 1, it_free_slots = id\<rparr>, io_free_pages = \<lambda>_ _. []\<rparr> = Inr (Inr (), t) \<and> free_stack (table t ipc_ex) = [0, 7]"
proof -
  let ?s = "\<lparr>io_sched = (sched_ex 0)\<lparr>sc_user_access := True\<rparr>,
      io_tables = \<lambda>_ _. \<lparr>it_packets = \<lambda>_. undefined, it_tx_index = 0, it_tx_slots = id, it_rx_index = 0, it_rx_slots = id,
        it_free_top = 1, it_free_slots = id\<rparr>, io_free_pages = \<lambda>_ _. []\<rparr> :: io"
  have "free_stack (table ?s ipc_ex) = [0]" by (simp add: free_stack_def)
  moreover have "ipc_ok ipc_ex" "unat (ipc_ring_mask ipc_ex) = 1" by (simp_all add: ipc_ex_def ipc_ok_def)
  ultimately obtain t where "push_free_slot ipc_ex 7 ?s = Inr (Inr (), set_table ?s ipc_ex t)" "free_stack t = [0, 7]"
    using free_slots_stack [of ?s ipc_ex 7] by auto
  then show ?thesis using set_table_simps(1) [of ?s ipc_ex t] by metis
qed

end
