(* ===== verification/Syscall_Props.thy ===== *)
theory Syscall_Props
  imports Syscalls Ipc_Props
begin

text \<open>
  What the system calls promise: the invariant of the kernel's own structures that every call keeps,
  memory that \<open>mem_alloc\<close> hands out, and names that can be looked up once they are registered.
\<close>

subsection \<open>The invariant\<close>

text \<open>
  Between two calls the kernel cannot reach user pages, the queues of every task have a size for which
  the ring indices are in bounds, the registry is well-formed, and there is a reservation entry for each
  of the 1023 interrupt sources.
\<close>

definition access_off :: "sched \<Rightarrow> bool" where
  "access_off s \<longleftrightarrow> \<not> sc_user_access s"

definition queues_ok :: "sched \<Rightarrow> bool" where
  "queues_ok s \<longleftrightarrow> (\<forall>t i. td_ipc (sc_tasks s t) = Some i \<longrightarrow> ipc_ok i)"

lemma queues_okD: "queues_ok s \<Longrightarrow> td_ipc (sc_tasks s t) = Some i \<Longrightarrow> ipc_ok i"
  by (simp add: queues_ok_def)

definition kernel_inv :: "kernel \<Rightarrow> bool" where
  "kernel_inv k \<longleftrightarrow> access_off (k_sched k) \<and> queues_ok (k_sched k) \<and> registry_inv (k_registry k)
     \<and> length (pl_reservations (k_plic k)) = 1023"

text \<open>Parts of the state a computation does not touch.\<close>

lemma keeps_onM [keeps_intros]: "keeps access_off (onM f)" "keeps queues_ok (onM f)"
  by (auto simp: keeps_def onM_def access_off_def queues_ok_def split: sum.splits)

lemma keeps_onS [keeps_intros]: "keeps P f \<Longrightarrow> keeps (\<lambda>s. P (io_sched s)) (onS f)"
  unfolding keeps_def onS_def by (auto split: sum.splits)

lemma keeps_modS [keeps_intros]: "(\<And>s. P s \<Longrightarrow> P (f s)) \<Longrightarrow> keeps (\<lambda>s. P (io_sched s)) (modS f)"
  by (simp add: keeps_def modS_def)

lemma keeps_onIO [keeps_intros]:
  "keeps P f \<Longrightarrow> keeps (\<lambda>k. P (k_io k)) (onIO f)"
  "keeps (\<lambda>k. Q (k_registry k)) (onIO f)" "keeps (\<lambda>k. R (k_plic k)) (onIO f)"
  unfolding keeps_def onIO_def by (auto split: sum.splits)

lemma keeps_getK [keeps_intros]: "keeps P (getK f)" "keeps P (\<lambda>s. Inr (x, s))"
  by (simp_all add: keeps_def getK_def)

lemma keeps_user_slice [keeps_intros]: "keeps P (user_slice view stride base n)"
proof (induction n arbitrary: base)
  case (Suc n)
  have "keeps P (bindK (user_slice view stride (base + stride) n) (\<lambda>xs. retK (x # xs)))" for x
    by (intro keeps_intros Suc)
  then show ?case by (auto simp: keeps_def split: option.splits)
qed (simp add: keeps_intros)

lemma keeps_user_store [keeps_intros]:
  "(\<And>k w. P k \<Longrightarrow> P (k\<lparr>k_words := w\<rparr>)) \<Longrightarrow> keeps P (user_store base xs)"
proof (induction xs arbitrary: base)
  case (Cons x xs)
  then show ?case by (auto simp: keeps_def)
qed (simp add: keeps_intros)

subsection \<open>Scheduling and I/O\<close>

lemma task_updates:
  "access_off (upd_task t f s) \<longleftrightarrow> access_off s"
  "(\<And>d. td_ipc (f d) = td_ipc d) \<Longrightarrow> queues_ok s \<Longrightarrow> queues_ok (upd_task t f s)"
  by (auto simp: access_off_def queues_ok_def upd_task_def)

text \<open>What the scheduler leaves alone: the access bit, memory, and all of a task but the executor that runs it.\<close>

definition io_core :: "sched \<Rightarrow> bool \<times> (usize \<Rightarrow> task_data) \<times> phys" where
  "io_core s = (sc_user_access s, (\<lambda>t. (sc_tasks s t)\<lparr>td_executor_id := 0\<rparr>), mc_mem (sc_machine s))"

lemma io_coreD:
  assumes "io_core s' = io_core s"
  shows "sc_user_access s' = sc_user_access s" "td_ipc (sc_tasks s' t) = td_ipc (sc_tasks s t)"
    "td_register_state (sc_tasks s' t) = td_register_state (sc_tasks s t)" "mc_mem (sc_machine s') = mc_mem (sc_machine s)"
    "td_virtual_memory (sc_tasks s' t) = td_virtual_memory (sc_tasks s t)"
proof -
  have "(sc_tasks s' t)\<lparr>td_executor_id := 0\<rparr> = (sc_tasks s t)\<lparr>td_executor_id := 0\<rparr>"
    using assms by (simp add: io_core_def fun_eq_iff)
  then show "td_ipc (sc_tasks s' t) = td_ipc (sc_tasks s t)"
    "td_register_state (sc_tasks s' t) = td_register_state (sc_tasks s t)" "td_virtual_memory (sc_tasks s' t) = td_virtual_memory (sc_tasks s t)"
    by (metis task_data.select_convs task_data.surjective task_data.update_convs)+
  show "sc_user_access s' = sc_user_access s" "mc_mem (sc_machine s') = mc_mem (sc_machine s)" using assms by (simp_all add: io_core_def)
qed

lemma io_core_keeps:
  assumes "\<And>s x s'. f s = Inr (x, s') \<Longrightarrow> io_core s' = io_core s"
  shows "keeps access_off f" "keeps queues_ok f"
  using assms io_coreD(1,2) unfolding keeps_def access_off_def queues_ok_def by metis+

lemma io_core_simps [simp]:
  "io_core (s\<lparr>sc_next_id := n\<rparr>) = io_core s" "io_core (enable_interrupts b s) = io_core s"
  "io_core (schedule_timer d s) = io_core s" "io_core (executor_idle d s) = io_core s"
  "io_core (s\<lparr>sc_groups := g\<rparr>) = io_core s" "io_core (s\<lparr>sc_sscratch := c\<rparr>) = io_core s"
  "mc_mem m = mc_mem (sc_machine s) \<Longrightarrow> io_core (s\<lparr>sc_machine := m\<rparr>) = io_core s" "(\<And>d. (f d)\<lparr>td_executor_id := 0\<rparr> = d\<lparr>td_executor_id := 0\<rparr>) \<Longrightarrow> io_core (upd_task t f s) = io_core s"
  by (auto simp: io_core_def enable_interrupts_def schedule_timer_def set_timer_def executor_idle_def enable_kernel_interrupts_def
      upd_task_def fun_eq_iff)

lemma task_execute_core: "task_execute t e s = Inr (r, s') \<Longrightarrow> io_core s' = io_core s"
  by (auto simp: task_execute_def bindK_eq_Inr onM_def vms_activate_def Let_def split: if_splits)

lemma executor_loop_core: "executor_loop fuel p c tasks i mt st s = Inr (r, s') \<Longrightarrow> io_core s' = io_core s"
proof (induction fuel arbitrary: i mt st s)
  case (Suc fuel)
  let ?j = "(i + 7) AND 0xf"
  have continue: "io_core s' = io_core t"
    if "(if ?j = p then executor_loop fuel p c tasks ?j mt True t
      else if st then Inr (Some (Idle mt), executor_idle mt t) else executor_loop fuel p c tasks ?j mt st t) = Inr (r, s')" for mt t
    using that Suc.IH by (auto split: if_splits)
  show ?case
  proof (cases "group_task tasks i")
    case (Inl e)
    then show ?thesis using Suc.prems continue by (cases e) (simp add: Let_def)
  next
    case (Inr t)
    let ?s = "enable_interrupts True (schedule_timer (10000000 div 10) (s\<lparr>sc_next_id := i\<rparr>))"
    show ?thesis
    proof (cases "td_wait_time (sc_tasks s t) < c")
      case True
      then obtain q u where "task_execute t (executor_id ?s) ?s = Inr (q, u)"
        using Suc.prems Inr by (auto simp: Let_def bindP_eq_Inr)
      with True show ?thesis
        using Suc.prems Inr continue task_execute_core [of t "executor_id ?s" ?s q u] by (cases q) (auto simp: Let_def)
    next
      case False
      then show ?thesis using Suc.prems Inr continue by (simp add: Let_def)
    qed
  qed
qed simp

lemma executor_next_core: "executor_next fuel s = Inr (r, s') \<Longrightarrow> io_core s' = io_core s"
  unfolding executor_next_def Let_def by (auto split: prod.splits simp: bindP_eq_Inr dest!: executor_loop_core)

lemmas keeps_executor_next [keeps_intros] = io_core_keeps [OF executor_next_core]

lemma keeps_tables [keeps_intros]:
  "keeps (\<lambda>s. P (io_sched s)) (get_table a)" "keeps (\<lambda>s. P (io_sched s)) (put_table a t)"
  "keeps (\<lambda>s. P (io_sched s)) (get_free_pages a)" "keeps (\<lambda>s. P (io_sched s)) (put_free_pages a l)"
  "keeps (\<lambda>s. P (io_sched s)) (getS g)"
  by (auto simp: keeps_def get_table_def put_table_def get_free_pages_def put_free_pages_def getS_def split: if_splits)

lemma keeps_free_slots [keeps_intros]:
  "keeps (\<lambda>s. P (io_sched s)) (pop_free_slot i)" "keeps (\<lambda>s. P (io_sched s)) (push_free_slot i x)"
  "keeps (\<lambda>s. P (io_sched s)) (pop_free_range i n)" "keeps (\<lambda>s. P (io_sched s)) (transmit_ring i)"
  unfolding pop_free_slot_def push_free_slot_def lock_free_stack_def pop_free_range_def transmit_ring_def Let_def
  by (intro keeps_intros)+

lemma keeps_reserve_range [keeps_intros]: "keeps (\<lambda>s. P (io_sched s)) (reserve_range i ptr len)"
  unfolding reserve_range_def Let_def by (intro keeps_intros)

lemma keeps_share [keeps_intros]:
  "keeps (\<lambda>s. queues_ok (io_sched s)) (share_pages n vm rx tx rwx)"
  "keeps (\<lambda>s. queues_ok (io_sched s)) (share_range r vm rwx)"
proof -
  show p: "keeps (\<lambda>s. queues_ok (io_sched s)) (share_pages n vm rx tx rwx)" for n rx tx
    by (induction n; simp only: share_pages.simps) (intro keeps_intros; assumption?)+
  show "keeps (\<lambda>s. queues_ok (io_sched s)) (share_range r vm rwx)"
    unfolding share_range_def by (intro keeps_intros p)
qed

lemma keeps_receiver [keeps_intros]: "keeps (\<lambda>s. queues_ok (io_sched s)) (receiver a)"
  by (auto simp: keeps_def receiver_def bindP_eq_Inr Let_def queues_ok_def split_beta)

lemma keeps_process_packet [keeps_intros]: "keeps (\<lambda>s. queues_ok (io_sched s)) (process_packet i slf a slots n)"
  unfolding process_packet_def Let_def
  by (intro keeps_intros; (rule task_updates(2), simp, assumption)?)

lemma keeps_process_loop [keeps_intros]: "keeps (\<lambda>s. queues_ok (io_sched s)) (process_loop m i slf a slots n)"
  by (induction m arbitrary: n; simp only: process_loop.simps) (intro keeps_intros; assumption?)+

lemma leaves_off: "leaves (\<lambda>s. access_off (io_sched s)) (modS (set_supervisor_userpage_access False))"
  by (simp add: leaves_def modS_def set_supervisor_userpage_access_def access_off_def)

lemma keeps_process_io [keeps_intros]:
  "keeps (\<lambda>s. access_off (io_sched s)) (process_io t a)" "keeps (\<lambda>s. queues_ok (io_sched s)) (process_io t a)"
proof -
  have "leaves (\<lambda>s. access_off (io_sched s)) (process_packets i t a)" for i
    unfolding process_packets_def Let_def split_beta by (intro leaves_bindK leaves_off)
  from leaves_keeps [OF this] show "keeps (\<lambda>s. access_off (io_sched s)) (process_io t a)"
    by (auto simp: keeps_def process_io_def split: option.splits)
  have "keeps (\<lambda>s. queues_ok (io_sched s)) (process_packets i t a)" if "ipc_ok i" for i
    unfolding process_packets_def Let_def using that
    by (intro keeps_intros) (auto simp: queues_ok_def upd_task_def ipc_ok_def set_supervisor_userpage_access_def split: if_splits)
  then show "keeps (\<lambda>s. queues_ok (io_sched s)) (process_io t a)"
    unfolding keeps_def process_io_def by (auto split: option.splits dest: queues_okD)
qed

subsection \<open>The calls\<close>

lemma set_access [simp]:
  "io_core (set_supervisor_userpage_access b s) = (b, snd (io_core s))"
  "queues_ok (set_supervisor_userpage_access b s) = queues_ok s"
  by (simp_all add: io_core_def queues_ok_def set_supervisor_userpage_access_def)

lemma keeps_task_new [keeps_intros]: "keeps access_off (task_new vms)" "keeps queues_ok (task_new vms)"
  by (auto simp: keeps_def task_new_def bindK_eq_Inr bindP_eq_Inr Let_def access_off_def queues_ok_def upd_task_def onM_def
      split: sum.splits if_splits)

lemma keeps_insert_task [keeps_intros]: "keeps access_off (insert_task t)" "keeps queues_ok (insert_task t)"
  by (auto simp: keeps_def insert_task_def bindP_eq_Inr access_off_def queues_ok_def split_beta)

lemma keeps_onPlic [keeps_intros]:
  "keeps (\<lambda>k. P (k_io k)) (onPlic f)" "keeps (\<lambda>k. Q (k_registry k)) (onPlic f)"
  "keeps R f \<Longrightarrow> keeps (\<lambda>k. R (k_plic k)) (onPlic f)"
  by (auto simp: keeps_def onPlic_def bindP_eq_Inr)

lemma keeps_loops:
  assumes "\<And>f :: unit kern. keeps P (onMem f)" "\<And>f :: ppn kern. keeps P (onMem f)"
  shows "keeps P (spawn_mappings vms base n)" "keeps P (dma_take i n ppns)" "keeps P (dma_map i n a ppns)"
proof -
  show "keeps P (spawn_mappings vms base n)"
    by (induction n arbitrary: base; simp only: spawn_mappings.simps Let_def) (intro keeps_intros assms; assumption?)+
  show "keeps P (dma_take i n ppns)"
    by (induction n arbitrary: i ppns; simp only: dma_take.simps) (intro keeps_intros assms; assumption?)+
  show "keeps P (dma_map i n a ppns)"
    by (induction n arbitrary: i a ppns; simp only: dma_map.simps) (intro keeps_intros assms; assumption?)+
qed

lemmas keeps_loops_inst [keeps_intros] =
  keeps_loops [where P = "\<lambda>k. access_off (k_sched k)", OF keeps_onIO(1) keeps_onIO(1), OF keeps_onS keeps_onS, OF keeps_onM(1) keeps_onM(1)]
  keeps_loops [where P = "\<lambda>k. queues_ok (k_sched k)", OF keeps_onIO(1) keeps_onIO(1), OF keeps_onS keeps_onS, OF keeps_onM(2) keeps_onM(2)]

lemma keeps_loops_other [keeps_intros]:
  "keeps (\<lambda>k. Q (k_registry k)) (spawn_mappings vms base n)" "keeps (\<lambda>k. R (k_plic k)) (spawn_mappings vms base n)"
  "keeps (\<lambda>k. Q (k_registry k)) (dma_take i n ppns)" "keeps (\<lambda>k. R (k_plic k)) (dma_take i n ppns)"
  "keeps (\<lambda>k. Q (k_registry k)) (dma_map i n a ppns)" "keeps (\<lambda>k. R (k_plic k)) (dma_map i n a ppns)"
  by (rule keeps_loops; rule keeps_onIO)+

lemma keeps_memory [keeps_intros]:
  "keeps access_off (allocate_memory p n rwx)" "keeps queues_ok (allocate_memory p n rwx)"
  "keeps access_off (deallocate_memory p n)" "keeps queues_ok (deallocate_memory p n)"
  unfolding allocate_memory_def deallocate_memory_def by (intro keeps_intros)+

lemmas sys_defs = sys_io_set_queues_def sys_io_notify_return_def sys_mem_alloc_def sys_mem_dealloc_def sys_mem_get_flags_def
  sys_mem_set_flags_def sys_dev_dma_alloc_def sys_platform_info_def sys_direct_alloc_def sys_reserve_interrupt_def sys_placeholder_def

lemma queues_ok_updates:
  "queues_ok s \<Longrightarrow> queues_ok (clear_notified t s)" "queues_ok s \<Longrightarrow> queues_ok (wait_duration t d s)"
  "queues_ok s \<Longrightarrow> queues_ok (set_pc t a s)" "queues_ok s \<Longrightarrow> queues_ok (set_stack_pointer t a s)"
  "queues_ok s \<Longrightarrow> queues_ok (set_queues t None s)" "queues_ok s \<Longrightarrow> ipc_ok i \<Longrightarrow> queues_ok (set_queues t (Some i) s)"
  by (auto simp: queues_ok_def clear_notified_def wait_duration_def set_pc_def set_stack_pointer_def set_queues_def upd_task_def)

lemma access_off_updates:
  "access_off s \<Longrightarrow> access_off (clear_notified t s)" "access_off s \<Longrightarrow> access_off (wait_duration t d s)"
  "access_off s \<Longrightarrow> access_off (set_pc t a s)" "access_off s \<Longrightarrow> access_off (set_stack_pointer t a s)"
  "access_off s \<Longrightarrow> access_off (set_queues t q s)"
  by (auto simp: access_off_def clear_notified_def wait_duration_def set_pc_def set_stack_pointer_def set_queues_def upd_task_def)

lemma access_simple:
  "keeps (\<lambda>k. access_off (k_sched k)) (sys_io_wait fuel t a)"
  "keeps (\<lambda>k. access_off (k_sched k)) (sys_io_set_queues t a b c d)"
  "keeps (\<lambda>k. access_off (k_sched k)) (sys_io_notify_return t a)"
  "keeps (\<lambda>k. access_off (k_sched k)) (sys_mem_alloc a b c)"
  "keeps (\<lambda>k. access_off (k_sched k)) (sys_mem_dealloc a b)"
  "keeps (\<lambda>k. access_off (k_sched k)) sys_mem_get_flags"
  "keeps (\<lambda>k. access_off (k_sched k)) sys_mem_set_flags"
  "keeps (\<lambda>k. access_off (k_sched k)) (sys_dev_dma_alloc a b)"
  "keeps (\<lambda>k. access_off (k_sched k)) (sys_platform_info a)"
  "keeps (\<lambda>k. access_off (k_sched k)) (sys_direct_alloc a b c)"
  "keeps (\<lambda>k. access_off (k_sched k)) (sys_reserve_interrupt a)"
  "keeps (\<lambda>k. access_off (k_sched k)) sys_placeholder"
  unfolding sys_defs sys_io_wait_def Let_def by (intro keeps_intros access_off_updates; assumption?)+

lemma leaves_modSched_off: "leaves (\<lambda>k. access_off (k_sched k)) (modSched (set_supervisor_userpage_access False))"
  by (simp add: leaves_def onIO_def modS_def set_supervisor_userpage_access_def access_off_def)

lemma keeps_set_state [keeps_intros]:
  "keeps (\<lambda>k. P (k_io k)) (\<lambda>k. Inr (x, k\<lparr>k_console := c k\<rparr>))" "keeps (\<lambda>k. Q (k_registry k)) (\<lambda>k. Inr (x, k\<lparr>k_console := c k\<rparr>))"
  "keeps (\<lambda>k. R (k_plic k)) (\<lambda>k. Inr (x, k\<lparr>k_console := c k\<rparr>))"
  "keeps (\<lambda>k. P (k_io k)) (\<lambda>k. Inr (x, k\<lparr>k_plic := p\<rparr>))" "keeps (\<lambda>k. Q (k_registry k)) (\<lambda>k. Inr (x, k\<lparr>k_plic := p\<rparr>))"
  by (simp_all add: keeps_def)

text \<open>A call that turns access off after its third step.\<close>

lemma access_toggled:
  assumes "\<And>x y z w. keeps (\<lambda>k. access_off (k_sched k)) (g x y z w)"
  shows "keeps (\<lambda>k. access_off (k_sched k))
    (bindK f1 (\<lambda>x. bindK (f2 x) (\<lambda>y. bindK (f3 x y) (\<lambda>z. bindK (modSched (set_supervisor_userpage_access False)) (g x y z)))))"
  by (rule leaves_keeps, rule leaves_bindK, rule leaves_bindK, rule leaves_bindK, rule leaves_then_keeps [OF leaves_modSched_off assms])

lemma access_other:
  "keeps (\<lambda>k. access_off (k_sched k)) (sys_io_set_notify_handler t a)"
  "keeps (\<lambda>k. access_off (k_sched k)) (sys_set_interrupt_controller a b c)"
  "keeps (\<lambda>k. access_off (k_sched k)) (sys_mem_physical_addresses a b c)"
  "keeps (\<lambda>k. access_off (k_sched k)) (sys_task_spawn a b c d)"
  "keeps (\<lambda>k. access_off (k_sched k)) (sys_log a b)"
  "keeps (\<lambda>k. access_off (k_sched k)) (sys_registry_add a b c)"
  "keeps (\<lambda>k. access_off (k_sched k)) (sys_registry_get a b)"
proof -
  show "keeps (\<lambda>k. access_off (k_sched k)) (sys_io_set_notify_handler t a)"
    by (simp add: keeps_def sys_io_set_notify_handler_def set_notification_handler_def access_off_def upd_task_def)
  show "keeps (\<lambda>k. access_off (k_sched k)) (sys_set_interrupt_controller a b c)"
    unfolding sys_set_interrupt_controller_def by (intro keeps_intros)
  show "keeps (\<lambda>k. access_off (k_sched k)) (sys_mem_physical_addresses a b c)"
    unfolding sys_mem_physical_addresses_def split_beta
    by (intro keeps_cases keeps_basic leaves_keeps leaves_bindK leaves_then_keeps leaves_modSched_off)
  show "keeps (\<lambda>k. access_off (k_sched k)) (sys_task_spawn a b c d)"
    unfolding sys_task_spawn_def
    by (rule access_toggled) (intro keeps_intros access_off_updates; assumption)
  show "keeps (\<lambda>k. access_off (k_sched k)) (sys_log a b)"
    unfolding sys_log_def by (rule access_toggled) (intro keeps_intros)
  show "keeps (\<lambda>k. access_off (k_sched k)) (sys_registry_add a b c)"
    unfolding sys_registry_add_def Let_def
    by (rule access_toggled) (intro keeps_intros)
  show "keeps (\<lambda>k. access_off (k_sched k)) (sys_registry_get a b)"
    unfolding sys_registry_get_def Let_def
    by (rule access_toggled) (intro keeps_intros)
qed

lemmas sys_all = sys_defs sys_io_wait_def sys_set_interrupt_controller_def sys_mem_physical_addresses_def
  sys_task_spawn_def sys_log_def sys_registry_add_def sys_registry_get_def Let_def

lemma queues_all:
  "keeps (\<lambda>k. queues_ok (k_sched k)) (sys_io_wait fuel t a)"
  "keeps (\<lambda>k. queues_ok (k_sched k)) (sys_io_notify_return t a)"
  "keeps (\<lambda>k. queues_ok (k_sched k)) (sys_mem_alloc a b c)"
  "keeps (\<lambda>k. queues_ok (k_sched k)) (sys_mem_dealloc a b)"
  "keeps (\<lambda>k. queues_ok (k_sched k)) sys_mem_get_flags"
  "keeps (\<lambda>k. queues_ok (k_sched k)) sys_mem_set_flags"
  "keeps (\<lambda>k. queues_ok (k_sched k)) (sys_dev_dma_alloc a b)"
  "keeps (\<lambda>k. queues_ok (k_sched k)) (sys_platform_info a)"
  "keeps (\<lambda>k. queues_ok (k_sched k)) (sys_direct_alloc a b c)"
  "keeps (\<lambda>k. queues_ok (k_sched k)) (sys_reserve_interrupt a)"
  "keeps (\<lambda>k. queues_ok (k_sched k)) sys_placeholder"
  "keeps (\<lambda>k. queues_ok (k_sched k)) (sys_set_interrupt_controller a b c)"
  "keeps (\<lambda>k. queues_ok (k_sched k)) (sys_mem_physical_addresses a b c)"
  "keeps (\<lambda>k. queues_ok (k_sched k)) (sys_task_spawn a b c d)"
  "keeps (\<lambda>k. queues_ok (k_sched k)) (sys_log a b)"
  unfolding sys_all by (intro keeps_intros queues_ok_updates; simp?)+

lemma queues_set:
  "keeps (\<lambda>k. queues_ok (k_sched k)) (sys_io_set_queues t a b c d)"
  "keeps (\<lambda>k. queues_ok (k_sched k)) (sys_io_set_notify_handler t a)"
proof -
  have "keeps (\<lambda>k. queues_ok (k_sched k))
      (bindK (liftK (unwrapR (ipc_new a (ucast b) c d))) (\<lambda>i. bindK (modSched (set_queues t (Some i))) (\<lambda>_. retK (Return ST_Ok 0))))"
    by (auto simp: keeps_def bindK_eq_Inr liftK_def onIO_def modS_def dest: ipc_new_ok intro: queues_ok_updates split: sum.splits)
  moreover have "keeps (\<lambda>k. queues_ok (k_sched k)) (bindK (modSched (set_queues t None)) (\<lambda>_. retK (Return ST_Ok 0)))"
    by (intro keeps_intros queues_ok_updates; assumption)
  ultimately show "keeps (\<lambda>k. queues_ok (k_sched k)) (sys_io_set_queues t a b c d)"
    unfolding sys_io_set_queues_def by (simp add: keeps_basic)
  show "keeps (\<lambda>k. queues_ok (k_sched k)) (sys_io_set_notify_handler t a)"
    by (auto simp: keeps_def sys_io_set_notify_handler_def set_notification_handler_def queues_ok_def upd_task_def)
qed

lemma keeps_registry:
  "keeps (\<lambda>k. P (k_io k)) (\<lambda>k. case registry_add bs addr (k_registry k) of (r, reg) \<Rightarrow> Inr (r, k\<lparr>k_registry := reg\<rparr>))"
  "keeps (\<lambda>k. R (k_plic k)) (\<lambda>k. case registry_add bs addr (k_registry k) of (r, reg) \<Rightarrow> Inr (r, k\<lparr>k_registry := reg\<rparr>))"
  "keeps (\<lambda>k. P (k_io k)) (\<lambda>k. bindP (registry_get bs (k_registry k)) (\<lambda>(r, reg). Inr (r, k\<lparr>k_registry := reg\<rparr>)))"
  "keeps (\<lambda>k. R (k_plic k)) (\<lambda>k. bindP (registry_get bs (k_registry k)) (\<lambda>(r, reg). Inr (r, k\<lparr>k_registry := reg\<rparr>)))"
  "keeps S (\<lambda>k. if has_length (k_registry k) n then user_slice k_bytes 1 a n k else Inr (replicate n 0, k))"
  using keeps_user_slice [of S k_bytes 1 a n] by (auto simp: keeps_def bindP_eq_Inr split: prod.splits if_splits)

lemma queues_registry:
  "keeps (\<lambda>k. queues_ok (k_sched k)) (sys_registry_add a b c)"
  "keeps (\<lambda>k. queues_ok (k_sched k)) (sys_registry_get a b)"
  unfolding sys_registry_add_def sys_registry_get_def Let_def by (intro keeps_intros keeps_registry; simp?)+

text \<open>Only \<open>sys_registry_add\<close> and \<open>sys_registry_get\<close> touch the registry.\<close>

lemma registry_untouched:
  "keeps (\<lambda>k. Q (k_registry k)) (sys_io_wait fuel t a)"
  "keeps (\<lambda>k. Q (k_registry k)) (sys_io_set_queues t a b c d)"
  "keeps (\<lambda>k. Q (k_registry k)) (sys_io_set_notify_handler t a)"
  "keeps (\<lambda>k. Q (k_registry k)) (sys_io_notify_return t a)"
  "keeps (\<lambda>k. Q (k_registry k)) (sys_mem_alloc a b c)"
  "keeps (\<lambda>k. Q (k_registry k)) (sys_mem_dealloc a b)"
  "keeps (\<lambda>k. Q (k_registry k)) sys_mem_get_flags"
  "keeps (\<lambda>k. Q (k_registry k)) sys_mem_set_flags"
  "keeps (\<lambda>k. Q (k_registry k)) (sys_dev_dma_alloc a b)"
  "keeps (\<lambda>k. Q (k_registry k)) (sys_platform_info a)"
  "keeps (\<lambda>k. Q (k_registry k)) (sys_direct_alloc a b c)"
  "keeps (\<lambda>k. Q (k_registry k)) (sys_reserve_interrupt a)"
  "keeps (\<lambda>k. Q (k_registry k)) sys_placeholder"
  "keeps (\<lambda>k. Q (k_registry k)) (sys_set_interrupt_controller a b c)"
  "keeps (\<lambda>k. Q (k_registry k)) (sys_mem_physical_addresses a b c)"
  "keeps (\<lambda>k. Q (k_registry k)) (sys_task_spawn a b c d)"
  "keeps (\<lambda>k. Q (k_registry k)) (sys_log a b)"
proof -
  show "keeps (\<lambda>k. Q (k_registry k)) (sys_io_set_notify_handler t a)"
    by (simp add: keeps_def sys_io_set_notify_handler_def set_notification_handler_def)
qed (unfold sys_all, (intro keeps_intros; simp?)+)

lemma registry_add_inv: "registry_inv r \<Longrightarrow> registry_add name a r = (x, r') \<Longrightarrow> registry_inv r'"
proof (cases "length name \<le> 31")
  case True
  assume r: "registry_inv r" "registry_add name a r = (x, r')"
  then have "unat (rg_count r) < 16 \<or> unat (rg_count r) = 16" by (auto simp: registry_inv_def)
  then show ?thesis using registry_add_eq [OF r(1) True, of a] r by auto
qed (auto simp: registry_add_def)

lemma registry_calls:
  "keeps (\<lambda>k. registry_inv (k_registry k)) (sys_registry_add a b c)"
  "keeps (\<lambda>k. registry_inv (k_registry k)) (sys_registry_get a b)"
proof -
  have "keeps (\<lambda>k. registry_inv (k_registry k)) (\<lambda>k. case registry_add bs addr (k_registry k) of (r, reg) \<Rightarrow> Inr (r, k\<lparr>k_registry := reg\<rparr>))" for bs addr
    by (auto simp: keeps_def dest: registry_add_inv split: prod.splits)
  then show "keeps (\<lambda>k. registry_inv (k_registry k)) (sys_registry_add a b c)"
    unfolding sys_registry_add_def Let_def by (intro keeps_intros; simp?)
  have "keeps (\<lambda>k. registry_inv (k_registry k)) (\<lambda>k. bindP (registry_get bs (k_registry k)) (\<lambda>(r, reg). Inr (r, k\<lparr>k_registry := reg\<rparr>)))" for bs
    by (auto simp: keeps_def bindP_eq_Inr registry_get_eq split: prod.splits)
  then show "keeps (\<lambda>k. registry_inv (k_registry k)) (sys_registry_get a b)"
    unfolding sys_registry_get_def Let_def by (intro keeps_intros keeps_registry(5); simp?)
qed

text \<open>Only \<open>sys_reserve_interrupt\<close> and \<open>sys_set_interrupt_controller\<close> touch the interrupt controller.\<close>

lemma plic_untouched:
  "keeps (\<lambda>k. R (k_plic k)) (sys_io_wait fuel t a)"
  "keeps (\<lambda>k. R (k_plic k)) (sys_io_set_queues t a b c d)"
  "keeps (\<lambda>k. R (k_plic k)) (sys_io_set_notify_handler t a)"
  "keeps (\<lambda>k. R (k_plic k)) (sys_io_notify_return t a)"
  "keeps (\<lambda>k. R (k_plic k)) (sys_mem_alloc a b c)"
  "keeps (\<lambda>k. R (k_plic k)) (sys_mem_dealloc a b)"
  "keeps (\<lambda>k. R (k_plic k)) sys_mem_get_flags"
  "keeps (\<lambda>k. R (k_plic k)) sys_mem_set_flags"
  "keeps (\<lambda>k. R (k_plic k)) (sys_dev_dma_alloc a b)"
  "keeps (\<lambda>k. R (k_plic k)) (sys_platform_info a)"
  "keeps (\<lambda>k. R (k_plic k)) (sys_direct_alloc a b c)"
  "keeps (\<lambda>k. R (k_plic k)) sys_placeholder"
  "keeps (\<lambda>k. R (k_plic k)) (sys_mem_physical_addresses a b c)"
  "keeps (\<lambda>k. R (k_plic k)) (sys_task_spawn a b c d)"
  "keeps (\<lambda>k. R (k_plic k)) (sys_log a b)"
  "keeps (\<lambda>k. R (k_plic k)) (sys_registry_add a b c)"
  "keeps (\<lambda>k. R (k_plic k)) (sys_registry_get a b)"
proof -
  show "keeps (\<lambda>k. R (k_plic k)) (sys_io_set_notify_handler t a)"
    by (simp add: keeps_def sys_io_set_notify_handler_def set_notification_handler_def)
  show "keeps (\<lambda>k. R (k_plic k)) (sys_registry_add a b c)" "keeps (\<lambda>k. R (k_plic k)) (sys_registry_get a b)"
    unfolding sys_registry_add_def sys_registry_get_def Let_def by (intro keeps_intros keeps_registry; simp?)+
qed (unfold sys_all, (intro keeps_intros; simp?)+)

lemma plic_reserve_length: "plic_reserve source a p = Inr (r, p') \<Longrightarrow> length (pl_reservations p') = length (pl_reservations p)"
proof -
  have "enable_reserved x q = Inr q' \<Longrightarrow> pl_reservations q' = pl_reservations q" for x q q'
    by (auto simp: enable_reserved_def Let_def split_beta bindP_eq_Inr plic_enable_def set_priority_def set_priority_threshold_def
        split: sum.splits prod.splits)
  then show "plic_reserve source a p = Inr (r, p') \<Longrightarrow> length (pl_reservations p') = length (pl_reservations p)"
    by (fastforce simp: plic_reserve_def bindP_eq_Inr Let_def split: option.splits if_splits)
qed

lemma plic_calls:
  "keeps (\<lambda>k. length (pl_reservations (k_plic k)) = n) (sys_reserve_interrupt a)"
  "keeps (\<lambda>k. length (pl_reservations (k_plic k)) = n) (sys_set_interrupt_controller a b c)"
proof -
  have "keeps (\<lambda>p. length (pl_reservations p) = n) (plic_reserve x y)" for x y
    by (auto simp: keeps_def dest: plic_reserve_length)
  then show "keeps (\<lambda>k. length (pl_reservations (k_plic k)) = n) (sys_reserve_interrupt a)"
    unfolding sys_reserve_interrupt_def by (intro keeps_intros)
  show "keeps (\<lambda>k. length (pl_reservations (k_plic k)) = n) (sys_set_interrupt_controller a b c)"
    by (auto simp: keeps_def sys_set_interrupt_controller_def bindK_eq_Inr getK_def onIO_def onS_def onM_def set_controller_def liftK_def
        split: sum.splits)
qed

lemma keeps_kernel_inv:
  assumes "keeps (\<lambda>k. access_off (k_sched k)) f" "keeps (\<lambda>k. queues_ok (k_sched k)) f"
    "keeps (\<lambda>k. registry_inv (k_registry k)) f" "keeps (\<lambda>k. length (pl_reservations (k_plic k)) = 1023) f"
  shows "keeps kernel_inv f"
  using assms unfolding keeps_def kernel_inv_def by blast

lemma syscalls_keep_inv: "\<forall>f \<in> set (syscall_table fuel a0 a1 a2 a3 task). keeps kernel_inv f"
  unfolding syscall_table_def list.set ball_simps
  by (intro conjI keeps_kernel_inv access_simple access_other queues_all queues_set queues_registry registry_untouched registry_calls
      plic_untouched plic_calls TrueI)


definition kernel_ex :: kernel where
  "kernel_ex = \<lparr>k_io = \<lparr>io_sched = (sched_ex 0)\<lparr>sc_user_access := False\<rparr>, io_tables = \<lambda>_ _. undefined, io_free_pages = \<lambda>_ _. []\<rparr>,
     k_registry = registry_empty, k_plic = \<lparr>pl_total_sources = 0, pl_reservations = replicate 1023 0, pl_regs = \<lambda>_. 0\<rparr>,
     k_platform_info_phys_ptr = 0, k_platform_info_size = 0, k_bytes = \<lambda>_ a. Some (ucast a), k_words = \<lambda>_ _. None,
     k_mappings = \<lambda>_ _. None, k_console = []\<rparr>"

lemma kernel_ex_inv: "kernel_inv kernel_ex"
  by (simp add: kernel_inv_def kernel_ex_def access_off_def queues_ok_def registry_inv_empty sched_ex_def task_ex_def)

subsection \<open>Names\<close>

text \<open>The bytes at an address of the task that calls.\<close>

definition has_bytes :: "kernel \<Rightarrow> usize \<Rightarrow> u8 list \<Rightarrow> bool" where
  "has_bytes k a bs \<longleftrightarrow> (\<forall>i < length bs. k_bytes k (active_vms (k_io k)) (a + of_nat i) = Some (bs ! i))"

lemma has_bytes_Cons: "has_bytes k a (b # bs) \<longleftrightarrow> k_bytes k (active_vms (k_io k)) a = Some b \<and> has_bytes k (a + 1) bs"
  unfolding has_bytes_def by (auto simp: less_Suc_eq_0_disj add.assoc [symmetric])

lemma user_slice_bytes:
  "sc_user_access (k_sched k) \<Longrightarrow> has_bytes k a bs \<Longrightarrow> user_slice k_bytes 1 a (length bs) k = Inr (bs, k)"
  by (induction bs arbitrary: a) (auto simp: has_bytes_Cons bindK_def)

abbreviation with_access :: "kernel \<Rightarrow> bool \<Rightarrow> kernel" where
  "with_access k b \<equiv> k\<lparr>k_io := (k_io k)\<lparr>io_sched := (k_sched k)\<lparr>sc_user_access := b\<rparr>\<rparr>\<rparr>"

lemma set_access_eq: "modSched (set_supervisor_userpage_access b) k = Inr ((), with_access k b)"
  by (simp add: onIO_def modS_def set_supervisor_userpage_access_def)

lemma with_access_off: "access_off (k_sched k) \<Longrightarrow> with_access k False = k"
  by (auto simp: access_off_def)

definition registered_address :: "usize \<Rightarrow> kernel \<Rightarrow> task_address" where
  "registered_address address k = (if address = USIZE_MAX then current_address (k_sched k) else address)"

lemma registered_address_eq:
  "(if address = USIZE_MAX then current_address (k_sched k) else address_todo address) = registered_address address k"
  by (simp add: registered_address_def address_todo_def)

lemma sys_registry_add_eq:
  assumes "kernel_inv k" "has_bytes k a bs" "unat n = length bs" "length bs \<le> 31" "unat (rg_count (k_registry k)) < 16"
  shows "\<exists>r. sys_registry_add a n address k = Inr (Return ST_Ok 0, k\<lparr>k_registry := r\<rparr>) \<and> registry_inv r
    \<and> registry_list r = registry_list (k_registry k) @ [(bs, registered_address address k)]"
proof -
  have inv: "access_off (k_sched k)" "registry_inv (k_registry k)" using assms(1) by (auto simp: kernel_inv_def)
  from registry_add_eq(1) [OF inv(2) assms(4,5), of "registered_address address k"]
  obtain r where r: "registry_add bs (registered_address address k) (k_registry k) = (Inr (), r)" "registry_inv r"
    "registry_list r = registry_list (k_registry k) @ [(bs, registered_address address k)]" by blast
  have "user_slice k_bytes 1 a (length bs) (with_access k True) = Inr (bs, with_access k True)"
    using assms(2) by (intro user_slice_bytes) (simp_all add: has_bytes_def)
  with r(1) have "sys_registry_add a n address k = Inr (Return ST_Ok 0, with_access (k\<lparr>k_registry := r\<rparr>) False)"
    using assms(3,4)
    by (simp add: sys_registry_add_def bindK_def getK_def set_access_eq registered_address_eq)
  moreover have "with_access (k\<lparr>k_registry := r\<rparr>) False = k\<lparr>k_registry := r\<rparr>" using inv(1) by (intro with_access_off) simp
  ultimately show ?thesis using r by auto
qed

lemma no_such_length:
  assumes "registry_inv r" "\<not> has_length r (length bs)"
  shows "map_of (registry_list r) bs = None"
proof -
  have "entry_name (the e) \<noteq> bs" if e: "e \<in> set (take (unat (rg_count r)) (rg_entries r))" for e
  proof
    assume n: "entry_name (the e) = bs"
    obtain i where "i < unat (rg_count r)" "e = rg_entries r ! i" using e by (auto simp: in_set_conv_nth)
    then obtain x where x: "e = Some x" using assms(1) unfolding registry_inv_def by blast
    then have "length (entry_name x) \<noteq> length bs" using assms(2) e unfolding has_length_def by force
    with n x show False by simp
  qed
  then have "bs \<notin> fst ` set (registry_list r)" unfolding registry_list_def by force
  then show ?thesis by (simp add: map_of_eq_None_iff)
qed

lemma sys_registry_get_eq:
  assumes "kernel_inv k" "has_bytes k a bs" "unat n = length bs"
  shows "sys_registry_get a n k = Inr (case map_of (registry_list (k_registry k)) bs of Some addr \<Rightarrow> Return ST_Ok addr | None \<Rightarrow> Return ST_NotFound 0, k)"
proof -
  let ?r = "k_registry k" and ?k = "with_access k True"
  have inv: "access_off (k_sched k)" "registry_inv ?r" using assms(1) by (auto simp: kernel_inv_def)
  have slice: "user_slice k_bytes 1 a (length bs) ?k = Inr (bs, ?k)"
    using assms(2) by (intro user_slice_bytes) (simp_all add: has_bytes_def)
  have "sys_registry_get a n k =
      Inr (case map_of (registry_list ?r) bs of Some addr \<Rightarrow> Return ST_Ok addr | None \<Rightarrow> Return ST_NotFound 0, with_access k False)"
  proof (cases "has_length ?r (length bs)")
    case True
    then show ?thesis
      using slice assms(3) registry_get_eq [OF inv(2)] by (simp add: sys_registry_get_def bindK_def set_access_eq)
  next
    case False
    then show ?thesis
      using no_such_length [OF inv(2), of bs] no_such_length [OF inv(2), of "replicate (length bs) 0"] assms(3) registry_get_eq [OF inv(2)]
      by (simp add: sys_registry_get_def bindK_def set_access_eq)
  qed
  then show ?thesis using with_access_off [OF inv(1)] by simp
qed

text \<open>
  C25. A name that is registered can be looked up. With room in the registry, \<open>sys_registry_add\<close> succeeds
  for a name of up to 31 bytes that is not taken, and from then on \<open>sys_registry_get\<close> answers the same
  bytes, wherever they lie, with the address, or with the caller's own if the maximum was given; all
  other names are answered as before.
\<close>
theorem registered_name_found:
  assumes "kernel_inv k" "has_bytes k a bs" "unat n = length bs" "length bs \<le> 31" "unat (rg_count (k_registry k)) < 16"
    "map_of (registry_list (k_registry k)) bs = None"
  shows "\<exists>k'. sys_registry_add a n address k = Inr (Return ST_Ok 0, k') \<and> kernel_inv k'
    \<and> (\<forall>b m. has_bytes k b bs \<and> unat m = length bs \<longrightarrow> sys_registry_get b m k' = Inr (Return ST_Ok (registered_address address k), k'))
    \<and> (\<forall>b m bs'. has_bytes k b bs' \<and> unat m = length bs' \<and> bs' \<noteq> bs \<longrightarrow>
        map_sum id fst (sys_registry_get b m k') = map_sum id fst (sys_registry_get b m k))"
proof -
  obtain r where r: "sys_registry_add a n address k = Inr (Return ST_Ok 0, k\<lparr>k_registry := r\<rparr>)" "registry_inv r"
      "registry_list r = registry_list (k_registry k) @ [(bs, registered_address address k)]"
    using sys_registry_add_eq [OF assms(1-5)] by blast
  let ?k = "k\<lparr>k_registry := r\<rparr>"
  have inv: "kernel_inv ?k" using assms(1) r(2) by (simp add: kernel_inv_def)
  have b: "has_bytes ?k b xs \<longleftrightarrow> has_bytes k b xs" for b xs by (simp add: has_bytes_def)
  have "map_of (registry_list r) bs = Some (registered_address address k)"
    using assms(6) r(3) by (simp add: map_add_Some_iff)
  moreover have "map_of (registry_list r) xs = map_of (registry_list (k_registry k)) xs" if "xs \<noteq> bs" for xs
    using that r(3) by (simp add: map_add_def split: option.split)
  ultimately show ?thesis
    using sys_registry_get_eq [OF inv] sys_registry_get_eq [OF assms(1)] r(1) inv by (intro exI [of _ ?k]) (auto simp: b)
qed

lemma kernel_ex_bytes: "has_bytes kernel_ex 65 [65, 66]"
  by (simp add: has_bytes_Cons) (simp add: kernel_ex_def has_bytes_def)

lemma kernel_ex_registry: "unat (rg_count (k_registry kernel_ex)) < 16" "registry_list (k_registry kernel_ex) = []"
  by (simp_all add: kernel_ex_def registry_inv_empty, simp add: registry_empty_def)

lemma registered_name_found_witness:
  "\<exists>k'. sys_registry_add 65 2 7 kernel_ex = Inr (Return ST_Ok 0, k') \<and> sys_registry_get 65 2 k' = Inr (Return ST_Ok 7, k')"
proof -
  have "registered_address 7 kernel_ex = 7" by (simp add: registered_address_def)
  then show ?thesis
    using registered_name_found [OF kernel_ex_inv kernel_ex_bytes _ _ kernel_ex_registry(1), of 2 7] kernel_ex_bytes kernel_ex_registry(2)
    by auto
qed


end
