(* ===== verification/Syscall_Memory.thy ===== *)
theory Syscall_Memory
  imports Syscall_Props
begin

text \<open>
  Memory calls from end to end: from the arguments of \<open>mem_alloc\<close> and \<open>dev_dma_alloc\<close> to the page tables
  and frames of the task that calls.
\<close>

subsection \<open>Protection flags\<close>

lemma flags_cases: "f AND 7 \<in> {0, 1, 2, 3, 4, 5, 6, 7 :: usize}"
proof -
  have "f AND 7 = f AND mask 3" by (simp add: mask_eq_exp_minus_1)
  then have "unat (f AND 7) < 8" using unat_and_mask [of f 3] by simp
  then have "unat (f AND 7) \<in> {0, 1, 2, 3, 4, 5, 6, 7}" by auto
  then show ?thesis by (auto simp: word_unat_eq_iff)
qed

lemma bit_flags: "i < 3 \<Longrightarrow> bit (f :: usize) i \<longleftrightarrow> bit (f AND 7) i"
proof -
  assume "i < 3"
  moreover have "f AND 7 = take_bit 3 f" by (simp add: take_bit_eq_mask mask_eq_exp_minus_1)
  ultimately show ?thesis by (simp add: bit_take_bit_iff)
qed

text \<open>The permissions of a leaf that is mapped with decoded flags are the flags.\<close>

definition leaf_flags_are :: "leaf \<Rightarrow> usize \<Rightarrow> bool" where
  "leaf_flags_are e f \<longleftrightarrow> (bit e 1 \<longleftrightarrow> bit f 0) \<and> (bit e 2 \<longleftrightarrow> bit f 1) \<and> (bit e 3 \<longleftrightarrow> bit f 2)"

lemma decode_rwx_flags_cases:
  "f AND 7 \<in> {0, 2, 6} \<Longrightarrow> decode_rwx_flags f = Inl InvalidPageFlags"
  "f AND 7 \<notin> {0, 2, 6} \<Longrightarrow> \<exists>rwx. decode_rwx_flags f = Inr rwx \<and> (\<forall>mp acc. leaf_flags_are (mapped_leaf mp rwx acc) f)"
proof -
  show "f AND 7 \<in> {0, 2, 6} \<Longrightarrow> decode_rwx_flags f = Inl InvalidPageFlags"
    by (auto simp: decode_rwx_flags_def PROTECT_R_def PROTECT_W_def PROTECT_X_def)
  assume "f AND 7 \<notin> {0, 2, 6}"
  then consider "f AND 7 = 1" | "f AND 7 = 3" | "f AND 7 = 4" | "f AND 7 = 5" | "f AND 7 = 7" using flags_cases [of f] by auto
  then show "\<exists>rwx. decode_rwx_flags f = Inr rwx \<and> (\<forall>mp acc. leaf_flags_are (mapped_leaf mp rwx acc) f)"
    by cases (simp_all add: decode_rwx_flags_def PROTECT_R_def PROTECT_W_def PROTECT_X_def leaf_flags_are_def mapped_leaf_def
        bit_flags [of 0 f] bit_flags [of 1 f] bit_flags [of 2 f] bit_pte bit_leaf_flags del: One_nat_def, simp_all)
qed

subsection \<open>\<open>mem_alloc\<close>\<close>

abbreviation k_machine :: "kernel \<Rightarrow> machine" where
  "k_machine k \<equiv> sc_machine (k_sched k)"

definition set_machine :: "kernel \<Rightarrow> machine \<Rightarrow> kernel" where
  "set_machine k m = k\<lparr>k_io := (k_io k)\<lparr>io_sched := (k_sched k)\<lparr>sc_machine := m\<rparr>\<rparr>\<rparr>"

lemma onMem_Inr: "f (k_machine k) = Inr (x, m) \<Longrightarrow> onMem f k = Inr (x, set_machine k m)"
  by (simp add: onIO_def onS_def onM_def set_machine_def)

lemma onMem_Inl: "f (k_machine k) = Inl p \<Longrightarrow> onMem f k = Inl p"
  by (simp add: onIO_def onS_def onM_def)

lemma set_machine_simps [simp]: "k_machine (set_machine k m) = m" "set_machine (set_machine k m) m' = set_machine k m'"
  "set_machine k (k_machine k) = k"
  by (simp_all add: set_machine_def)

text \<open>
  C23. \<open>mem_alloc\<close> gives a task memory of its own. A null or misaligned address and flags that are not a
  mode of the hardware are refused with their own status, and nothing changes. Otherwise, when the range
  is unmapped and there are frames for it, the call returns the address; each page of the range is then
  mapped for user mode, with exactly the permissions asked for, to a frame that was free and is neither
  a page table nor mapped anywhere else in the address space; the frames in use keep their contents, all
  other addresses their mapping, and the rest of the kernel its state.
\<close>
theorem mem_alloc_maps:
  assumes "isolated (k_machine k)" "range_free (k_machine k) a (unat n)" "3 * unat n \<le> length (free_pages (mc_alloc (k_machine k)))"
  shows "sys_mem_alloc 0 n f k = Inr (Return ST_NullArgument 0, k)
    \<and> (if a AND 0xfff \<noteq> 0 then sys_mem_alloc a n f k = Inr (Return ST_BadAlignment 0, k)
       else if f AND 7 \<in> {0, 2, 6} then sys_mem_alloc a n f k = Inr (Return ST_MemoryInvalidProtectionFlags 0, k)
       else \<exists>m' rwx ps. sys_mem_alloc a n f k = Inr (Return ST_Ok a, set_machine k m') \<and> isolated m' \<and> frames_kept (k_machine k) m'
         \<and> length ps = unat n \<and> range_mapped (k_machine k) m' a ps rwx UserLocal
         \<and> (\<forall>p. leaf_flags_are (mapped_leaf (Map_Private p) rwx UserLocal) f))"
proof (intro conjI)
  have a0: "a \<noteq> 0" using assms(2) by (simp add: range_free_def)
  show "sys_mem_alloc 0 n f k = Inr (Return ST_NullArgument 0, k)"
    by (simp add: sys_mem_alloc_def page_from_pointer_def pointer_status_def)
  show "if a AND 0xfff \<noteq> 0 then sys_mem_alloc a n f k = Inr (Return ST_BadAlignment 0, k)
     else if f AND 7 \<in> {0, 2, 6} then sys_mem_alloc a n f k = Inr (Return ST_MemoryInvalidProtectionFlags 0, k)
     else \<exists>m' rwx ps. sys_mem_alloc a n f k = Inr (Return ST_Ok a, set_machine k m') \<and> isolated m' \<and> frames_kept (k_machine k) m'
       \<and> length ps = unat n \<and> range_mapped (k_machine k) m' a ps rwx UserLocal
       \<and> (\<forall>p. leaf_flags_are (mapped_leaf (Map_Private p) rwx UserLocal) f)"
  proof (cases "a AND 0xfff = 0")
    case False
    then show ?thesis
      using a0 by (simp add: sys_mem_alloc_def page_from_pointer_def page_new_def page_consts pointer_status_def)
  next
    case al: True
    have p: "page_from_pointer a = Inr a" using a0 al by (simp add: page_from_pointer_def page_new_def page_consts)
    show ?thesis
    proof (cases "f AND 7 \<in> {0, 2, 6}")
      case True
      then show ?thesis using al p decode_rwx_flags_cases(1) [OF True] by (simp add: sys_mem_alloc_def)
    next
      case False
      then obtain rwx where r: "decode_rwx_flags f = Inr rwx" "\<forall>mp acc. leaf_flags_are (mapped_leaf mp rwx acc) f"
        using decode_rwx_flags_cases(2) by blast
      obtain m' ps where m: "vms_allocate a n rwx UserLocal (k_machine k) = Inr (Inr (), m')" "isolated m'"
          "frames_kept (k_machine k) m'" "length ps = unat n" "range_mapped (k_machine k) m' a ps rwx UserLocal"
        using vms_allocate_range [OF assms, of rwx UserLocal] by blast
      have "onSched (unwrapK (allocate_memory a n rwx)) k = Inr ((), set_machine k m')"
        using m(1) by (simp add: allocate_memory_def onIO_def onS_def onM_def unwrapK_def bindK_def set_machine_def)
      then have "sys_mem_alloc a n f k = Inr (Return ST_Ok a, set_machine k m')"
        using p r(1) by (simp add: sys_mem_alloc_def bindK_def)
      with m r(2) have "\<exists>m' rwx ps. sys_mem_alloc a n f k = Inr (Return ST_Ok a, set_machine k m') \<and> isolated m'
          \<and> frames_kept (k_machine k) m' \<and> length ps = unat n \<and> range_mapped (k_machine k) m' a ps rwx UserLocal
          \<and> (\<forall>p. leaf_flags_are (mapped_leaf (Map_Private p) rwx UserLocal) f)" by blast
      with False al show ?thesis by simp
    qed
  qed
qed

lemma kernel_ex_machine: "k_machine kernel_ex = machine_ex"
  by (simp add: kernel_ex_def sched_ex_def)

lemma mem_alloc_maps_witness:
  "\<exists>m'. sys_mem_alloc 0x10000 2 3 kernel_ex = Inr (Return ST_Ok 0x10000, set_machine kernel_ex m') \<and> isolated m'"
proof -
  have "range_free machine_ex 0x10000 (unat (2 :: usize))"
    using plain_ex lookup_ex [OF plain_ex(1)] lookup_ex [OF plain_ex(2)]
    by (auto simp: range_free_def page_at_def root_ex va_index_def less_2_cases_iff)
  then show ?thesis
    using mem_alloc_maps [of kernel_ex "0x10000" 2 3] isolated_ex by (auto simp: kernel_ex_machine free_ex)
qed

subsection \<open>\<open>dev_dma_alloc\<close>\<close>

lemma dma_take_overflow: "length ppns < i + n \<Longrightarrow> 0 < n \<Longrightarrow> \<exists>p. dma_take i n ppns k = Inl p"
proof (induction n arbitrary: i ppns k)
  case (Suc n)
  show ?case
  proof (cases "onMem allocK k")
    case (Inr y)
    obtain p k1 where y: "y = (p, k1)" by (cases y)
    show ?thesis
    proof (cases "i < length ppns")
      case True
      then have "0 < n" using Suc.prems by simp
      with Suc.prems Suc.IH [of "ppns[i := Some p]" "Suc i" k1] show ?thesis
        using Inr y True by (simp add: bindK_def liftK_def)
    next
      case False
      then show ?thesis using Inr y by (simp add: bindK_def liftK_def)
    qed
  qed (simp add: bindK_def)
qed simp

lemma unat_page_round_up: "unat sz + 4095 < 2 ^ 64 \<Longrightarrow> unat ((sz + PAGE_SIZE - 1) div PAGE_SIZE) = (unat sz + 4095) div 4096"
proof -
  assume a: "unat sz + 4095 < 2 ^ 64"
  have s: "(sz + PAGE_SIZE - 1) div PAGE_SIZE = (sz + 4095) div 4096" by (simp add: page_consts add.commute [of 4095])
  have "unat (sz + 4095) = unat sz + 4095" using a unat_add_no_overflow [of sz 4095] by simp
  then show ?thesis unfolding s unat_div by simp
qed

lemma page_round_up_wraps: "2 ^ 64 - 4096 < unat sz \<Longrightarrow> (sz + PAGE_SIZE - 1) div PAGE_SIZE = 0"
proof -
  assume a: "2 ^ 64 - 4096 < unat sz"
  have s: "(sz + PAGE_SIZE - 1) div PAGE_SIZE = (sz + 4095) div 4096" by (simp add: page_consts add.commute [of 4095])
  have "unat (sz + 4095) = (unat sz + 4095) mod 2 ^ 64" by (simp add: unat_word_ariths)
  also have "\<dots> = unat sz + 4095 - 2 ^ 64" using a unat_less_2p [of sz] by (subst le_mod_geq) simp_all
  also have "\<dots> < 4096" using unat_less_2p [of sz] by simp
  finally have "unat ((sz + 4095) div 4096) = 0" unfolding unat_div by simp
  then show ?thesis unfolding s by (simp only: unat_eq_0)
qed

text \<open>
  C26. The limits of \<open>dev_dma_alloc\<close>: no size, and sizes of more than eight pages, end in a panic of the
  kernel whatever the state. The number of pages wraps around for the sizes from \<open>2 ^ 64 - 4095\<close> on: for
  these the call reports success, maps nothing, and the one frame it takes is never mapped or freed.
\<close>
theorem dma_alloc_limits:
  "(\<exists>p. sys_dev_dma_alloc a 0 k = Inl p)
    \<and> (32768 < unat sz \<and> unat sz \<le> 2 ^ 64 - 4096 \<longrightarrow> (\<exists>p. sys_dev_dma_alloc a sz k = Inl p))
    \<and> (2 ^ 64 - 4096 < unat sz \<and> a \<noteq> 0 \<and> alloc_inv (mc_alloc (k_machine k)) \<and> free_pages (mc_alloc (k_machine k)) \<noteq> [] \<longrightarrow>
        (\<exists>p al. sys_dev_dma_alloc a sz k = Inr (Return ST_Ok a, set_machine k ((k_machine k)\<lparr>mc_alloc := al\<rparr>))
          \<and> free_pages (mc_alloc (k_machine k)) = free_pages al @ [p]))"
proof (intro conjI impI)
  show "\<exists>p. sys_dev_dma_alloc a 0 k = Inl p" by (simp add: sys_dev_dma_alloc_def)
next
  assume s: "32768 < unat sz \<and> unat sz \<le> 2 ^ 64 - 4096"
  let ?n = "unat ((sz + PAGE_SIZE - 1) div PAGE_SIZE)"
  have "32769 + 4095 \<le> unat sz + 4095" using s by simp
  then have "(32769 + 4095) div 4096 \<le> (unat sz + 4095) div 4096" by (rule div_le_mono)
  then have n: "8 < ?n" using s unat_page_round_up [of sz] by simp
  have "sz \<noteq> 0" using s by auto
  show "\<exists>p. sys_dev_dma_alloc a sz k = Inl p"
  proof (cases "dma_take 0 1 (replicate 8 None) k")
    case (Inl p)
    then show ?thesis using \<open>sz \<noteq> 0\<close> by (simp add: sys_dev_dma_alloc_def Let_def bindK_def)
  next
    case (Inr y)
    obtain ppns k1 where y: "y = (ppns, k1)" by (cases y)
    have "length ppns = 8" using Inr y by (auto simp: bindK_def liftK_def split: sum.splits prod.splits)
    then obtain p where "dma_take 1 (?n - 1) ppns k1 = Inl p" using dma_take_overflow [of ppns 1 "?n - 1" k1] n by auto
    then show ?thesis using Inr y \<open>sz \<noteq> 0\<close> by (simp add: sys_dev_dma_alloc_def Let_def bindK_def)
  qed
next
  assume s: "2 ^ 64 - 4096 < unat sz \<and> a \<noteq> 0 \<and> alloc_inv (mc_alloc (k_machine k)) \<and> free_pages (mc_alloc (k_machine k)) \<noteq> []"
  have "sz \<noteq> 0" using s by auto
  obtain p al where al: "allocate (mc_alloc (k_machine k)) = Inr (p, al)" "free_pages (mc_alloc (k_machine k)) = free_pages al @ [p]"
    using s by (auto elim: allocate_cases)
  have "onMem allocK k = Inr (p, set_machine k ((k_machine k)\<lparr>mc_alloc := al\<rparr>))"
    using al(1) by (intro onMem_Inr) (simp add: allocK_def)
  then have "sys_dev_dma_alloc a sz k = Inr (Return ST_Ok a, set_machine k ((k_machine k)\<lparr>mc_alloc := al\<rparr>))"
    using page_round_up_wraps [of sz] s \<open>sz \<noteq> 0\<close> by (simp add: sys_dev_dma_alloc_def Let_def bindK_def)
  with al(2) show "\<exists>p al. sys_dev_dma_alloc a sz k = Inr (Return ST_Ok a, set_machine k ((k_machine k)\<lparr>mc_alloc := al\<rparr>))
      \<and> free_pages (mc_alloc (k_machine k)) = free_pages al @ [p]" by blast
qed

lemma dma_alloc_limits_witness:
  "(\<exists>p. sys_dev_dma_alloc 0x10000 40000 kernel_ex = Inl p)
    \<and> (\<exists>al. sys_dev_dma_alloc 0x10000 (- 1) kernel_ex = Inr (Return ST_Ok 0x10000, set_machine kernel_ex (machine_ex\<lparr>mc_alloc := al\<rparr>)))"
proof -
  have "unat (- 1 :: usize) = 2 ^ 64 - 1" using unsigned_minus_1_eq_mask [where ?'b = 64 and ?'a = nat] by (simp add: mask_eq_exp_minus_1)
  then show ?thesis
    using dma_alloc_limits [of "0x10000" kernel_ex 40000] dma_alloc_limits [of "0x10000" kernel_ex "- 1"] free_ex
    by (auto simp: kernel_ex_machine)
qed

end
