(* ===== verification/Traps.thy ===== *)
theory Traps
  imports Syscall_Props
begin

text \<open>
  Traps and context switches, the assembly under \<open>arch/riscv\<close>: \<open>trap.s\<close> (system calls and starting a
  task), \<open>timer.s\<close>, \<open>plic.s\<close> (external interrupts and notifications) and \<open>syscall.s\<close> (the end of a
  notification). The state of the hart is its integer registers, the program counter, the trap registers
  and the mode; \<open>sscratch\<close>, \<open>satp\<close> and the bit \<open>SUM\<close> of \<open>sstatus\<close> are already part of the kernel's state.
  \<open>regs\<close> maps 1 to 31 to the integer registers; the names \<open>a0\<close>, \<open>a1\<close>, \<open>a7\<close> and \<open>sp\<close> are 10, 11, 17 and 2.
  Floating-point registers are not saved by the code and not modelled.
\<close>

subsection \<open>The hart\<close>

record cpu =
  c_kernel :: kernel
  c_x :: "nat \<Rightarrow> usize"
  c_pc :: usize
  c_sepc :: usize
  c_scause :: usize
  c_sstatus :: usize
  c_user :: bool

abbreviation c_sched :: "cpu \<Rightarrow> sched" where
  "c_sched c \<equiv> k_sched (c_kernel c)"

definition upd_sched :: "(sched \<Rightarrow> sched) \<Rightarrow> cpu \<Rightarrow> cpu" where
  "upd_sched f c = c\<lparr>c_kernel := (c_kernel c)\<lparr>k_io := (k_io (c_kernel c))\<lparr>io_sched := f (c_sched c)\<rparr>\<rparr>\<rparr>"

abbreviation SUM_BIT :: nat where
  "SUM_BIT \<equiv> 18"

text \<open>\<open>csrs sstatus, v\<close> and \<open>csrc sstatus, v\<close>.\<close>

definition csrs_sstatus :: "usize \<Rightarrow> cpu \<Rightarrow> cpu" where
  "csrs_sstatus v c = upd_sched (\<lambda>s. s\<lparr>sc_user_access := sc_user_access s \<or> bit v SUM_BIT\<rparr>) (c\<lparr>c_sstatus := c_sstatus c OR v\<rparr>)"

definition csrc_sstatus :: "usize \<Rightarrow> cpu \<Rightarrow> cpu" where
  "csrc_sstatus v c = upd_sched (\<lambda>s. s\<lparr>sc_user_access := sc_user_access s \<and> \<not> bit v SUM_BIT\<rparr>) (c\<lparr>c_sstatus := c_sstatus c AND NOT v\<rparr>)"

text \<open>
  What the hardware does when a trap is taken from user mode, and \<open>sret\<close>: the previous mode is bit 8 of
  \<open>sstatus\<close>, which \<open>sret\<close> clears.
\<close>

definition take_trap :: "usize \<Rightarrow> cpu \<Rightarrow> cpu" where
  "take_trap cause c = c\<lparr>c_sepc := c_pc c, c_scause := cause, c_sstatus := c_sstatus c AND NOT (push_bit 8 1), c_user := False\<rparr>"

definition sret :: "cpu \<Rightarrow> cpu" where
  "sret c = c\<lparr>c_pc := c_sepc c, c_user := \<not> bit (c_sstatus c) 8, c_sstatus := c_sstatus c AND NOT (push_bit 8 1)\<rparr>"

subsection \<open>Registers and tasks\<close>

text \<open>Registers are kept in the task structure, \<open>x1\<close> first.\<close>

(* src/kernel/src/arch/riscv/registers.s:7-17 save_gp_regs *)
definition save_gp_regs :: "nat \<Rightarrow> nat \<Rightarrow> (nat \<Rightarrow> usize) \<Rightarrow> register_state \<Rightarrow> register_state" where
  "save_gp_regs from to x r = r\<lparr>rs_x := map (\<lambda>i. if from \<le> i + 1 \<and> i + 1 \<le> to then x (i + 1) else rs_x r ! i) [0..<31]\<rparr>"

(* src/kernel/src/arch/riscv/registers.s:20-29 load_gp_regs *)
definition load_gp_regs :: "nat \<Rightarrow> nat \<Rightarrow> register_state \<Rightarrow> (nat \<Rightarrow> usize) \<Rightarrow> nat \<Rightarrow> usize" where
  "load_gp_regs from to r x = (\<lambda>n. if from \<le> n \<and> n \<le> to then rs_x r ! (n - 1) else x n)"

abbreviation saved :: "cpu \<Rightarrow> usize \<Rightarrow> register_state" where
  "saved c t \<equiv> td_register_state (sc_tasks (c_sched c) t)"

definition set_saved :: "usize \<Rightarrow> register_state \<Rightarrow> cpu \<Rightarrow> cpu" where
  "set_saved t r = upd_sched (upd_task t (\<lambda>d. d\<lparr>td_register_state := r\<rparr>))"

text \<open>\<open>csrw satp\<close> and \<open>csrw sscratch\<close> with the values of a task.\<close>

definition switch_to :: "usize \<Rightarrow> cpu \<Rightarrow> cpu" where
  "switch_to t c = upd_sched (\<lambda>s. s\<lparr>sc_machine := (sc_machine s)\<lparr>mc_satp := td_virtual_memory (sc_tasks s t)\<rparr>, sc_sscratch := t\<rparr>) c"

text \<open>
  The prologue of the three handlers: all registers of the interrupted task and a program counter are
  stored in the structure that \<open>sscratch\<close> points to. \<open>x31\<close> is swapped with \<open>sscratch\<close> to reach it and stored
  last, when \<open>sscratch\<close> gets its value back.
\<close>

(* src/kernel/src/arch/riscv/timer.s:3-12 timer_interrupt_handler *)
definition save_context :: "usize \<Rightarrow> cpu \<Rightarrow> cpu" where
  "save_context pc c =
     (let t = sc_sscratch (c_sched c);
          r = save_gp_regs 31 31 (c_x c) (save_gp_regs 1 30 (c_x c) (saved c t)) in
      set_saved t (r\<lparr>rs_pc := pc\<rparr>) c)"

text \<open>How a trap ends: in a task, waiting for an interrupt, or in a search or wait that does not end.\<close>

datatype resume = Resumed | Waiting | Stuck

type_synonym trap = "(resume \<times> cpu) may_panic"

(* src/kernel/src/arch/riscv/trap.s:181-207 trap_start_task *)
definition trap_start_task :: "usize \<Rightarrow> cpu \<Rightarrow> trap" where
  "trap_start_task t c =
     (let c = csrc_sstatus (push_bit 8 1) c;
          c = csrs_sstatus (push_bit 14 1) (csrc_sstatus (push_bit 13 1) c);
          c = switch_to t c;
          c = c\<lparr>c_sepc := rs_pc (saved c t)\<rparr>;
          c = c\<lparr>c_x := load_gp_regs 10 10 (saved c t) (load_gp_regs 11 31 (saved c t) (load_gp_regs 1 9 (saved c t) (c_x c)))\<rparr> in
      Inr (Resumed, sret c))"

definition run_outcome :: "outcome option \<Rightarrow> cpu \<Rightarrow> trap" where
  "run_outcome r c = (case r of
      None \<Rightarrow> Inr (Stuck, c)
    | Some (Run t) \<Rightarrow> trap_start_task t c
    | Some (Idle time) \<Rightarrow> Inr (Waiting, c))"

definition onKernel :: "'a sysK \<Rightarrow> cpu \<Rightarrow> ('a \<times> cpu) may_panic" where
  "onKernel f c = bindP (f (c_kernel c)) (\<lambda>(x, k). Inr (x, c\<lparr>c_kernel := k\<rparr>))"

(* src/kernel/src/arch/riscv/timer.s:1-21 timer_interrupt_handler *)
definition timer_interrupt_handler :: "nat \<Rightarrow> cpu \<Rightarrow> trap" where
  "timer_interrupt_handler fuel c =
     (let c = save_context (c_sepc c) c in
      if td_stack (sc_tasks (c_sched c) (sc_sscratch (c_sched c))) = 0 then Inl Explicit_Panic
      else bindP (onKernel (onSched (executor_next fuel)) c) (\<lambda>(r, c). run_outcome r c))"

subsection \<open>Notifications\<close>

text \<open>The word at an address of user memory.\<close>

definition load_word :: "usize \<Rightarrow> cpu \<Rightarrow> usize may_panic" where
  "load_word a c =
     (case (if sc_user_access (c_sched c) then k_words (c_kernel c) (active_vms (k_io (c_kernel c))) a else None) of
        None \<Rightarrow> Inl Page_Fault
      | Some v \<Rightarrow> Inr v)"

definition store_words :: "usize \<Rightarrow> usize list \<Rightarrow> cpu \<Rightarrow> cpu may_panic" where
  "store_words a ws c = bindP (onKernel (user_store a ws) c) (\<lambda>(_, c). Inr c)"

text \<open>The handler's address is taken as it is; a task without one starts at address 0.\<close>

(* src/kernel/src/arch/riscv/plic.s:89-114 notification_enter *)
definition notification_prepare :: "usize \<Rightarrow> cpu \<Rightarrow> cpu" where
  "notification_prepare t c =
     (let c = csrc_sstatus (push_bit 8 1) c;
          c = upd_sched (upd_task t (\<lambda>d. d\<lparr>td_wait_time := 0\<rparr>)) c;
          c = switch_to t c;
          c = c\<lparr>c_sepc := (case td_notification_handler (sc_tasks (c_sched c) t) of None \<Rightarrow> 0 | Some h \<Rightarrow> h)\<rparr> in
      csrs_sstatus (push_bit SUM_BIT 1) c)"

(* src/kernel/src/arch/riscv/plic.s:126-143 notification_enter *)
definition notification_leave :: "register_state \<Rightarrow> usize \<Rightarrow> usize \<Rightarrow> usize \<Rightarrow> cpu \<Rightarrow> cpu" where
  "notification_leave r typ val address c =
     (let c = csrc_sstatus (push_bit SUM_BIT 1) c;
          c = csrs_sstatus (push_bit 14 1) (csrc_sstatus (push_bit 13 1) c);
          x = (c_x c)(2 := rs_x r ! 1, 10 := typ, 11 := val, 17 := address);
          x = load_gp_regs 18 31 r (load_gp_regs 12 16 r (load_gp_regs 3 9 r (load_gp_regs 1 1 r x))) in
      sret (c\<lparr>c_x := x\<rparr>))"

(* src/kernel/src/arch/riscv/plic.s:83-143 notification_enter *)
definition notification_enter :: "usize \<Rightarrow> usize \<Rightarrow> usize \<Rightarrow> usize \<Rightarrow> cpu \<Rightarrow> trap" where
  "notification_enter t typ val address c =
     (let c = notification_prepare t c; r = saved c t in
      bindP (store_words (rs_x r ! 1 - 32) [rs_x r ! 9, rs_x r ! 10, rs_x r ! 16, rs_pc r] c) (\<lambda>c.
      Inr (Resumed, notification_leave r typ val address c)))"

text \<open>
  \<open>source\<close> is what the claim register answers. The table of reservations has no entry for source 0: the
  code then reads the word before the table.
\<close>

(* src/kernel/src/arch/riscv/plic.s:6-81 external_interrupt_handler *)
definition external_interrupt_handler :: "u32 \<Rightarrow> cpu \<Rightarrow> trap" where
  "external_interrupt_handler source c =
     (let c = save_context (c_sepc c) c in
      if source = 0 then Inl Index_Out_Of_Range
      else
        bindP (indexP (pl_reservations (k_plic (c_kernel c))) (unat source - 1)) (\<lambda>address.
        if address = USIZE_MAX then Inl Explicit_Panic
        else
          bindP (onKernel (onSched (get_task address)) c) (\<lambda>(task, c).
          case task of
            None \<Rightarrow> Inl Explicit_Panic
          | Some t \<Rightarrow>
              (let c = upd_sched (upd_task t (\<lambda>d. d\<lparr>td_current_irq :=
                         (td_current_irq d AND NOT 0xffff) OR (source AND 0xffff)\<rparr>)) c in
               notification_enter t 0 (ucast source) USIZE_MAX c))))"

(* src/kernel/src/arch/riscv/syscall.s:4-41 syscall_io_notify_return *)
definition finish_notification :: "usize \<Rightarrow> cpu \<Rightarrow> cpu" where
  "finish_notification t c =
     (let d = sc_tasks (c_sched c) t; flags = td_flags d OR FLAG_NOTIFIED; irq = td_current_irq d in
      if irq \<noteq> 0 then
        upd_sched (upd_task t (\<lambda>d. d\<lparr>td_current_irq := 0, td_flags := flags\<rparr>))
          (c\<lparr>c_kernel := (c_kernel c)\<lparr>k_plic := (k_plic (c_kernel c))\<lparr>pl_regs :=
            (pl_regs (k_plic (c_kernel c)))(OFFSET_CLAIM_COMPLETE + 1 * STRIDE_PRIORITY_THRESHOLDS := irq)\<rparr>\<rparr>\<rparr>)
      else upd_sched (upd_task t (\<lambda>d. d\<lparr>td_flags := flags AND NOT FLAG_NOTIFYING\<rparr>)) c)"

text \<open>Bit 18 is cleared with the program counter as the mask: \<open>t0\<close> no longer holds the bit.\<close>

(* src/kernel/src/arch/riscv/syscall.s:3-85 syscall_io_notify_return *)
definition syscall_io_notify_return :: "usize \<Rightarrow> cpu \<Rightarrow> trap" where
  "syscall_io_notify_return t c =
     (let c = switch_to t (finish_notification t c);
          r = saved c t;
          sp = rs_x r ! 1;
          c = csrs_sstatus (push_bit SUM_BIT 1) c in
      bindP (load_word (sp - 32) c) (\<lambda>a0.
      bindP (load_word (sp - 24) c) (\<lambda>a1.
      bindP (load_word (sp - 16) c) (\<lambda>a7.
      bindP (load_word (sp - 8) c) (\<lambda>pc.
      let c = csrc_sstatus pc (c\<lparr>c_sepc := pc\<rparr>);
          c = csrs_sstatus (push_bit 14 1) (csrc_sstatus (push_bit 13 1) c);
          x = (c_x c)(2 := sp, 10 := a0, 11 := a1, 17 := a7);
          x = load_gp_regs 18 31 r (load_gp_regs 12 16 r (load_gp_regs 1 9 r x)) in
      Inr (Resumed, sret (c\<lparr>c_x := x\<rparr>)))))))"

text \<open>The lines after the deferring task has been put back: the notification goes to the next task.\<close>

(* src/kernel/src/arch/riscv/syscall.s:145-174 syscall_io_notify_defer *)
definition defer_to :: "usize \<Rightarrow> u32 \<Rightarrow> usize \<Rightarrow> usize \<Rightarrow> task_address \<Rightarrow> cpu \<Rightarrow> trap" where
  "defer_to t irq typ val from_address c =
     (if irq \<noteq> 0 then
        (if td_current_irq (sc_tasks (c_sched c) t) \<noteq> 0 then Inr (Stuck, c)
         else notification_enter t typ val from_address (upd_sched (upd_task t (\<lambda>d. d\<lparr>td_current_irq := irq\<rparr>)) c))
      else notification_enter t typ val from_address
        (upd_sched (upd_task t (\<lambda>d. d\<lparr>td_flags := td_flags d OR FLAG_NOTIFYING\<rparr>)) c))"

(* src/kernel/src/arch/riscv/syscall.s:88-174 syscall_io_notify_defer *)
definition syscall_io_notify_defer :: "usize \<Rightarrow> task_address \<Rightarrow> task_address \<Rightarrow> cpu \<Rightarrow> trap" where
  "syscall_io_notify_defer from from_address to_address c =
     (if from = from_address then Inl Explicit_Panic
      else
        (let r = saved c from; s0 = rs_x r ! 9; s1 = rs_x r ! 10; sp = rs_x r ! 1;
             c = csrs_sstatus (push_bit SUM_BIT 1) c in
         bindP (load_word (sp - 32) c) (\<lambda>a0.
         bindP (load_word (sp - 24) c) (\<lambda>a1.
         bindP (load_word (sp - 16) c) (\<lambda>a7.
         bindP (load_word (sp - 8) c) (\<lambda>pc.
         let c = set_saved from (r\<lparr>rs_pc := pc, rs_x := (rs_x r)[9 := a0, 10 := a1, 16 := a7]\<rparr>) c;
             c = csrc_sstatus (push_bit SUM_BIT 1) c;
             s2 = td_current_irq (sc_tasks (c_sched c) from);
             c = upd_sched (upd_task from (\<lambda>d. d\<lparr>td_current_irq := 0, td_flags := td_flags d OR FLAG_NOTIFIED\<rparr>)) c in
         bindP (onKernel (onSched (get_task to_address)) c) (\<lambda>(task, c).
         case task of None \<Rightarrow> Inl Explicit_Panic | Some t \<Rightarrow> defer_to t s2 s0 s1 from_address c)))))))"

subsection \<open>System calls\<close>

(* src/kernel/src/arch/riscv/trap.s:116-122 syscall_return_transparent *)
definition syscall_return_transparent :: "cpu \<Rightarrow> trap" where
  "syscall_return_transparent c =
     (let t = sc_sscratch (c_sched c) in
      Inr (Resumed, sret (c\<lparr>c_x := load_gp_regs 1 31 (saved c t) (c_x c)\<rparr>)))"

(* src/kernel/src/arch/riscv/trap.s:154-161 trap_syscall *)
definition syscall_return :: "usize \<Rightarrow> usize \<Rightarrow> cpu \<Rightarrow> trap" where
  "syscall_return a0 a1 c =
     (let t = sc_sscratch (c_sched c); x = (c_x c)(10 := a0, 11 := a1) in
      Inr (Resumed, sret (c\<lparr>c_x := load_gp_regs 12 31 (saved c t) (load_gp_regs 1 9 (saved c t) x)\<rparr>)))"

(* src/kernel/src/arch/riscv/types.s:111-112 SYSCALL_MAX *)
definition SYSCALL_MAX :: usize where
  "SYSCALL_MAX = 20"

text \<open>
  The status is the low byte of \<open>a0\<close>; \<open>padding\<close> stands for the bytes above it, which the calling convention
  leaves open.
\<close>

(* src/kernel/src/arch/riscv/trap.s:124-168 trap_syscall *)
definition trap_syscall :: "nat \<Rightarrow> usize \<Rightarrow> usize \<Rightarrow> cpu \<Rightarrow> trap" where
  "trap_syscall fuel padding task c =
     (let c = c\<lparr>c_sepc := c_sepc c + 4\<rparr>; x = c_x c in
      if SYSCALL_MAX \<le> x 17 then syscall_return 1 (x 11) c
      else
        bindP (onKernel (syscall_table fuel (x 10) (x 11) (x 12) (x 13) task ! unat (x 17)) c) (\<lambda>(e, c).
        case e of
          Return st v \<Rightarrow> syscall_return (push_bit 8 padding OR ucast (status_u8 st)) v
            (csrs_sstatus (push_bit 14 1) (csrc_sstatus (push_bit 13 1) c))
        | Return_Transparent \<Rightarrow> syscall_return_transparent c
        | Notify_Return t \<Rightarrow> syscall_io_notify_return t c
        | Notify_Defer t from to \<Rightarrow> syscall_io_notify_defer t from to c
        | Next_Task r \<Rightarrow> run_outcome r c))"

text \<open>
  The vector table: an interrupt goes to the entry of its number, every exception to the first one, whose
  handler goes on through a second table.
\<close>

datatype vector = V_Trap | V_Timer | V_External | V_Syscall | V_Panic

(* src/kernel/src/arch/riscv/trap.s:3-29 interrupt_table *)
definition interrupt_table :: "vector list" where
  "interrupt_table = [V_Trap, V_Panic, V_Panic, V_Panic, V_Panic, V_Timer, V_Panic, V_Panic, V_Panic, V_External, V_Panic, V_Panic]"

(* src/kernel/src/arch/riscv/trap.s:31-64 sync_trap_table *)
definition sync_trap_table :: "vector list" where
  "sync_trap_table = replicate 8 V_Panic @ [V_Syscall] @ replicate 7 V_Panic"

(* src/kernel/src/arch/riscv/trap.s:66-122 trap_handler *)
definition trap_handler :: "nat \<Rightarrow> usize \<Rightarrow> cpu \<Rightarrow> trap" where
  "trap_handler fuel padding c =
     (let task = sc_sscratch (c_sched c) in
      if task = 0 then Inl Explicit_Panic
      else
        bindP (indexP sync_trap_table (unat (c_scause c))) (\<lambda>v.
        case v of
          V_Syscall \<Rightarrow> trap_syscall fuel padding task (save_context (c_sepc c + 4) c)
        | _ \<Rightarrow> Inl Explicit_Panic))"

text \<open>The hart's way from a trap to its handler; \<open>source\<close> as for the external interrupt.\<close>

definition deliver :: "nat \<Rightarrow> usize \<Rightarrow> u32 \<Rightarrow> bool \<Rightarrow> usize \<Rightarrow> cpu \<Rightarrow> trap" where
  "deliver fuel padding source interrupt cause c =
     (let c = take_trap cause c in
      bindP (indexP interrupt_table (if interrupt then unat cause else 0)) (\<lambda>v.
      case v of
        V_Trap \<Rightarrow> trap_handler fuel padding c
      | V_Timer \<Rightarrow> timer_interrupt_handler fuel c
      | V_External \<Rightarrow> external_interrupt_handler source c
      | _ \<Rightarrow> Inl Explicit_Panic))"

end
