(* ===== verification/Trap_Props.thy ===== *)
theory Trap_Props
  imports Traps
begin

text \<open>
  The context of a task survives the kernel: over a timer interrupt, over a system call that returns,
  and over an interrupt that is delivered to a task as a notification.
\<close>

subsection \<open>Registers\<close>

text \<open>The registers and program counter of a running task, and the same as they are kept in its structure.\<close>

definition user_context :: "cpu \<Rightarrow> register_state" where
  "user_context c = \<lparr>rs_pc = c_pc c, rs_x = map (\<lambda>i. c_x c (i + 1)) [0..<31]\<rparr>"

definition running :: "cpu \<Rightarrow> register_state \<Rightarrow> bool" where
  "running c r \<longleftrightarrow> c_user c \<and> c_pc c = rs_pc r \<and> (\<forall>n \<in> {1..31}. c_x c n = rs_x r ! (n - 1))"

lemma running_context: "c_user c \<Longrightarrow> running c (user_context c)"
  by (auto simp: running_def user_context_def)

lemma running_unique: "running c r \<Longrightarrow> length (rs_x r) = 31 \<Longrightarrow> user_context c = r"
  by (cases r) (auto simp: running_def user_context_def intro!: nth_equalityI)

lemma upd_sched_simps [simp]:
  "c_sched (upd_sched f c) = f (c_sched c)" "c_x (upd_sched f c) = c_x c" "c_pc (upd_sched f c) = c_pc c"
  "c_sepc (upd_sched f c) = c_sepc c" "c_sstatus (upd_sched f c) = c_sstatus c" "c_user (upd_sched f c) = c_user c"
  "c_scause (upd_sched f c) = c_scause c"
  "k_words (c_kernel (upd_sched f c)) = k_words (c_kernel c)" "k_plic (c_kernel (upd_sched f c)) = k_plic (c_kernel c)"
  by (simp_all add: upd_sched_def)

lemma csr_simps [simp]:
  "sc_tasks (c_sched (csrs_sstatus v c)) = sc_tasks (c_sched c)" "sc_tasks (c_sched (csrc_sstatus v c)) = sc_tasks (c_sched c)"
  "sc_sscratch (c_sched (csrs_sstatus v c)) = sc_sscratch (c_sched c)" "sc_sscratch (c_sched (csrc_sstatus v c)) = sc_sscratch (c_sched c)"
  "sc_machine (c_sched (csrs_sstatus v c)) = sc_machine (c_sched c)" "sc_machine (c_sched (csrc_sstatus v c)) = sc_machine (c_sched c)"
  "sc_user_access (c_sched (csrs_sstatus v c)) \<longleftrightarrow> sc_user_access (c_sched c) \<or> bit v SUM_BIT"
  "sc_user_access (c_sched (csrc_sstatus v c)) \<longleftrightarrow> sc_user_access (c_sched c) \<and> \<not> bit v SUM_BIT"
  "c_x (csrs_sstatus v c) = c_x c" "c_x (csrc_sstatus v c) = c_x c" "c_sepc (csrs_sstatus v c) = c_sepc c" "c_sepc (csrc_sstatus v c) = c_sepc c"
  "c_sstatus (csrs_sstatus v c) = c_sstatus c OR v" "c_sstatus (csrc_sstatus v c) = c_sstatus c AND NOT v"
  "k_words (c_kernel (csrs_sstatus v c)) = k_words (c_kernel c)" "k_words (c_kernel (csrc_sstatus v c)) = k_words (c_kernel c)"
  "k_plic (c_kernel (csrs_sstatus v c)) = k_plic (c_kernel c)" "k_plic (c_kernel (csrc_sstatus v c)) = k_plic (c_kernel c)"
  by (simp_all add: csrs_sstatus_def csrc_sstatus_def)

lemma csr_float [simp]: "c_kernel (csrs_sstatus (push_bit 14 1) c) = c_kernel c" "c_kernel (csrc_sstatus (push_bit 13 1) c) = c_kernel c"
  by (simp_all add: csrs_sstatus_def csrc_sstatus_def upd_sched_def bit_simps)

lemma next_id_simps [simp]:
  "sc_next_id (c_sched (csrs_sstatus v c)) = sc_next_id (c_sched c)" "sc_next_id (c_sched (csrc_sstatus v c)) = sc_next_id (c_sched c)"
  "sc_next_id (c_sched (switch_to t c)) = sc_next_id (c_sched c)" "sc_next_id (upd_task t f s) = sc_next_id s"
  by (simp_all add: csrs_sstatus_def csrc_sstatus_def switch_to_def upd_task_def)

lemma switch_simps [simp]:
  "sc_tasks (c_sched (switch_to t c)) = sc_tasks (c_sched c)" "sc_sscratch (c_sched (switch_to t c)) = t"
  "sc_user_access (c_sched (switch_to t c)) = sc_user_access (c_sched c)"
  "mc_satp (sc_machine (c_sched (switch_to t c))) = td_virtual_memory (sc_tasks (c_sched c) t)"
  "c_x (switch_to t c) = c_x c" "c_sepc (switch_to t c) = c_sepc c" "c_sstatus (switch_to t c) = c_sstatus c"
  "k_words (c_kernel (switch_to t c)) = k_words (c_kernel c)" "k_plic (c_kernel (switch_to t c)) = k_plic (c_kernel c)"
  by (simp_all add: switch_to_def)

lemma sret_simps [simp]: "c_kernel (sret c) = c_kernel c" "c_x (sret c) = c_x c" "c_pc (sret c) = c_sepc c"
  "c_user (sret c) \<longleftrightarrow> \<not> bit (c_sstatus c) 8"
  by (simp_all add: sret_def)

lemma take_trap_simps [simp]: "c_kernel (take_trap n c) = c_kernel c" "c_x (take_trap n c) = c_x c" "c_sepc (take_trap n c) = c_pc c"
  "c_scause (take_trap n c) = n" "\<not> bit (c_sstatus (take_trap n c)) 8"
  by (simp_all add: take_trap_def bit_simps)

text \<open>Bit 8 of the masks the handlers use.\<close>

lemma mask_bit_8 [simp]:
  "bit (push_bit 8 1 :: usize) 8" "\<not> bit (push_bit 13 1 :: usize) 8" "\<not> bit (push_bit 14 1 :: usize) 8"
  "\<not> bit (push_bit 18 1 :: usize) 8" "bit (push_bit 18 1 :: usize) 18" "\<not> bit (push_bit 8 1 :: usize) 18"
  "\<not> bit (push_bit 13 1 :: usize) 18" "\<not> bit (push_bit 14 1 :: usize) 18"
  by (simp_all add: bit_simps)

lemma save_context_saved:
  "saved (save_context pc c) t = (if t = sc_sscratch (c_sched c) then (user_context c)\<lparr>rs_pc := pc\<rparr> else saved c t)"
proof -
  have "map (\<lambda>i. if 31 \<le> i + 1 \<and> i + 1 \<le> 31 then c_x c (i + 1)
      else map (\<lambda>i. if 1 \<le> i + 1 \<and> i + 1 \<le> 30 then c_x c (i + 1) else xs ! i) [0..<31] ! i) [0..<31]
    = map (\<lambda>i. c_x c (i + 1)) [0..<31]" for xs
    by (intro map_cong) auto
  then show ?thesis
    by (simp add: save_context_def set_saved_def upd_task_def save_gp_regs_def user_context_def Let_def del: One_nat_def upt_Suc)
qed

lemma save_context_simps [simp]:
  "sc_sscratch (c_sched (save_context pc c)) = sc_sscratch (c_sched c)" "c_x (save_context pc c) = c_x c"
  "sc_groups (c_sched (save_context pc c)) = sc_groups (c_sched c)" "sc_next_id (c_sched (save_context pc c)) = sc_next_id (c_sched c)"
  "sc_machine (c_sched (save_context pc c)) = sc_machine (c_sched c)" "c_sepc (save_context pc c) = c_sepc c"
  "sc_user_access (c_sched (save_context pc c)) = sc_user_access (c_sched c)" "c_sstatus (save_context pc c) = c_sstatus c"
  "k_words (c_kernel (save_context pc c)) = k_words (c_kernel c)" "k_plic (c_kernel (save_context pc c)) = k_plic (c_kernel c)"
  by (simp_all add: save_context_def set_saved_def upd_task_def Let_def)

lemma save_context_other:
  "(sc_tasks (c_sched (save_context pc c)) t)\<lparr>td_register_state := r\<rparr> = (sc_tasks (c_sched c) t)\<lparr>td_register_state := r\<rparr>"
  by (simp add: save_context_def set_saved_def upd_task_def Let_def)

text \<open>The structure of a task apart from its registers.\<close>

definition unsaved :: "cpu \<Rightarrow> usize \<Rightarrow> task_data" where
  "unsaved c t = (sc_tasks (c_sched c) t)\<lparr>td_register_state := register_state_default\<rparr>"

lemma unsaved_save_context [simp]: "unsaved (save_context pc c) t = unsaved c t"
  by (simp add: unsaved_def save_context_other)

lemma unsaved_simps:
  "td_current_irq (unsaved c t) = td_current_irq (sc_tasks (c_sched c) t)" "td_virtual_memory (unsaved c t) = td_virtual_memory (sc_tasks (c_sched c) t)"
  "td_notification_handler (unsaved c t) = td_notification_handler (sc_tasks (c_sched c) t)"
  by (simp_all add: unsaved_def)

lemma unsaved_tasks: "sc_tasks (c_sched c') = sc_tasks (c_sched c) \<Longrightarrow> unsaved c' t = unsaved c t"
  by (simp add: unsaved_def)

lemma unsaved_take_trap [simp]: "unsaved (take_trap n c) t = unsaved c t"
  by (simp add: unsaved_def)

lemma save_context_ready [simp]: "ready (c_sched (save_context pc c)) tasks n = ready (c_sched c) tasks n"
proof -
  have "td_wait_time (sc_tasks (c_sched (save_context pc c)) t) = td_wait_time (sc_tasks (c_sched c) t)"
    "td_executor_id (sc_tasks (c_sched (save_context pc c)) t) = td_executor_id (sc_tasks (c_sched c) t)"
    "sc_time (c_sched (save_context pc c)) = sc_time (c_sched c)" for t
    by (simp_all add: save_context_def set_saved_def upd_task_def Let_def)
  then show ?thesis by (simp add: runnable_def unclaimed_def upd_task_def current_task_def)
qed

subsection \<open>Preemption\<close>

lemma trap_start_task_running:
  "trap_start_task t c = Inr (r, c') \<Longrightarrow> r = Resumed \<and> running c' (saved c t) \<and> sc_tasks (c_sched c') = sc_tasks (c_sched c)
    \<and> sc_sscratch (c_sched c') = t \<and> active_vms (k_io (c_kernel c')) = td_virtual_memory (sc_tasks (c_sched c) t)"
  by (auto simp: trap_start_task_def Let_def running_def load_gp_regs_def bit_simps)

lemma onKernel_sched: "f (c_sched c) = Inr (x, s) \<Longrightarrow> onKernel (onSched f) c = Inr (x, upd_sched (\<lambda>_. s) c)"
  by (simp add: onKernel_def onIO_def onS_def upd_sched_def)

text \<open>The handler up to the executor's choice.\<close>

lemma timer_handler:
  assumes "td_stack (sc_tasks (c_sched c) (sc_sscratch (c_sched c))) \<noteq> 0"
    "executor_next fuel (c_sched (save_context (c_pc c) (take_trap 5 c))) = Inr (Some o', s)"
  defines "e \<equiv> upd_sched (\<lambda>_. s) (save_context (c_pc c) (take_trap 5 c))"
  shows "deliver fuel padding source True 5 c = run_outcome (Some o') e"
    "saved e v = (if v = sc_sscratch (c_sched c) then user_context c else saved c v)"
proof -
  define d where "d = save_context (c_pc c) (take_trap 5 c)"
  have stack: "td_stack (sc_tasks (c_sched d) (sc_sscratch (c_sched c))) \<noteq> 0"
    using assms(1) by (simp add: d_def save_context_def set_saved_def upd_task_def Let_def)
  show "deliver fuel padding source True 5 c = run_outcome (Some o') e"
    using stack onKernel_sched [of "executor_next fuel" d, OF assms(2) [folded d_def]]
    by (simp add: deliver_def interrupt_table_def timer_interrupt_handler_def d_def [symmetric] Let_def e_def)
  have "saved e v = saved d v" using io_coreD(3) [OF executor_next_core [OF assms(2)]] by (simp add: e_def d_def)
  then show "saved e v = (if v = sc_sscratch (c_sched c) then user_context c else saved c v)"
    by (simp add: d_def save_context_saved user_context_def)
qed

lemma save_context_vm [simp]:
  "td_virtual_memory (sc_tasks (c_sched (save_context pc c)) t) = td_virtual_memory (sc_tasks (c_sched c) t)"
  "td_wait_time (sc_tasks (c_sched (save_context pc c)) t) = td_wait_time (sc_tasks (c_sched c) t)"
  by (simp_all add: save_context_def set_saved_def upd_task_def Let_def)

text \<open>
  C28. A timer interrupt preempts the running task in favour of the next one that is ready. With the task
  group in place the handler always ends. The interrupted task's program counter and 31 registers
  are then in its structure and those of the other tasks are as before. If a task of the group is ready, the
  one in the first such slot after the current one, in the executor's order, becomes the current task and
  continues exactly where its structure says, on its own page tables; if none is ready, the hart waits
  with the timer set to no later than the end of any task's wait.
\<close>
theorem timer_preempts:
  assumes "fst (group_get 0 (sc_groups (c_sched c))) = Some tasks" "unat (sc_next_id (c_sched c)) < 16" "16 \<le> fuel"
    "td_stack (sc_tasks (c_sched c) (sc_sscratch (c_sched c))) \<noteq> 0"
  defines "p \<equiv> unat (sc_next_id (c_sched c))"
  shows "\<exists>r c'. deliver fuel padding source True 5 c = Inr (r, c')
    \<and> saved c' (sc_sscratch (c_sched c)) = user_context c \<and> (\<forall>v. v \<noteq> sc_sscratch (c_sched c) \<longrightarrow> saved c' v = saved c v)
    \<and> (if \<forall>n < 16. \<not> ready (c_sched c) tasks n
       then r = Waiting \<and> (\<forall>n t. n < 16 \<and> group_task tasks (of_nat n) = Inr t \<longrightarrow> sc_timer (c_sched c') \<le> td_wait_time (sc_tasks (c_sched c) t))
       else r = Resumed \<and> (\<exists>k < 16. ready (c_sched c) tasks (visit p k) \<and> (\<forall>j < k. \<not> ready (c_sched c) tasks (visit p j))
         \<and> (\<exists>t. group_task tasks (of_nat (visit p k)) = Inr t \<and> sc_sscratch (c_sched c') = t
           \<and> running c' (if t = sc_sscratch (c_sched c) then user_context c else saved c t)
           \<and> active_vms (k_io (c_kernel c')) = td_virtual_memory (sc_tasks (c_sched c) t))))"
proof -
  define d where "d = save_context (c_pc c) (take_trap 5 c)"
  have d: "fst (group_get 0 (sc_groups (c_sched d))) = Some tasks" "unat (sc_next_id (c_sched d)) = p" "p < 16"
    "\<And>n. ready (c_sched d) tasks n = ready (c_sched c) tasks n" "\<And>t. td_wait_time (sc_tasks (c_sched d) t) = td_wait_time (sc_tasks (c_sched c) t)"
    "unat (sc_next_id (c_sched d)) < 16"
    using assms(1,2) by (simp_all add: d_def p_def)
  note H = timer_handler [OF assms(4), of fuel, folded d_def]
  from executor_next_cases [OF d(1,6) assms(3), unfolded d(2,4,5)]
  consider (run) k t s where "executor_next fuel (c_sched d) = Inr (Some (Run t), s)" "k < 16" "ready (c_sched c) tasks (visit p k)"
      "\<forall>j < k. \<not> ready (c_sched c) tasks (visit p j)" "sc_next_id s = of_nat (visit p k)" "group_task tasks (sc_next_id s) = Inr t"
    | (idle) m s where "executor_next fuel (c_sched d) = Inr (Some (Idle m), s)" "\<forall>n < 16. \<not> ready (c_sched c) tasks n" "sc_timer s = m"
      "\<forall>n t. n < 16 \<and> group_task tasks (of_nat n) = Inr t \<longrightarrow> m \<le> td_wait_time (sc_tasks (c_sched c) t)"
    by blast
  then show ?thesis
  proof cases
    case run
    let ?e = "upd_sched (\<lambda>_. s) d"
    obtain r c' where c': "trap_start_task t ?e = Inr (r, c')" by (cases "trap_start_task t ?e") (auto simp: trap_start_task_def Let_def)
    have "td_virtual_memory (sc_tasks s t) = td_virtual_memory (sc_tasks (c_sched c) t)"
      using io_coreD(5) [OF executor_next_core [OF run(1)]] by (simp add: d_def)
    moreover have "\<not> (\<forall>n < 16. \<not> ready (c_sched c) tasks n)" using run(3) visit_less by blast
    moreover have "group_task tasks (of_nat (visit p k)) = Inr t" using run(5,6) by simp
    ultimately show ?thesis using trap_start_task_running [OF c'] H [OF run(1)] c' run(2-4)
      by (intro exI [of _ r] exI [of _ c'] conjI) (simp_all add: run_outcome_def, blast)
  next
    case idle
    then show ?thesis using H [OF idle(1)]
      by (intro exI [of _ Waiting] exI [of _ "upd_sched (\<lambda>_. s) d"]) (simp add: run_outcome_def)
  qed
qed

definition cpu_ex :: cpu where
  "cpu_ex = \<lparr>c_kernel = kernel_ex\<lparr>k_io := (k_io kernel_ex)\<lparr>io_sched := sched_ex 200\<rparr>\<rparr>, c_x = (\<lambda>n. of_nat n), c_pc = 0x8000, c_sepc = 0,
     c_scause = 0, c_sstatus = 0, c_user = True\<rparr>"

lemma timer_preempts_witness:
  "\<exists>c'. deliver 16 0 0 True 5 cpu_ex = Inr (Resumed, c') \<and> rs_pc (saved c' 0x5000) = 0x8000 \<and> sc_sscratch (c_sched c') = 0x5000"
proof -
  have s: "c_sched cpu_ex = sched_ex 200" by (simp add: cpu_ex_def)
  have t: "sc_sscratch (sched_ex 200) = 0x5000" "td_stack (sc_tasks (sched_ex 200) 0x5000) \<noteq> 0"
    by (simp_all add: sched_ex_def task_ex_def)
  have n: "\<not> (\<forall>n < 16. \<not> ready (sched_ex 200) tasks_slot_3 n)" using sched_ex_ready [of 3 200] by (intro notI) (drule spec [of _ 3], simp)
  have "td_stack (sc_tasks (sched_ex 200) (sc_sscratch (sched_ex 200))) \<noteq> 0" using t by (simp only: t(1)) simp
  from timer_preempts [of cpu_ex tasks_slot_3 16 0 0, unfolded s if_not_P [OF n], OF sched_ex_root order_refl this]
  obtain c' k where c': "deliver 16 0 0 True 5 cpu_ex = Inr (Resumed, c')" "saved c' (sc_sscratch (sched_ex 200)) = user_context cpu_ex"
    "group_task tasks_slot_3 (of_nat (visit (unat (sc_next_id (sched_ex 200))) k)) = Inr (sc_sscratch (c_sched c'))" by blast
  have "rs_pc (user_context cpu_ex) = 0x8000" by (simp add: user_context_def cpu_ex_def)
  then show ?thesis using c'(1,2) slot_3_task [OF visit_less] c'(3) unfolding t(1) by (intro exI [of _ c']) (simp del: append.simps)
qed

subsection \<open>System calls\<close>

text \<open>The caller is the current task and its registers are as they were saved.\<close>

definition resumes :: "usize \<Rightarrow> register_state \<Rightarrow> sched \<Rightarrow> bool" where
  "resumes t r s \<longleftrightarrow> sc_sscratch s = t \<and> td_register_state (sc_tasks s t) = r"

lemma keeps_resumes [keeps_intros]: "keeps (resumes t r) (onM f)" "keeps (resumes t r) (insert_task a)"
  "keeps (resumes t r) (allocate_memory p n rwx)" "keeps (resumes t r) (deallocate_memory p n)"
  unfolding allocate_memory_def deallocate_memory_def
  by (auto simp: keeps_def resumes_def onM_def insert_task_def bindP_eq_Inr split_beta split: sum.splits)

lemma resumes_updates:
  "resumes t r s \<Longrightarrow> resumes t r (set_queues u q s)" "resumes t r s \<Longrightarrow> resumes t r (set_supervisor_userpage_access b s)"
  "resumes t r s \<Longrightarrow> u \<noteq> t \<Longrightarrow> resumes t r (set_pc u a s)" "resumes t r s \<Longrightarrow> u \<noteq> t \<Longrightarrow> resumes t r (set_stack_pointer u a s)"
  by (auto simp: resumes_def set_queues_def set_supervisor_userpage_access_def set_pc_def set_stack_pointer_def upd_task_def)

lemmas keeps_resumes_loops [keeps_intros] =
  keeps_loops [where P = "\<lambda>k. resumes t r (k_sched k)", OF keeps_onIO(1) keeps_onIO(1), OF keeps_onS keeps_onS, OF keeps_resumes(1) keeps_resumes(1)] for t r

lemma resumes_calls:
  "keeps (\<lambda>k. resumes t r (k_sched k)) (sys_io_set_queues u a b c d)"
  "keeps (\<lambda>k. resumes t r (k_sched k)) (sys_io_notify_return u a)"
  "keeps (\<lambda>k. resumes t r (k_sched k)) (sys_mem_alloc a b c)"
  "keeps (\<lambda>k. resumes t r (k_sched k)) (sys_mem_dealloc a b)"
  "keeps (\<lambda>k. resumes t r (k_sched k)) sys_mem_get_flags"
  "keeps (\<lambda>k. resumes t r (k_sched k)) sys_mem_set_flags"
  "keeps (\<lambda>k. resumes t r (k_sched k)) (sys_dev_dma_alloc a b)"
  "keeps (\<lambda>k. resumes t r (k_sched k)) (sys_platform_info a)"
  "keeps (\<lambda>k. resumes t r (k_sched k)) (sys_direct_alloc a b c)"
  "keeps (\<lambda>k. resumes t r (k_sched k)) (sys_reserve_interrupt a)"
  "keeps (\<lambda>k. resumes t r (k_sched k)) sys_placeholder"
  "keeps (\<lambda>k. resumes t r (k_sched k)) (sys_set_interrupt_controller a b c)"
  "keeps (\<lambda>k. resumes t r (k_sched k)) (sys_mem_physical_addresses a b c)"
  "keeps (\<lambda>k. resumes t r (k_sched k)) (sys_log a b)"
  unfolding sys_all by (intro keeps_intros resumes_updates; simp?)+

lemma resumes_other:
  "keeps (\<lambda>k. resumes t r (k_sched k)) (sys_io_set_notify_handler u a)"
  "keeps (\<lambda>k. resumes t r (k_sched k)) (sys_registry_add a b c)"
  "keeps (\<lambda>k. resumes t r (k_sched k)) (sys_registry_get a b)"
proof -
  show "keeps (\<lambda>k. resumes t r (k_sched k)) (sys_io_set_notify_handler u a)"
    by (simp add: keeps_def sys_io_set_notify_handler_def set_notification_handler_def resumes_def upd_task_def)
  show "keeps (\<lambda>k. resumes t r (k_sched k)) (sys_registry_add a b c)"
    unfolding sys_registry_add_def Let_def by (intro keeps_intros keeps_registry resumes_updates; simp?)
  show "keeps (\<lambda>k. resumes t r (k_sched k)) (sys_registry_get a b)"
    unfolding sys_registry_get_def Let_def by (intro keeps_intros keeps_registry resumes_updates; simp?)
qed

text \<open>\<open>task_spawn\<close> writes to the structure of the new task, which is not the caller's.\<close>

definition spawning :: "usize \<Rightarrow> register_state \<Rightarrow> sched \<Rightarrow> bool" where
  "spawning t r s \<longleftrightarrow> resumes t r s \<and> sc_task_data_address s \<noteq> t"

lemma keeps_spawning [keeps_intros]: "keeps (spawning t r) (onM f)"
  by (auto simp: keeps_def spawning_def resumes_def onM_def split: sum.splits)

lemmas keeps_spawning_loops =
  keeps_loops(1) [where P = "\<lambda>k. spawning t r (k_sched k)", OF keeps_onIO(1) keeps_onIO(1), OF keeps_onS keeps_onS, OF keeps_spawning keeps_spawning] for t r

lemma onM_eq_Inr: "onM f s = Inr (x, s') \<longleftrightarrow> (\<exists>m. f (sc_machine s) = Inr (x, m) \<and> s' = s\<lparr>sc_machine := m\<rparr>)"
  by (auto simp: onM_def split: sum.splits)

lemma task_new_resumes: "spawning t r s \<Longrightarrow> task_new vms s = Inr (u, s') \<Longrightarrow> u \<noteq> t \<and> resumes t r s'"
  by (auto simp: task_new_def bindK_eq_Inr bindP_eq_Inr Let_def spawning_def resumes_def upd_task_def onM_eq_Inr)

lemma resumes_spawn:
  assumes "spawning t r (k_sched k)" "sys_task_spawn a b c d k = Inr (e, k')"
  shows "resumes t r (k_sched k')"
proof -
  have pre: "keeps (\<lambda>k. spawning t r (k_sched k)) (bindK (onMem vms_new) (\<lambda>vms.
      bindK (modSched (set_supervisor_userpage_access True)) (\<lambda>_. bindK (spawn_mappings vms a (unat b)) (\<lambda>_.
      bindK (modSched (set_supervisor_userpage_access False)) (\<lambda>_. retK vms)))))" (is "keeps _ ?pre")
    by (intro keeps_intros keeps_spawning_loops) (simp_all add: spawning_def resumes_def set_supervisor_userpage_access_def)
  have post: "keeps (\<lambda>k. resumes t r (k_sched k)) (bindK (modSched (set_pc u c)) (\<lambda>_.
      bindK (modSched (set_stack_pointer u d)) (\<lambda>_. bindK (onSched (insert_task u)) (\<lambda>i. retK (Return ST_Ok i)))))" if "u \<noteq> t" for u
    using that by (intro keeps_intros resumes_updates)
  obtain vms k1 u k2 where 1: "?pre k = Inr (vms, k1)" and 2: "onSched (task_new vms) k1 = Inr (u, k2)"
      and 3: "bindK (modSched (set_pc u c)) (\<lambda>_. bindK (modSched (set_stack_pointer u d)) (\<lambda>_.
        bindK (onSched (insert_task u)) (\<lambda>i. retK (Return ST_Ok i)))) k2 = Inr (e, k')"
    using assms(2) unfolding sys_task_spawn_def bindK_eq_Inr by (auto simp: bindK_eq_Inr)
  have "spawning t r (k_sched k1)" using keepsD [OF pre] assms(1) 1 by blast
  with 2 have "u \<noteq> t" "resumes t r (k_sched k2)"
    by (auto simp: onIO_def onS_def dest!: task_new_resumes split: sum.splits)
  then show ?thesis using keepsD [OF post _ 3] by blast
qed

lemma syscall_resumes:
  assumes "n < length (syscall_table fuel a0 a1 a2 a3 task)" "(syscall_table fuel a0 a1 a2 a3 task ! n) k = Inr (Return st v, k')"
    "spawning t r (k_sched k)"
  shows "resumes t r (k_sched k')"
proof -
  have r: "resumes t r (k_sched k)" using assms(3) by (simp add: spawning_def)
  have w: "sys_io_wait fuel u a k \<noteq> Inr (Return st v, k')" for u a
    by (auto simp: sys_io_wait_def bindK_eq_Inr split: if_splits)
  define Q where "Q f \<longleftrightarrow> (f k = Inr (Return st v, k') \<longrightarrow> resumes t r (k_sched k'))" for f :: "sys_exit sysK"
  have q: "Q f" if "keeps (\<lambda>k. resumes t r (k_sched k)) f" for f
    unfolding Q_def using keepsD [OF that, of k "Return st v" k'] r by blast
  have "Q (sys_io_wait fuel task a0)" using w unfolding Q_def by blast
  moreover have "Q (sys_task_spawn a0 a1 a2 a3)" using resumes_spawn [OF assms(3)] unfolding Q_def by blast
  ultimately have "\<forall>f \<in> set (syscall_table fuel a0 a1 a2 a3 task). Q f"
    unfolding syscall_table_def list.set ball_simps
    by (simp add: q resumes_calls resumes_other)
  then have "Q (syscall_table fuel a0 a1 a2 a3 task ! n)" using nth_mem [OF assms(1)] by blast
  then show ?thesis using assms(2) unfolding Q_def by blast
qed

lemma load_all_but_result: "n \<in> {1..31} \<Longrightarrow> n \<noteq> 10 \<Longrightarrow> n \<noteq> 11 \<Longrightarrow> load_gp_regs 12 31 r (load_gp_regs 1 9 r x) n = rs_x r ! (n - 1)"
  by (auto simp: load_gp_regs_def)

text \<open>The prologue of an \<open>ecall\<close>, and the way back to the caller.\<close>

lemma ecall_enters:
  assumes "sc_sscratch (c_sched c) \<noteq> 0"
  defines "t \<equiv> sc_sscratch (c_sched c)" and "d \<equiv> save_context (c_pc c + 4) (take_trap 8 c)"
  shows "deliver fuel padding source False 8 c = trap_syscall fuel padding t d"
    "saved d t = (user_context c)\<lparr>rs_pc := c_pc c + 4\<rparr>" "sc_sscratch (c_sched d) = t" "c_x d = c_x c" "c_sepc d = c_pc c"
    "\<not> bit (c_sstatus d) 8" "sc_task_data_address (c_sched d) = sc_task_data_address (c_sched c)"
proof -
  show "deliver fuel padding source False 8 c = trap_syscall fuel padding t d"
    using assms(1) by (simp add: deliver_def interrupt_table_def trap_handler_def sync_trap_table_def d_def t_def Let_def nth_append)
  show "saved d t = (user_context c)\<lparr>rs_pc := c_pc c + 4\<rparr>" "sc_sscratch (c_sched d) = t" "c_x d = c_x c" "c_sepc d = c_pc c" "\<not> bit (c_sstatus d) 8"
    by (simp_all add: d_def t_def save_context_saved user_context_def)
  show "sc_task_data_address (c_sched d) = sc_task_data_address (c_sched c)" by (simp add: d_def save_context_def set_saved_def upd_task_def Let_def)
qed

lemma syscall_return_resumes:
  assumes "resumes t ((user_context c)\<lparr>rs_pc := pc\<rparr>) (c_sched e)" "\<not> bit (c_sstatus e) 8" "c_sepc e = pc"
  shows "\<exists>c'. syscall_return a0 a1 e = Inr (Resumed, c') \<and> c_user c' \<and> c_pc c' = pc \<and> c_kernel c' = c_kernel e
    \<and> c_x c' 10 = a0 \<and> c_x c' 11 = a1 \<and> (\<forall>n \<in> {1..31} - {10, 11}. c_x c' n = c_x c n)"
proof -
  have "map (\<lambda>i. c_x c (i + 1)) [0..<31] ! (n - 1) = c_x c n" if "n \<in> {1..31}" for n using that by auto
  then show ?thesis using assms by (auto simp: syscall_return_def Let_def resumes_def load_gp_regs_def user_context_def)
qed

lemma ecall_returns:
  assumes "sc_sscratch (c_sched c) \<noteq> 0" "sc_task_data_address (c_sched c) \<noteq> sc_sscratch (c_sched c)" "\<not> 20 \<le> c_x c 17"
    and k': "(syscall_table fuel (c_x c 10) (c_x c 11) (c_x c 12) (c_x c 13) (sc_sscratch (c_sched c)) ! unat (c_x c 17))
      (c_kernel (save_context (c_pc c + 4) (take_trap 8 c))) = Inr (Return st v, k')"
  shows "\<exists>c'. deliver fuel padding source False 8 c = Inr (Resumed, c') \<and> c_user c' \<and> c_pc c' = c_pc c + 4 \<and> c_kernel c' = k'
    \<and> c_x c' 10 = push_bit 8 padding OR ucast (status_u8 st) \<and> c_x c' 11 = v \<and> (\<forall>n \<in> {1..31} - {10, 11}. c_x c' n = c_x c n)"
proof -
  let ?t = "sc_sscratch (c_sched c)" and ?r = "(user_context c)\<lparr>rs_pc := c_pc c + 4\<rparr>"
  define d where "d = save_context (c_pc c + 4) (take_trap 8 c)"
  note D = ecall_enters [OF assms(1), folded d_def]
  have n: "unat (c_x c 17) < length (syscall_table fuel (c_x c 10) (c_x c 11) (c_x c 12) (c_x c 13) ?t)"
    using assms(3) by (simp add: syscall_table_def word_le_nat_alt)
  have "spawning ?t ?r (c_sched d)" using D(2,3,7) assms(2) by (simp add: spawning_def resumes_def)
  then have r: "resumes ?t ?r (k_sched k')" using syscall_resumes [OF n k'] by (simp add: d_def)
  define e where "e = csrs_sstatus (push_bit 14 1) (csrc_sstatus (push_bit 13 1) (d\<lparr>c_sepc := c_pc c + 4, c_kernel := k'\<rparr>))"
  have e: "c_kernel e = k'" unfolding e_def csr_float by simp
  have "\<not> bit (c_sstatus e) 8" "c_sepc e = c_pc c + 4" using D(6) by (simp_all add: e_def bit_simps)
  moreover have "deliver fuel padding source False 8 c = syscall_return (push_bit 8 padding OR ucast (status_u8 st)) v e"
    unfolding D(1) using k' assms(3) D(4,5) by (simp add: trap_syscall_def SYSCALL_MAX_def Let_def onKernel_def d_def [symmetric] e_def)
  ultimately show ?thesis using syscall_return_resumes [of ?t "c_pc c + 4" c e] r e by auto
qed

text \<open>
  C29. A system call resumes its caller. When the handler that \<open>a7\<close> selects returns a status and a value,
  the caller continues behind its \<open>ecall\<close> in user mode with all its registers, except that the low byte
  of \<open>a0\<close> is the status and \<open>a1\<close> the value. A number without a handler gives the status \<open>InvalidCall\<close> and
  leaves everything but \<open>a0\<close> alone.
\<close>
theorem syscall_resumes_caller:
  assumes "sc_sscratch (c_sched c) \<noteq> 0" "sc_task_data_address (c_sched c) \<noteq> sc_sscratch (c_sched c)"
  shows "if 20 \<le> c_x c 17
    then \<exists>c'. deliver fuel padding source False 8 c = Inr (Resumed, c') \<and> c_user c' \<and> c_pc c' = c_pc c + 4
      \<and> c_x c' 10 = ucast (status_u8 ST_InvalidCall) \<and> (\<forall>n \<in> {1..31} - {10}. c_x c' n = c_x c n)
    else \<forall>st v k'. (syscall_table fuel (c_x c 10) (c_x c 11) (c_x c 12) (c_x c 13) (sc_sscratch (c_sched c)) ! unat (c_x c 17))
        (c_kernel (save_context (c_pc c + 4) (take_trap 8 c))) = Inr (Return st v, k') \<longrightarrow>
      (\<exists>c'. deliver fuel padding source False 8 c = Inr (Resumed, c') \<and> c_user c' \<and> c_pc c' = c_pc c + 4 \<and> c_kernel c' = k'
        \<and> ucast (c_x c' 10) = status_u8 st \<and> c_x c' 11 = v \<and> (\<forall>n \<in> {1..31} - {10, 11}. c_x c' n = c_x c n))"
proof (cases "20 \<le> c_x c 17")
  case True
  define d where "d = save_context (c_pc c + 4) (take_trap 8 c)"
  note D = ecall_enters [OF assms(1), folded d_def]
  have "resumes (sc_sscratch (c_sched c)) ((user_context c)\<lparr>rs_pc := c_pc c + 4\<rparr>) (c_sched (d\<lparr>c_sepc := c_pc c + 4\<rparr>))" using D by (simp add: resumes_def)
  from syscall_return_resumes [OF this, of 1 "c_x c 11"] show ?thesis using True D by (auto simp: trap_syscall_def SYSCALL_MAX_def Let_def)
next
  case False
  have "ucast (push_bit 8 padding OR ucast b :: usize) = b" for b :: u8 by (rule bit_word_eqI) (auto simp: bit_simps)
  then show ?thesis using ecall_returns [OF assms False, of fuel _ _ _ padding source] False by fastforce
qed

text \<open>Call 2 with a handler at address 2, from the task at \<open>0x5000\<close>.\<close>

lemma syscall_resumes_caller_witness:
  "\<exists>c'. deliver 0 0 0 False 8 (cpu_ex\<lparr>c_x := \<lambda>_. 2\<rparr>) = Inr (Resumed, c') \<and> c_pc c' = 0x8004 \<and> ucast (c_x c' 10) = status_u8 ST_Ok \<and> c_x c' 2 = 2"
proof -
  let ?c = "cpu_ex\<lparr>c_x := \<lambda>_. 2\<rparr>" and ?t = "0x5000 :: usize"
  have t: "sc_sscratch (c_sched ?c) = ?t" "sc_task_data_address (c_sched ?c) = 0x3000" "c_pc ?c = 0x8000" by (simp_all add: cpu_ex_def sched_ex_def)
  have "syscall_table 0 2 2 2 2 ?t ! unat (2 :: usize) = sys_io_set_notify_handler ?t 2" by (simp add: syscall_table_def)
  then obtain st v k' where k: "(syscall_table 0 2 2 2 2 ?t ! unat (2 :: usize)) (c_kernel (save_context (c_pc ?c + 4) (take_trap 8 ?c))) = Inr (Return st v, k')"
    and "st = ST_Ok"
    by (simp add: sys_io_set_notify_handler_def set_notification_handler_def)
  with syscall_resumes_caller [of ?c 0 0 0] t show ?thesis by (auto simp: word_le_nat_alt)
qed

subsection \<open>Notifications\<close>

lemma user_store_4:
  assumes "user_store a [w0, w1, w2, w3] k = Inr (x, k')"
  shows "k' = k\<lparr>k_words := (k_words k)(active_vms (k_io k) :=
    (k_words k (active_vms (k_io k)))(a \<mapsto> w0, a + 8 \<mapsto> w1, a + 16 \<mapsto> w2, a + 24 \<mapsto> w3))\<rparr>"
  using assms by (auto simp: add.assoc split: if_splits)

lemma notification_prepare_simps:
  "sc_tasks (c_sched (notification_prepare t c)) = (sc_tasks (c_sched c))(t := (sc_tasks (c_sched c) t)\<lparr>td_wait_time := 0\<rparr>)"
  "saved (notification_prepare t c) u = saved c u"
  "sc_sscratch (c_sched (notification_prepare t c)) = t" "k_plic (c_kernel (notification_prepare t c)) = k_plic (c_kernel c)"
  "active_vms (k_io (c_kernel (notification_prepare t c))) = td_virtual_memory (sc_tasks (c_sched c) t)"
  "c_sepc (notification_prepare t c) = (case td_notification_handler (sc_tasks (c_sched c) t) of None \<Rightarrow> 0 | Some h \<Rightarrow> h)"
  "\<not> bit (c_sstatus (notification_prepare t c)) 8" "sc_next_id (c_sched (notification_prepare t c)) = sc_next_id (c_sched c)"
  by (simp_all add: notification_prepare_def Let_def upd_task_def bit_simps)

lemma notification_leave_simps:
  "c_sched (notification_leave r typ v a c) = (c_sched c)\<lparr>sc_user_access := False\<rparr>"
  "k_plic (c_kernel (notification_leave r typ v a c)) = k_plic (c_kernel c)"
  "k_words (c_kernel (notification_leave r typ v a c)) = k_words (c_kernel c)"
  "c_pc (notification_leave r typ v a c) = c_sepc c"
  "\<not> bit (c_sstatus c) 8 \<Longrightarrow> c_user (notification_leave r typ v a c)"
  "c_x (notification_leave r typ v a c) 10 = typ" "c_x (notification_leave r typ v a c) 11 = v" "c_x (notification_leave r typ v a c) 17 = a"
  by (auto simp: notification_leave_def Let_def load_gp_regs_def bit_simps csrs_sstatus_def csrc_sstatus_def upd_sched_def)

lemma notification_leave_regs: "n \<in> {1..31} - {10, 11, 17} \<Longrightarrow> c_x (notification_leave r typ v a c) n = rs_x r ! (n - 1)"
  by (cases "n = 2") (auto simp: notification_leave_def Let_def load_gp_regs_def)

lemma notification_enter_Inr:
  assumes "notification_enter t typ v a c = Inr (q, c')"
  defines "r \<equiv> saved c t" and "sp \<equiv> rs_x (saved c t) ! 1" and "vm \<equiv> td_virtual_memory (sc_tasks (c_sched c) t)"
  shows "q = Resumed \<and> c_user c'" "sc_sscratch (c_sched c') = t" "active_vms (k_io (c_kernel c')) = vm"
    "sc_tasks (c_sched c') = (sc_tasks (c_sched c))(t := (sc_tasks (c_sched c) t)\<lparr>td_wait_time := 0\<rparr>)"
    "k_plic (c_kernel c') = k_plic (c_kernel c)" "\<not> sc_user_access (c_sched c')"
    "c_pc c' = (case td_notification_handler (sc_tasks (c_sched c) t) of None \<Rightarrow> 0 | Some h \<Rightarrow> h)"
    "c_x c' 10 = typ" "c_x c' 11 = v" "c_x c' 17 = a" "\<And>n. n \<in> {1..31} - {10, 11, 17} \<Longrightarrow> c_x c' n = rs_x r ! (n - 1)"
    "k_words (c_kernel c') vm (sp - 32) = Some (rs_x r ! 9)" "k_words (c_kernel c') vm (sp - 24) = Some (rs_x r ! 10)"
    "k_words (c_kernel c') vm (sp - 16) = Some (rs_x r ! 16)" "k_words (c_kernel c') vm (sp - 8) = Some (rs_pc r)"
    "sc_next_id (c_sched c') = sc_next_id (c_sched c)"
proof -
  define e where "e = notification_prepare t c"
  have e: "saved e t = r" "active_vms (k_io (c_kernel e)) = vm" by (simp_all add: e_def notification_prepare_simps r_def vm_def)
  obtain x k where k: "user_store (sp - 32) [rs_x r ! 9, rs_x r ! 10, rs_x r ! 16, rs_pc r] (c_kernel e) = Inr (x, k)"
      and c': "c' = notification_leave r typ v a (e\<lparr>c_kernel := k\<rparr>)" and q: "q = Resumed"
    using assms(1) by (auto simp: notification_enter_def Let_def bindP_eq_Inr store_words_def onKernel_def e_def [symmetric] e(1) sp_def r_def
        simp del: user_store.simps split: prod.splits)
  have k4: "k = (c_kernel e)\<lparr>k_words := (k_words (c_kernel e))(vm := (k_words (c_kernel e) vm)
      (sp - 32 \<mapsto> rs_x r ! 9, sp - 24 \<mapsto> rs_x r ! 10, sp - 16 \<mapsto> rs_x r ! 16, sp - 8 \<mapsto> rs_pc r))\<rparr>"
    using user_store_4 [OF k] e(2) by simp
  note s = c' k4 notification_leave_simps e_def notification_prepare_simps
  show "q = Resumed \<and> c_user c'" "sc_sscratch (c_sched c') = t" "k_plic (c_kernel c') = k_plic (c_kernel c)" "active_vms (k_io (c_kernel c')) = vm"
    "sc_tasks (c_sched c') = (sc_tasks (c_sched c))(t := (sc_tasks (c_sched c) t)\<lparr>td_wait_time := 0\<rparr>)" "\<not> sc_user_access (c_sched c')"
    "c_pc c' = (case td_notification_handler (sc_tasks (c_sched c) t) of None \<Rightarrow> 0 | Some h \<Rightarrow> h)"
    "c_x c' 10 = typ" "c_x c' 11 = v" "c_x c' 17 = a" "sc_next_id (c_sched c') = sc_next_id (c_sched c)"
    using q by (simp_all add: s vm_def)
  show "c_x c' n = rs_x r ! (n - 1)" if "n \<in> {1..31} - {10, 11, 17}" for n
    using notification_leave_regs [OF that] by (simp add: c')
  show "k_words (c_kernel c') vm (sp - 32) = Some (rs_x r ! 9)" "k_words (c_kernel c') vm (sp - 24) = Some (rs_x r ! 10)"
    "k_words (c_kernel c') vm (sp - 16) = Some (rs_x r ! 16)" "k_words (c_kernel c') vm (sp - 8) = Some (rs_pc r)"
    by (simp_all add: c' k4 notification_leave_simps)
qed

text \<open>The end of a notification: what the handler's \<open>ecall\<close> with the maximum in \<open>a0\<close> resumes.\<close>

abbreviation claim_register :: usize where
  "claim_register \<equiv> OFFSET_CLAIM_COMPLETE + STRIDE_PRIORITY_THRESHOLDS"

lemma finish_notification_simps:
  "saved (finish_notification t c) u = saved c u" "sc_sscratch (c_sched (finish_notification t c)) = sc_sscratch (c_sched c)"
  "td_virtual_memory (sc_tasks (c_sched (finish_notification t c)) u) = td_virtual_memory (sc_tasks (c_sched c) u)"
  "td_current_irq (sc_tasks (c_sched (finish_notification t c)) t) = 0"
  "k_words (c_kernel (finish_notification t c)) = k_words (c_kernel c)" "c_x (finish_notification t c) = c_x c"
  "c_sstatus (finish_notification t c) = c_sstatus c" "sc_next_id (c_sched (finish_notification t c)) = sc_next_id (c_sched c)"
  "td_current_irq (sc_tasks (c_sched c) t) \<noteq> 0 \<Longrightarrow>
    pl_regs (k_plic (c_kernel (finish_notification t c))) claim_register = td_current_irq (sc_tasks (c_sched c) t)"
  by (simp_all add: finish_notification_def Let_def upd_task_def)

lemma finish_notification_tasks:
  "td_current_irq (sc_tasks (c_sched c) t) \<noteq> 0 \<Longrightarrow> sc_tasks (c_sched (finish_notification t c)) =
    (sc_tasks (c_sched c))(t := (sc_tasks (c_sched c) t)\<lparr>td_current_irq := 0, td_flags := td_flags (sc_tasks (c_sched c) t) OR FLAG_NOTIFIED\<rparr>)"
  by (simp add: finish_notification_def Let_def upd_task_def)

lemma notify_return_resumes:
  assumes "sc_sscratch (c_sched c) = t" "t \<noteq> 0" "td_current_irq (sc_tasks (c_sched c) t) \<noteq> 0" "c_x c 10 = USIZE_MAX" "c_x c 17 = 9"
  defines "vm \<equiv> td_virtual_memory (sc_tasks (c_sched c) t)"
  assumes "k_words (c_kernel c) vm (c_x c 2 - 32) = Some a0" "k_words (c_kernel c) vm (c_x c 2 - 24) = Some a1"
    "k_words (c_kernel c) vm (c_x c 2 - 16) = Some a7" "k_words (c_kernel c) vm (c_x c 2 - 8) = Some pc"
    "\<forall>n \<in> {1..31} - {10, 11, 17}. c_x c n = rs_x r ! (n - 1)" "rs_pc r = pc" "rs_x r ! 9 = a0" "rs_x r ! 10 = a1" "rs_x r ! 16 = a7"
  shows "\<exists>c'. deliver fuel padding source False 8 c = Inr (Resumed, c') \<and> running c' r \<and> sc_sscratch (c_sched c') = t
    \<and> sc_next_id (c_sched c') = sc_next_id (c_sched c) \<and> active_vms (k_io (c_kernel c')) = vm \<and> pl_regs (k_plic (c_kernel c')) claim_register = td_current_irq (sc_tasks (c_sched c) t)
    \<and> (sc_user_access (c_sched c') \<longleftrightarrow> \<not> bit pc SUM_BIT)
    \<and> unsaved c' t = (unsaved c t)\<lparr>td_current_irq := 0, td_flags := td_flags (unsaved c t) OR FLAG_NOTIFIED\<rparr>
    \<and> (\<forall>u. u \<noteq> t \<longrightarrow> unsaved c' u = unsaved c u \<and> saved c' u = saved c u)"
    (is "\<exists>c'. _ = _ \<and> ?after c'")
proof -
  define d where "d = save_context (c_pc c + 4) (take_trap 8 c)"
  have d: "saved d t = (user_context c)\<lparr>rs_pc := c_pc c + 4\<rparr>" "sc_sscratch (c_sched d) = t" "c_x d = c_x c" "\<not> bit (c_sstatus d) 8"
    "td_virtual_memory (sc_tasks (c_sched d) t) = vm" "td_current_irq (sc_tasks (c_sched d) t) = td_current_irq (sc_tasks (c_sched c) t)"
    "k_words (c_kernel d) = k_words (c_kernel c)" "\<And>u. unsaved d u = unsaved c u" "\<And>u. u \<noteq> t \<Longrightarrow> saved d u = saved c u"
    "sc_next_id (c_sched d) = sc_next_id (c_sched c)"
    using assms(1) by (simp_all add: d_def save_context_saved vm_def user_context_def) (simp_all add: save_context_def set_saved_def upd_task_def Let_def)
  let ?d = "d\<lparr>c_sepc := c_sepc d + 4\<rparr>"
  have "deliver fuel padding source False 8 c = trap_syscall fuel padding t d"
    using assms(1,2) by (simp add: deliver_def interrupt_table_def trap_handler_def sync_trap_table_def d_def Let_def nth_append)
  also have "\<dots> = syscall_io_notify_return t ?d"
    using d(3) assms(4,5)
    by (simp add: trap_syscall_def SYSCALL_MAX_def word_le_nat_alt Let_def syscall_table_def onKernel_def sys_io_notify_return_def)
  also have "\<exists>c'. \<dots> = Inr (Resumed, c') \<and> ?after c'"
  proof -
    define e where "e = csrs_sstatus (push_bit SUM_BIT 1) (switch_to t (finish_notification t ?d))"
    have e: "saved e t = saved d t" "active_vms (k_io (c_kernel e)) = vm" "sc_user_access (c_sched e)" "k_words (c_kernel e) = k_words (c_kernel c)"
      "sc_sscratch (c_sched e) = t" "\<not> bit (c_sstatus e) 8" "c_x e = c_x c"
      "pl_regs (k_plic (c_kernel e)) claim_register = td_current_irq (sc_tasks (c_sched c) t)" "sc_next_id (c_sched e) = sc_next_id (c_sched c)"
      using d(1-7,10) assms(3) finish_notification_simps(9) [of ?d t] by (simp_all add: e_def finish_notification_simps bit_simps)
    have u: "unsaved e t = (unsaved c t)\<lparr>td_current_irq := 0, td_flags := td_flags (unsaved c t) OR FLAG_NOTIFIED\<rparr>"
      "\<And>u. u \<noteq> t \<Longrightarrow> unsaved e u = unsaved c u \<and> saved e u = saved c u"
      unfolding d(8) [symmetric] using finish_notification_tasks [of ?d t] d(6,9) assms(3) by (simp_all add: e_def unsaved_def)
    have r2: "rs_x (saved e t) ! 1 = c_x c 2" "\<And>n. n \<in> {1..31} \<Longrightarrow> rs_x (saved e t) ! (n - 1) = c_x c n"
      using d(1) e(1) by (auto simp: user_context_def numeral_2_eq_2)
    let ?x = "load_gp_regs 18 31 (saved e t) (load_gp_regs 12 16 (saved e t) (load_gp_regs 1 9 (saved e t)
        ((c_x c)(2 := c_x c 2, 10 := a0, 11 := a1, 17 := a7))))"
    let ?f = "csrs_sstatus (push_bit 14 1) (csrc_sstatus (push_bit 13 1) (csrc_sstatus pc (e\<lparr>c_sepc := pc\<rparr>)))"
    have x: "?x n = rs_x r ! (n - 1)" if n: "n \<in> {1..31}" for n
    proof (cases "n \<in> {10, 11, 17}")
      case True
      then show ?thesis using assms(13-15) by (auto simp: load_gp_regs_def)
    next
      case False
      then have "?x n = c_x c n" using n r2(2) [OF n] by (auto simp: load_gp_regs_def)
      then show ?thesis using False n assms(11) by simp
    qed
    have "syscall_io_notify_return t ?d = Inr (Resumed, sret (?f\<lparr>c_x := ?x\<rparr>))"
      unfolding syscall_io_notify_return_def Let_def e_def [symmetric] using e assms(7-10) r2(1)
      by (simp add: load_word_def finish_notification_simps(1))
    moreover have "running (sret (?f\<lparr>c_x := ?x\<rparr>)) r" using x e(6) assms(12) by (simp add: running_def bit_simps)
    moreover have "sc_tasks (c_sched (sret (?f\<lparr>c_x := ?x\<rparr>))) = sc_tasks (c_sched e)" by simp
    note unsaved_tasks [OF this] u
    ultimately show ?thesis using e by (intro exI [of _ "sret (?f\<lparr>c_x := ?x\<rparr>)"]) simp
  qed
  finally show ?thesis .
qed

lemma get_task_Inr:
  "get_task a s = Inr (x, s') \<Longrightarrow> sc_tasks s' = sc_tasks s \<and> sc_sscratch s' = sc_sscratch s \<and> sc_machine s' = sc_machine s"
  by (auto simp: get_task_def address_group_eq address_task_eq Let_def split: prod.splits option.splits)

lemma get_task_groups:
  assumes "get_task a s = Inr (x, s')" "sc_groups s1 = sc_groups s"
  shows "sc_next_id s' = a" "\<exists>s1'. get_task a s1 = Inr (x, s1')"
  using assms by (auto simp: get_task_def address_group_eq address_task_eq Let_def split: prod.splits option.splits)

lemma external_interrupt_Inr:
  assumes "deliver fuel padding source True 9 c = Inr (q, c1)"
  obtains t e where "0 < unat source" "unat source \<le> length (pl_reservations (k_plic (c_kernel c)))"
    "notification_enter t 0 (ucast source) USIZE_MAX e = Inr (q, c1)" "k_plic (c_kernel e) = k_plic (c_kernel c)"
    "\<exists>s. get_task (pl_reservations (k_plic (c_kernel c)) ! (unat source - 1)) (c_sched c) = Inr (Some t, s)"
    "sc_next_id (c_sched e) = pl_reservations (k_plic (c_kernel c)) ! (unat source - 1)"
    "\<And>u. saved e u = (if u = sc_sscratch (c_sched c) then user_context c else saved c u)"
    "\<And>u. unsaved e u = (if u = t then (unsaved c t)\<lparr>td_current_irq := (td_current_irq (unsaved c t) AND NOT 0xffff) OR (source AND 0xffff)\<rparr> else unsaved c u)"
proof -
  define d where "d = save_context (c_pc c) (take_trap 9 c)"
  have d: "saved d u = (if u = sc_sscratch (c_sched c) then user_context c else saved c u)"
    "unsaved d u = unsaved c u" "k_plic (c_kernel d) = k_plic (c_kernel c)" "sc_groups (c_sched d) = sc_groups (c_sched c)" for u
    by (simp_all add: d_def save_context_saved user_context_def)
  have h: "deliver fuel padding source True 9 c = external_interrupt_handler source (take_trap 9 c)"
    by (simp add: deliver_def interrupt_table_def)
  obtain t s where t: "source \<noteq> 0" "unat source - 1 < length (pl_reservations (k_plic (c_kernel c)))"
      "get_task (pl_reservations (k_plic (c_kernel c)) ! (unat source - 1)) (c_sched d) = Inr (Some t, s)"
      "notification_enter t 0 (ucast source) USIZE_MAX (upd_sched (upd_task t (\<lambda>d. d\<lparr>td_current_irq :=
        (td_current_irq d AND NOT 0xffff) OR (source AND 0xffff)\<rparr>)) (upd_sched (\<lambda>_. s) d)) = Inr (q, c1)"
    using assms unfolding h external_interrupt_handler_def Let_def
    by (auto simp: d_def [symmetric] d(3) bindP_eq_Inr indexP_eq_Inr onKernel_def onIO_def onS_def upd_sched_def
        split: if_splits option.splits sum.splits)
  note s = get_task_Inr [OF t(3)] get_task_groups [OF t(3), of "c_sched c"]
  show thesis
    by (rule that [OF _ _ t(4)])
      (use t(1,2) s d in \<open>auto simp: upd_task_def unat_gt_0 word_neq_0_conv [symmetric] unsaved_def d(2) [unfolded unsaved_def, symmetric]\<close>)
qed

lemma irq_field:
  assumes "0 < unat source" "unat source < 1024"
  shows "(0 AND NOT 0xffff) OR (source AND 0xffff) = (source :: u32)" "source \<noteq> 0"
proof -
  have "source AND 0xffff = take_bit 16 source" by (simp add: take_bit_eq_mask mask_eq_exp_minus_1)
  moreover have "unat (take_bit 16 source) = unat source" using assms(2) by (simp add: unsigned_take_bit_eq take_bit_nat_eq_self)
  ultimately show "(0 AND NOT 0xffff) OR (source AND 0xffff) = source" by (simp add: word_unat_eq_iff)
  show "source \<noteq> 0" using assms(1) by auto
qed

text \<open>
  C30. A task that handles an interrupt and returns from the handler gets its registers and program counter
  back. The handler of the task that reserved the source starts with type 0, the source and the kernel's
  address, and the task's other registers. When it ends with \<open>io_notify_return\<close>, having put back all
  registers but \<open>a0\<close>, \<open>a1\<close> and \<open>a7\<close>, left the four words below the stack pointer alone and made no other
  call in between, the task continues on its own page tables with the registers and program counter it had
  when the interrupt came, or when it was stopped if it was not running, and the interrupt is completed with
  its own number. Four things are not as before: the task's wait is over (its wait time is 0), its
  structure has the flag \<open>NOTIFIED\<close>, the executor's next round starts from the task's address, and supervisor
  access to user pages is on unless bit 18 of the program counter is set. The rest of the task's structure
  and the other tasks are as before.
\<close>
theorem notification_restores_context:
  assumes "deliver fuel padding source True 9 c = Inr (q, c1)" "length (pl_reservations (k_plic (c_kernel c))) = 1023"
    "sc_sscratch (c_sched c1) = t" "t \<noteq> 0" "td_current_irq (sc_tasks (c_sched c) t) = 0"
    "c_kernel c2 = (c_kernel c1)\<lparr>k_words := w\<rparr>" "\<forall>n \<in> {1..31} - {10, 11, 17}. c_x c2 n = c_x c1 n" "c_x c2 10 = USIZE_MAX" "c_x c2 17 = 9"
    "\<forall>a \<in> {c_x c1 2 - 32, c_x c1 2 - 24, c_x c1 2 - 16, c_x c1 2 - 8}.
       w (active_vms (k_io (c_kernel c1))) a = k_words (c_kernel c1) (active_vms (k_io (c_kernel c1))) a"
  defines "r \<equiv> if t = sc_sscratch (c_sched c) then user_context c else saved c t"
  shows "(\<exists>s. get_task (pl_reservations (k_plic (c_kernel c)) ! (unat source - 1)) (c_sched c) = Inr (Some t, s))
    \<and> c_x c1 10 = 0 \<and> c_x c1 11 = ucast source \<and> c_x c1 17 = USIZE_MAX \<and> (\<forall>n \<in> {1..31} - {10, 11, 17}. c_x c1 n = rs_x r ! (n - 1))
    \<and> c_user c1 \<and> c_pc c1 = (case td_notification_handler (sc_tasks (c_sched c) t) of None \<Rightarrow> 0 | Some h \<Rightarrow> h)
    \<and> (\<exists>c3. deliver fuel padding source' False 8 c2 = Inr (Resumed, c3) \<and> running c3 r \<and> sc_sscratch (c_sched c3) = t
        \<and> active_vms (k_io (c_kernel c3)) = td_virtual_memory (sc_tasks (c_sched c) t)
        \<and> pl_regs (k_plic (c_kernel c3)) claim_register = source
        \<and> sc_next_id (c_sched c3) = pl_reservations (k_plic (c_kernel c)) ! (unat source - 1)
        \<and> (sc_user_access (c_sched c3) \<longleftrightarrow> \<not> bit (rs_pc r) SUM_BIT)
        \<and> unsaved c3 t = (unsaved c t)\<lparr>td_wait_time := 0, td_flags := td_flags (unsaved c t) OR FLAG_NOTIFIED\<rparr>
        \<and> (\<forall>u. u \<noteq> t \<longrightarrow> unsaved c3 u = unsaved c u \<and> saved c3 u = (if u = sc_sscratch (c_sched c) then user_context c else saved c u)))"
proof -
  obtain u e where u: "0 < unat source" "unat source \<le> 1023" and enter: "notification_enter u 0 (ucast source) USIZE_MAX e = Inr (q, c1)"
    and g: "\<exists>s. get_task (pl_reservations (k_plic (c_kernel c)) ! (unat source - 1)) (c_sched c) = Inr (Some u, s)"
      "sc_next_id (c_sched e) = pl_reservations (k_plic (c_kernel c)) ! (unat source - 1)"
    and e: "\<And>v. saved e v = (if v = sc_sscratch (c_sched c) then user_context c else saved c v)"
      "\<And>v. unsaved e v = (if v = u then (unsaved c u)\<lparr>td_current_irq := (td_current_irq (unsaved c u) AND NOT 0xffff) OR (source AND 0xffff)\<rparr> else unsaved c v)"
    using external_interrupt_Inr [OF assms(1)] assms(2) by metis
  note n = notification_enter_Inr [OF enter]
  have ut: "u = t" using n(2) assms(3) by simp
  have r: "saved e t = r" using e(1) by (simp add: r_def)
  have et: "td_current_irq (sc_tasks (c_sched e) t) = source" "source \<noteq> 0"
    "td_virtual_memory (sc_tasks (c_sched e) t) = td_virtual_memory (sc_tasks (c_sched c) t)"
    "td_notification_handler (sc_tasks (c_sched e) t) = td_notification_handler (sc_tasks (c_sched c) t)"
    using arg_cong [OF e(2) [of t], of td_current_irq] arg_cong [OF e(2) [of t], of td_virtual_memory]
      arg_cong [OF e(2) [of t], of td_notification_handler] ut assms(5) irq_field [OF u(1)] u(2) by (simp_all add: unsaved_simps)
  have c2: "sc_tasks (c_sched c2) = (sc_tasks (c_sched e))(t := (sc_tasks (c_sched e) t)\<lparr>td_wait_time := 0\<rparr>)" "sc_sscratch (c_sched c2) = t"
    "sc_next_id (c_sched c2) = sc_next_id (c_sched e)"
    using assms(3,6) n(4,16) ut by simp_all
  have irq: "td_current_irq (sc_tasks (c_sched c2) t) = source" and vm: "td_virtual_memory (sc_tasks (c_sched c2) t) = td_virtual_memory (sc_tasks (c_sched e) t)"
    using et(1) c2(1) by simp_all
  have us: "unsaved c2 t = (unsaved c t)\<lparr>td_wait_time := 0, td_current_irq := source\<rparr>"
    "\<And>v. v \<noteq> t \<Longrightarrow> unsaved c2 v = unsaved c v \<and> saved c2 v = saved e v"
  proof -
    have "unsaved e t = (unsaved c t)\<lparr>td_current_irq := source\<rparr>"
      using e(2) [of t] ut assms(5) irq_field(1) [OF u(1)] u(2) by (simp add: unsaved_simps)
    moreover have "unsaved c2 t = (unsaved e t)\<lparr>td_wait_time := 0\<rparr>" using c2(1) by (simp add: unsaved_def)
    ultimately show "unsaved c2 t = (unsaved c t)\<lparr>td_wait_time := 0, td_current_irq := source\<rparr>" by simp
    show "unsaved c2 v = unsaved c v \<and> saved c2 v = saved e v" if "v \<noteq> t" for v
      using c2(1) e(2) [of v] ut that by (simp add: unsaved_def)
  qed
  have sp: "c_x c2 2 = rs_x r ! 1" "c_x c1 2 = rs_x r ! 1" using n(11) [of 2] r ut assms(7) by simp_all
  have words: "k_words (c_kernel c2) (td_virtual_memory (sc_tasks (c_sched c2) t)) (c_x c2 2 - 32) = Some (rs_x r ! 9)"
    "k_words (c_kernel c2) (td_virtual_memory (sc_tasks (c_sched c2) t)) (c_x c2 2 - 24) = Some (rs_x r ! 10)"
    "k_words (c_kernel c2) (td_virtual_memory (sc_tasks (c_sched c2) t)) (c_x c2 2 - 16) = Some (rs_x r ! 16)"
    "k_words (c_kernel c2) (td_virtual_memory (sc_tasks (c_sched c2) t)) (c_x c2 2 - 8) = Some (rs_pc r)"
    using n(12-15) n(3) assms(6,10) vm r ut sp by auto
  have regs: "\<forall>n \<in> {1..31} - {10, 11, 17}. c_x c2 n = rs_x r ! (n - 1)" using n(11) r ut assms(7) by auto
  from notify_return_resumes [OF c2(2) assms(4) _ assms(8,9) words regs refl refl refl refl, of fuel padding source'] et(2)
  obtain c3 where c3: "deliver fuel padding source' False 8 c2 = Inr (Resumed, c3)" "running c3 r" "sc_sscratch (c_sched c3) = t"
    "sc_next_id (c_sched c3) = sc_next_id (c_sched c2)" "active_vms (k_io (c_kernel c3)) = td_virtual_memory (sc_tasks (c_sched c2) t)" "pl_regs (k_plic (c_kernel c3)) claim_register = source"
    "sc_user_access (c_sched c3) \<longleftrightarrow> \<not> bit (rs_pc r) SUM_BIT"
    "unsaved c3 t = (unsaved c2 t)\<lparr>td_current_irq := 0, td_flags := td_flags (unsaved c2 t) OR FLAG_NOTIFIED\<rparr>"
    "\<And>v. v \<noteq> t \<Longrightarrow> unsaved c3 v = unsaved c2 v \<and> saved c3 v = saved c2 v"
    unfolding irq by blast
  have "unsaved c3 t = (unsaved c t)\<lparr>td_wait_time := 0, td_flags := td_flags (unsaved c t) OR FLAG_NOTIFIED\<rparr>"
    unfolding c3(8) us(1) using assms(5) by (simp add: unsaved_def)
  then show ?thesis using n(1,7-11) r ut g c2(3) c3 us(2) et vm e(1) by auto
qed

text \<open>Source 1 is reserved for the task in slot 3, which is the one that runs.\<close>

definition cpu_irq :: cpu where
  "cpu_irq = cpu_ex\<lparr>c_kernel := (c_kernel cpu_ex)\<lparr>k_words := \<lambda>_ _. Some 0,
     k_plic := \<lparr>pl_total_sources = 1, pl_reservations = 3 # replicate 1022 0, pl_regs = \<lambda>_. 0\<rparr>\<rparr>\<rparr>"

lemma cpu_irq_delivered: "\<exists>c1. deliver 0 0 1 True 9 cpu_irq = Inr (Resumed, c1) \<and> sc_sscratch (c_sched c1) = 0x5000"
proof -
  define d where "d = save_context (c_pc cpu_irq) (take_trap 9 cpu_irq)"
  have s: "c_sched cpu_irq = sched_ex 200" by (simp add: cpu_irq_def cpu_ex_def)
  have g: "sc_groups (c_sched d) = sc_groups (sched_ex 200)" using s by (simp add: d_def)
  have "group_task tasks_slot_3 3 = Inr 0x5000" using slot_3_task [of 3 "0x5000"] by simp
  then have "\<exists>u. get_task 3 (c_sched d) = Inr (Some 0x5000, u)"
    by (simp add: get_task_def address_group_eq address_task_eq g sched_ex_group Let_def mask_eq_exp_minus_1)
  then obtain u where u: "get_task 3 (c_sched d) = Inr (Some 0x5000, u)" by blast
  define e where "e = upd_sched (upd_task 0x5000 (\<lambda>d. d\<lparr>td_current_irq := (td_current_irq d AND NOT 0xffff) OR (1 AND 0xffff)\<rparr>)) (upd_sched (\<lambda>_. u) d)"
  have w: "k_words (c_kernel (notification_prepare 0x5000 e)) = (\<lambda>_ _. Some 0)" "sc_user_access (c_sched (notification_prepare 0x5000 e))"
    by (simp_all add: notification_prepare_def Let_def e_def d_def cpu_irq_def)
  let ?r = "saved (notification_prepare 0x5000 e) 0x5000"
  have "\<exists>k. user_store a [w0, w1, w2, w3] (c_kernel (notification_prepare 0x5000 e)) = Inr ((), k)" for a w0 w1 w2 w3
    using w by simp
  then obtain k where "user_store (rs_x ?r ! 1 - 32) [rs_x ?r ! 9, rs_x ?r ! 10, rs_x ?r ! 16, rs_pc ?r]
      (c_kernel (notification_prepare 0x5000 e)) = Inr ((), k)" by blast
  then obtain c1 where c1: "notification_enter 0x5000 0 1 USIZE_MAX e = Inr (Resumed, c1)"
    by (simp add: notification_enter_def Let_def store_words_def onKernel_def del: user_store.simps)
  have "deliver 0 0 1 True 9 cpu_irq = notification_enter 0x5000 0 1 USIZE_MAX e"
    using onKernel_sched [of "get_task 3" d, OF u]
    by (simp add: deliver_def interrupt_table_def external_interrupt_handler_def d_def [symmetric] Let_def e_def) (simp add: d_def cpu_irq_def)
  with c1 notification_enter_Inr(2) [OF c1] show ?thesis by auto
qed

lemma notification_restores_context_witness:
  "\<exists>c1 c3. deliver 0 0 1 True 9 cpu_irq = Inr (Resumed, c1) \<and> c_x c1 11 = 1
     \<and> deliver 0 0 0 False 8 (c1\<lparr>c_x := (c_x c1)(10 := USIZE_MAX, 17 := 9)\<rparr>) = Inr (Resumed, c3) \<and> running c3 (user_context cpu_irq)"
proof -
  obtain c1 where c1: "deliver 0 0 1 True 9 cpu_irq = Inr (Resumed, c1)" "sc_sscratch (c_sched c1) = 0x5000" using cpu_irq_delivered by blast
  have s: "length (pl_reservations (k_plic (c_kernel cpu_irq))) = 1023" "sc_sscratch (c_sched cpu_irq) = 0x5000"
    "td_current_irq (sc_tasks (c_sched cpu_irq) 0x5000) = 0"
    by (simp_all add: cpu_irq_def cpu_ex_def sched_ex_def task_ex_def)
  show ?thesis
    using notification_restores_context [OF c1(1) s(1) c1(2) _ s(3), of "c1\<lparr>c_x := (c_x c1)(10 := USIZE_MAX, 17 := 9)\<rparr>" "k_words (c_kernel c1)" 0] c1 s(2)
    by auto
qed

end
