(* ===== verification/Dux_Lock.thy ===== *)
theory Dux_Lock
  imports Norost_Prelude
begin

text \<open>
  The spin locks of the user library (\<open>lib/rust/dux/src/util.rs\<close>). A lock is an atomic word with one
  value set aside, which says that it is locked; a guard keeps the value the word had and stores it
  on release. The first part models any number of threads that take and release a lock at the same
  time, one atomic access per step. The second part is the closure form \<open>spin_lock\<close> for a thread that
  runs alone, which the rest of the library is built on.
\<close>

subsection \<open>Threads that share a lock\<close>

text \<open>
  What a thread is doing: nothing, waiting in \<open>SpinLockGuard::new\<close> with the value it read last, holding
  a guard with the value to store on release, or holding the lock without a guard after \<open>into_raw\<close>.
\<close>

(* src/lib/rust/dux/src/util.rs:74-84 SpinLockGuard *)
datatype 'v lock_thread = Outside | Waiting 'v | Guard 'v | Raw 'v

datatype 'v lock_action = Load | Exchange bool | Set_Value 'v | Drop_Guard | Into_Raw | From_Raw 'v

datatype 'v lock_event = Acquired 'v | Released 'v

text \<open>
  \<open>new\<close>: a load, then a further load while the word was locked, or an exchange. The exchange may fail
  although the word has the expected value (\<open>Exchange False\<close>), as \<open>compare_exchange_weak\<close> does.
\<close>

(* src/lib/rust/dux/src/util.rs:99-114 SpinLockGuard::new *)
fun guard_new_step :: "'v \<Rightarrow> 'v lock_action \<Rightarrow> 'v \<Rightarrow> 'v lock_thread \<Rightarrow> ('v \<times> 'v lock_thread \<times> 'v lock_event list) option" where
  "guard_new_step locked Load w Outside = Some (w, Waiting w, [])"
| "guard_new_step locked Load w (Waiting v) = (if v = locked then Some (w, Waiting w, []) else None)"
| "guard_new_step locked (Exchange strong) w (Waiting v) =
     (if v = locked then None
      else if strong \<and> w = v then Some (locked, Guard v, [Acquired v])
      else Some (w, Waiting w, []))"
| "guard_new_step locked _ w _ = None"

text \<open>The closure changes the value of the guard; dropping the guard stores it.\<close>

(* src/lib/rust/dux/src/util.rs:153-160 SpinLockGuard::drop *)
definition guard_drop_step :: "'v \<Rightarrow> 'v \<times> 'v lock_thread \<times> 'v lock_event list" where
  "guard_drop_step v = (v, Outside, [Released v])"

(* src/lib/rust/dux/src/util.rs:135-150 SpinLockGuard::into_raw, SpinLockGuard::from_raw *)
fun guard_use_step :: "'v \<Rightarrow> 'v lock_action \<Rightarrow> 'v \<Rightarrow> 'v lock_thread \<Rightarrow> ('v \<times> 'v lock_thread \<times> 'v lock_event list) option" where
  "guard_use_step locked (Set_Value v') w (Guard v) = (if v' = locked then None else Some (w, Guard v', []))"
| "guard_use_step locked Drop_Guard w (Guard v) = Some (guard_drop_step v)"
| "guard_use_step locked Into_Raw w (Guard v) = Some (w, Raw v, [])"
| "guard_use_step locked (From_Raw v') w (Raw v) = (if v' = locked then None else Some (w, Guard v', []))"
| "guard_use_step locked _ w _ = None"

definition lock_step :: "'v \<Rightarrow> 'v lock_action \<Rightarrow> 'v \<Rightarrow> 'v lock_thread \<Rightarrow> ('v \<times> 'v lock_thread \<times> 'v lock_event list) option" where
  "lock_step locked a w t = (case t of Outside \<Rightarrow> guard_new_step locked a w t | Waiting _ \<Rightarrow> guard_new_step locked a w t
     | _ \<Rightarrow> guard_use_step locked a w t)"

text \<open>A run: which thread acts when, and the events in their order.\<close>

fun lock_run :: "'v \<Rightarrow> (nat \<times> 'v lock_action) list \<Rightarrow> 'v \<Rightarrow> (nat \<Rightarrow> 'v lock_thread)
    \<Rightarrow> ((nat \<times> 'v lock_event) list \<times> 'v \<times> (nat \<Rightarrow> 'v lock_thread)) option" where
  "lock_run locked [] w ts = Some ([], w, ts)"
| "lock_run locked ((i, a) # as) w ts =
     (case lock_step locked a w (ts i) of
        None \<Rightarrow> None
      | Some (w', t', es) \<Rightarrow>
          (case lock_run locked as w' (ts(i := t')) of
             None \<Rightarrow> None
           | Some (es', r) \<Rightarrow> Some (map (Pair i) es @ es', r)))"

text \<open>
  The history of a lock that excludes: acquisitions and releases alternate, the thread that releases
  is the one that acquired, and each acquisition gets the value released last.
\<close>

fun serial :: "'v \<Rightarrow> (nat \<times> 'v lock_event) list \<Rightarrow> bool" where
  "serial w [] = True"
| "serial w [(i, Acquired v)] \<longleftrightarrow> v = w"
| "serial w ((i, Acquired v) # (j, Released v') # es) \<longleftrightarrow> v = w \<and> i = j \<and> serial v' es"
| "serial w _ = False"

fun holds_lock :: "'v lock_thread \<Rightarrow> bool" where
  "holds_lock (Guard v) = True"
| "holds_lock (Raw v) = True"
| "holds_lock _ = False"

text \<open>Either the word is free and no thread has the lock, or it is locked and exactly one thread has it.\<close>

definition lock_inv :: "'v \<Rightarrow> 'v \<Rightarrow> (nat \<Rightarrow> 'v lock_thread) \<Rightarrow> bool" where
  "lock_inv locked w ts \<longleftrightarrow> (if w = locked then \<exists>!i. holds_lock (ts i) else \<forall>i. \<not> holds_lock (ts i))
     \<and> (\<forall>i. ts i \<noteq> Guard locked)"

text \<open>What a history still needs when it starts with the lock taken by thread \<open>i\<close>.\<close>

definition serial_from :: "'v \<Rightarrow> 'v \<Rightarrow> (nat \<Rightarrow> 'v lock_thread) \<Rightarrow> (nat \<times> 'v lock_event) list \<Rightarrow> bool" where
  "serial_from locked w ts es \<longleftrightarrow>
     (if w = locked then es = [] \<or> (\<exists>i v es'. es = (i, Released v) # es' \<and> holds_lock (ts i) \<and> serial v es') else serial w es)"

lemma lock_step_cases:
  assumes "lock_step locked a w t = Some (w', t', es)"
  obtains (wait) v where "\<not> holds_lock t" "w' = w" "t' = Waiting v" "es = []"
    | (acquire) "\<not> holds_lock t" "w \<noteq> locked" "w' = locked" "t' = Guard w" "es = [Acquired w]"
    | (keep) "holds_lock t" "holds_lock t'" "w' = w" "es = []" "t = Guard locked \<or> t' \<noteq> Guard locked"
    | (release) v where "t = Guard v" "w' = v" "t' = Outside" "es = [Released v]"
proof (cases t)
  case Outside
  then show ?thesis using assms that(1) by (cases a) (auto simp: lock_step_def)
next
  case (Waiting v)
  then show ?thesis using assms that(1,2) by (cases a) (auto simp: lock_step_def split: if_splits)
next
  case (Guard v)
  then show ?thesis using assms that(3,4) by (cases a) (auto simp: lock_step_def guard_drop_step_def split: if_splits)
next
  case (Raw v)
  then show ?thesis using assms that(3) by (cases a) (auto simp: lock_step_def split: if_splits)
qed

lemma lock_step_inv:
  assumes "lock_inv locked w ts" "lock_step locked a w (ts i) = Some (w', t', es)"
  shows "lock_inv locked w' (ts(i := t'))"
    and "serial_from locked w' (ts(i := t')) es' \<Longrightarrow> serial_from locked w ts (map (Pair i) es @ es')"
proof -
  have inv: "w = locked \<Longrightarrow> \<exists>h. \<forall>j. holds_lock (ts j) \<longleftrightarrow> j = h" "w \<noteq> locked \<Longrightarrow> \<not> holds_lock (ts j)"
    "ts j \<noteq> Guard locked" for j
    using assms(1) by (auto simp: lock_inv_def)
  have one: "(\<exists>!j. holds_lock (f j)) \<longleftrightarrow> (\<exists>h. \<forall>j. holds_lock (f j) \<longleftrightarrow> j = h)" for f :: "nat \<Rightarrow> 'a lock_thread" by auto
  have "lock_inv locked w' (ts(i := t')) \<and> (serial_from locked w' (ts(i := t')) es' \<longrightarrow> serial_from locked w ts (map (Pair i) es @ es'))"
    using assms(2)
  proof (cases rule: lock_step_cases)
    case (wait v)
    then show ?thesis using inv unfolding lock_inv_def serial_from_def one by (auto split: if_splits) metis+
  next
    case acquire
    have "serial_from locked w' (ts(i := t')) es' \<longrightarrow> serial_from locked w ts (map (Pair i) es @ es')"
      using acquire inv(2) by (auto simp: serial_from_def split: if_splits)
    moreover have "lock_inv locked w' (ts(i := t'))" using acquire inv(2,3) by (auto simp: lock_inv_def one)
    ultimately show ?thesis by blast
  next
    case keep
    obtain h where "\<forall>j. holds_lock (ts j) \<longleftrightarrow> j = h" and w: "w = locked" using inv(1,2) keep(1) by blast
    then show ?thesis using keep inv(3) by (auto simp: lock_inv_def serial_from_def one)
  next
    case (release v)
    obtain h where "\<forall>j. holds_lock (ts j) \<longleftrightarrow> j = h" and w: "w = locked" using inv(1) inv(2) [of i] release(1) by auto
    moreover from this have "h = i" using release(1) holds_lock.simps(1) by metis
    moreover have "v \<noteq> locked" using inv(3) [of i] release(1) by simp
    ultimately show ?thesis using release inv(3) by (auto simp: lock_inv_def serial_from_def one)
  qed
  then show "lock_inv locked w' (ts(i := t'))"
    and "serial_from locked w' (ts(i := t')) es' \<Longrightarrow> serial_from locked w ts (map (Pair i) es @ es')" by blast+
qed

lemma lock_run_serial:
  "lock_inv locked w ts \<Longrightarrow> lock_run locked as w ts = Some (es, w', ts')
    \<Longrightarrow> lock_inv locked w' ts' \<and> serial_from locked w ts es"
proof (induction as arbitrary: w ts es)
  case Nil
  then show ?case by (auto simp: serial_from_def)
next
  case (Cons ia as)
  obtain i a where ia: "ia = (i, a)" by fastforce
  obtain w1 t1 es1 es2 where step: "lock_step locked a w (ts i) = Some (w1, t1, es1)"
      "lock_run locked as w1 (ts(i := t1)) = Some (es2, w', ts')" "es = map (Pair i) es1 @ es2"
    using Cons.prems(2) by (auto simp: ia split: option.splits)
  show ?case using Cons.IH [OF lock_step_inv(1) [OF Cons.prems(1) step(1)] step(2)] lock_step_inv(2) [OF Cons.prems(1) step(1)] step(3) by blast
qed

lemma waiting_acquires:
  assumes "w \<noteq> locked" "ts i = Waiting v"
  obtains as ts' where "set as \<subseteq> {i} \<times> UNIV" "length as \<le> 2" "lock_run locked as w ts = Some ([(i, Acquired w)], locked, ts')"
proof -
  have "lock_run locked [(i, Load), (i, Exchange True)] w ts = Some ([(i, Acquired w)], locked, ts(i := Guard w))" if "v = locked"
    using assms that by (simp add: lock_step_def)
  moreover have "lock_run locked [(i, Exchange True), (i, Exchange True)] w ts = Some ([(i, Acquired w)], locked, ts(i := Guard w))" if "v \<noteq> locked" "v \<noteq> w"
    using assms that by (simp add: lock_step_def)
  moreover have "lock_run locked [(i, Exchange True)] w ts = Some ([(i, Acquired w)], locked, ts(i := Guard w))" if "v \<noteq> locked" "v = w"
    using assms that by (simp add: lock_step_def)
  ultimately show ?thesis using that [of "[(i, Load), (i, Exchange True)]"] that [of "[(i, Exchange True), (i, Exchange True)]"]
      that [of "[(i, Exchange True)]"] by (cases "v = locked"; cases "v = w") auto
qed

text \<open>
  C31. A spin lock excludes, for any number of threads and any interleaving of their loads, exchanges
  (which may fail for no reason) and stores. Acquisitions and releases alternate, only the thread
  that acquired the lock releases it, also when it gives up its guard for a while (\<open>into_raw\<close>,
  \<open>from_raw\<close>), and each acquisition gets the value released last. At no time do two threads have the
  lock; while none has it, any thread that waits can take it by its own next steps.
\<close>

theorem spin_lock_excludes:
  assumes "w \<noteq> locked" "lock_run locked as w (\<lambda>_. Outside) = Some (es, w', ts)"
  shows "serial w es
    \<and> (\<forall>i j. holds_lock (ts i) \<longrightarrow> holds_lock (ts j) \<longrightarrow> i = j)
    \<and> ((\<forall>j. \<not> holds_lock (ts j)) \<longrightarrow> ts i = Waiting v \<longrightarrow>
        (\<exists>as ts'. set as \<subseteq> {i} \<times> UNIV \<and> length as \<le> 2 \<and> lock_run locked as w' ts = Some ([(i, Acquired w')], locked, ts')))"
proof -
  have "lock_inv locked w (\<lambda>_. Outside)" using assms(1) by (simp add: lock_inv_def)
  from lock_run_serial [OF this assms(2)] have inv: "lock_inv locked w' ts" and "serial w es"
    using assms(1) by (auto simp: serial_from_def)
  moreover have "i = j" if "holds_lock (ts i)" "holds_lock (ts j)" for i j
    using inv that unfolding lock_inv_def by (metis (mono_tags))
  moreover have "w' \<noteq> locked" if "\<forall>j. \<not> holds_lock (ts j)" using inv that by (auto simp: lock_inv_def)
  ultimately show ?thesis using waiting_acquires [of w' locked ts i v] by metis
qed

theorem spin_lock_excludes_witness:
  "\<exists>es ts. lock_run (0 :: u8) [(0, Load), (1, Load), (1, Exchange False), (0, Exchange True), (1, Exchange True),
       (0, Set_Value 5), (1, Load), (0, Into_Raw), (0, From_Raw 6), (0, Drop_Guard), (1, Load)] 4 (\<lambda>_. Outside) = Some (es, 6, ts)
     \<and> serial 4 es \<and> (\<exists>as ts'. length as \<le> 2 \<and> lock_run 0 as 6 ts = Some ([(1, Acquired 6)], 0, ts'))"
proof -
  let ?ts = "(\<lambda>_. Outside)(1 := Waiting 6) :: nat \<Rightarrow> u8 lock_thread"
  have run: "lock_run (0 :: u8) [(0, Load), (1, Load), (1, Exchange False), (0, Exchange True), (1, Exchange True),
       (0, Set_Value 5), (1, Load), (0, Into_Raw), (0, From_Raw 6), (0, Drop_Guard), (1, Load)] 4 (\<lambda>_. Outside)
     = Some ([(0, Acquired 4), (0, Released 6)], 6, ?ts)"
    by (simp add: lock_step_def guard_drop_step_def fun_eq_iff)
  have free: "\<forall>j. \<not> holds_lock (?ts j)" by simp
  have wait: "?ts 1 = Waiting 6" by simp
  have ne: "(4 :: u8) \<noteq> 0" by simp
  note * = spin_lock_excludes [OF ne run, of 1 6]
  from * have "serial 4 [(0, Acquired (4 :: u8)), (0, Released 6)]" by (rule conjunct1)
  moreover from * free wait obtain as ts' where "length as \<le> 2" "lock_run 0 as 6 ?ts = Some ([(1, Acquired 6)], 0, ts')" by blast
  ultimately show ?thesis using run by blast
qed

subsection \<open>One thread\<close>

text \<open>
  \<open>spin_lock\<close> for a thread that nothing interferes with; \<open>rd\<close> and \<open>wr\<close> access the lock word in the state. A
  word that is locked stays so, and the wait never ends. The closure works on the value of the guard.
\<close>

(* src/lib/rust/dux/src/util.rs:57-71 spin_lock *)
definition spin_lock :: "('s \<Rightarrow> 'v) \<Rightarrow> ('v \<Rightarrow> 's \<Rightarrow> 's) \<Rightarrow> 'v \<Rightarrow> ('v \<Rightarrow> ('s, 'a \<times> 'v) comp) \<Rightarrow> ('s, 'a) comp" where
  "spin_lock rd wr value f s =
     (if rd s = value then Inl Endless_Loop
      else bindK (f (rd s)) (\<lambda>(r, v) s'. Inr (r, wr v s')) (wr value s))"

text \<open>This is what the steps of the thread do, and what they cannot do when the word is locked.\<close>

lemma alone_acquires:
  assumes "w \<noteq> locked" "v \<noteq> locked"
  shows "\<exists>ts. lock_run locked [(i, Load), (i, Exchange True), (i, Set_Value v), (i, Drop_Guard)] w (\<lambda>_. Outside)
    = Some ([(i, Acquired w), (i, Released v)], v, ts)"
  using assms by (simp add: lock_step_def guard_drop_step_def)

lemma alone_spins:
  "ts i = Outside \<or> ts i = Waiting locked \<Longrightarrow> set as \<subseteq> {i} \<times> UNIV
    \<Longrightarrow> lock_run locked as locked ts = Some (es, w', ts') \<Longrightarrow> es = [] \<and> w' = locked"
proof (induction as arbitrary: ts es)
  case Nil
  then show ?case by simp
next
  case (Cons ia as)
  obtain a where ia: "ia = (i, a)" using Cons.prems(2) by auto
  obtain w1 t1 es1 es2 where step: "lock_step locked a locked (ts i) = Some (w1, t1, es1)"
      "lock_run locked as w1 (ts(i := t1)) = Some (es2, w', ts')" "es = map (Pair i) es1 @ es2"
    using Cons.prems(3) by (auto simp: ia split: option.splits)
  have "w1 = locked" "t1 = Waiting locked" "es1 = []" using step(1) Cons.prems(1) by (cases a; auto simp: lock_step_def)+
  with Cons.IH [of "ts(i := t1)" es2] Cons.prems(2) step(2,3) show ?case by (simp del: fun_upd_apply add: fun_upd_same)
qed

lemma spin_lock_Inr:
  "spin_lock rd wr value f s = Inr (r, s') \<longleftrightarrow>
     rd s \<noteq> value \<and> (\<exists>v s1. f (rd s) (wr value s) = Inr ((r, v), s1) \<and> s' = wr v s1)"
  by (auto simp: spin_lock_def bindK_eq_Inr)

lemma spin_lock_free:
  "rd s \<noteq> value \<Longrightarrow> f (rd s) (wr value s) = Inr ((r, v), s1) \<Longrightarrow> spin_lock rd wr value f s = Inr (r, wr v s1)"
  by (simp add: spin_lock_Inr)

end
