(* ===== verification/Dux_Mem.thy ===== *)
theory Dux_Mem
  imports Dux_Lock Syscalls
begin

text \<open>
  Address range reservations of the user library (\<open>lib/rust/dux/src/mem.rs\<close>, \<open>page.rs\<close>). A task keeps one
  page with the reserved ranges, sorted by address, and with the parameters of its IPC queues. The
  model is the content of that page (\<open>global\<close>) next to the state of the kernel; system calls run the
  handlers of the kernel model on it.
\<close>

subsection \<open>Pages\<close>

(* src/lib/rust/dux/src/page.rs:92-102 RWX *)
datatype dux_rwx = Dux_R | Dux_W | Dux_X | Dux_RW | Dux_RX | Dux_RWX

(* src/lib/rust/dux/src/page.rs:118-129 u8::from *)
fun rwx_u8 :: "dux_rwx \<Rightarrow> u8" where
  "rwx_u8 Dux_R = 1"
| "rwx_u8 Dux_W = 2"
| "rwx_u8 Dux_X = 4"
| "rwx_u8 Dux_RW = 3"
| "rwx_u8 Dux_RX = 5"
| "rwx_u8 Dux_RWX = 7"

(* src/lib/rust/dux/src/page.rs:23-24 Page::NULL_PAGE_END *)
definition NULL_PAGE_END :: usize where
  "NULL_PAGE_END = PAGE_SIZE - 1"

(* src/lib/rust/dux/src/page.rs:29-37 Page::new *)
definition dux_page_new :: "usize \<Rightarrow> unit + page" where
  "dux_page_new p = (if p AND (PAGE_SIZE - 1) = 0 then Inr p else Inl ())"

(* src/lib/rust/dux/src/page.rs:62-65 Page::end *)
definition dux_page_end :: "page \<Rightarrow> usize" where
  "dux_page_end p = p + (PAGE_SIZE - 1)"

(* src/lib/rust/dux/src/page.rs:67-70 Page::min_pages_for_range *)
definition min_pages_for_range :: "usize \<Rightarrow> usize" where
  "min_pages_for_range sz = (sz + PAGE_SIZE - 1) div PAGE_SIZE"

subsection \<open>State\<close>

(* src/lib/rust/dux/src/mem.rs:22-28 MemoryMap *)
record memory_map =
  mm_start :: "page option"
  mm_end :: usize

text \<open>\<open>extra_reserved_entries\<close> is never used.\<close>

(* src/lib/rust/dux/src/mem.rs:30-86 GlobalPart, Global *)
record global =
  g_ipc_packets :: usize
  g_free_ranges :: usize
  g_reserved_count :: usize
  g_reserved_capacity :: usize
  g_free_ranges_capacity :: usize
  g_ring_mask :: u16
  g_last_received_index :: u16
  g_transmit_lock :: bool
  g_received_lock :: bool
  g_reserved_entries :: "memory_map list"

text \<open>The part before the entries takes 56 bytes of the page and an entry 16.\<close>

(* src/lib/rust/dux/src/mem.rs:82-89 Global::reserved_entries *)
definition RESERVED_ENTRIES :: nat where
  "RESERVED_ENTRIES = (4096 - 56) div 16"

(* src/lib/rust/dux/src/mem.rs:91-96 GLOBAL_PTR, GLOBAL_PAGE *)
definition GLOBAL_PTR :: usize where
  "GLOBAL_PTR = 0x0fffffff AND NOT (PAGE_SIZE - 1)"

type_synonym 'a globK = "(global, 'a) comp"

text \<open>A task as it runs: its page and the kernel, whose active page tables are the task's.\<close>

record user =
  u_global :: global
  u_kernel :: kernel

type_synonym 'a duxK = "(user, 'a) comp"

definition onG :: "'a globK \<Rightarrow> 'a duxK" where
  "onG f u = (case f (u_global u) of Inl p \<Rightarrow> Inl p | Inr (x, g) \<Rightarrow> Inr (x, u\<lparr>u_global := g\<rparr>))"

definition modG :: "(global \<Rightarrow> global) \<Rightarrow> unit duxK" where
  "modG f u = Inr ((), u\<lparr>u_global := f (u_global u)\<rparr>)"

definition getG :: "(global \<Rightarrow> 'a) \<Rightarrow> 'a duxK" where
  "getG f u = Inr (f (u_global u), u)"

text \<open>
  A system call: the handler runs and the stub returns the status and the value. None of the calls
  made here leaves the kernel in another way.
\<close>

(* src/lib/rust/kernel/src/riscv.rs:3-66 syscall! *)
definition kernel_call :: "(usize \<Rightarrow> sys_exit sysK) \<Rightarrow> (u8 \<times> usize) duxK" where
  "kernel_call f u =
     (case f (current_task (k_sched (u_kernel u))) (u_kernel u) of
        Inr (Return st v, k) \<Rightarrow> Inr ((status_u8 st, v), u\<lparr>u_kernel := k\<rparr>)
      | Inr _ \<Rightarrow> Inl Endless_Loop
      | Inl p \<Rightarrow> Inl p)"

subsection \<open>Reservations\<close>

text \<open>The entries from \<open>i\<close> to \<open>i + n - 1\<close> move up by one, the last one first.\<close>

(* src/lib/rust/dux/src/mem.rs:225-231 mem_insert_entry *)
primrec shift_up :: "nat \<Rightarrow> nat \<Rightarrow> 'e list \<Rightarrow> 'e list may_panic" where
  "shift_up i 0 es = Inr es"
| "shift_up i (Suc n) es = bindP (indexP es (i + n)) (\<lambda>e. bindP (storeP es (i + Suc n) e) (shift_up i n))"

(* src/lib/rust/dux/src/mem.rs:208-236 mem_insert_entry *)
definition mem_insert_entry :: "nat \<Rightarrow> page \<Rightarrow> usize \<Rightarrow> usize \<Rightarrow> (unit + unit) globK" where
  "mem_insert_entry index start stop capacity g =
     (let cnt = g_reserved_count g in
      if capacity \<le> cnt then Inr (Inl (), g)
      else
        bindP (shift_up index (unat cnt - index) (g_reserved_entries g)) (\<lambda>es.
        bindP (storeP es index \<lparr>mm_start = Some start, mm_end = stop\<rparr>) (\<lambda>es.
        Inr (Inr (), g\<lparr>g_reserved_count := cnt + 1, g_reserved_entries := es\<rparr>))))"

(* src/lib/rust/dux/src/mem.rs:238-244 ReserveError *)
datatype dux_reserve_error = NoMemory | NoSpace

(* src/lib/rust/dux/src/mem.rs:255-278 reserve_range *)
primrec reserve_scan :: "nat \<Rightarrow> nat \<Rightarrow> usize \<Rightarrow> usize \<Rightarrow> usize \<Rightarrow> (dux_reserve_error + page) globK" where
  "reserve_scan 0 i prev_end cnt capacity = retK (Inl NoSpace)"
| "reserve_scan (Suc n) i prev_end cnt capacity = (\<lambda>g.
     bindP (indexP (g_reserved_entries g) i) (\<lambda>mm.
     let start = prev_end + 1; stop = start + (cnt * PAGE_SIZE - 1) in
     if prev_end < start \<and> stop < (case mm_start mm of Some p \<Rightarrow> p | None \<Rightarrow> 0)
     then if stop = 0 then Inl Unwrap_Failed
       else bindK (mem_insert_entry i start stop capacity) (\<lambda>r.
         retK (case r of Inl _ \<Rightarrow> Inl NoMemory | Inr _ \<Rightarrow> Inr start)) g
     else reserve_scan n (Suc i) (mm_end mm) cnt capacity g))"

(* src/lib/rust/dux/src/mem.rs:246-281 reserve_range *)
definition dux_reserve_range :: "page option \<Rightarrow> usize \<Rightarrow> (dux_reserve_error + page) globK" where
  "dux_reserve_range address cnt =
     spin_lock g_reserved_capacity (\<lambda>v g. g\<lparr>g_reserved_capacity := v\<rparr>) 0 (\<lambda>capacity.
       case address of
         Some _ \<Rightarrow> panicK Todo_Reached
       | None \<Rightarrow> (\<lambda>g. bindK (reserve_scan (unat (g_reserved_count g)) 0 NULL_PAGE_END cnt capacity) (\<lambda>r. retK (r, capacity)) g))"

(* src/lib/rust/dux/src/mem.rs:283-289 UnreserveError *)
datatype unreserve_error = InvalidAddress | SizeTooLarge

text \<open>\<open>binary_search_by\<close> of the standard library.\<close>

datatype ordering = Less | Equal | Greater

definition word_cmp :: "'a::len word \<Rightarrow> 'a word \<Rightarrow> ordering" where
  "word_cmp a b = (if a < b then Less else if a = b then Equal else Greater)"

function binary_search_by :: "('e \<Rightarrow> ordering) \<Rightarrow> 'e list \<Rightarrow> nat \<Rightarrow> nat \<Rightarrow> nat + nat" where
  "binary_search_by f es left right =
     (if left < right then
        (let mid = left + (right - left) div 2 in
         case f (es ! mid) of
           Less \<Rightarrow> binary_search_by f es (mid + 1) right
         | Equal \<Rightarrow> Inr mid
         | Greater \<Rightarrow> binary_search_by f es left mid)
      else Inl left)"
  by pat_completeness auto
termination
  by (relation "measure (\<lambda>(f, es, left, right). right - left)") auto

declare binary_search_by.simps [simp del]

(* src/lib/rust/dux/src/mem.rs:305-310 unreserve_range *)
primrec shift_down :: "nat \<Rightarrow> nat \<Rightarrow> 'e list \<Rightarrow> 'e list may_panic" where
  "shift_down i 0 es = Inr es"
| "shift_down i (Suc n) es = bindP (indexP es (Suc i)) (\<lambda>e. bindP (storeP es i e) (shift_down (Suc i) n))"

(* src/lib/rust/dux/src/mem.rs:291-314 unreserve_range *)
definition unreserve_range :: "page \<Rightarrow> (unreserve_error + unit) globK" where
  "unreserve_range address =
     spin_lock g_reserved_capacity (\<lambda>v g. g\<lparr>g_reserved_capacity := v\<rparr>) 0 (\<lambda>capacity g.
       let cnt = g_reserved_count g; es = g_reserved_entries g in
       if unat cnt \<le> length es then
         (case binary_search_by (\<lambda>e. word_cmp (case mm_start e of Some p \<Rightarrow> p | None \<Rightarrow> 0) address) es 0 (unat cnt) of
            Inl _ \<Rightarrow> Inr ((Inl InvalidAddress, capacity), g)
          | Inr i \<Rightarrow>
              bindP (shift_down i (unat (cnt - 1) - i) es) (\<lambda>es.
              Inr ((Inr (), capacity), g\<lparr>g_reserved_entries := es, g_reserved_count := cnt - 1\<rparr>)))
       else Inl Index_Out_Of_Range)"

(* src/lib/rust/dux/src/mem.rs:316-330 allocate_range *)
definition allocate_range :: "page option \<Rightarrow> usize \<Rightarrow> dux_rwx \<Rightarrow> (dux_reserve_error + page) duxK" where
  "allocate_range address cnt flags =
     tryK (onG (dux_reserve_range address cnt)) (\<lambda>e. e) (\<lambda>address.
     bindK (kernel_call (\<lambda>_. sys_mem_alloc address cnt (ucast (rwx_u8 flags)))) (\<lambda>(st, v).
     if st = 0 then retK (Inr address) else panicK Explicit_Panic))"

(* src/lib/rust/dux/src/mem.rs:332-351 deallocate_range *)
definition deallocate_range :: "page \<Rightarrow> usize \<Rightarrow> unit duxK" where
  "deallocate_range address cnt =
     bindK (unwrapK (onG (unreserve_range address))) (\<lambda>_.
     bindK (kernel_call (\<lambda>_. sys_mem_dealloc address cnt)) (\<lambda>(st, v).
     if st = 0 then retK () else panicK Explicit_Panic))"

subsection \<open>The list of ranges\<close>

lemma shift_up_nth:
  "i + n < length es \<Longrightarrow> \<exists>es'. shift_up i n es = Inr es' \<and> length es' = length es
     \<and> (\<forall>k < length es. es' ! k = (if i < k \<and> k \<le> i + n then es ! (k - 1) else es ! k))"
proof (induction n arbitrary: es)
  case 0
  then show ?case by auto
next
  case (Suc n)
  let ?es = "es[i + Suc n := es ! (i + n)]"
  have l: "i + n < length ?es" "length ?es = length es" using Suc.prems by auto
  from Suc.IH [OF l(1)] obtain es' where "shift_up i n ?es = Inr es'" "length es' = length es"
      "\<forall>k < length es. es' ! k = (if i < k \<and> k \<le> i + n then ?es ! (k - 1) else ?es ! k)" unfolding l(2) by blast
  moreover have "?es ! k = (if k = i + Suc n then es ! (i + n) else es ! k)" if "k < length es" for k using that by simp
  ultimately show ?case using Suc.prems by (intro exI [of _ es']) (auto simp: le_Suc_eq)
qed

lemma shift_down_nth:
  "i + n < length es \<Longrightarrow> \<exists>es'. shift_down i n es = Inr es' \<and> length es' = length es
     \<and> (\<forall>k < length es. es' ! k = (if i \<le> k \<and> k < i + n then es ! Suc k else es ! k))"
proof (induction n arbitrary: i es)
  case 0
  then show ?case by auto
next
  case (Suc n)
  let ?es = "es[i := es ! Suc i]"
  have l: "Suc i + n < length ?es" "length ?es = length es" using Suc.prems by auto
  from Suc.IH [OF l(1)] obtain es' where "shift_down (Suc i) n ?es = Inr es'" "length es' = length es"
      "\<forall>k < length es. es' ! k = (if Suc i \<le> k \<and> k < Suc i + n then ?es ! Suc k else ?es ! k)" unfolding l(2) by blast
  moreover have "?es ! k = (if k = i then es ! Suc i else es ! k)" if "k < length es" for k using that by simp
  ultimately show ?case using Suc.prems by (intro exI [of _ es']) (auto simp: not_less_eq_eq dest: le_antisym)
qed

text \<open>The list of entries in use.\<close>

definition reservations :: "global \<Rightarrow> memory_map list" where
  "reservations g = take (unat (g_reserved_count g)) (g_reserved_entries g)"

definition mm_first :: "memory_map \<Rightarrow> nat" where
  "mm_first e = (case mm_start e of Some p \<Rightarrow> unat p | None \<Rightarrow> 0)"

definition mm_bytes :: "memory_map \<Rightarrow> nat set" where
  "mm_bytes e = {mm_first e .. unat (mm_end e)}"

definition map_ok :: "memory_map \<Rightarrow> bool" where
  "map_ok e \<longleftrightarrow> (\<exists>p. mm_start e = Some p \<and> page_inv p \<and> p \<le> mm_end e) \<and> 4096 dvd unat (mm_end e) + 1 \<and> unat (mm_end e) < 2 ^ 63"

text \<open>
  The list is not locked, fits its page, and holds whole pages of the lower half of the address space
  in ascending order without overlap.
\<close>

definition reserved_ok :: "global \<Rightarrow> bool" where
  "reserved_ok g \<longleftrightarrow> length (g_reserved_entries g) = RESERVED_ENTRIES \<and> unat (g_reserved_count g) \<le> RESERVED_ENTRIES
     \<and> g_reserved_capacity g = of_nat RESERVED_ENTRIES
     \<and> (\<forall>e \<in> set (reservations g). map_ok e) \<and> sorted_wrt (\<lambda>e f. unat (mm_end e) < mm_first f) (reservations g)"

lemma inserted_at:
  assumes "i \<le> c" "c < length es" "length es' = length es"
    and "\<And>k. k < length es \<Longrightarrow> es' ! k = (if i < k \<and> k \<le> c then es ! (k - 1) else es ! k)"
  shows "take (Suc c) (es'[i := e]) = take i (take c es) @ e # drop i (take c es)"
proof (rule nth_equalityI)
  have i: "length (take i (take c es)) = i" using assms by simp
  show "length (take (Suc c) (es'[i := e])) = length (take i (take c es) @ e # drop i (take c es))" using assms by simp
  fix k assume "k < length (take (Suc c) (es'[i := e]))"
  then have k: "k < Suc c" "k < length es" using assms by auto
  consider "k < i" | "k = i" | "i < k" by linarith
  then show "take (Suc c) (es'[i := e]) ! k = (take i (take c es) @ e # drop i (take c es)) ! k"
  proof cases
    case 1
    then show ?thesis using k assms(4) [of k] assms(1) by (simp add: nth_append i)
  next
    case 2
    then show ?thesis using k assms(3) by (simp add: nth_append i)
  next
    case 3
    then obtain j where "k = Suc j" "i \<le> j" by (cases k) auto
    then show ?thesis using k assms(4) [of k] by (simp add: nth_append i Suc_diff_le)
  qed
qed

lemma mem_insert_entry_reserved:
  assumes "length (g_reserved_entries g) = RESERVED_ENTRIES" "unat (g_reserved_count g) < RESERVED_ENTRIES"
    "i \<le> unat (g_reserved_count g)" "unat capacity = RESERVED_ENTRIES"
  shows "\<exists>g'. mem_insert_entry i p q capacity g = Inr (Inr (), g') \<and> g_reserved_capacity g' = g_reserved_capacity g
    \<and> length (g_reserved_entries g') = RESERVED_ENTRIES \<and> unat (g_reserved_count g') = Suc (unat (g_reserved_count g))
    \<and> reservations g' = take i (reservations g) @ \<lparr>mm_start = Some p, mm_end = q\<rparr> # drop i (reservations g)"
proof -
  let ?c = "unat (g_reserved_count g)" and ?es = "g_reserved_entries g" and ?e = "\<lparr>mm_start = Some p, mm_end = q\<rparr>"
  have "i + (?c - i) < length ?es" using assms by simp
  from shift_up_nth [OF this] obtain es where es: "shift_up i (?c - i) ?es = Inr es" "length es = length ?es"
      "\<And>k. k < length ?es \<Longrightarrow> es ! k = (if i < k \<and> k \<le> ?c then ?es ! (k - 1) else ?es ! k)" using assms(3) by auto
  have c: "unat (g_reserved_count g + 1) = Suc ?c"
    using assms(2) unat_add_no_overflow [of "g_reserved_count g" 1] by (simp add: RESERVED_ENTRIES_def)
  have "take (Suc ?c) (es[i := ?e]) = take i (take ?c ?es) @ ?e # drop i (take ?c ?es)"
    using assms es(2,3) by (intro inserted_at) auto
  moreover have "\<not> capacity \<le> g_reserved_count g" using assms(2,4) by (simp add: word_le_nat_alt)
  ultimately show ?thesis using assms es(1,2) c by (simp add: mem_insert_entry_def reservations_def)
qed

text \<open>First fit on the list: the address, and the entry it is put in front of.\<close>

fun first_fit :: "nat \<Rightarrow> nat \<Rightarrow> memory_map list \<Rightarrow> (nat \<times> nat) option" where
  "first_fit sz prev [] = None"
| "first_fit sz prev (e # es) =
     (if prev + sz < mm_first e then Some (0, prev + 1)
      else map_option (\<lambda>(i, a). (Suc i, a)) (first_fit sz (unat (mm_end e)) es))"

lemma first_fit_Some:
  assumes "first_fit sz prev es = Some (i, a)"
  shows "i < length es \<and> a + sz \<le> mm_first (es ! i) \<and> a = Suc (if i = 0 then prev else unat (mm_end (es ! (i - 1))))"
  using assms
proof (induction sz prev es arbitrary: i a rule: first_fit.induct)
  case (1 sz prev)
  then show ?case by simp
next
  case (2 sz prev e es)
  show ?case
  proof (cases "prev + sz < mm_first e")
    case True
    with "2.prems" show ?thesis by auto
  next
    case False
    with "2.prems" obtain j where j: "first_fit sz (unat (mm_end e)) es = Some (j, a)" "i = Suc j" by auto
    from "2.IH" [OF False j(1)] j(2) show ?thesis by (cases j) simp_all
  qed
qed

lemma first_fit_None:
  assumes "first_fit sz prev es = None" "prev < a" "e \<in> set es" "a + sz \<le> mm_first e" "0 < sz"
    "\<forall>f \<in> set es. mm_first f \<le> unat (mm_end f)"
  shows "\<exists>f \<in> set es. {a ..< a + sz} \<inter> mm_bytes f \<noteq> {}"
  using assms
proof (induction sz prev es arbitrary: a rule: first_fit.induct)
  case (2 sz prev f fs)
  have none: "mm_first f \<le> prev + sz" "first_fit sz (unat (mm_end f)) fs = None" using "2.prems"(1) by (auto split: if_splits)
  show ?case
  proof (cases "a \<le> unat (mm_end f)")
    case True
    have "mm_first f < a + sz" using none(1) "2.prems"(2) by linarith
    then have "max a (mm_first f) \<in> {a ..< a + sz} \<inter> mm_bytes f" using True "2.prems"(5,6) by (auto simp: mm_bytes_def)
    then have "{a ..< a + sz} \<inter> mm_bytes f \<noteq> {}" by (metis empty_iff)
    then show ?thesis by simp
  next
    case False
    have "e \<in> set fs" using "2.prems"(3,4,6) False none(1) by auto
    then show ?thesis using "2.IH" [OF _ none(2), of a] False none(1) "2.prems" by auto
  qed
qed simp

lemma scan_condition:
  assumes "unat prev < 2 ^ 63" "0 < cnt" "unat cnt < 2 ^ 51" "map_ok e"
  shows "prev < prev + 1 \<and> prev + 1 + (cnt * PAGE_SIZE - 1) < (case mm_start e of Some p \<Rightarrow> p | None \<Rightarrow> 0)
      \<longleftrightarrow> unat prev + unat cnt * 4096 < mm_first e"
    and "prev + 1 + (cnt * PAGE_SIZE - 1) = of_nat (unat prev + unat cnt * 4096)" "prev + 1 + (cnt * PAGE_SIZE - 1) \<noteq> 0"
    "prev + 1 = of_nat (Suc (unat prev))"
proof -
  have c: "unat (cnt * PAGE_SIZE) = unat cnt * 4096"
    using assms(3) by (simp add: page_consts unat_word_ariths)
  have p: "unat cnt > 0" using assms(2) by (simp add: word_less_nat_alt)
  have e: "prev + 1 + (cnt * PAGE_SIZE - 1) = prev + cnt * PAGE_SIZE" by simp
  have u: "unat (prev + cnt * PAGE_SIZE) = unat prev + unat cnt * 4096"
    using assms(1,3) c by (subst unat_add_no_overflow) auto
  show n: "prev + 1 + (cnt * PAGE_SIZE - 1) = of_nat (unat prev + unat cnt * 4096)" unfolding e u [symmetric] by simp
  show "prev + 1 + (cnt * PAGE_SIZE - 1) \<noteq> 0" unfolding e using u p by (metis add_is_0 mult_is_0 neq0_conv unat_0 zero_neq_numeral)
  show "prev + 1 = of_nat (Suc (unat prev))" by simp
  have "unat (prev + 1) = Suc (unat prev)" using assms(1) unat_add_no_overflow [of prev 1] by simp
  then show "prev < prev + 1 \<and> prev + 1 + (cnt * PAGE_SIZE - 1) < (case mm_start e of Some p \<Rightarrow> p | None \<Rightarrow> 0)
      \<longleftrightarrow> unat prev + unat cnt * 4096 < mm_first e"
    unfolding e using u assms(4) by (auto simp: word_less_nat_alt mm_first_def map_ok_def)
qed

lemma reserve_scan_first_fit:
  assumes "i + n = unat (g_reserved_count g)" "unat (g_reserved_count g) \<le> length (g_reserved_entries g)"
    "\<forall>e \<in> set (reservations g). map_ok e" "unat prev < 2 ^ 63" "0 < cnt" "unat cnt < 2 ^ 51"
  shows "reserve_scan n i prev cnt capacity g =
    (case first_fit (unat cnt * 4096) (unat prev) (drop i (reservations g)) of
       None \<Rightarrow> Inr (Inl NoSpace, g)
     | Some (j, a) \<Rightarrow> bindK (mem_insert_entry (i + j) (of_nat a) (of_nat (a + unat cnt * 4096 - 1)) capacity) (\<lambda>r.
         retK (case r of Inl _ \<Rightarrow> Inl NoMemory | Inr _ \<Rightarrow> Inr (of_nat a))) g)"
  using assms
proof (induction n arbitrary: i prev)
  case 0
  then show ?case by (simp add: reservations_def)
next
  case (Suc n)
  let ?e = "g_reserved_entries g ! i"
  have len: "length (reservations g) = i + Suc n" using Suc.prems(1,2) by (simp add: reservations_def)
  have nth: "reservations g ! i = ?e" using Suc.prems(1) by (simp add: reservations_def)
  have d: "drop i (reservations g) = ?e # drop (Suc i) (reservations g)" using len Cons_nth_drop_Suc [of i "reservations g"] nth by simp
  have ok: "map_ok ?e" using Suc.prems(3) len nth nth_mem [of i "reservations g"] by simp
  then have "unat (mm_end ?e) < 2 ^ 63" by (simp add: map_ok_def)
  note IH = Suc.IH [OF _ Suc.prems(2,3) this Suc.prems(5,6), of "Suc i"]
  note sc = scan_condition [OF Suc.prems(4,5,6) ok]
  have idx: "indexP (g_reserved_entries g) i = Inr ?e" using Suc.prems(1,2) by simp
  show ?case
  proof (cases "unat prev + unat cnt * 4096 < mm_first ?e")
    case True
    then show ?thesis unfolding d reserve_scan.simps idx bindP_Inr Let_def if_P [OF True [folded sc(1)]] if_not_P [OF sc(3)]
      unfolding sc(2) unfolding sc(4) by (simp del: of_nat_add of_nat_Suc of_nat_mult)
  next
    case False
    then show ?thesis unfolding d reserve_scan.simps idx bindP_Inr Let_def if_not_P [OF False [folded sc(1)]]
      using IH Suc.prems(1) False by (simp split: option.splits)
  qed
qed

lemma binary_search_sorted:
  fixes key :: "'e \<Rightarrow> 'a::len word"
  assumes "\<And>j k. j < k \<Longrightarrow> k < n \<Longrightarrow> key (es ! j) < key (es ! k)" "right \<le> n"
  shows "case binary_search_by (\<lambda>e. word_cmp (key e) x) es left right of
      Inr i \<Rightarrow> left \<le> i \<and> i < right \<and> key (es ! i) = x
    | Inl _ \<Rightarrow> \<forall>k. left \<le> k \<longrightarrow> k < right \<longrightarrow> key (es ! k) \<noteq> x"
  using assms
proof (induction "\<lambda>e. word_cmp (key e) x" es left right rule: binary_search_by.induct)
  case (1 es left right)
  let ?f = "\<lambda>e. word_cmp (key e) x"
  define mid where "mid = left + (right - left) div 2"
  show ?case
  proof (cases "left < right")
    case False
    then show ?thesis by (simp add: binary_search_by.simps [of ?f])
  next
    case True
    have m: "left \<le> mid" "mid < right" using True by (auto simp: mid_def)
    note unfolded = binary_search_by.simps [of ?f es left right, unfolded if_P [OF True] Let_def, folded mid_def]
    note mono = "1.prems"(1)
    show ?thesis
    proof (cases "word_cmp (key (es ! mid)) x")
      case Less
      then have lt: "key (es ! mid) < x" by (auto simp: word_cmp_def split: if_splits)
      have low: "key (es ! k) \<noteq> x" if "left \<le> k" "\<not> mid + 1 \<le> k" for k
        using mono [of k mid] lt that m "1.prems"(2) by (cases "k = mid") auto
      have r: "binary_search_by ?f es left right = binary_search_by ?f es (mid + 1) right" using unfolded Less by simp
      show ?thesis using "1.hyps"(1) [OF True mid_def Less mono "1.prems"(2)] low m unfolding r
        by (cases "binary_search_by ?f es (mid + 1) right") auto
    next
      case Equal
      then show ?thesis using unfolded m by (auto simp: word_cmp_def split: if_splits)
    next
      case Greater
      then have gt: "x < key (es ! mid)" by (auto simp: word_cmp_def not_less_iff_gr_or_eq split: if_splits)
      have high: "key (es ! k) \<noteq> x" if "\<not> k < mid" "k < right" for k
        using mono [of mid k] gt that m "1.prems"(2) by (cases "k = mid") auto
      have r: "binary_search_by ?f es left right = binary_search_by ?f es left mid" using unfolded Greater by simp
      have "mid \<le> n" using m "1.prems"(2) by simp
      from "1.hyps"(2) [OF True mid_def Greater mono this] high m show ?thesis unfolding r
        by (cases "binary_search_by ?f es left mid") auto
    qed
  qed
qed

text \<open>Lists of ranges in order, and what inserting into a gap and removing keep.\<close>

abbreviation in_order :: "memory_map list \<Rightarrow> bool" where
  "in_order \<equiv> sorted_wrt (\<lambda>e f. unat (mm_end e) < mm_first f)"

lemma map_ok_le: "map_ok e \<Longrightarrow> mm_first e \<le> unat (mm_end e)"
  by (auto simp: map_ok_def mm_first_def word_le_nat_alt)

lemma in_order_mono:
  assumes "in_order es" "\<forall>e \<in> set es. map_ok e" "j < k" "k < length es"
  shows "mm_first (es ! j) < mm_first (es ! k)" "unat (mm_end (es ! j)) < mm_first (es ! k)"
proof -
  show "unat (mm_end (es ! j)) < mm_first (es ! k)" using assms by (auto simp: sorted_wrt_iff_nth_less)
  moreover have "mm_first (es ! j) \<le> unat (mm_end (es ! j))" using assms by (intro map_ok_le) auto
  ultimately show "mm_first (es ! j) < mm_first (es ! k)" by linarith
qed

lemma in_order_insert:
  assumes ord: "in_order es" and ok: "\<forall>e \<in> set es. map_ok e"
    and fit: "first_fit sz prev es = Some (i, a)" and e: "mm_first e = a" "unat (mm_end e) < a + sz"
  shows "in_order (take i es @ e # drop i es)"
proof -
  note F = first_fit_Some [OF fit]
  have "unat (mm_end f) < a" if "f \<in> set (take i es)" for f
  proof -
    from that obtain j where j: "j < i" "f = es ! j" using F by (auto simp: in_set_conv_nth)
    have "unat (mm_end (es ! j)) \<le> unat (mm_end (es ! (i - 1)))"
    proof (cases "j = i - 1")
      case False
      then have "j < i - 1" "i - 1 < length es" using j F by auto
      then have "unat (mm_end (es ! j)) < mm_first (es ! (i - 1))" by (rule in_order_mono(2) [OF ord ok])
      also have "\<dots> \<le> unat (mm_end (es ! (i - 1)))" using ok F by (intro map_ok_le) (auto intro: nth_mem)
      finally show ?thesis by simp
    qed simp
    then show ?thesis using F j by simp
  qed
  moreover have "a + sz \<le> mm_first f" if "f \<in> set (drop i es)" for f
  proof -
    from that obtain j where "j < length es - i" "f = drop i es ! j" by (auto simp: in_set_conv_nth)
    then have j: "i + j < length es" "f = es ! (i + j)" by simp_all
    then show ?thesis using F in_order_mono(1) [OF ord ok, of i "i + j"] by (cases j) auto
  qed
  moreover have "in_order (take i es @ drop i es)" using ord by simp
  ultimately show ?thesis using e unfolding sorted_wrt_append by fastforce
qed

lemma in_order_disjoint:
  "in_order es \<Longrightarrow> j < length es \<Longrightarrow> k < length es \<Longrightarrow> j \<noteq> k \<Longrightarrow> mm_bytes (es ! j) \<inter> mm_bytes (es ! k) = {}"
proof -
  assume "in_order es" "j < length es" "k < length es" "j \<noteq> k"
  then have "unat (mm_end (es ! j)) < mm_first (es ! k) \<or> unat (mm_end (es ! k)) < mm_first (es ! j)"
    by (auto simp: sorted_wrt_iff_nth_less linorder_neq_iff)
  then show ?thesis by (auto simp: mm_bytes_def)
qed

lemma removed_at:
  assumes "i < c" "c \<le> length es" "length es' = length es"
    and "\<And>k. k < length es \<Longrightarrow> es' ! k = (if i \<le> k \<and> k < c - 1 then es ! Suc k else es ! k)"
  shows "take (c - 1) es' = take i (take c es) @ drop (Suc i) (take c es)"
proof (rule nth_equalityI)
  have i: "length (take i (take c es)) = i" using assms by simp
  show "length (take (c - 1) es') = length (take i (take c es) @ drop (Suc i) (take c es))" using assms by simp
  fix k assume "k < length (take (c - 1) es')"
  then have k: "k < c - 1" "k < length es" using assms by auto
  show "take (c - 1) es' ! k = (take i (take c es) @ drop (Suc i) (take c es)) ! k"
  proof (cases "k < i")
    case True
    then show ?thesis using k assms(4) [of k] assms(1) by (simp add: nth_append i)
  next
    case False
    then show ?thesis using k assms(2) assms(4) [of k] by (simp add: nth_append i)
  qed
qed

lemma unreserve_range_eq:
  assumes ok: "reserved_ok g" and i: "i < length (reservations g)" "mm_start (reservations g ! i) = Some p"
  shows "\<exists>g'. unreserve_range p g = Inr (Inr (), g') \<and> reserved_ok g' \<and> reservations g' = take i (reservations g) @ drop (Suc i) (reservations g)"
proof -
  let ?R = "reservations g" and ?es = "g_reserved_entries g" and ?c = "unat (g_reserved_count g)"
  define key where "key e = (case mm_start e of Some p \<Rightarrow> p | None \<Rightarrow> 0)" for e :: memory_map
  have R: "length (g_reserved_entries g) = RESERVED_ENTRIES" "?c \<le> RESERVED_ENTRIES" "g_reserved_capacity g = of_nat RESERVED_ENTRIES"
      "\<forall>e \<in> set ?R. map_ok e" "in_order ?R" using ok by (auto simp: reserved_ok_def)
  have len: "length ?R = ?c" "\<And>k. k < ?c \<Longrightarrow> ?R ! k = ?es ! k" using R(1,2) by (auto simp: reservations_def)
  have key: "unat (key e) = mm_first e" for e by (simp add: key_def mm_first_def split: option.splits)
  have mono: "key (?es ! j) < key (?es ! k)" if "j < k" "k < ?c" for j k
    using in_order_mono(1) [OF R(5,4), of j k] that len by (simp add: word_less_nat_alt key)
  have p: "key (?es ! i) = p" using i len by (simp add: key_def)
  obtain i' where "binary_search_by (\<lambda>e. word_cmp (key e) p) ?es 0 ?c = Inr i'" "i' < ?c" "key (?es ! i') = p"
    using binary_search_sorted [where key = key and es = ?es and n = ?c and x = p and left = 0 and right = ?c, OF mono] p i len
    by (auto split: sum.splits)
  moreover from this have "i' = i" using mono [of i i'] mono [of i' i] p i len by (metis linorder_neqE_nat order_less_irrefl)
  ultimately have bs: "binary_search_by (\<lambda>e. word_cmp (key e) p) ?es 0 ?c = Inr i" by simp
  have c: "unat (g_reserved_count g - 1) = ?c - 1" using i len(1) unat_minus_1 [of "g_reserved_count g"] by (cases "g_reserved_count g = 0") auto
  have "i + (?c - 1 - i) < length ?es" "i + (?c - 1 - i) = ?c - 1" using i len(1) R(1,2) by auto
  from shift_down_nth [OF this(1), unfolded this(2)] obtain es where es: "shift_down i (?c - 1 - i) ?es = Inr es" "length es = length ?es"
      "\<And>k. k < length ?es \<Longrightarrow> es ! k = (if i \<le> k \<and> k < ?c - 1 then ?es ! Suc k else ?es ! k)" by blast
  let ?g = "g\<lparr>g_reserved_entries := es, g_reserved_count := g_reserved_count g - 1\<rparr>"
  have r: "reservations ?g = take i ?R @ drop (Suc i) ?R"
    using removed_at [of i ?c ?es es] i len(1) R(1,2) es(2,3) by (simp add: reservations_def c)
  have "unreserve_range p g = Inr (Inr (), ?g)"
    using R(1-3) bs es(1) c by (simp add: unreserve_range_def spin_lock_def bindK_def key_def RESERVED_ENTRIES_def)
  moreover have "reserved_ok ?g"
  proof -
    have "in_order (take i ?R @ drop i ?R)" using R(5) by simp
    then have "in_order (take i ?R @ drop (Suc i) ?R)" using i Cons_nth_drop_Suc [OF i(1), symmetric] by (auto simp: sorted_wrt_append)
    moreover have "\<forall>e \<in> set (take i ?R @ drop (Suc i) ?R). map_ok e" using R(4) by (auto dest: in_set_takeD in_set_dropD)
    ultimately show ?thesis unfolding reserved_ok_def r using R es(2) c by simp
  qed
  ultimately show ?thesis using r by blast
qed

lemma reserved_capacity [simp]: "reservations (g\<lparr>g_reserved_capacity := v\<rparr>) = reservations g"
  by (simp add: reservations_def)

lemma first_fit_place:
  assumes R: "in_order es" "\<forall>e \<in> set es. map_ok e" and fit: "first_fit sz 4095 es = Some (i, a)" and sz: "0 < sz"
  shows "4096 \<le> a" "\<forall>f \<in> set es. {a ..< a + sz} \<inter> mm_bytes f = {}"
proof -
  note F = first_fit_Some [OF fit]
  let ?e = "\<lparr>mm_start = Some (of_nat a :: usize), mm_end = of_nat (a + sz - 1)\<rparr>"
  have "mm_first (es ! i) < 2 ^ 64" using unat_bounds(4) by (auto simp: mm_first_def split: option.split)
  then have "a + sz < 2 ^ 64" using F by linarith
  then have "unat (of_nat a :: usize) = a" "unat (of_nat (a + sz - 1) :: usize) = a + sz - 1" by (intro unat_of_nat_less; simp)+
  then have u: "mm_first ?e = a" "unat (mm_end ?e) = a + sz - 1" by (simp_all add: mm_first_def)
  have "in_order (take i es @ ?e # drop i es)" using u sz by (intro in_order_insert [OF R fit]) auto
  moreover have "f \<in> set (take i es) \<or> f \<in> set (drop i es)" if "f \<in> set es" for f using that by (metis append_take_drop_id set_append Un_iff)
  ultimately have "unat (mm_end f) < a \<or> a + sz - 1 < mm_first f" if "f \<in> set es" for f
    using that u by (fastforce simp: sorted_wrt_append)
  then show "\<forall>f \<in> set es. {a ..< a + sz} \<inter> mm_bytes f = {}" by (fastforce simp: mm_bytes_def)
  have "4096 dvd a" if "i \<noteq> 0" using that F R(2) by (auto simp: map_ok_def dest!: bspec [of _ _ "es ! (i - 1)"])
  then show "4096 \<le> a" using F by (cases "i = 0") (auto dest!: dvd_imp_le)
qed

lemma insert_reserved_ok:
  assumes ok: "reserved_ok g" and fit: "first_fit (unat n * 4096) 4095 (reservations g) = Some (i, a)" and n: "0 < n" "unat n < 2 ^ 51"
    and g': "length (g_reserved_entries g') = RESERVED_ENTRIES" "unat (g_reserved_count g') \<le> RESERVED_ENTRIES"
      "g_reserved_capacity g' = of_nat RESERVED_ENTRIES"
      "reservations g' = take i (reservations g) @ \<lparr>mm_start = Some (of_nat a), mm_end = of_nat (a + unat n * 4096 - 1)\<rparr> # drop i (reservations g)"
  shows "page_inv (of_nat a)" "unat (of_nat a :: usize) = a" "reserved_ok g'"
    "\<forall>f \<in> set (reservations g). {a ..< a + unat n * 4096} \<inter> mm_bytes f = {}"
    "mm_bytes \<lparr>mm_start = Some (of_nat a), mm_end = of_nat (a + unat n * 4096 - 1)\<rparr> = {a ..< a + unat n * 4096}"
proof -
  let ?R = "reservations g" and ?e = "\<lparr>mm_start = Some (of_nat a :: usize), mm_end = of_nat (a + unat n * 4096 - 1)\<rparr>"
  have R: "\<forall>e \<in> set ?R. map_ok e" "in_order ?R" using ok by (auto simp: reserved_ok_def)
  note F = first_fit_Some [OF fit]
  have npos: "0 < unat n" using n(1) by (simp add: word_less_nat_alt)
  have "map_ok (?R ! i)" "i \<noteq> 0 \<Longrightarrow> map_ok (?R ! (i - 1))" using R(1) F by auto
  then have b: "a + unat n * 4096 < 2 ^ 63" "4096 dvd a" "0 < a"
    using F map_ok_le [of "?R ! i"] by (auto simp: map_ok_def split: if_splits)
  have u: "unat (of_nat a :: usize) = a" "unat (of_nat (a + unat n * 4096 - 1) :: usize) = a + unat n * 4096 - 1"
    using b(1) by (auto intro!: unat_of_nat_less)
  have inv: "page_inv (of_nat a)" using b(2,3) u(1) by (auto simp: page_inv_def unat_eq_zero)
  have mok: "map_ok ?e" using inv u b npos by (auto simp: map_ok_def word_le_nat_alt)
  show "mm_bytes ?e = {a ..< a + unat n * 4096}" using u npos by (auto simp: mm_bytes_def mm_first_def)
  have ord: "in_order (reservations g')" unfolding g'(4)
    using u npos by (intro in_order_insert [OF R(2,1) fit]) (auto simp: mm_first_def)
  have "\<forall>e \<in> set (reservations g'). map_ok e" unfolding g'(4) using R(1) mok by (auto dest: in_set_takeD in_set_dropD)
  then show "reserved_ok g'" unfolding reserved_ok_def using g'(1-3) ord by blast
  show "page_inv (of_nat a)" "unat (of_nat a :: usize) = a" by (fact inv, fact u(1))
  show "\<forall>f \<in> set ?R. {a ..< a + unat n * 4096} \<inter> mm_bytes f = {}" using first_fit_place(2) [OF R(2,1) fit] npos by simp
qed

lemma reserve_range_eq:
  assumes "reserved_ok g" "0 < n" "unat n < 2 ^ 51"
  shows "dux_reserve_range None n g = (case first_fit (unat n * 4096) 4095 (reservations g) of
      None \<Rightarrow> Inr (Inl NoSpace, g)
    | Some (i, a) \<Rightarrow> bindP (mem_insert_entry i (of_nat a) (of_nat (a + unat n * 4096 - 1)) (of_nat RESERVED_ENTRIES) (g\<lparr>g_reserved_capacity := 0\<rparr>))
        (\<lambda>(r, g'). Inr (case r of Inl _ \<Rightarrow> Inl NoMemory | Inr _ \<Rightarrow> Inr (of_nat a), g'\<lparr>g_reserved_capacity := of_nat RESERVED_ENTRIES\<rparr>)))"
proof -
  have ok: "length (g_reserved_entries g) = RESERVED_ENTRIES" "unat (g_reserved_count g) \<le> RESERVED_ENTRIES"
      "g_reserved_capacity g = of_nat RESERVED_ENTRIES" "\<forall>e \<in> set (reservations g). map_ok e" using assms(1) by (auto simp: reserved_ok_def)
  have nz: "(of_nat RESERVED_ENTRIES :: usize) \<noteq> 0" by (simp add: RESERVED_ENTRIES_def)
  have e: "unat NULL_PAGE_END = 4095" by (simp add: NULL_PAGE_END_def page_consts)
  have "g\<lparr>g_reserved_capacity := of_nat RESERVED_ENTRIES\<rparr> = g" using ok(3) by (cases g) simp
  then show ?thesis
    using reserve_scan_first_fit [of 0 "unat (g_reserved_count g)" "g\<lparr>g_reserved_capacity := 0\<rparr>" NULL_PAGE_END n "of_nat RESERVED_ENTRIES"]
      ok assms(2,3) nz e by (simp add: dux_reserve_range_def spin_lock_def bindK_def bindP_def split: option.splits sum.splits)
qed

lemma inserted_nth:
  "i \<le> length es \<Longrightarrow> (take i es @ e # drop i es) ! i = e \<and> take i (take i es @ e # drop i es) @ drop (Suc i) (take i es @ e # drop i es) = es"
  by (simp add: nth_append)

text \<open>
  C32. The reservations of a task never overlap. Asking for some pages (fewer than \<open>2^51\<close>) always ends: it
  gives whole pages that were in no reserved range, keeps the list sorted and free of overlaps, and
  releasing them gives the old list back; or it reports \<open>NoSpace\<close>; or it reports a full list, and then it
  is full. A refused request changes nothing. \<open>NoSpace\<close> does not mean that all space is taken: it is
  reported exactly when every place in front of a reserved range overlaps one. The space behind the last range is
  never given out, and with no range at all every request is refused.
\<close>

theorem reservations_disjoint:
  assumes "reserved_ok g" "0 < n" "unat n < 2 ^ 51"
  shows "\<exists>r g'. dux_reserve_range None n g = Inr (r, g') \<and> reserved_ok g'
    \<and> (r = Inl NoSpace \<longleftrightarrow> (\<forall>a e. 4096 \<le> a \<longrightarrow> e \<in> set (reservations g) \<longrightarrow> a + unat n * 4096 \<le> mm_first e
         \<longrightarrow> (\<exists>f \<in> set (reservations g). {a ..< a + unat n * 4096} \<inter> mm_bytes f \<noteq> {})))
    \<and> (reservations g = [] \<longrightarrow> r = Inl NoSpace) \<and>
    (case r of
       Inr p \<Rightarrow> page_inv p \<and> (\<forall>f \<in> set (reservations g). {unat p ..< unat p + unat n * 4096} \<inter> mm_bytes f = {})
         \<and> (\<exists>e i. reservations g' = take i (reservations g) @ e # drop i (reservations g) \<and> mm_bytes e = {unat p ..< unat p + unat n * 4096})
         \<and> (\<exists>g''. unreserve_range p g' = Inr (Inr (), g'') \<and> reserved_ok g'' \<and> reservations g'' = reservations g)
     | Inl NoSpace \<Rightarrow> g' = g
     | Inl NoMemory \<Rightarrow> g' = g \<and> length (reservations g) = RESERVED_ENTRIES)"
proof (cases "first_fit (unat n * 4096) 4095 (reservations g)")
  case None
  have "0 < unat n" using assms(2) by (simp add: word_less_nat_alt)
  moreover have "\<forall>f \<in> set (reservations g). mm_first f \<le> unat (mm_end f)" using assms(1) map_ok_le by (auto simp: reserved_ok_def)
  ultimately show ?thesis using first_fit_None [OF None] assms(1) reserve_range_eq [OF assms] None by simp
next
  case (Some ia)
  obtain i a where fit: "first_fit (unat n * 4096) 4095 (reservations g) = Some (i, a)" using Some by (cases ia) auto
  have ok: "length (g_reserved_entries g) = RESERVED_ENTRIES" "unat (g_reserved_count g) \<le> RESERVED_ENTRIES"
      "g_reserved_capacity g = of_nat RESERVED_ENTRIES" using assms(1) by (auto simp: reserved_ok_def)
  have len: "length (reservations g) = unat (g_reserved_count g)" using ok by (simp add: reservations_def)
  have place: "\<not> (\<forall>a e. 4096 \<le> a \<longrightarrow> e \<in> set (reservations g) \<longrightarrow> a + unat n * 4096 \<le> mm_first e
      \<longrightarrow> (\<exists>f \<in> set (reservations g). {a ..< a + unat n * 4096} \<inter> mm_bytes f \<noteq> {}))" (is "\<not> ?taken") "reservations g \<noteq> []"
  proof -
    have "in_order (reservations g)" "\<forall>e \<in> set (reservations g). map_ok e" "0 < unat n * 4096"
      using assms(1,2) by (auto simp: reserved_ok_def word_less_nat_alt)
    note P = first_fit_place [OF this(1,2) fit this(3)]
    show "\<not> ?taken" "reservations g \<noteq> []" using first_fit_Some [OF fit] P nth_mem [of i "reservations g"] by (blast, auto)
  qed
  show ?thesis
  proof (cases "unat (g_reserved_count g) = RESERVED_ENTRIES")
    case True
    then have "of_nat RESERVED_ENTRIES = g_reserved_count g" by (simp flip: True)
    moreover have "g\<lparr>g_reserved_capacity := of_nat RESERVED_ENTRIES\<rparr> = g" using ok(3) by (cases g) simp
    ultimately have "dux_reserve_range None n g = Inr (Inl NoMemory, g)" using reserve_range_eq [OF assms] fit by (simp add: mem_insert_entry_def)
    then show ?thesis using True assms(1) len place by (intro exI [of _ "Inl NoMemory"] exI [of _ g]) simp
  next
    case False
    let ?g = "g\<lparr>g_reserved_capacity := 0\<rparr>" and ?e = "\<lparr>mm_start = Some (of_nat a :: usize), mm_end = of_nat (a + unat n * 4096 - 1)\<rparr>"
    have i: "i \<le> length (reservations g)" using first_fit_Some [OF fit] by simp
    obtain g1 where ins: "mem_insert_entry i (of_nat a) (of_nat (a + unat n * 4096 - 1)) (of_nat RESERVED_ENTRIES) ?g = Inr (Inr (), g1)"
        and g1: "length (g_reserved_entries g1) = RESERVED_ENTRIES" "unat (g_reserved_count g1) \<le> RESERVED_ENTRIES"
          "reservations g1 = take i (reservations g) @ ?e # drop i (reservations g)"
      using mem_insert_entry_reserved [of ?g i "of_nat RESERVED_ENTRIES" "of_nat a" "of_nat (a + unat n * 4096 - 1)"] False ok i len
      by (force simp: RESERVED_ENTRIES_def)
    let ?g' = "g1\<lparr>g_reserved_capacity := of_nat RESERVED_ENTRIES\<rparr>"
    have R': "reservations ?g' = take i (reservations g) @ ?e # drop i (reservations g)" using g1(3) by simp
    note I = insert_reserved_ok [OF assms(1) fit assms(2,3) _ _ _ R']
    have K: "page_inv (of_nat a)" "unat (of_nat a :: usize) = a" "reserved_ok ?g'"
        "\<forall>f \<in> set (reservations g). {a ..< a + unat n * 4096} \<inter> mm_bytes f = {}"
        "mm_bytes ?e = {a ..< a + unat n * 4096}" using I g1 by simp_all
    have "mm_start (reservations ?g' ! i) = Some (of_nat a)" "i < length (reservations ?g')" unfolding R' using inserted_nth [OF i, of ?e] i by auto
    from unreserve_range_eq [OF K(3) this(2,1), unfolded R' conjunct2 [OF inserted_nth [OF i]]]
    obtain g2 where "unreserve_range (of_nat a) ?g' = Inr (Inr (), g2)" "reserved_ok g2" "reservations g2 = reservations g" by blast
    moreover have "dux_reserve_range None n g = Inr (Inr (of_nat a), ?g')" using reserve_range_eq [OF assms] fit ins by simp
    moreover have "\<exists>e i. reservations ?g' = take i (reservations g) @ e # drop i (reservations g) \<and> mm_bytes e = {a ..< a + unat n * 4096}"
      using R' K(5) by blast
    ultimately show ?thesis using K(1-4) place by (intro exI [of _ "Inr (of_nat a)"] exI [of _ ?g'] conjI) simp_all
  qed
qed

text \<open>The page of a task as \<open>init\<close> first fills it.\<close>

definition no_map :: memory_map where
  "no_map = \<lparr>mm_start = None, mm_end = 0\<rparr>"

definition global_zero :: global where
  "global_zero = \<lparr>g_ipc_packets = 0, g_free_ranges = 0, g_reserved_count = 0, g_reserved_capacity = 0, g_free_ranges_capacity = 0,
     g_ring_mask = 0, g_last_received_index = 0, g_transmit_lock = False, g_received_lock = False,
     g_reserved_entries = replicate RESERVED_ENTRIES no_map\<rparr>"

definition global_ex :: global where
  "global_ex = global_zero\<lparr>g_reserved_count := 3, g_reserved_capacity := 252,
     g_reserved_entries := \<lparr>mm_start = Some 0x10000, mm_end = 0x1ffffff\<rparr> # \<lparr>mm_start = Some 0xffff000, mm_end = 0xfffffff\<rparr>
       # \<lparr>mm_start = Some 0xfff00000, mm_end = 0xfffeffff\<rparr> # no_map # no_map # replicate 247 no_map\<rparr>"

lemma global_ex_reservations:
  "reservations global_ex = [\<lparr>mm_start = Some 0x10000, mm_end = 0x1ffffff\<rparr>, \<lparr>mm_start = Some 0xffff000, mm_end = 0xfffffff\<rparr>,
     \<lparr>mm_start = Some 0xfff00000, mm_end = 0xfffeffff\<rparr>]"
  by (simp add: reservations_def global_ex_def)

lemma global_ex_ok: "reserved_ok global_ex"
  unfolding reserved_ok_def global_ex_reservations
  by (simp add: global_ex_def RESERVED_ENTRIES_def map_ok_def page_inv_def mm_first_def word_le_nat_alt)

lemma numeral_steps:
  "shift_up i (numeral k) es = bindP (indexP es (i + pred_numeral k)) (\<lambda>e. bindP (storeP es (i + numeral k) e) (shift_up i (pred_numeral k)))"
  "(x # xs)[numeral k := y] = x # xs[pred_numeral k := y]"
  by (simp_all add: numeral_eq_Suc)

lemmas reserve_scan_numeral = reserve_scan.simps(2) [of "pred_numeral k" for k, folded numeral_eq_Suc]

lemmas reserve_eval = dux_reserve_range_def spin_lock_def bindK_def mem_insert_entry_def numeral_steps reserve_scan_numeral NULL_PAGE_END_def page_consts
  global_ex_def global_zero_def

theorem reservations_disjoint_witness:
  "reserved_ok global_ex \<and> (\<exists>g'. dux_reserve_range None 8 global_ex = Inr (Inr 0x1000, g') \<and> reserved_ok g'
     \<and> (\<exists>g''. unreserve_range 0x1000 g' = Inr (Inr (), g'') \<and> reservations g'' = reservations global_ex))"
proof -
  have n: "0 < (8 :: usize)" "unat (8 :: usize) < 2 ^ 51" by simp_all
  obtain g' where g': "dux_reserve_range None 8 global_ex = Inr (Inr 0x1000, g')" by (simp add: reserve_eval)
  from reservations_disjoint [OF global_ex_ok n] g' show ?thesis using global_ex_ok by auto
qed

text \<open>A request for no pages succeeds and leaves a range that ends before it starts; the next request gets the same address.\<close>

lemma reserve_nothing:
  "\<exists>g' g''. dux_reserve_range None 0 global_ex = Inr (Inr 0x1000, g') \<and> \<not> reserved_ok g'
     \<and> dux_reserve_range None 8 g' = Inr (Inr 0x1000, g'')"
proof -
  let ?e = "\<lparr>mm_start = Some (0x1000 :: usize), mm_end = 0xfff\<rparr>"
  let ?g = "global_ex\<lparr>g_reserved_count := 4, g_reserved_entries := ?e # \<lparr>mm_start = Some 0x10000, mm_end = 0x1ffffff\<rparr>
       # \<lparr>mm_start = Some 0xffff000, mm_end = 0xfffffff\<rparr> # \<lparr>mm_start = Some 0xfff00000, mm_end = 0xfffeffff\<rparr> # no_map # replicate 247 no_map\<rparr>"
  have 1: "dux_reserve_range None 0 global_ex = Inr (Inr 0x1000, ?g)" by (simp add: reserve_eval)
  moreover have "\<not> reserved_ok ?g"
  proof -
    have "?e \<in> set (reservations ?g)" "\<not> map_ok ?e" by (simp_all add: reservations_def map_ok_def)
    then show ?thesis unfolding reserved_ok_def by blast
  qed
  moreover have "\<exists>g''. dux_reserve_range None 8 ?g = Inr (Inr 0x1000, g'')" by (simp add: reserve_eval)
  ultimately show ?thesis by blast
qed

end
