(* ===== verification/Dux_Ipc.thy ===== *)
theory Dux_Ipc
  imports Dux_Mem Ipc_Props
begin

text \<open>
  The IPC queues of a task as its own library uses them (\<open>lib/rust/dux/src/mem.rs\<close>, module \<open>ipc\<close>): slots are
  taken from the free stack of the packet table, filled, and put on the transmit ring, and received
  packets are taken from the receive ring. The table is the one the kernel works on
  (\<^const>\<open>io_tables\<close> under the page tables of the task), so that the two sides can be put together.
\<close>

subsection \<open>The table\<close>

definition u_table :: "user \<Rightarrow> ipc_table" where
  "u_table u = io_tables (k_io (u_kernel u)) (active_vms (k_io (u_kernel u))) (g_ipc_packets (u_global u))"

definition set_u_table :: "ipc_table \<Rightarrow> user \<Rightarrow> user" where
  "set_u_table t u = (let s = k_io (u_kernel u) in
     u\<lparr>u_kernel := (u_kernel u)\<lparr>k_io := s\<lparr>io_tables :=
       (io_tables s)(active_vms s := (io_tables s (active_vms s))(g_ipc_packets (u_global u) := t))\<rparr>\<rparr>\<rparr>)"

abbreviation getT :: "(ipc_table \<Rightarrow> 'a) \<Rightarrow> 'a duxK" where
  "getT f \<equiv> (\<lambda>u. Inr (f (u_table u), u))"

abbreviation modT :: "(ipc_table \<Rightarrow> ipc_table) \<Rightarrow> unit duxK" where
  "modT f \<equiv> (\<lambda>u. Inr ((), set_u_table (f (u_table u)) u))"

(* src/lib/rust/dux/src/mem.rs:642-648 ring_len *)
definition ring_len :: "global \<Rightarrow> u16" where
  "ring_len g = g_ring_mask g + 1"

text \<open>The checked index into one of the rings or the free stack.\<close>

definition ring_index :: "u16 \<Rightarrow> u16 duxK" where
  "ring_index k u = (if k < ring_len (u_global u) then Inr (k, u) else Inl Index_Out_Of_Range)"

(* src/lib/rust/dux/src/mem.rs:539-549 packet *)
definition dux_packet :: "u16 \<Rightarrow> u16 option duxK" where
  "dux_packet index u = Inr (if index \<le> g_ring_mask (u_global u) then Some index else None, u)"

(* src/lib/rust/dux/src/mem.rs:551-567 transmit_ring *)
definition dux_transmit_ring :: "(u16 \<times> (u16 \<Rightarrow> u16)) duxK" where
  "dux_transmit_ring = getT (\<lambda>t. (it_tx_index t, it_tx_slots t))"

(* src/lib/rust/dux/src/mem.rs:569-590 received_ring *)
definition dux_received_ring :: "(u16 \<times> (u16 \<Rightarrow> u16)) duxK" where
  "dux_received_ring = getT (\<lambda>t. (it_rx_index t, it_rx_slots t))"

(* src/lib/rust/dux/src/mem.rs:619-640 free_stack *)
definition dux_free_stack :: "(u16 \<times> (u16 \<Rightarrow> u16)) duxK" where
  "dux_free_stack = getT (\<lambda>t. (it_free_top t, it_free_slots t))"

(* src/lib/rust/dux/src/mem.rs:359-361 NoFreeSlots *)
datatype no_free_slots = NoFreeSlots

definition lock_top :: "(u16 \<Rightarrow> ('a \<times> u16) duxK) \<Rightarrow> 'a duxK" where
  "lock_top = spin_lock (\<lambda>u. it_free_top (u_table u)) (\<lambda>v u. set_u_table ((u_table u)\<lparr>it_free_top := v\<rparr>) u) U16_MAX"

(* src/lib/rust/dux/src/mem.rs:592-603 pop_free_slot *)
definition dux_pop_free_slot :: "(no_free_slots + u16) duxK" where
  "dux_pop_free_slot =
     lock_top (\<lambda>top.
       case checked_sub top 1 of
         None \<Rightarrow> retK (Inl NoFreeSlots, top)
       | Some t \<Rightarrow> bindK (ring_index t) (\<lambda>k. bindK dux_free_stack (\<lambda>(_, entries). retK (Inr (entries k), t))))"

(* src/lib/rust/dux/src/mem.rs:605-617 push_free_slot *)
definition dux_push_free_slot :: "u16 \<Rightarrow> unit duxK" where
  "dux_push_free_slot slot =
     lock_top (\<lambda>top.
       bindK (getG ring_len) (\<lambda>len.
       if top < len then
         bindK (ring_index top) (\<lambda>k.
         bindK (modT (\<lambda>t. t\<lparr>it_free_slots := (it_free_slots t)(k := slot)\<rparr>)) (\<lambda>_.
         retK ((), top + 1)))
       else panicK Assert_Failed))"

subsection \<open>Transmitting\<close>

text \<open>
  \<open>SpinLockGuard::new\<close> on one of the two boolean locks, and the store of \<open>false\<close> when the guard made by
  \<open>from_raw\<close> is dropped.
\<close>

definition take_transmit_lock :: "unit duxK" where
  "take_transmit_lock u = (if g_transmit_lock (u_global u) then Inl Endless_Loop
     else modG (\<lambda>g. g\<lparr>g_transmit_lock := True\<rparr>) u)"

definition take_received_lock :: "unit duxK" where
  "take_received_lock u = (if g_received_lock (u_global u) then Inl Endless_Loop
     else modG (\<lambda>g. g\<lparr>g_received_lock := True\<rparr>) u)"

text \<open>
  \<open>io_wait\<close> gives up the processor; \<open>wait\<close> is what the kernel and the other tasks do until the task runs
  again. A transmission that waits longer than \<open>fuel\<close> times has the result \<^const>\<open>None\<close>.
\<close>

definition yield :: "(kernel \<Rightarrow> kernel) \<Rightarrow> unit duxK" where
  "yield wait u = Inr ((), u\<lparr>u_kernel := wait (u_kernel u)\<rparr>)"

(* src/lib/rust/dux/src/mem.rs:368-375 transmit *)
primrec transmit_loop :: "(kernel \<Rightarrow> kernel) \<Rightarrow> nat \<Rightarrow> u16 option duxK" where
  "transmit_loop wait 0 = retK None"
| "transmit_loop wait (Suc fuel) =
     bindK dux_pop_free_slot (\<lambda>r. case r of
       Inr slot \<Rightarrow> retK (Some slot)
     | Inl NoFreeSlots \<Rightarrow> bindK (yield wait) (\<lambda>_. transmit_loop wait fuel))"

(* src/lib/rust/dux/src/mem.rs:363-376 transmit *)
definition transmit :: "(kernel \<Rightarrow> kernel) \<Rightarrow> nat \<Rightarrow> u16 option duxK" where
  "transmit wait fuel = bindK take_transmit_lock (\<lambda>_. transmit_loop wait fuel)"

(* src/lib/rust/dux/src/mem.rs:378-384 try_transmit *)
definition try_transmit :: "(no_free_slots + u16) duxK" where
  "try_transmit =
     bindK take_transmit_lock (\<lambda>_.
     bindK dux_pop_free_slot (\<lambda>r. case r of
       Inl NoFreeSlots \<Rightarrow> bindK (modG (\<lambda>g. g\<lparr>g_transmit_lock := False\<rparr>)) (\<lambda>_. retK (Inl NoFreeSlots))
     | Inr slot \<Rightarrow> retK (Inr slot)))"

(* src/lib/rust/dux/src/mem.rs:391-415 TransmitLock::into_raw, TransmitLock::deref_mut *)
definition transmit_write :: "u16 \<Rightarrow> packet \<Rightarrow> unit duxK" where
  "transmit_write slot p =
     bindK (dux_packet slot) (\<lambda>k. bindK (liftK (unwrapO k)) (\<lambda>k.
     modT (\<lambda>t. t\<lparr>it_packets := (it_packets t)(k := p)\<rparr>)))"

(* src/lib/rust/dux/src/mem.rs:417-427 TransmitLock::drop *)
definition transmit_drop :: "u16 \<Rightarrow> unit duxK" where
  "transmit_drop slot =
     bindK dux_transmit_ring (\<lambda>(index, _).
     bindK (getG g_ring_mask) (\<lambda>m.
     bindK (ring_index (index AND m)) (\<lambda>k.
     bindK (modT (\<lambda>t. t\<lparr>it_tx_slots := (it_tx_slots t)(k := slot), it_tx_index := index + 1\<rparr>)) (\<lambda>_.
     modG (\<lambda>g. g\<lparr>g_transmit_lock := False\<rparr>)))))"

subsection \<open>Receiving\<close>

(* src/lib/rust/dux/src/mem.rs:435-444 receive *)
primrec receive_loop :: "(kernel \<Rightarrow> kernel) \<Rightarrow> nat \<Rightarrow> u16 option duxK" where
  "receive_loop wait 0 = retK None"
| "receive_loop wait (Suc fuel) =
     bindK dux_received_ring (\<lambda>(index, entries).
     bindK (getG g_last_received_index) (\<lambda>i.
     if i \<noteq> index then
       bindK (getG g_ring_mask) (\<lambda>m. bindK (ring_index (i AND m)) (\<lambda>k. retK (Some (entries k))))
     else bindK (yield wait) (\<lambda>_. receive_loop wait fuel)))"

(* src/lib/rust/dux/src/mem.rs:429-445 receive *)
definition receive :: "(kernel \<Rightarrow> kernel) \<Rightarrow> nat \<Rightarrow> u16 option duxK" where
  "receive wait fuel = bindK take_received_lock (\<lambda>_. receive_loop wait fuel)"

(* src/lib/rust/dux/src/mem.rs:447-460 try_receive *)
definition try_receive :: "u16 option duxK" where
  "try_receive =
     bindK take_received_lock (\<lambda>_.
     bindK dux_received_ring (\<lambda>(index, entries).
     bindK (getG g_ring_mask) (\<lambda>m.
     bindK (getG g_last_received_index) (\<lambda>i.
     if i \<noteq> index then bindK (ring_index (i AND m)) (\<lambda>k. retK (Some (entries k)))
     else bindK (modG (\<lambda>g. g\<lparr>g_received_lock := False\<rparr>)) (\<lambda>_. retK None)))))"

(* src/lib/rust/dux/src/mem.rs:498-504 ReceivedLock::deref *)
definition received_read :: "u16 \<Rightarrow> packet duxK" where
  "received_read slot = bindK (dux_packet slot) (\<lambda>k. bindK (liftK (unwrapO k)) (\<lambda>k. getT (\<lambda>t. it_packets t k)))"

(* src/lib/rust/dux/src/mem.rs:478-495 ReceivedLock::defer *)
definition received_defer :: "u16 \<Rightarrow> unit duxK" where
  "received_defer slot =
     bindK dux_received_ring (\<lambda>(index, entries).
     bindK (getG g_last_received_index) (\<lambda>last_index.
     bindK (getG g_ring_mask) (\<lambda>m.
     bindK (ring_index (last_index AND m)) (\<lambda>i.
     bindK (ring_index ((index - 1) AND m)) (\<lambda>j.
     let a = entries i; b = entries j in
     if a = slot then
       bindK (modT (\<lambda>t. t\<lparr>it_rx_slots := (it_rx_slots t)(j := a, i := b)\<rparr>)) (\<lambda>_.
       modG (\<lambda>g. g\<lparr>g_received_lock := False\<rparr>))
     else panicK Assert_Failed)))))"

(* src/lib/rust/dux/src/mem.rs:506-514 ReceivedLock::drop *)
definition received_drop :: "u16 \<Rightarrow> unit duxK" where
  "received_drop slot =
     bindK (modG (\<lambda>g. g\<lparr>g_last_received_index := g_last_received_index g + 1, g_received_lock := False\<rparr>)) (\<lambda>_.
     dux_push_free_slot slot)"

subsection \<open>Free ranges\<close>

text \<open>
  \<open>add_free_range\<close> under the lock: a range of the same address that is still in use is an error of the
  caller, and the first unused entry takes the new range.
\<close>

(* src/lib/rust/dux/src/mem.rs:526-535 add_free_range *)
fun fill_free_range :: "page \<Rightarrow> usize \<Rightarrow> free_page list \<Rightarrow> free_page list option" where
  "fill_free_range page cnt [] = None"
| "fill_free_range page cnt (r # rs) =
     (if fp_count r = 0 then Some (\<lparr>fp_address = Some page, fp_count = cnt\<rparr> # rs)
      else map_option (\<lambda>rs'. r # rs') (fill_free_range page cnt rs))"

definition u_free_ranges :: "user \<Rightarrow> free_page list" where
  "u_free_ranges u = io_free_pages (k_io (u_kernel u)) (active_vms (k_io (u_kernel u))) (g_free_ranges (u_global u))"

definition set_u_free_ranges :: "free_page list \<Rightarrow> user \<Rightarrow> user" where
  "set_u_free_ranges l u = (let s = k_io (u_kernel u) in
     u\<lparr>u_kernel := (u_kernel u)\<lparr>k_io := s\<lparr>io_free_pages :=
       (io_free_pages s)(active_vms s := (io_free_pages s (active_vms s))(g_free_ranges (u_global u) := l))\<rparr>\<rparr>\<rparr>)"

(* src/lib/rust/dux/src/mem.rs:516-537 add_free_range *)
definition add_free_range :: "page \<Rightarrow> usize \<Rightarrow> (unit + unit) duxK" where
  "add_free_range page cnt =
     spin_lock (\<lambda>u. g_free_ranges_capacity (u_global u)) (\<lambda>v u. u\<lparr>u_global := (u_global u)\<lparr>g_free_ranges_capacity := v\<rparr>\<rparr>) 0 (\<lambda>capacity u.
       let n = unat capacity; ranges = take n (u_free_ranges u) in
       if \<exists>r \<in> set ranges. fp_count r > 0 \<and> fp_address r = Some page then Inl Assert_Failed
       else (case fill_free_range page cnt ranges of
         Some rs \<Rightarrow> Inr ((Inr (), capacity), set_u_free_ranges (rs @ drop n (u_free_ranges u)) u)
       | None \<Rightarrow> Inr ((Inl (), capacity), u)))"

subsection \<open>Initialisation\<close>

text \<open>
  \<open>init\<close> runs first. The page of the global structure and the two pages of the queues come from \<open>mem_alloc\<close>
  with whatever they contained; \<open>init\<close> writes only what is listed here.
\<close>

definition count_ones :: "'a::len word \<Rightarrow> nat" where
  "count_ones w = length (filter (bit w) [0..<LENGTH('a)])"

definition alloc_or_todo :: "page \<Rightarrow> unit duxK" where
  "alloc_or_todo page =
     bindK (kernel_call (\<lambda>_. sys_mem_alloc page 1 3)) (\<lambda>(st, _). if st \<noteq> 0 then panicK Todo_Reached else retK ())"

(* src/lib/rust/dux/src/mem.rs:125-147 init *)
definition init_reserved :: "global \<Rightarrow> global" where
  "init_reserved g = g\<lparr>g_reserved_capacity := of_nat RESERVED_ENTRIES, g_reserved_count := 3,
     g_reserved_entries := (g_reserved_entries g)
       [1 := \<lparr>mm_start = Some GLOBAL_PTR, mm_end = GLOBAL_PTR + (PAGE_SIZE - 1)\<rparr>,
        2 := \<lparr>mm_start = Some 0xfff00000, mm_end = 0xfffeffff\<rparr>,
        0 := \<lparr>mm_start = Some 0x10000, mm_end = 0x1ffffff\<rparr>]\<rparr>"

(* src/lib/rust/dux/src/mem.rs:168-171 init *)
primrec push_slots :: "nat \<Rightarrow> unit duxK" where
  "push_slots 0 = retK ()"
| "push_slots (Suc n) = bindK (push_slots n) (\<lambda>_. dux_push_free_slot (of_nat n))"

(* src/lib/rust/dux/src/mem.rs:112-206 init *)
definition dux_init :: "unit duxK" where
  "dux_init =
     bindK (alloc_or_todo GLOBAL_PTR) (\<lambda>_.
     bindK (modG init_reserved) (\<lambda>_.
     let packets_count = 4 in
     bindK (unwrapK (onG (dux_reserve_range None 8))) (\<lambda>addr.
     bindK (alloc_or_todo addr) (\<lambda>_.
     bindK (modG (\<lambda>g. g\<lparr>g_ipc_packets := addr, g_last_received_index := 0, g_ring_mask := packets_count - 1\<rparr>)) (\<lambda>_.
     bindK (push_slots (unat packets_count)) (\<lambda>_.
     bindK (unwrapK (onG (dux_reserve_range None 8))) (\<lambda>free_ranges.
     bindK (alloc_or_todo free_ranges) (\<lambda>_.
     let free_ranges_len = 12 in
     bindK (modG (\<lambda>g. g\<lparr>g_free_ranges := free_ranges, g_free_ranges_capacity := free_ranges_len\<rparr>)) (\<lambda>_.
     bindK (unwrapK (onG (dux_reserve_range None free_ranges_len))) (\<lambda>addr.
     bindK (unwrapK (add_free_range addr free_ranges_len)) (\<lambda>_.
     bindK (getG g_ipc_packets) (\<lambda>packets.
     bindK (kernel_call (\<lambda>task. sys_io_set_queues task packets (of_nat (count_ones (packets_count - 1))) free_ranges free_ranges_len)) (\<lambda>(st, _).
     if st \<noteq> 0 then panicK Todo_Reached else retK ())))))))))))))"

end
