(* ===== verification/Sv39_Share.thy ===== *)
theory Sv39_Share
  imports Sv39_Alloc
begin

text \<open>
  Sharing pages with another address space. The kernel runs on the page tables of the sender and writes
  to those of the receiver, which it sees through the second window. The two have the tables of the global part of the
  address space in common, so only the lower half of the receiver is looked at: its tables are a tree of
  their own. \<open>share\<close> maps a page of the sender in it and leaves the sender's map alone.
\<close>

subsection \<open>The lower half of another address space\<close>

definition lower :: "phys \<Rightarrow> ppn \<Rightarrow> phys" where
  "lower mem r = (\<lambda>f i. if f = r \<and> 256 \<le> unat i then 0 else mem f i)"

lemma lower_upd: "f \<noteq> r \<or> unat i < 256 \<Longrightarrow> lower (mem_upd mem f i v) r = mem_upd (lower mem r) f i v"
  by (auto simp: lower_def mem_upd_apply fun_eq_iff)

lemma lower_tab: "tab (lower mem r) f i = (if f = r \<and> 256 \<le> unat i then None else tab mem f i)"
  by (auto simp: tab_def lower_def entry_is_valid_bit)

lemma lower_tab0:
  assumes "tree (lower mem r) r" "unat i < 256"
  shows "tab0 (lower mem r) r i j = tab0 mem r i j"
proof -
  have "t \<noteq> r" if "tab mem r i = Some t" for t using treeD(1) [OF assms(1), of i] that assms(2) by (auto simp: lower_tab)
  then show ?thesis using assms(2) by (auto simp: tab0_def lower_tab split: option.splits)
qed

lemma lower_lookup:
  assumes "tree (lower mem r) r" "unat i < 256"
  shows "vm_lookup (lower mem r) r (i, j, k) = vm_lookup mem r (i, j, k)"
proof -
  have "t \<noteq> r" if "tab mem r i = Some t" for t using treeD(1) [OF assms(1), of i] that assms(2) by (auto simp: lower_tab)
  moreover have "u \<noteq> r" if "tab mem r i = Some t" "tab mem t j = Some u" for t u
    using treeD(2) [OF assms(1), of i j] that lower_tab0 [OF assms, of j] by (auto simp: tab0_def)
  ultimately show ?thesis using assms(2)
    by (auto simp: vm_lookup_alt lower_tab split: option.splits) (auto simp: lower_def)
qed

abbreviation own_tables :: "machine \<Rightarrow> ppn \<Rightarrow> ppn set" where
  "own_tables m r \<equiv> tables (lower (mc_mem m) r) r"

text \<open>The tables of the lower half below \<open>r\<close> are a tree, apart from the active tables and from free frames.\<close>

definition other_ok :: "machine \<Rightarrow> ppn \<Rightarrow> bool" where
  "other_ok m r \<longleftrightarrow> tree (lower (mc_mem m) r) r
     \<and> (\<forall>t \<in> own_tables m r. \<not> bit t 22 \<and> t \<notin> set (free_pages (mc_alloc m)) \<and> t \<notin> tables (mc_mem m) (mc_root m))"

lemma other_okD:
  assumes "other_ok m r"
  shows "tree (lower (mc_mem m) r) r" "t \<in> own_tables m r \<Longrightarrow> \<not> bit t 22" "t \<in> own_tables m r \<Longrightarrow> t \<notin> set (free_pages (mc_alloc m))"
    "t \<in> own_tables m r \<Longrightarrow> t \<notin> tables (mc_mem m) (mc_root m)" "r \<in> own_tables m r" "t \<in> own_tables m r \<Longrightarrow> t \<noteq> mc_root m"
  using assms unfolding other_ok_def by auto

lemma own_cong:
  assumes "\<And>f i. f \<in> own_tables m r \<Longrightarrow> mem' f i = mc_mem m f i"
  shows "tab (lower mem' r) r = tab (lower (mc_mem m) r) r" "tab0 (lower mem' r) r = tab0 (lower (mc_mem m) r) r"
    "tables (lower mem' r) r = own_tables m r" "tree (lower mem' r) r = tree (lower (mc_mem m) r) r"
    "vm_lookup (lower mem' r) r = vm_lookup (lower (mc_mem m) r) r"
  using assms by (intro tables_cong; simp add: lower_def)+

subsection \<open>What a walk in it changes\<close>

text \<open>\<open>M\<close> is what is mapped anew in the lower half of the other address space. Only its own tables and the
  windows are written, and its new tables were free frames.\<close>

definition other_updated :: "machine \<Rightarrow> ppn \<Rightarrow> machine \<Rightarrow> (idx \<times> idx \<times> idx \<rightharpoonup> nat \<times> leaf) \<Rightarrow> bool" where
  "other_updated m r m' M \<longleftrightarrow> vms_inv m' \<and> other_ok m' r \<and> mc_satp m' = mc_satp m \<and> map_kept m m'
     \<and> tables (mc_mem m') (mc_root m) = tables (mc_mem m) (mc_root m)
     \<and> (\<forall>f. f \<notin> tables (mc_mem m) (mc_root m) \<longrightarrow> f \<notin> own_tables m' r \<longrightarrow> mc_mem m' f = mc_mem m f)
     \<and> (\<forall>i j k. unat i < 256 \<longrightarrow> vm_lookup (mc_mem m') r (i, j, k) = (case M (i, j, k) of None \<Rightarrow> vm_lookup (mc_mem m) r (i, j, k) | Some v \<Rightarrow> Some v))
     \<and> own_tables m r \<subseteq> own_tables m' r \<and> set (free_pages (mc_alloc m')) \<subseteq> set (free_pages (mc_alloc m))
     \<and> own_tables m' r - own_tables m r = set (free_pages (mc_alloc m)) - set (free_pages (mc_alloc m'))"

lemma other_updatedD:
  assumes "other_updated m r m' M"
  shows "vms_inv m'" "other_ok m' r" "mc_satp m' = mc_satp m" "mc_root m' = mc_root m" "map_kept m m'"
    "tables (mc_mem m') (mc_root m) = tables (mc_mem m) (mc_root m)"
    "f \<notin> tables (mc_mem m) (mc_root m) \<Longrightarrow> f \<notin> own_tables m' r \<Longrightarrow> mc_mem m' f = mc_mem m f"
    "unat i < 256 \<Longrightarrow> vm_lookup (mc_mem m') r (i, j, k) = (case M (i, j, k) of None \<Rightarrow> vm_lookup (mc_mem m) r (i, j, k) | Some v \<Rightarrow> Some v)"
    "own_tables m r \<subseteq> own_tables m' r" "set (free_pages (mc_alloc m')) \<subseteq> set (free_pages (mc_alloc m))"
    "own_tables m' r - own_tables m r = set (free_pages (mc_alloc m)) - set (free_pages (mc_alloc m'))"
proof -
  show "mc_satp m' = mc_satp m" using assms by (simp add: other_updated_def)
  then show "mc_root m' = mc_root m" by (rule mc_root_satp)
qed (use assms in \<open>unfold other_updated_def, blast+\<close>)

lemma other_updated_refl: "vms_inv m \<Longrightarrow> other_ok m r \<Longrightarrow> other_updated m r m Map.empty"
  by (simp add: other_updated_def map_kept_def)

lemma other_updated_trans:
  assumes "other_updated m r m' M" "other_updated m' r m'' M'"
  shows "other_updated m r m'' (M ++ M')"
proof -
  note A = other_updatedD [OF assms(1)]
  note B = other_updatedD [OF assms(2), unfolded A(4)]
  have "map_kept m m''" using A(4,5) B(5) by (simp add: map_kept_def)
  moreover have "mc_mem m'' f = mc_mem m f" if "f \<notin> tables (mc_mem m) (mc_root m)" "f \<notin> own_tables m'' r" for f
    using A(6) A(7) [of f] B(7) [of f] B(9) that by auto
  moreover have "own_tables m'' r - own_tables m r = set (free_pages (mc_alloc m)) - set (free_pages (mc_alloc m''))"
    by (rule diff_chain [OF A(9) B(9) A(10) B(10) A(11) B(11)])
  moreover have "vm_lookup (mc_mem m'') r (i, j, k) = (case (M ++ M') (i, j, k) of None \<Rightarrow> vm_lookup (mc_mem m) r (i, j, k) | Some v \<Rightarrow> Some v)"
    if "unat i < 256" for i j k using A(8) [OF that] B(8) [OF that] by (simp add: map_add_def split: option.splits)
  moreover have "own_tables m r \<subseteq> own_tables m'' r" "set (free_pages (mc_alloc m'')) \<subseteq> set (free_pages (mc_alloc m))"
    using A(9,10) B(9,10) by blast+
  ultimately show ?thesis unfolding other_updated_def using A(3,6) B(1-3,6) by simp
qed

text \<open>A walk maps nothing, keeps the tables it meets and moves the second window only.\<close>

definition other_walked :: "machine \<Rightarrow> ppn \<Rightarrow> machine \<Rightarrow> bool" where
  "other_walked m r m' \<longleftrightarrow> other_updated m r m' Map.empty
     \<and> (\<forall>f \<in> tables (mc_mem m) (mc_root m). \<forall>i. (f, i) \<noteq> (mc_root m, B_INDEX) \<longrightarrow> mc_mem m' f i = mc_mem m f i)
     \<and> (\<forall>i t. unat i < 256 \<longrightarrow> tab (mc_mem m) r i = Some t \<longrightarrow> tab (mc_mem m') r i = Some t)"

lemma other_walkedD:
  assumes "other_walked m r m'"
  shows "other_updated m r m' Map.empty" "vms_inv m'" "other_ok m' r" "mc_root m' = mc_root m"
    "f \<in> tables (mc_mem m) (mc_root m) \<Longrightarrow> (f, i) \<noteq> (mc_root m, B_INDEX) \<Longrightarrow> mc_mem m' f i = mc_mem m f i"
    "unat i < 256 \<Longrightarrow> tab (mc_mem m) r i = Some t \<Longrightarrow> tab (mc_mem m') r i = Some t"
    "unat i < 256 \<Longrightarrow> vm_lookup (mc_mem m') r (i, j, k) = vm_lookup (mc_mem m) r (i, j, k)"
proof -
  show u: "other_updated m r m' Map.empty" using assms by (simp add: other_walked_def)
  show "vms_inv m'" "other_ok m' r" "mc_root m' = mc_root m" using other_updatedD(1,2,4) [OF u] .
  show "unat i < 256 \<Longrightarrow> vm_lookup (mc_mem m') r (i, j, k) = vm_lookup (mc_mem m) r (i, j, k)" using other_updatedD(8) [OF u] by simp
qed (use assms in \<open>unfold other_walked_def, blast+\<close>)

lemma other_walked_refl: "vms_inv m \<Longrightarrow> other_ok m r \<Longrightarrow> other_walked m r m"
  by (simp add: other_walked_def other_updated_refl)

lemma other_walked_trans:
  assumes "other_walked m r m'" "other_walked m' r m''"
  shows "other_walked m r m''"
proof -
  note A = other_walkedD [OF assms(1)]
  note B = other_walkedD [OF assms(2), unfolded A(4)]
  have "other_updated m r m'' Map.empty" using other_updated_trans [OF A(1) B(1)] by simp
  moreover have "mc_mem m'' f i = mc_mem m f i" if "f \<in> tables (mc_mem m) (mc_root m)" "(f, i) \<noteq> (mc_root m, B_INDEX)" for f i
    using A(5) [OF that] B(5) [of f i] other_updatedD(6) [OF A(1)] that by simp
  ultimately show ?thesis unfolding other_walked_def using A(6) B(6) by blast
qed

text \<open>The windows lie in the active root, where the other tables are not.\<close>

lemma other_updated_active:
  assumes w: "walked m m'" "mc_alloc m' = mc_alloc m" and ok: "other_ok m r"
  shows "other_updated m r m' Map.empty" "f \<in> own_tables m r \<Longrightarrow> mc_mem m' f = mc_mem m f"
    "unat i < 256 \<Longrightarrow> tab (mc_mem m') r i = tab (mc_mem m) r i"
proof -
  note O = other_okD [OF ok] and W = walkedD [OF w(1)]
  have t: "tables (mc_mem m') (mc_root m) = tables (mc_mem m) (mc_root m)" using w unfolding walked_def by auto
  show own: "mc_mem m' f = mc_mem m f" if "f \<in> own_tables m r" for f using W(5) [of f] O(4) [OF that] t by simp
  then have "mc_mem m' f i = mc_mem m f i" if "f \<in> own_tables m r" for f i using that by simp
  note C = own_cong [of m r "mc_mem m'", OF this]
  have "other_ok m' r" using ok by (simp add: other_ok_def C(3,4) W(2) t w(2))
  moreover have "map_kept m m'" using W(4) by (simp add: map_kept_def)
  moreover have "vm_lookup (mc_mem m') r (i, j, k) = vm_lookup (mc_mem m) r (i, j, k)" if "unat i < 256" for i j k
    using lower_lookup [OF O(1) that] lower_lookup [OF _ that, of "mc_mem m'" r] C(4,5) O(1) by simp
  ultimately show "other_updated m r m' Map.empty" using W(1,3,5) t w(2) C(3) by (simp add: other_updated_def)
  show "tab (mc_mem m') r i = tab (mc_mem m) r i" if "unat i < 256" using fun_cong [OF C(1), where x = i] that by (simp add: lower_tab)
qed

lemma other_table_b:
  assumes inv: "vms_inv m" and ok: "other_ok m r" and p: "\<not> bit p 22"
  obtains m' where "table_b p m = Inr (window_page HIGHMEM_B p, m')" "other_walked m r m'" "shows_table m' HIGHMEM_B p"
    "mc_alloc m' = mc_alloc m" "\<And>f. f \<in> own_tables m r \<Longrightarrow> mc_mem m' f = mc_mem m f"
proof -
  obtain m' where m': "table_b p m = Inr (window_page HIGHMEM_B p, m')" "walked m m'" "shows_table m' HIGHMEM_B p" "mc_alloc m' = mc_alloc m"
      "mc_mem m' = mem_upd (mc_mem m) (mc_root m) B_INDEX (pte (ucast (window_frame p)) 199)"
    using table_b_eq [OF inv p] by blast
  note A = other_updated_active [OF m'(2,4) ok]
  have "mc_mem m' f i = mc_mem m f i" if "(f, i) \<noteq> (mc_root m, B_INDEX)" for f i using that by (auto simp: m'(5) mem_upd_apply)
  then have "other_walked m r m'" using A(1,3) by (simp add: other_walked_def)
  then show thesis using that m' A(2) by blast
qed

text \<open>A fresh frame becomes a table of the other address space.\<close>

lemma other_new_table:
  assumes inv: "vms_inv m" and ok: "other_ok m r" and al: "allocate (mc_alloc m) = Inr (p, a)"
    and f: "f \<in> own_tables m r" "f \<noteq> r \<or> unat i < 256"
  defines "L \<equiv> lower (mc_mem m) r" and "L' \<equiv> mem_upd (lower (mc_mem m) r) f i (new_table p)"
  assumes N: "tree L' r" "tables L' r = insert p (tables L r)" "vm_lookup L' r = vm_lookup L r" "\<And>i t. tab L r i = Some t \<Longrightarrow> tab L' r i = Some t"
  shows "other_walked m r (m\<lparr>mc_alloc := a, mc_mem := mem_upd (mc_mem m) f i (new_table p)\<rparr>)" (is "other_walked m r ?m'")
proof -
  note I = vms_invD [OF inv] and F = allocate_fresh [OF inv al] and O = other_okD [OF ok]
  note D = vm_okD [OF I(1)]
  have fn: "f \<notin> tables (mc_mem m) (mc_root m)" "f \<notin> set (free_pages (mc_alloc m))" using O(3,4) f(1) by blast+
  note U = tables_upd_outside [OF fn(1), of i "new_table p"]
  have low: "lower (mc_mem ?m') r = L'" using lower_upd [OF f(2)] by (simp add: L'_def)
  have "self_map (mem_upd (mc_mem m) f i (new_table p)) (mc_root m)" using D(1,2) fn(1) by (intro self_map_upd) auto
  moreover have "mem_upd (mc_mem m) f i (new_table p) q j = 0" if "q \<in> set (free_pages (mc_alloc m))" for q j
    using that D(8) fn(2) by (auto simp: mem_upd_apply)
  ultimately have "vm_ok (mc_mem ?m') (mc_root m) (set (free_pages a))"
    unfolding vm_ok_def using D(2-7) F(3) by (auto simp: U(1,3,4))
  then have inv': "vms_inv ?m'" using F(1,2) by (simp add: vms_inv_def)
  have "p \<notin> tables (mc_mem m) (mc_root m)" "\<not> bit p 22" using D(6,7) F(4) by blast+
  then have ok': "other_ok ?m' r" using N(1,2) O F(3) unfolding other_ok_def low by (auto simp: U(3) L_def)
  have "map_kept m ?m'" by (simp add: map_kept_def U(5))
  moreover have "vm_lookup (mc_mem ?m') r (i, j, k) = vm_lookup (mc_mem m) r (i, j, k)" if "unat i < 256" for i j k
    using lower_lookup [OF O(1) that] lower_lookup [OF _ that, of "mc_mem ?m'" r] N(1,3) by (simp only: low L_def)
  moreover have "tab (mc_mem ?m') r x = Some t" if "unat x < 256" "tab (mc_mem m) r x = Some t" for x t
  proof -
    have "tab (mc_mem ?m') r x = tab L' r x" using lower_tab [of "mc_mem ?m'" r r x] that(1) unfolding low by simp
    then show ?thesis using N(4) [of x t] that by (simp add: L_def lower_tab)
  qed
  moreover have "p \<notin> own_tables m r" using O(3) F(4) by blast
  then have "own_tables ?m' r - own_tables m r = set (free_pages (mc_alloc m)) - set (free_pages (mc_alloc ?m'))"
    unfolding low N(2) L_def using F(3,4) by auto
  moreover have "mc_mem ?m' g = mc_mem m g" if "g \<notin> own_tables ?m' r" for g
    using that f(1) unfolding low N(2) L_def by (auto simp: mem_upd_def)
  moreover have "own_tables m r \<subseteq> own_tables ?m' r" unfolding low N(2) L_def by auto
  moreover have "mc_mem ?m' g k = mc_mem m g k" if "g \<in> tables (mc_mem m) (mc_root m)" for g k using that fn(1) by (auto simp: mem_upd_apply)
  ultimately show ?thesis using inv' ok' F(3) unfolding other_walked_def other_updated_def by (auto simp: U(3))
qed

text \<open>The entry at a place of the other tables that the second window shows becomes a table, or is one.\<close>

lemma ensure_other_cases:
  assumes inv: "vms_inv m" and ok: "other_ok m r" and f: "f \<in> own_tables m r" "f \<noteq> r \<or> unat (ucast n :: idx) < 256"
    and sh: "shows_table m HIGHMEM_B f" and n: "unat n < 512"
  defines "L \<equiv> lower (mc_mem m) r" and "i \<equiv> ucast n :: idx" and "e \<equiv> mc_mem m f (ucast n)"
  assumes N: "\<And>p. p \<notin> tables L r \<Longrightarrow> (\<And>j. L p j = 0) \<Longrightarrow> \<not> entry_is_valid (L f i) \<Longrightarrow> tree (mem_upd L f i (new_table p)) r
      \<and> tables (mem_upd L f i (new_table p)) r = insert p (tables L r) \<and> vm_lookup (mem_upd L f i (new_table p)) r = vm_lookup L r
      \<and> (\<forall>i' t. tab L r i' = Some t \<longrightarrow> tab (mem_upd L f i (new_table p)) r i' = Some t)"
  obtains (overlap) "ensure_table (window_page HIGHMEM_B f + 8 * n) m = Inr (Inl AE_Overlaps, m)" "entry_is_valid e" "\<not> is_table e"
  | (exhausted) "ensure_table (window_page HIGHMEM_B f + 8 * n) m = Inl Unwrap_Failed" "free_pages (mc_alloc m) = []" "\<not> entry_is_valid e"
  | (table) t m' where "ensure_table (window_page HIGHMEM_B f + 8 * n) m = Inr (Inr t, m')" "other_walked m r m'" "tab (mc_mem m') f i = Some t"
      "length (free_pages (mc_alloc m)) \<le> Suc (length (free_pages (mc_alloc m')))"
proof -
  have "shows_table (m\<lparr>mc_mem := mem_upd (mc_mem m) f i v\<rparr>) HIGHMEM_B f" for v
    using sh other_okD(6) [OF ok f(1)] by (auto simp: shows_table_def mem_upd_apply)
  then have keep: "maps_page (m\<lparr>mc_mem := mem_upd (mc_mem m) f i v\<rparr>) (window_page HIGHMEM_B f) f" for v by (intro shows_table_maps) auto
  have pg: "maps_page m (window_page HIGHMEM_B f) f" using sh by (intro shows_table_maps) auto
  note E = ensure_table_eq [OF pg n, folded i_def, OF keep]
  have le: "L f i = e" using f(2) by (auto simp: L_def lower_def e_def i_def)
  consider "entry_is_valid e" "\<not> is_table e" | "entry_is_valid e" "is_table e" | "\<not> entry_is_valid e" by blast
  then show ?thesis
  proof cases
    case 1
    then show ?thesis using E by (intro overlap) (simp_all add: Let_def e_def i_def)
  next
    case 2
    then show ?thesis using E by (intro table [OF _ other_walked_refl [OF inv ok]]) (simp_all add: Let_def tab_def e_def i_def)
  next
    case 3
    show ?thesis
    proof (cases rule: allocate_cases [OF vms_invD(2) [OF inv]])
      case 1
      then show ?thesis using 3 E by (intro exhausted) (simp_all add: Let_def e_def i_def)
    next
      case (2 p al)
      note F = allocate_fresh [OF inv 2(1)]
      have p: "p \<notin> tables L r" "p \<noteq> r" using other_okD(3,5) [OF ok] F(4) by (auto simp: L_def)
      have z: "L p j = 0" for j using vm_okD(8) [OF vms_invD(1) [OF inv] F(4)] p(2) by (simp add: L_def lower_def)
      have "tree (mem_upd L f i (new_table p)) r \<and> tables (mem_upd L f i (new_table p)) r = insert p (tables L r)
        \<and> vm_lookup (mem_upd L f i (new_table p)) r = vm_lookup L r
        \<and> (\<forall>i' t. tab L r i' = Some t \<longrightarrow> tab (mem_upd L f i (new_table p)) r i' = Some t)"
        by (rule N) (use p z 3 le in simp_all)
      then have "other_walked m r (m\<lparr>mc_alloc := al, mc_mem := mem_upd (mc_mem m) f i (new_table p)\<rparr>)"
        using f(2) by (intro other_new_table [OF inv ok 2(1) f(1)]) (auto simp: L_def i_def)
      then show ?thesis by (rule table [rotated]) (use E 2 3 in \<open>simp_all add: Let_def e_def i_def\<close>)
    qed
  qed
qed

lemma ensure_other_root:
  assumes inv: "vms_inv m" and ok: "other_ok m r" and i: "unat (vpn2 a) < 256" and sh: "shows_table m HIGHMEM_B r"
  obtains (overlap) "ensure_table (window_page HIGHMEM_B r + 8 * ppn_2 a) m = Inr (Inl AE_Overlaps, m)"
      "entry_is_valid (mc_mem m r (vpn2 a))" "\<not> is_table (mc_mem m r (vpn2 a))"
  | (exhausted) "ensure_table (window_page HIGHMEM_B r + 8 * ppn_2 a) m = Inl Unwrap_Failed" "free_pages (mc_alloc m) = []"
      "\<not> entry_is_valid (mc_mem m r (vpn2 a))"
  | (table) t m' where "ensure_table (window_page HIGHMEM_B r + 8 * ppn_2 a) m = Inr (Inr t, m')" "other_walked m r m'"
      "tab (mc_mem m') r (vpn2 a) = Some t" "length (free_pages (mc_alloc m)) \<le> Suc (length (free_pages (mc_alloc m')))"
proof -
  note O = other_okD [OF ok]
  have u: "ucast (ppn_2 a) = vpn2 a" "unat (ppn_2 a) < 512" by simp_all
  show thesis
  proof (rule ensure_other_cases [OF inv ok O(5) _ sh u(2), unfolded u(1)])
    show "r \<noteq> r \<or> unat (vpn2 a) < 256" using i by simp
    fix p assume p: "p \<notin> own_tables m r" "\<And>j. lower (mc_mem m) r p j = 0" "\<not> entry_is_valid (lower (mc_mem m) r r (vpn2 a))"
    note T = tree_new_table_root [OF O(1) p(3,1,2)]
    have "tab (lower (mc_mem m) r) r (vpn2 a) = None" using p(3) by (simp add: tab_def)
    then have "tab (mem_upd (lower (mc_mem m) r) r (vpn2 a) (new_table p)) r i' = Some t" if "tab (lower (mc_mem m) r) r i' = Some t" for i' t
      using that by (cases "i' = vpn2 a") (auto simp: tab_upd_other)
    with T show "tree (mem_upd (lower (mc_mem m) r) r (vpn2 a) (new_table p)) r
        \<and> tables (mem_upd (lower (mc_mem m) r) r (vpn2 a) (new_table p)) r = insert p (own_tables m r)
        \<and> vm_lookup (mem_upd (lower (mc_mem m) r) r (vpn2 a) (new_table p)) r = vm_lookup (lower (mc_mem m) r) r
        \<and> (\<forall>i' t. tab (lower (mc_mem m) r) r i' = Some t \<longrightarrow> tab (mem_upd (lower (mc_mem m) r) r (vpn2 a) (new_table p)) r i' = Some t)"
      by blast
  qed (rule that; assumption)+
qed

lemma ensure_other_mid:
  assumes inv: "vms_inv m" and ok: "other_ok m r" and i: "unat i < 256" and t1: "tab (mc_mem m) r i = Some t1" and sh: "shows_table m HIGHMEM_B t1"
  obtains (overlap) "ensure_table (window_page HIGHMEM_B t1 + 8 * ppn_1 a) m = Inr (Inl AE_Overlaps, m)"
      "entry_is_valid (mc_mem m t1 (vpn1 a))" "\<not> is_table (mc_mem m t1 (vpn1 a))"
  | (exhausted) "ensure_table (window_page HIGHMEM_B t1 + 8 * ppn_1 a) m = Inl Unwrap_Failed" "free_pages (mc_alloc m) = []"
      "\<not> entry_is_valid (mc_mem m t1 (vpn1 a))"
  | (table) t m' where "ensure_table (window_page HIGHMEM_B t1 + 8 * ppn_1 a) m = Inr (Inr t, m')" "other_walked m r m'"
      "tab0 (mc_mem m') r i (vpn1 a) = Some t" "length (free_pages (mc_alloc m)) \<le> Suc (length (free_pages (mc_alloc m')))"
proof -
  note O = other_okD [OF ok]
  have u: "ucast (ppn_1 a) = vpn1 a" "unat (ppn_1 a) < 512" by simp_all
  have t: "tab (lower (mc_mem m) r) r i = Some t1" using t1 i by (simp add: lower_tab)
  then have ne: "t1 \<noteq> r" and own: "t1 \<in> own_tables m r" using treeD(1) [OF O(1)] by auto
  show thesis
  proof (rule ensure_other_cases [OF inv ok own _ sh u(2), unfolded u(1)])
    show "t1 \<noteq> r \<or> unat (vpn1 a) < 256" using ne by simp
    fix p assume p: "p \<notin> own_tables m r" "\<And>j. lower (mc_mem m) r p j = 0" "\<not> entry_is_valid (lower (mc_mem m) r t1 (vpn1 a))"
    note T = tree_new_table_mid [OF O(1) t p(3,1,2)]
    then show "tree (mem_upd (lower (mc_mem m) r) t1 (vpn1 a) (new_table p)) r
        \<and> tables (mem_upd (lower (mc_mem m) r) t1 (vpn1 a) (new_table p)) r = insert p (own_tables m r)
        \<and> vm_lookup (mem_upd (lower (mc_mem m) r) t1 (vpn1 a) (new_table p)) r = vm_lookup (lower (mc_mem m) r) r
        \<and> (\<forall>i' t. tab (lower (mc_mem m) r) r i' = Some t \<longrightarrow> tab (mem_upd (lower (mc_mem m) r) t1 (vpn1 a) (new_table p)) r i' = Some t)"
      by simp
  next
    fix t m' assume m': "ensure_table (window_page HIGHMEM_B t1 + 8 * ppn_1 a) m = Inr (Inr t, m')" "other_walked m r m'" "tab (mc_mem m') t1 (vpn1 a) = Some t"
      "length (free_pages (mc_alloc m)) \<le> Suc (length (free_pages (mc_alloc m')))"
    have "tab0 (mc_mem m') r i (vpn1 a) = Some t" using other_walkedD(6) [OF m'(2) i t1] m'(3) by (simp add: tab0_def)
    then show thesis using m' by (intro table)
  qed (rule overlap exhausted; assumption)+
qed

text \<open>The walk to a leaf of the other address space.\<close>

lemma get_pte_other:
  assumes inv: "vms_inv m" and ok: "other_ok m r" and i: "unat (vpn2 a) < 256" and sh: "shows_table m HIGHMEM_B r"
    and L: "vm_lookup (mc_mem m) r (va_index a) = None" and free: "2 \<le> length (free_pages (mc_alloc m))"
  obtains m' t0 where "get_pte_from_alloc (window_page HIGHMEM_B r) a m = Inr (Inr (window_page HIGHMEM_B t0 + 8 * ppn_0 a), m')"
    "other_walked m r m'" "tab0 (mc_mem m') r (vpn2 a) (vpn1 a) = Some t0" "shows_table m' HIGHMEM_B t0"
    "\<not> leaf_is_valid (mc_mem m' t0 (vpn0 a))" "length (free_pages (mc_alloc m)) \<le> length (free_pages (mc_alloc m')) + 2"
proof (cases rule: ensure_other_root [OF inv ok i sh])
  case 1
  then show ?thesis using L by (simp add: va_index_def vm_lookup_def)
next
  case 2
  then show ?thesis using free by simp
next
  case table: (3 t1 m1)
  note A = other_walkedD [OF table(2)]
  have own1: "t1 \<in> own_tables m1 r" using table(3) i by (intro tables_intros(2) [of _ _ "vpn2 a"]) (simp add: lower_tab)
  obtain m2 where m2: "table_b t1 m1 = Inr (window_page HIGHMEM_B t1, m2)" "other_walked m1 r m2" "shows_table m2 HIGHMEM_B t1" "mc_alloc m2 = mc_alloc m1"
    using other_table_b [OF A(2,3) other_okD(2) [OF A(3) own1]] by blast
  have w2: "other_walked m r m2" using other_walked_trans [OF table(2) m2(2)] .
  note B = other_walkedD [OF w2]
  have t1: "tab (mc_mem m2) r (vpn2 a) = Some t1" using other_walkedD(6) [OF m2(2) i table(3)] .
  have L2: "vm_lookup (mc_mem m2) r (vpn2 a, vpn1 a, vpn0 a) = None" using B(7) [OF i] L by (simp add: va_index_def)
  have G: "get_pte_from_alloc (window_page HIGHMEM_B r) a m = tryK (ensure_table (window_page HIGHMEM_B t1 + 8 * ppn_1 a)) id (\<lambda>ppn.
     bindK (table_b ppn) (\<lambda>tbl. bindK (entry_ptr tbl (ppn_0 a)) (\<lambda>p. retK (Inr p)))) m2"
    using table(1) m2(1) by (simp add: get_pte_from_alloc_def tryK_def bindK_def id_def)
  show ?thesis
  proof (cases rule: ensure_other_mid [OF B(2,3) i t1 m2(3), of a])
    case 1
    then show ?thesis using L2 vm_lookup_tab [OF t1, of "vpn1 a" "vpn0 a"] by (simp add: tab_def)
  next
    case 2
    then show ?thesis using free table(4) m2(4) by simp
  next
    case T: (3 t0 m3)
    have w3: "other_walked m r m3" using other_walked_trans [OF w2 T(2)] .
    note C = other_walkedD [OF w3]
    have own0: "tab0 (lower (mc_mem m3) r) r (vpn2 a) (vpn1 a) = Some t0" using lower_tab0 [OF other_okD(1) [OF C(3)] i] T(3) by simp
    then have own: "t0 \<in> own_tables m3 r" by blast
    obtain m4 where m4: "table_b t0 m3 = Inr (window_page HIGHMEM_B t0, m4)" "other_walked m3 r m4" "shows_table m4 HIGHMEM_B t0" "mc_alloc m4 = mc_alloc m3"
      "\<And>f. f \<in> own_tables m3 r \<Longrightarrow> mc_mem m4 f = mc_mem m3 f"
      using other_table_b [OF C(2,3) other_okD(2) [OF C(3) own]] by blast
    have w4: "other_walked m r m4" using other_walked_trans [OF w3 m4(2)] .
    note E = other_walkedD [OF w4]
    have t0: "tab0 (mc_mem m4) r (vpn2 a) (vpn1 a) = Some t0"
      using own_cong(2) [of m3 r "mc_mem m4"] m4(5) own0 lower_tab0 [OF other_okD(1) [OF E(3)] i] by (simp add: fun_eq_iff)
    have "vm_lookup (mc_mem m4) r (vpn2 a, vpn1 a, vpn0 a) = None" using E(7) [OF i] L by (simp add: va_index_def)
    then have "\<not> leaf_is_valid (mc_mem m4 t0 (vpn0 a))" using vm_lookup_tab0 [OF t0] by (simp split: if_splits)
    moreover have "get_pte_from_alloc (window_page HIGHMEM_B r) a m = Inr (Inr (window_page HIGHMEM_B t0 + 8 * ppn_0 a), m4)"
      using G T(1) m4(1) by (simp add: tryK_def bindK_def)
    ultimately show ?thesis using that w4 t0 m4(3,4) table(4) m2(4) T(4) by simp
  qed
qed

subsection \<open>Sharing a page\<close>

text \<open>The mapping that a page shared from a leaf gets.\<close>

definition shared_leaf :: "leaf \<Rightarrow> map_entry" where
  "shared_leaf l = (if bit l 8 \<and> \<not> bit l 9 then Map_Direct (entry_ppn l) else Map_Shared (entry_ppn l))"

lemma shared_leaf_eq: "leaf_is_valid l \<Longrightarrow> leaf_share l = Inr (shared_leaf l)" "map_ppn (shared_leaf l) = entry_ppn l"
  by (simp_all add: leaf_share_eq leaf_is_valid_bit shared_leaf_def)

lemma other_set_leaf:
  assumes inv: "vms_inv m" and ok: "other_ok m r" and t0: "tab0 (mc_mem m) r i j = Some t0" and i: "unat i < 256" and v: "leaf_is_valid v"
  shows "other_updated m r (m\<lparr>mc_mem := mem_upd (mc_mem m) t0 k v\<rparr>) [(i, j, k) \<mapsto> (0, v)]" (is "other_updated m r ?m' _")
proof -
  note I = vms_invD [OF inv] and O = other_okD [OF ok]
  note D = vm_okD [OF I(1)]
  have l0: "tab0 (lower (mc_mem m) r) r i j = Some t0" using lower_tab0 [OF O(1) i] t0 by simp
  then have own: "t0 \<in> own_tables m r" and ne: "t0 \<noteq> r" using treeD(2) [OF O(1)] by auto
  have fn: "t0 \<notin> tables (mc_mem m) (mc_root m)" "t0 \<notin> set (free_pages (mc_alloc m))" using O(3,4) own by blast+
  note U = tables_upd_outside [OF fn(1), of k v] and T = tree_set_leaf [OF O(1) l0, of k v]
  have low: "lower (mc_mem ?m') r = mem_upd (lower (mc_mem m) r) t0 k v" using lower_upd [of t0 r k] ne by simp
  have "self_map (mem_upd (mc_mem m) t0 k v) (mc_root m)" using D(1,2) fn(1) by (intro self_map_upd) auto
  moreover have "mem_upd (mc_mem m) t0 k v q x = 0" if "q \<in> set (free_pages (mc_alloc m))" for q x
    using that D(8) fn(2) by (auto simp: mem_upd_apply)
  ultimately have "vm_ok (mc_mem ?m') (mc_root m) (set (free_pages (mc_alloc m)))"
    unfolding vm_ok_def using D(2-7) by (auto simp: U(1,3,4))
  then have inv': "vms_inv ?m'" using I by (simp add: vms_inv_def)
  have ok': "other_ok ?m' r" using ok T(3,4) unfolding other_ok_def low by (simp add: U(3))
  have "vm_lookup (mc_mem ?m') r (i', j', k') = (case [(i, j, k) \<mapsto> (0, v)] (i', j', k') of None \<Rightarrow> vm_lookup (mc_mem m) r (i', j', k') | Some v \<Rightarrow> Some v)"
    if "unat i' < 256" for i' j' k'
  proof -
    have "vm_lookup (mc_mem ?m') r (i', j', k') = vm_lookup (mem_upd (lower (mc_mem m) r) t0 k v) r (i', j', k')"
      using lower_lookup [OF _ that, of "mc_mem ?m'" r j' k'] T(3) unfolding low by simp
    then show ?thesis using T(5) v lower_lookup [OF O(1) that, of j' k'] by simp
  qed
  moreover have "mc_mem ?m' g = mc_mem m g" if "g \<notin> own_tables m r" for g using that own by (auto simp: mem_upd_def)
  ultimately show ?thesis using inv' ok' unfolding other_updated_def low T(4) by (simp add: U(3,5) map_kept_def)
qed

text \<open>A page that the sender has mapped and the receiver has not is shared; two frames are enough for the new tables.\<close>

lemma share_page:
  assumes inv: "vms_inv m" and ok: "other_ok m r" and r: "r = ucast vm"
    and tx: "plain_index (vpn2 tx)" "vm_lookup (mc_mem m) (mc_root m) (va_index tx) = Some (0, l)"
    and rx: "unat (vpn2 rx) < 256" "vm_lookup (mc_mem m) r (va_index rx) = None" and free: "2 \<le> length (free_pages (mc_alloc m))"
  obtains m' where "vms_share vm rx tx rwx acc m = Inr (Inr (), m')"
    "other_updated m r m' [va_index rx \<mapsto> (0, mapped_leaf (shared_leaf l) rwx acc)]"
    "length (free_pages (mc_alloc m)) \<le> length (free_pages (mc_alloc m')) + 2"
proof -
  obtain tA where tA: "tab0 (mc_mem m) (mc_root m) (vpn2 tx) (vpn1 tx) = Some tA" "leaf_is_valid l" "mc_mem m tA (vpn0 tx) = l"
    using tx(2) by (auto simp: va_index_def vm_lookup_alt tab0_def split: option.splits if_splits)
  have inA: "tA \<noteq> mc_root m" "tA \<in> tables (mc_mem m) (mc_root m)" using tA(1) treeD(2) [OF vm_okD(2) [OF vms_invD(1) [OF inv]]] by auto
  obtain m1 where m1: "get_pte tx m = Inr (Inr (window_page HIGHMEM_A tA + 8 * ppn_0 tx), m1)" "walked m m1" "shows_table m1 HIGHMEM_A tA"
      "mc_mem m1 tA = mc_mem m tA" "mc_alloc m1 = mc_alloc m"
    using get_pte_table [OF inv tx(1) tA(1)] by blast
  note A = other_updated_active [OF m1(2,5) ok]
  note A1 = other_updatedD [OF A(1)]
  have nb: "\<not> bit r 22" using other_okD(2,5) [OF ok] by blast
  obtain m2 where m2: "table_b r m1 = Inr (window_page HIGHMEM_B r, m2)" "other_walked m1 r m2" "shows_table m2 HIGHMEM_B r" "mc_alloc m2 = mc_alloc m1"
    using other_table_b [OF A1(1,2) nb] by blast
  note W = other_walkedD [OF m2(2)]
  have L: "vm_lookup (mc_mem m2) r (va_index rx) = None" using A1(8) [OF rx(1)] W(7) [OF rx(1)] rx(2) by (simp add: va_index_def)
  obtain m3 t0 where m3: "get_pte_from_alloc (window_page HIGHMEM_B r) rx m2 = Inr (Inr (window_page HIGHMEM_B t0 + 8 * ppn_0 rx), m3)"
      "other_walked m2 r m3" "tab0 (mc_mem m3) r (vpn2 rx) (vpn1 rx) = Some t0" "shows_table m3 HIGHMEM_B t0"
      "\<not> leaf_is_valid (mc_mem m3 t0 (vpn0 rx))" "length (free_pages (mc_alloc m2)) \<le> length (free_pages (mc_alloc m3)) + 2"
    by (rule get_pte_other [OF W(2,3) rx(1) m2(3) L]) (use free m1(5) m2(4) in simp)
  have w: "other_walked m1 r m3" using other_walked_trans [OF m2(2) m3(2)] .
  note V = other_walkedD [OF w, unfolded A1(4)]
  have root: "mc_root m \<in> tables (mc_mem m1) (mc_root m)" "tA \<in> tables (mc_mem m1) (mc_root m)" using inA(2) A1(6) by auto
  have "mc_mem m3 (mc_root m) A_INDEX = mc_mem m1 (mc_root m) A_INDEX" using V(5) [OF root(1), of A_INDEX] by simp
  then have shA: "shows_table m3 HIGHMEM_A tA" using m1(3) V(4) A1(4) by (simp add: shows_table_def root_indices)
  have pgA: "maps_page m1 (window_page HIGHMEM_A tA) tA" "maps_page m3 (window_page HIGHMEM_A tA) tA" "maps_page m3 (window_page HIGHMEM_B t0) t0"
    using m1(3) shA m3(4) by (auto intro: shows_table_maps)
  have lA: "mc_mem m3 tA (vpn0 tx) = l" using V(5) [OF root(2), of "vpn0 tx"] inA(1) m1(4) tA(3) by simp
  note S = set_leaf_eq [OF pgA(3), of "ppn_0 rx", simplified]
  let ?m' = "m3\<lparr>mc_mem := mem_upd (mc_mem m3) t0 (vpn0 rx) (mapped_leaf (shared_leaf l) rwx acc)\<rparr>"
  have "vms_share vm rx tx rwx acc m = Inr (Inr (), ?m')"
    using m1(1,4) m2(1) m3(1,5) tA(2,3) lA r S load_page [OF pgA(1), of "ppn_0 tx"] load_page [OF pgA(2), of "ppn_0 tx"] load_page [OF pgA(3), of "ppn_0 rx"]
    by (simp add: vms_share_def tryK_def bindK_def shared_leaf_eq)
  moreover have "other_updated m3 r ?m' [va_index rx \<mapsto> (0, mapped_leaf (shared_leaf l) rwx acc)]"
    using other_set_leaf [OF V(2,3) m3(3) rx(1)] by (simp add: va_index_def)
  from other_updated_trans [OF other_updated_trans [OF A(1) V(1)] this]
  have "other_updated m r ?m' [va_index rx \<mapsto> (0, mapped_leaf (shared_leaf l) rwx acc)]" by simp
  ultimately show thesis using that m3(6) m1(5) m2(4) by simp
qed

end
