(* ===== verification/Ipc_Share.thy ===== *)
theory Ipc_Share
  imports Ipc_Props Sv39_Share
begin

text \<open>
  The pages that go with a packet. \<open>process_packets\<close> takes a range of addresses that the receiver offers for the
  data and one for the name, and shares the pages of the sender there. Pages are counted by their number here.
\<close>

subsection \<open>Page numbers\<close>

definition page_index :: "nat \<Rightarrow> idx \<times> idx \<times> idx" where
  "page_index q = va_index (of_nat (q * 4096))"

text \<open>The lower half of the address space has \<open>2 ^ 26\<close> pages.\<close>

lemma page_index_inj: "q < 2 ^ 26 \<Longrightarrow> q' < 2 ^ 26 \<Longrightarrow> page_index q = page_index q' \<longleftrightarrow> q = q'"
proof -
  assume q: "q < 2 ^ 26" "q' < 2 ^ 26"
  then have "unat (of_nat (q * 4096) :: usize) = q * 4096" "unat (of_nat (q' * 4096) :: usize) = q' * 4096"
    by (intro unat_of_nat_less; simp)+
  then show ?thesis using q by (simp add: page_index_def va_index_eq_iff)
qed

lemma page_index_lower: "q < 2 ^ 26 \<Longrightarrow> unat (fst (page_index q)) < 256"
proof -
  assume q: "q < 2 ^ 26"
  then have "unat (of_nat (q * 4096) :: usize) = q * 4096" by (intro unat_of_nat_less) simp
  then have "unat (fst (page_index q)) = q * 4096 div 2 ^ 30 mod 512"
    by (simp add: page_index_def va_index_def vpn2_def unsigned_ucast_eq take_bit_eq_mod unat_drop_bit)
  moreover have "q * 4096 div 2 ^ 30 < 256" using q by (simp add: div_less_iff_less_mult)
  ultimately show ?thesis by simp
qed

lemma page_at_index:
  assumes "page_inv p" "unat p div 4096 + k < 2 ^ 26"
  shows "va_index (page_at p k) = page_index (unat p div 4096 + k)" "page_at p k \<noteq> 0" "unat (vpn2 (page_at p k)) < 256"
    "page_skip p (of_nat k) = Some (page_at p k)"
proof -
  have p: "p \<noteq> 0" "unat p = unat p div 4096 * 4096" using assms(1) by (auto simp: page_inv_def)
  have l: "unat p + k * 4096 < 2 ^ 38" using assms(2) p(2) by simp
  have u: "unat (page_at p k) = unat p + k * 4096" using l by (intro unat_page_at) simp
  have "unat (of_nat ((unat p div 4096 + k) * 4096) :: usize) = (unat p div 4096 + k) * 4096" using assms(2) by (intro unat_of_nat_less) simp
  then show ix: "va_index (page_at p k) = page_index (unat p div 4096 + k)" unfolding page_index_def va_index_eq_iff u using p(2) by simp
  show nz: "page_at p k \<noteq> 0" using u p(1) by (metis add_is_0 unat_eq_zero)
  show "unat (vpn2 (page_at p k)) < 256" using page_index_lower [OF assms(2)] unfolding ix [symmetric] by (simp add: va_index_def)
  show "page_skip p (of_nat k) = Some (page_at p k)" using nz by (simp add: page_skip_def page_at_def page_consts Let_def)
qed

lemma lower_plain: "unat i < 256 \<Longrightarrow> plain_index i" "unat i < 256 \<Longrightarrow> \<not> window_index i"
  unfolding plain_index_def by auto

subsection \<open>Sharing a range\<close>

text \<open>The sender's pages are mapped, the receiver's are not.\<close>

definition mapped_pages :: "machine \<Rightarrow> nat list \<Rightarrow> bool" where
  "mapped_pages m qs \<longleftrightarrow> (\<forall>q \<in> set qs. q < 2 ^ 26 \<and> (\<exists>l. vm_lookup (mc_mem m) (mc_root m) (page_index q) = Some (0, l)))"

definition unmapped_pages :: "machine \<Rightarrow> ppn \<Rightarrow> nat list \<Rightarrow> bool" where
  "unmapped_pages m r qs \<longleftrightarrow> (\<forall>q \<in> set qs. q < 2 ^ 26 \<and> vm_lookup (mc_mem m) r (page_index q) = None)"

primrec sharing :: "machine \<Rightarrow> nat \<Rightarrow> nat \<Rightarrow> rwx \<Rightarrow> nat \<Rightarrow> (idx \<times> idx \<times> idx \<rightharpoonup> nat \<times> leaf)" where
  "sharing m tx rx rwx 0 = Map.empty"
| "sharing m tx rx rwx (Suc n) = (sharing m tx rx rwx n)(page_index (rx + n) \<mapsto>
     (0, mapped_leaf (shared_leaf (snd (the (vm_lookup (mc_mem m) (mc_root m) (page_index (tx + n)))))) rwx UserLocal))"

lemma dom_sharing: "dom (sharing m tx rx rwx n) = page_index ` {rx ..< rx + n}"
  by (induction n) (simp_all only: sharing.simps dom_fun_upd, simp_all add: atLeastLessThanSuc)

lemma sharing_at:
  "k < n \<Longrightarrow> rx + n \<le> 2 ^ 26 \<Longrightarrow> sharing m tx rx rwx n (page_index (rx + k))
     = Some (0, mapped_leaf (shared_leaf (snd (the (vm_lookup (mc_mem m) (mc_root m) (page_index (tx + k)))))) rwx UserLocal)"
  by (induction n) (auto simp: page_index_inj less_Suc_eq)

lemma sharing_cong:
  "(\<And>k. k < n \<Longrightarrow> vm_lookup (mc_mem m') (mc_root m') (page_index (tx + k)) = vm_lookup (mc_mem m) (mc_root m) (page_index (tx + k)))
     \<Longrightarrow> sharing m' tx rx rwx n = sharing m tx rx rwx n"
  by (induction n) (simp_all only: sharing.simps less_Suc_eq, simp)

lemma share_pages_eq:
  assumes inv: "vms_inv m" and ok: "other_ok m (ucast vm)" and m: "sc_machine (io_sched s) = m"
    and tx: "page_inv tx" "mapped_pages m [unat tx div 4096 ..< unat tx div 4096 + n]"
    and rx: "page_inv rx" "unmapped_pages m (ucast vm) [unat rx div 4096 ..< unat rx div 4096 + n]"
    and free: "2 * n \<le> length (free_pages (mc_alloc m))"
  shows "\<exists>m'. share_pages n vm rx tx rwx s = Inr ((), s\<lparr>io_sched := (io_sched s)\<lparr>sc_machine := m'\<rparr>\<rparr>)
    \<and> other_updated m (ucast vm) m' (sharing m (unat tx div 4096) (unat rx div 4096) rwx n)
    \<and> length (free_pages (mc_alloc m)) \<le> length (free_pages (mc_alloc m')) + 2 * n"
  using tx(2) rx(2) free
proof (induction n)
  case 0
  have "s\<lparr>io_sched := (io_sched s)\<lparr>sc_machine := m\<rparr>\<rparr> = s" using m by simp
  then show ?case using other_updated_refl [OF inv ok] by (intro exI [of _ m]) simp
next
  case (Suc n)
  let ?t = "unat tx div 4096" and ?x = "unat rx div 4096" and ?r = "ucast vm :: ppn"
  have "mapped_pages m [?t ..< ?t + n]" "unmapped_pages m ?r [?x ..< ?x + n]" "2 * n \<le> length (free_pages (mc_alloc m))"
    using Suc.prems by (auto simp: mapped_pages_def unmapped_pages_def)
  from Suc.IH [OF this] obtain m1 where m1: "share_pages n vm rx tx rwx s = Inr ((), s\<lparr>io_sched := (io_sched s)\<lparr>sc_machine := m1\<rparr>\<rparr>)"
      "other_updated m ?r m1 (sharing m ?t ?x rwx n)" "length (free_pages (mc_alloc m)) \<le> length (free_pages (mc_alloc m1)) + 2 * n" by blast
  note U = other_updatedD [OF m1(2)]
  have lt: "?t + n < 2 ^ 26" "?x + n < 2 ^ 26" using Suc.prems by (auto simp: mapped_pages_def unmapped_pages_def)
  obtain l where l: "vm_lookup (mc_mem m) (mc_root m) (page_index (?t + n)) = Some (0, l)" using Suc.prems(1) by (auto simp: mapped_pages_def)
  have none: "vm_lookup (mc_mem m) ?r (page_index (?x + n)) = None" using Suc.prems(2) by (auto simp: unmapped_pages_def)
  note T = page_at_index [OF tx(1) lt(1)] and X = page_at_index [OF rx(1) lt(2)]
  have l1: "vm_lookup (mc_mem m1) (mc_root m1) (va_index (page_at tx n)) = Some (0, l)"
    using U(5) l lower_plain(2) [OF T(3)] unfolding map_kept_def T(1) [symmetric] U(4) va_index_def by simp
  have "page_index (?x + n) \<notin> dom (sharing m ?t ?x rwx n)" using lt(2) by (auto simp: dom_sharing page_index_inj)
  then have "sharing m ?t ?x rwx n (page_index (?x + n)) = None" by (simp only: domIff not_not)
  then have n1: "vm_lookup (mc_mem m1) ?r (va_index (page_at rx n)) = None"
    using U(8) [OF X(3), of "vpn1 (page_at rx n)" "vpn0 (page_at rx n)"] none unfolding X(1) [symmetric] va_index_def by simp
  obtain m' where m': "vms_share vm (page_at rx n) (page_at tx n) rwx UserLocal m1 = Inr (Inr (), m')"
      "other_updated m1 ?r m' [va_index (page_at rx n) \<mapsto> (0, mapped_leaf (shared_leaf l) rwx UserLocal)]"
      "length (free_pages (mc_alloc m1)) \<le> length (free_pages (mc_alloc m')) + 2"
    by (rule share_page [OF U(1,2) refl lower_plain(1) [OF T(3)] l1 X(3) n1]) (use m1(3) Suc.prems(3) in simp)
  have "share_pages (Suc n) vm rx tx rwx s = Inr ((), s\<lparr>io_sched := (io_sched s)\<lparr>sc_machine := m'\<rparr>\<rparr>)"
    using m1(1) m'(1) T(4) X(4) by (simp add: bindK_def liftK_def onS_def onM_def unwrapK_def)
  moreover have "other_updated m ?r m' (sharing m ?t ?x rwx (Suc n))"
    using other_updated_trans [OF m1(2) m'(2)] l by (simp add: X(1))
  ultimately show ?case using m1(3) m'(3) by (intro exI [of _ m']) (simp del: sharing.simps share_pages.simps)
qed

subsection \<open>The ranges of a packet\<close>

fun range_from :: "(page \<times> page \<times> usize) option \<Rightarrow> nat list" where
  "range_from None = []"
| "range_from (Some (tx, rx, cnt)) = pages_of tx cnt"

fun range_to :: "(page \<times> page \<times> usize) option \<Rightarrow> nat list" where
  "range_to None = []"
| "range_to (Some (tx, rx, cnt)) = pages_of rx cnt"

fun range_inv :: "(page \<times> page \<times> usize) option \<Rightarrow> bool" where
  "range_inv None = True"
| "range_inv (Some (tx, rx, cnt)) = (page_inv tx \<and> page_inv rx)"

text \<open>Page after page, the receiver maps the frame that the sender maps, for itself and with the given permissions.\<close>

definition pages_shared :: "machine \<Rightarrow> ppn \<Rightarrow> machine \<Rightarrow> (page \<times> page \<times> usize) option \<Rightarrow> rwx \<Rightarrow> bool" where
  "pages_shared m r m' rng rwx \<longleftrightarrow> list_all2 (\<lambda>t x. \<exists>l mp. vm_lookup (mc_mem m) (mc_root m) (page_index t) = Some (0, l)
      \<and> map_ppn mp = entry_ppn l \<and> vm_lookup (mc_mem m') r (page_index x) = Some (0, mapped_leaf mp rwx UserLocal)) (range_from rng) (range_to rng)"

definition range_sharing :: "machine \<Rightarrow> (page \<times> page \<times> usize) option \<Rightarrow> rwx \<Rightarrow> (idx \<times> idx \<times> idx \<rightharpoonup> nat \<times> leaf)" where
  "range_sharing m rng rwx = (case rng of None \<Rightarrow> Map.empty
     | Some (tx, rx, cnt) \<Rightarrow> sharing m (unat tx div 4096) (unat rx div 4096) rwx (unat cnt))"

lemma dom_range_sharing: "dom (range_sharing m rng rwx) = page_index ` set (range_to rng)"
proof (cases rng)
  case (Some t)
  then show ?thesis by (cases t) (simp add: range_sharing_def dom_sharing pages_of_def)
qed (simp add: range_sharing_def)

lemma share_range_eq:
  assumes inv: "vms_inv m" and ok: "other_ok m (ucast vm)" and m: "sc_machine (io_sched s) = m"
    and rng: "range_inv rng" "mapped_pages m (range_from rng)" "unmapped_pages m (ucast vm) (range_to rng)"
    and free: "2 * length (range_to rng) \<le> length (free_pages (mc_alloc m))"
  shows "\<exists>m'. share_range rng vm rwx s = Inr ((), s\<lparr>io_sched := (io_sched s)\<lparr>sc_machine := m'\<rparr>\<rparr>)
    \<and> other_updated m (ucast vm) m' (range_sharing m rng rwx)
    \<and> length (free_pages (mc_alloc m)) \<le> length (free_pages (mc_alloc m')) + 2 * length (range_to rng)"
proof (cases rng)
  case None
  have "s\<lparr>io_sched := (io_sched s)\<lparr>sc_machine := m\<rparr>\<rparr> = s" using m by simp
  then show ?thesis using other_updated_refl [OF inv ok] None by (intro exI [of _ m]) (simp add: share_range_def range_sharing_def)
next
  case (Some t)
  obtain tx rx cnt where t: "t = (tx, rx, cnt)" by (cases t)
  show ?thesis using share_pages_eq [OF inv ok m, of tx "unat cnt" rx] rng free unfolding Some t
    by (simp add: pages_of_def share_range_def range_sharing_def)
qed

lemma pages_shared_intro:
  assumes "mapped_pages m (range_from rng)" "\<And>q. q \<in> set (range_to rng) \<Longrightarrow> q < 2 ^ 26"
    "\<And>q. q \<in> set (range_to rng) \<Longrightarrow> vm_lookup (mc_mem m') r (page_index q) = range_sharing m rng rwx (page_index q)"
  shows "pages_shared m r m' rng rwx"
proof (cases rng)
  case (Some t)
  obtain tx rx cnt where t: "t = (tx, rx, cnt)" by (cases t)
  let ?t = "unat tx div 4096" and ?x = "unat rx div 4096"
  have "\<exists>l mp. vm_lookup (mc_mem m) (mc_root m) (page_index (?t + k)) = Some (0, l)
      \<and> map_ppn mp = entry_ppn l \<and> vm_lookup (mc_mem m') r (page_index (?x + k)) = Some (0, mapped_leaf mp rwx UserLocal)" if k: "k < unat cnt" for k
  proof -
    obtain l where l: "vm_lookup (mc_mem m) (mc_root m) (page_index (?t + k)) = Some (0, l)"
      using bspec [OF assms(1) [unfolded mapped_pages_def], of "?t + k"] k by (auto simp: Some t pages_of_def)
    have "?x + (unat cnt - 1) < 2 ^ 26" using assms(2) [of "?x + (unat cnt - 1)"] k by (simp add: Some t pages_of_def)
    then have "?x + unat cnt \<le> 2 ^ 26" using k by linarith
    from shared_leaf_eq(2) [of l] assms(3) [of "?x + k"] sharing_at [OF k this, of m ?t rwx] k l show ?thesis
      by (simp add: Some t pages_of_def range_sharing_def) blast
  qed
  then show ?thesis by (simp add: pages_shared_def Some t pages_of_def list_all2_conv_all_nth)
qed (simp add: pages_shared_def)

lemma other_updated_page:
  assumes "other_updated n r m' M" "q < 2 ^ 26"
  shows "vm_lookup (mc_mem m') r (page_index q) = (case M (page_index q) of None \<Rightarrow> vm_lookup (mc_mem n) r (page_index q) | Some v \<Rightarrow> Some v)"
  using other_updatedD(8) [OF assms(1) page_index_lower [OF assms(2)], of "fst (snd (page_index q))" "snd (snd (page_index q))"]
  by (simp only: prod.collapse)

lemma range_sharing_None:
  assumes "q < 2 ^ 26" "unmapped_pages m r (range_to rng)"
  shows "range_sharing n rng rwx (page_index q) = None \<longleftrightarrow> q \<notin> set (range_to rng)"
proof -
  have "page_index q \<in> dom (range_sharing n rng rwx) \<longleftrightarrow> q \<in> set (range_to rng)"
    using assms page_index_inj by (auto simp: dom_range_sharing unmapped_pages_def)
  then show ?thesis by blast
qed

text \<open>Both ranges, when they do not overlap.\<close>

lemma both_shared:
  assumes U: "other_updated m r m' (range_sharing m rd RWX_RW ++ range_sharing m rn RWX_R)"
    and src: "mapped_pages m (range_from rd)" "mapped_pages m (range_from rn)"
    and um: "unmapped_pages m r (range_to rd)" "unmapped_pages m r (range_to rn)" and disj: "set (range_to rd) \<inter> set (range_to rn) = {}"
  shows "pages_shared m r m' rd RWX_RW" "pages_shared m r m' rn RWX_R"
    "unat i < 256 \<Longrightarrow> (i, j, k) \<notin> page_index ` set (range_to rd @ range_to rn) \<Longrightarrow> vm_lookup (mc_mem m') r (i, j, k) = vm_lookup (mc_mem m) r (i, j, k)"
proof -
  have lt: "q < 2 ^ 26" if "q \<in> set (range_to rd) \<union> set (range_to rn)" for q using that um by (auto simp: unmapped_pages_def)
  note N = range_sharing_None [OF _ um(1)] range_sharing_None [OF _ um(2)]
  have "vm_lookup (mc_mem m') r (page_index q) = range_sharing m rd RWX_RW (page_index q)" if "q \<in> set (range_to rd)" for q
    using other_updated_page [OF U, of q] N(1) [of q m RWX_RW] N(2) [of q m RWX_R] that disj lt [of q] by (auto simp: map_add_def)
  from pages_shared_intro [OF src(1) _ this] lt show "pages_shared m r m' rd RWX_RW" by blast
  have "vm_lookup (mc_mem m') r (page_index q) = range_sharing m rn RWX_R (page_index q)" if "q \<in> set (range_to rn)" for q
    using other_updated_page [OF U, of q] N(2) [of q m RWX_R] that lt [of q] by (auto simp: map_add_def)
  from pages_shared_intro [OF src(2) _ this] lt show "pages_shared m r m' rn RWX_R" by blast
  assume i: "unat i < 256" "(i, j, k) \<notin> page_index ` set (range_to rd @ range_to rn)"
  then have "(i, j, k) \<notin> dom (range_sharing m rd RWX_RW ++ range_sharing m rn RWX_R)" by (simp add: dom_range_sharing image_Un)
  then show "vm_lookup (mc_mem m') r (i, j, k) = vm_lookup (mc_mem m) r (i, j, k)"
    using other_updatedD(8) [OF U i(1), of j k] by (simp only: domIff not_not option.case)
qed

lemma share_both:
  assumes inv: "vms_inv m" and ok: "other_ok m (ucast vm)" and m: "sc_machine (io_sched s) = m"
    and rd: "range_inv rd" "mapped_pages m (range_from rd)" and rn: "range_inv rn" "mapped_pages m (range_from rn)"
    and to: "unmapped_pages m (ucast vm) (range_to rd @ range_to rn)" "distinct (range_to rd @ range_to rn)"
    and free: "2 * length (range_to rd @ range_to rn) \<le> length (free_pages (mc_alloc m))"
  obtains m1 m' where "share_range rd vm RWX_RW s = Inr ((), s\<lparr>io_sched := (io_sched s)\<lparr>sc_machine := m1\<rparr>\<rparr>)"
    "share_range rn vm RWX_R (s\<lparr>io_sched := (io_sched s)\<lparr>sc_machine := m1\<rparr>\<rparr>) = Inr ((), s\<lparr>io_sched := (io_sched s)\<lparr>sc_machine := m'\<rparr>\<rparr>)"
    "other_updated m (ucast vm) m' (range_sharing m rd RWX_RW ++ range_sharing m rn RWX_R)"
proof -
  let ?r = "ucast vm :: ppn"
  have um: "unmapped_pages m ?r (range_to rd)" "unmapped_pages m ?r (range_to rn)" using to(1) by (auto simp: unmapped_pages_def)
  obtain m1 where m1: "share_range rd vm RWX_RW s = Inr ((), s\<lparr>io_sched := (io_sched s)\<lparr>sc_machine := m1\<rparr>\<rparr>)"
      "other_updated m ?r m1 (range_sharing m rd RWX_RW)" "length (free_pages (mc_alloc m)) \<le> length (free_pages (mc_alloc m1)) + 2 * length (range_to rd)"
    using share_range_eq [OF inv ok m rd um(1), of RWX_RW] free by auto
  note U = other_updatedD [OF m1(2)]
  have kept: "vm_lookup (mc_mem m1) (mc_root m1) (page_index q) = vm_lookup (mc_mem m) (mc_root m) (page_index q)" if "q < 2 ^ 26" for q
    using U(4,5) page_index_lower [OF that] lower_plain(2) by (cases "page_index q") (simp add: map_kept_def)
  have rn1: "mapped_pages m1 (range_from rn)" using rn(2) kept by (simp add: mapped_pages_def)
  have eq: "range_sharing m1 rn RWX_R = range_sharing m rn RWX_R" using rn(2) kept unfolding range_sharing_def
    by (cases rn) (auto simp: mapped_pages_def pages_of_def intro!: sharing_cong)
  have "vm_lookup (mc_mem m1) ?r (page_index q) = None" if q: "q \<in> set (range_to rn)" for q
  proof -
    have "q < 2 ^ 26" "q \<notin> set (range_to rd)" using q um(2) to(2) by (auto simp: unmapped_pages_def)
    then show ?thesis using other_updated_page [OF m1(2), of q] range_sharing_None [OF _ um(1), of q m RWX_RW] um(2) q by (simp add: unmapped_pages_def)
  qed
  then have um1: "unmapped_pages m1 ?r (range_to rn)" using um(2) by (simp add: unmapped_pages_def)
  have "sc_machine (io_sched (s\<lparr>io_sched := (io_sched s)\<lparr>sc_machine := m1\<rparr>\<rparr>)) = m1" by simp
  from share_range_eq [OF U(1,2) this rn(1) rn1 um1, of RWX_R] free m1(3)
  obtain m' where m': "share_range rn vm RWX_R (s\<lparr>io_sched := (io_sched s)\<lparr>sc_machine := m1\<rparr>\<rparr>) = Inr ((), s\<lparr>io_sched := (io_sched s)\<lparr>sc_machine := m'\<rparr>\<rparr>)"
      "other_updated m1 ?r m' (range_sharing m rn RWX_R)" by (auto simp: eq)
  then show thesis using that [OF m1(1)] other_updated_trans [OF m1(2) m'(2)] by blast
qed

subsection \<open>What the receiver offers\<close>

text \<open>\<open>reserve_range\<close> as a function of the receiver's list of free ranges; \<open>None\<close> is a panic.\<close>

definition reserve :: "ipc \<Rightarrow> usize option \<Rightarrow> usize \<Rightarrow> free_page list \<Rightarrow> ((page \<times> page \<times> usize) option \<times> free_page list) option" where
  "reserve i ptr len l = (case ptr of None \<Rightarrow> Some (None, l)
     | Some a \<Rightarrow> (case page_new a of Inl _ \<Rightarrow> None
        | Inr page \<Rightarrow> (let cnt = min_pages_for_byte_count len; n = unat (ipc_max_free_pages i) in
            case pop_range (take n l) cnt of (None, _) \<Rightarrow> None | (Some rx, l') \<Rightarrow> Some (Some (page, rx, cnt), l' @ drop n l))))"

abbreviation set_free_pages :: "io \<Rightarrow> ipc \<Rightarrow> free_page list \<Rightarrow> io" where
  "set_free_pages s i l \<equiv> s\<lparr>io_free_pages := (io_free_pages s)(active_vms s := (io_free_pages s (active_vms s))(ipc_free_pages i := l))\<rparr>"

lemma reserve_range_pure:
  assumes "sc_user_access (io_sched s)" "reserve i ptr len (io_free_pages s (active_vms s) (ipc_free_pages i)) = Some (x, l')"
  shows "reserve_range i ptr len s = Inr (x, set_free_pages s i l')"
  using assms by (auto simp: reserve_def reserve_range_def pop_free_range_def get_free_pages_def put_free_pages_def bindK_def Let_def liftK_def
      split: option.splits sum.splits prod.splits)

text \<open>The ranges it may take from are well-formed and apart, and nothing is mapped there.\<close>

abbreviation offer :: "ipc \<Rightarrow> free_page list \<Rightarrow> free_page list" where
  "offer i l \<equiv> take (unat (ipc_max_free_pages i)) l"

definition offers_ok :: "machine \<Rightarrow> ppn \<Rightarrow> ipc \<Rightarrow> free_page list \<Rightarrow> bool" where
  "offers_ok m r i l \<longleftrightarrow> (\<forall>fp \<in> set (offer i l). free_page_ok fp) \<and> distinct (offered (offer i l)) \<and> unmapped_pages m r (offered (offer i l))"

lemma length_pop_range: "pop_range l n = (r, l') \<Longrightarrow> length l' = length l"
  by (induction l n arbitrary: r l' rule: pop_range.induct) (auto split: option.splits prod.splits)

lemma reserve_spec:
  assumes "offers_ok m r i l" "reserve i ptr len l = Some (rng, l')"
  shows "mset (offered (offer i l)) = mset (range_to rng) + mset (offered (offer i l'))" "offers_ok m r i l'"
    "ptr \<noteq> Some 0 \<Longrightarrow> range_inv rng"
proof -
  have ok: "\<forall>fp \<in> set (offer i l). free_page_ok fp" using assms(1) by (simp add: offers_ok_def)
  have "(\<forall>fp \<in> set (offer i l'). free_page_ok fp) \<and> mset (offered (offer i l)) = mset (range_to rng) + mset (offered (offer i l')) \<and> (ptr \<noteq> Some 0 \<longrightarrow> range_inv rng)"
  proof (cases ptr)
    case None
    then show ?thesis using assms(2) ok by (auto simp: reserve_def)
  next
    case (Some a)
    obtain rx l'' where p: "page_new a = Inr a" "4096 dvd unat a" "pop_range (offer i l) (min_pages_for_byte_count len) = (Some rx, l'')"
        "rng = Some (a, rx, min_pages_for_byte_count len)" "l' = l'' @ drop (unat (ipc_max_free_pages i)) l"
      using assms(2) Some by (auto simp: reserve_def Let_def page_new_Inr split: sum.splits option.splits prod.splits)
    have "offer i l' = l''" using length_pop_range [OF p(3)] p(5) by auto
    then show ?thesis using pop_range_spec [OF ok p(3)] p(2,4) Some by (auto simp: page_inv_def)
  qed
  then have O: "\<forall>fp \<in> set (offer i l'). free_page_ok fp" "mset (offered (offer i l)) = mset (range_to rng @ offered (offer i l'))" "ptr \<noteq> Some 0 \<longrightarrow> range_inv rng"
    by simp_all
  then show "mset (offered (offer i l)) = mset (range_to rng) + mset (offered (offer i l'))" "ptr \<noteq> Some 0 \<Longrightarrow> range_inv rng" by simp_all
  show "offers_ok m r i l'"
    using assms(1) O(1) mset_eq_imp_distinct_iff [OF O(2)] mset_eq_setD [OF O(2)] by (auto simp: offers_ok_def unmapped_pages_def)
qed

lemma reserve_both:
  assumes "offers_ok m r i l" "reserve i p n l = Some (rd, l1)" "reserve i p' n' l1 = Some (rn, l2)"
  shows "unmapped_pages m r (range_to rd @ range_to rn)" "distinct (range_to rd @ range_to rn)" "offers_ok m r i l2"
proof -
  note A = reserve_spec [OF assms(1,2)]
  note B = reserve_spec [OF A(2) assms(3)]
  have e: "mset (offered (offer i l)) = mset ((range_to rd @ range_to rn) @ offered (offer i l2))" using A(1) B(1) by simp
  show "unmapped_pages m r (range_to rd @ range_to rn)" "distinct (range_to rd @ range_to rn)"
    using assms(1) mset_eq_imp_distinct_iff [OF e] mset_eq_setD [OF e] by (auto simp: offers_ok_def unmapped_pages_def)
  show "offers_ok m r i l2" by (rule B(2))
qed

text \<open>
  A packet whose pages the kernel can share: \<open>rd\<close> and \<open>rn\<close> are the ranges taken for its data and its name, and \<open>l'\<close>
  what the receiver still offers. The sender has the pages mapped, and there are frames for the page tables.
\<close>

definition can_share :: "machine \<Rightarrow> sv39 \<Rightarrow> ipc \<Rightarrow> free_page list \<Rightarrow> packet \<Rightarrow> (page \<times> page \<times> usize) option \<Rightarrow> (page \<times> page \<times> usize) option \<Rightarrow> free_page list \<Rightarrow> bool" where
  "can_share m vm i l p rd rn l' \<longleftrightarrow> vms_inv m \<and> other_ok m (ucast vm) \<and> offers_ok m (ucast vm) i l \<and> pk_data p \<noteq> Some 0 \<and> pk_name p \<noteq> Some 0
     \<and> (\<exists>l1. reserve i (pk_data p) (pk_data_length p) l = Some (rd, l1) \<and> reserve i (pk_name p) (ucast (pk_name_length p)) l1 = Some (rn, l'))
     \<and> mapped_pages m (range_from rd) \<and> mapped_pages m (range_from rn) \<and> 2 * length (range_to rd @ range_to rn) \<le> length (free_pages (mc_alloc m))"

text \<open>The pages are shared and nothing else changes in the maps of the two tasks.\<close>

definition packet_shared :: "machine \<Rightarrow> ppn \<Rightarrow> machine \<Rightarrow> (page \<times> page \<times> usize) option \<Rightarrow> (page \<times> page \<times> usize) option \<Rightarrow> bool" where
  "packet_shared m r m' rd rn \<longleftrightarrow> pages_shared m r m' rd RWX_RW \<and> pages_shared m r m' rn RWX_R \<and> map_kept m m'
     \<and> (\<forall>i j k. unat i < 256 \<longrightarrow> (i, j, k) \<notin> page_index ` set (range_to rd @ range_to rn)
          \<longrightarrow> vm_lookup (mc_mem m') r (i, j, k) = vm_lookup (mc_mem m) r (i, j, k))"

lemma share_packet:
  assumes "can_share m vm i l p rd rn l'" "sc_machine (io_sched s) = m"
  obtains m1 m' where "share_range rd vm RWX_RW s = Inr ((), s\<lparr>io_sched := (io_sched s)\<lparr>sc_machine := m1\<rparr>\<rparr>)"
    "share_range rn vm RWX_R (s\<lparr>io_sched := (io_sched s)\<lparr>sc_machine := m1\<rparr>\<rparr>) = Inr ((), s\<lparr>io_sched := (io_sched s)\<lparr>sc_machine := m'\<rparr>\<rparr>)"
    "mc_satp m' = mc_satp m" "packet_shared m (ucast vm) m' rd rn"
proof -
  have C: "vms_inv m" "other_ok m (ucast vm)" "offers_ok m (ucast vm) i l" "pk_data p \<noteq> Some 0" "pk_name p \<noteq> Some 0"
      "mapped_pages m (range_from rd)" "mapped_pages m (range_from rn)" "2 * length (range_to rd @ range_to rn) \<le> length (free_pages (mc_alloc m))"
    using assms(1) by (simp_all add: can_share_def)
  obtain l1 where R: "reserve i (pk_data p) (pk_data_length p) l = Some (rd, l1)" "reserve i (pk_name p) (ucast (pk_name_length p)) l1 = Some (rn, l')"
    using assms(1) by (auto simp: can_share_def)
  note B = reserve_both [OF C(3) R] and S = reserve_spec [OF C(3) R(1)]
  have inv: "range_inv rd" "range_inv rn" using S(3) [OF C(4)] reserve_spec(3) [OF S(2) R(2) C(5)] .
  have um: "unmapped_pages m (ucast vm) (range_to rd)" "unmapped_pages m (ucast vm) (range_to rn)" "set (range_to rd) \<inter> set (range_to rn) = {}"
    using B(1,2) by (auto simp: unmapped_pages_def)
  obtain m1 m' where m': "share_range rd vm RWX_RW s = Inr ((), s\<lparr>io_sched := (io_sched s)\<lparr>sc_machine := m1\<rparr>\<rparr>)"
    "share_range rn vm RWX_R (s\<lparr>io_sched := (io_sched s)\<lparr>sc_machine := m1\<rparr>\<rparr>) = Inr ((), s\<lparr>io_sched := (io_sched s)\<lparr>sc_machine := m'\<rparr>\<rparr>)"
    "other_updated m (ucast vm) m' (range_sharing m rd RWX_RW ++ range_sharing m rn RWX_R)"
    using share_both [OF C(1,2) assms(2) inv(1) C(6) inv(2) C(7) B(1,2) C(8)] by blast
  have "packet_shared m (ucast vm) m' rd rn" unfolding packet_shared_def
    using both_shared [OF m'(3) C(6,7) um] other_updatedD(5) [OF m'(3)] by blast
  then show thesis using that m'(1,2) other_updatedD(3) [OF m'(3)] by blast
qed

subsection \<open>Example\<close>

text \<open>A sender with one page, and frame 40 as the empty root table of the receiver, which offers two pages.\<close>

definition machine_sent_ex :: machine where
  "machine_sent_ex = (case vms_add 0x10000 (Map_Private 20) RWX_RW UserLocal machine_ex of Inr (_, m) \<Rightarrow> m | Inl _ \<Rightarrow> machine_ex)"

definition receiver_vms_ex :: sv39 where
  "receiver_vms_ex = push_bit 63 1 OR 40"

definition packet_sent_ex :: packet where
  "packet_sent_ex = \<lparr>pk_uuid = (7, 0), pk_data = Some 0x10000, pk_name = Some 0x10000, pk_data_offset = 5, pk_data_length = 100, pk_address = 3,
     pk_flags = 0, pk_name_length = 5, pk_id = 9, pk_opcode = Some 1\<rparr>"

definition offer_ex :: "free_page list" where
  "offer_ex = [\<lparr>fp_address = Some 0x40000, fp_count = 2\<rparr>]"

lemma machine_sent_ex_facts:
  "vms_inv machine_sent_ex" "mc_satp machine_sent_ex = mc_satp machine_ex" "mc_root machine_sent_ex = 1"
  "vm_lookup (mc_mem machine_sent_ex) 1 (va_index 0x10000) = Some (0, mapped_leaf (Map_Private 20) RWX_RW UserLocal)"
  "4 \<le> length (free_pages (mc_alloc machine_sent_ex))" "40 \<notin> set (free_pages (mc_alloc machine_sent_ex))"
  "40 \<notin> tables (mc_mem machine_sent_ex) 1" "mc_mem machine_sent_ex 40 i = 0"
proof -
  have L: "vm_lookup (mc_mem machine_ex) (mc_root machine_ex) (va_index 0x10000) = None" using lookup_ex [OF plain_ex(1)] by (simp add: va_index_def root_ex)
  obtain m where m: "vms_add 0x10000 (Map_Private 20) RWX_RW UserLocal machine_ex = Inr (Inr (), m)" "vms_inv m" "only_tables machine_ex m"
      "map_updated machine_ex m (va_index 0x10000) (Some (0, mapped_leaf (Map_Private 20) RWX_RW UserLocal))" "6 \<le> length (free_pages (mc_alloc m)) + 2"
    by (cases rule: vms_add_cases [OF vms_inv_ex plain_ex(1), of "Map_Private 20" RWX_RW UserLocal]) (use L in \<open>auto simp: free_ex\<close>)
  have e: "machine_sent_ex = m" by (simp add: machine_sent_ex_def m(1))
  have t: "mc_satp m = mc_satp machine_ex" "set (free_pages (mc_alloc m)) \<subseteq> {4, 5, 6, 7, 8, 9}" "tables (mc_mem m) 1 \<subseteq> {1, 2, 3, 4, 5, 6, 7, 8, 9}"
    using m(3) by (auto simp: only_tables_def root_ex free_ex tables_ex)
  show "vms_inv machine_sent_ex" "mc_satp machine_sent_ex = mc_satp machine_ex" using m(2) t(1) by (simp_all add: e)
  then show "mc_root machine_sent_ex = 1" using root_ex(1) by (simp add: mc_root_def)
  show "vm_lookup (mc_mem machine_sent_ex) 1 (va_index 0x10000) = Some (0, mapped_leaf (Map_Private 20) RWX_RW UserLocal)"
    using m(4) plain_ex(1) by (simp add: e map_updated_def root_ex va_index_def plain_index_def)
  show "4 \<le> length (free_pages (mc_alloc machine_sent_ex))" using m(5) by (simp add: e)
  have n: "(40 :: ppn) \<notin> {1, 2, 3, 4, 5, 6, 7, 8, 9}" by simp
  then show "40 \<notin> set (free_pages (mc_alloc machine_sent_ex))" "40 \<notin> tables (mc_mem machine_sent_ex) 1" using t(2,3) unfolding e by blast+
  then show "mc_mem machine_sent_ex 40 i = 0" using m(3) by (simp add: e only_tables_def root_ex mem_ex_apply)
qed

lemma receiver_ex: "other_ok machine_sent_ex 40" "vm_lookup (mc_mem machine_sent_ex) 40 x = None"
proof -
  have z: "lower (mc_mem machine_sent_ex) 40 40 i = 0" for i by (simp add: lower_def machine_sent_ex_facts(8))
  have t: "tab (lower (mc_mem machine_sent_ex) 40) 40 i = None" for i by (rule tab_zero) (rule z)
  then have "tab0 (lower (mc_mem machine_sent_ex) 40) 40 i j = None" for i j by (simp add: tab0_def)
  with t show "other_ok machine_sent_ex 40" using machine_sent_ex_facts(3,6,7) by (auto simp: other_ok_def tree_def tables_def)
  show "vm_lookup (mc_mem machine_sent_ex) 40 x = None" by (cases x) (simp add: vm_lookup_def machine_sent_ex_facts(8) entry_is_valid_bit)
qed

lemma can_share_ex:
  "can_share machine_sent_ex receiver_vms_ex ipc_ex offer_ex packet_sent_ex (Some (0x10000, 0x41000, 1)) (Some (0x10000, 0x40000, 1))
     [\<lparr>fp_address = Some 0x40000, fp_count = 0\<rparr>]"
proof -
  have r: "(ucast receiver_vms_ex :: ppn) = 40" by (simp add: receiver_vms_ex_def)
  have p: "page_index 16 = va_index 0x10000" by (simp add: page_index_def)
  have n: "min_pages_for_byte_count 100 = 1" "min_pages_for_byte_count 5 = 1" by (simp_all add: min_pages_for_byte_count_def page_consts)
  have "offers_ok machine_sent_ex 40 ipc_ex offer_ex"
    by (simp add: offers_ok_def offer_ex_def ipc_ex_def free_page_ok_def page_inv_def offered_def pages_of_def unmapped_pages_def receiver_ex upt_rec)
  moreover have "reserve ipc_ex (Some 0x10000) 100 offer_ex = Some (Some (0x10000, 0x41000, 1), [\<lparr>fp_address = Some 0x40000, fp_count = 1\<rparr>])"
    "reserve ipc_ex (Some 0x10000) 5 [\<lparr>fp_address = Some 0x40000, fp_count = 1\<rparr>] = Some (Some (0x10000, 0x40000, 1), [\<lparr>fp_address = Some 0x40000, fp_count = 0\<rparr>])"
    by (simp_all add: reserve_def ipc_ex_def offer_ex_def n page_new_def page_skip_def page_consts checked_sub_def Let_def)
  moreover have "mapped_pages machine_sent_ex (pages_of 0x10000 1)"
    using machine_sent_ex_facts(3,4) by (simp add: mapped_pages_def pages_of_def p)
  ultimately show ?thesis using machine_sent_ex_facts(1,5) receiver_ex(1)
    by (simp add: can_share_def r packet_sent_ex_def) (simp add: pages_of_def)
qed

end
