(* ===== verification/Dux_Ipc_Props.thy ===== *)
theory Dux_Ipc_Props
  imports Dux_Ipc Syscall_Props Ipc_Share
begin

text \<open>
  The two sides of the communication put together: the library of a task and the kernel treat the
  free stack in the same way, and a packet that a task transmits reaches the receiver through the
  kernel.
\<close>

subsection \<open>The free stack from both sides\<close>

lemma u_table_simps [simp]:
  "u_table (set_u_table t u) = t" "u_global (set_u_table t u) = u_global u"
  "set_u_table t (set_u_table t' u) = set_u_table t u" "set_u_table (u_table u) u = u"
  by (simp_all add: u_table_def set_u_table_def Let_def)

lemma set_table_read [simp]: "io_tables (set_table s i t) (active_vms s) (ipc_packets i) = t"
  by (simp add: set_table_def)

text \<open>The kernel and the task agree on where the table is and how many packets it has.\<close>

definition shares_table :: "ipc \<Rightarrow> user \<Rightarrow> bool" where
  "shares_table i u \<longleftrightarrow> ipc_ok i \<and> ipc_packets i = g_ipc_packets (u_global u) \<and> ipc_ring_mask i = g_ring_mask (u_global u)"

text \<open>The state in which the kernel looks at the table of the running task.\<close>

definition kernel_view :: "user \<Rightarrow> io" where
  "kernel_view u = (k_io (u_kernel u))\<lparr>io_sched := (k_sched (u_kernel u))\<lparr>sc_user_access := True\<rparr>\<rparr>"

lemma kernel_view_table:
  assumes "shares_table i u"
  shows "table (kernel_view u) i = u_table u" "sc_user_access (io_sched (kernel_view u))"
  using assms by (simp_all add: kernel_view_def u_table_def shares_table_def)

lemma ipc_len_less: "ipc_ok i \<Longrightarrow> k < ipc_len i \<longleftrightarrow> k \<le> ipc_ring_mask i"
  using ring_slot_ok [of i k] by (auto simp: ring_slot_def split: if_splits)

lemma ring_len_eq: "shares_table i u \<Longrightarrow> ring_len (u_global u) = ipc_len i"
  by (simp add: ring_len_def ipc_len_def shares_table_def)

lemma ring_index_eq: "shares_table i u \<Longrightarrow> u_global u' = u_global u \<Longrightarrow> ring_index k u' = map_sum id (\<lambda>k. (k, u')) (ring_slot i k)"
  by (simp add: ring_index_def ring_slot_def ring_len_eq)

lemma dux_pop_free_slot_kernel:
  assumes "shares_table i u"
  shows "dux_pop_free_slot u = (case pop_free_slot i (kernel_view u) of
      Inr (Inr x, s) \<Rightarrow> Inr (Inr x, set_u_table (table s i) u)
    | Inr (Inl POP_NoFreeSlots, s) \<Rightarrow> Inr (Inl NoFreeSlots, set_u_table (table s i) u)
    | Inr (Inl POP_LockTimeout, s) \<Rightarrow> Inl Endless_Loop
    | Inl p \<Rightarrow> Inl p)"
  using kernel_view_table [OF assms]
  by (simp add: dux_pop_free_slot_def pop_free_slot_def lock_top_def lock_free_stack_def spin_lock_def bindK_def table_access
      ring_index_eq [OF assms] dux_free_stack_def ring_slot_def split: option.splits)

lemma dux_push_free_slot_kernel:
  assumes "shares_table i u"
  shows "dux_push_free_slot x u = (case push_free_slot i x (kernel_view u) of
      Inr (Inr _, s) \<Rightarrow> Inr ((), set_u_table (table s i) u)
    | Inr (Inl PUSH_Full, s) \<Rightarrow> Inl Assert_Failed
    | Inr (Inl PUSH_LockTimeout, s) \<Rightarrow> Inl Endless_Loop
    | Inl p \<Rightarrow> Inl p)"
proof -
  have "k < ipc_len i \<longleftrightarrow> k \<le> ipc_ring_mask i" for k using assms ipc_len_less by (simp add: shares_table_def)
  moreover have order: "(u_table u)\<lparr>it_free_slots := f, it_free_top := k\<rparr> = (u_table u)\<lparr>it_free_top := k, it_free_slots := f\<rparr>" for f k
    by (cases "u_table u") simp
  ultimately show ?thesis using kernel_view_table [OF assms]
    by (simp add: dux_push_free_slot_def push_free_slot_def lock_top_def lock_free_stack_def spin_lock_def bindK_def table_access
        ring_index_eq [OF assms] ring_slot_def getG_def ring_len_eq [OF assms])
      (simp only: order simp_thms)
qed

text \<open>
  C33. The library of a task and the kernel implement the same stack of free slots on the table they
  share. Where the kernel pops or pushes a slot, so does the library, with the same slot and the same
  table afterwards; where the kernel finds no slot or an index out of range, so does the library.
  They differ only in what they do when there is nothing to do: on a full stack the kernel reports an
  error and the library panics, and on a locked one the kernel gives up and the library waits forever.
\<close>

theorem free_stack_sides_agree:
  assumes "shares_table i u"
  shows "dux_pop_free_slot u = (case pop_free_slot i (kernel_view u) of
      Inr (Inr x, s) \<Rightarrow> Inr (Inr x, set_u_table (table s i) u)
    | Inr (Inl POP_NoFreeSlots, s) \<Rightarrow> Inr (Inl NoFreeSlots, set_u_table (table s i) u)
    | Inr (Inl POP_LockTimeout, s) \<Rightarrow> Inl Endless_Loop
    | Inl p \<Rightarrow> Inl p)
  \<and> dux_push_free_slot x u = (case push_free_slot i x (kernel_view u) of
      Inr (Inr _, s) \<Rightarrow> Inr ((), set_u_table (table s i) u)
    | Inr (Inl PUSH_Full, s) \<Rightarrow> Inl Assert_Failed
    | Inr (Inl PUSH_LockTimeout, s) \<Rightarrow> Inl Endless_Loop
    | Inl p \<Rightarrow> Inl p)"
  using dux_pop_free_slot_kernel [OF assms] dux_push_free_slot_kernel [OF assms] by blast

subsection \<open>Delivery of a packet\<close>

lemma receiver_frame:
  assumes "receiver a s = Inr (t, s1)" "sc_groups (io_sched s') = sc_groups (io_sched s)"
  shows "receiver a s' = Inr (t, s'\<lparr>io_sched := (io_sched s')\<lparr>sc_groups := sc_groups (io_sched s1)\<rparr>\<rparr>)"
  using assms unfolding receiver_def Let_def split_beta bindP_eq_Inr unwrapO_eq_Inr unwrapR_eq_Inr by fastforce

text \<open>A stack of free slots that has a slot, and a receive ring that the task has emptied.\<close>

definition has_free_slot :: "ipc \<Rightarrow> ipc_table \<Rightarrow> bool" where
  "has_free_slot i t \<longleftrightarrow> ipc_ok i \<and> 0 < it_free_top t \<and> unat (it_free_top t) \<le> unat (ipc_ring_mask i) + 1
     \<and> it_free_slots t (it_free_top t - 1) \<le> ipc_ring_mask i"

lemma has_free_slotD:
  assumes "has_free_slot i t"
  shows "ipc_ok i" "it_free_top t \<noteq> 0" "it_free_top t \<noteq> U16_MAX" "unat (it_free_top t) \<le> unat (ipc_ring_mask i) + 1"
    "it_free_top t - 1 \<le> ipc_ring_mask i" "it_free_top t - 1 \<noteq> U16_MAX" "it_free_slots t (it_free_top t - 1) \<le> ipc_ring_mask i"
proof -
  show ok: "ipc_ok i" "it_free_top t \<noteq> 0" and le: "unat (it_free_top t) \<le> unat (ipc_ring_mask i) + 1"
    "it_free_slots t (it_free_top t - 1) \<le> ipc_ring_mask i" using assms by (auto simp: has_free_slot_def)
  have m: "unat (- 1 :: u16) = 65535" using unsigned_minus_1_eq_mask [where ?'b = 16 and ?'a = nat] by (simp add: mask_eq_exp_minus_1)
  have u: "unat (it_free_top t) = Suc (unat (it_free_top t - 1))" using unat_minus_1 [OF ok(2)] .
  show "it_free_top t - 1 \<le> ipc_ring_mask i" using u le by (simp add: word_le_nat_alt)
  show "it_free_top t \<noteq> U16_MAX" "it_free_top t - 1 \<noteq> U16_MAX" using ok(1) u le m by (auto simp: ipc_ok_def simp del: m)
qed

text \<open>The packet that arrives: the address of the sender, and the ranges of the receiver instead of the sender's.\<close>

definition arrived :: "packet \<Rightarrow> task_address \<Rightarrow> (page \<times> page \<times> usize) option \<Rightarrow> (page \<times> page \<times> usize) option \<Rightarrow> packet" where
  "arrived p addr rd rn = p\<lparr>pk_data := map_option (\<lambda>(_, rx, _). rx) rd, pk_name := map_option (\<lambda>(_, rx, _). rx) rn, pk_address := addr\<rparr>"

definition received_table :: "ipc \<Rightarrow> packet \<Rightarrow> ipc_table \<Rightarrow> ipc_table" where
  "received_table i p t = (let r = it_free_slots t (it_free_top t - 1) in
     t\<lparr>it_free_top := it_free_top t - 1, it_rx_slots := (it_rx_slots t)(it_rx_index t AND ipc_ring_mask i := r),
       it_packets := (it_packets t)(r := p), it_rx_index := it_rx_index t + 1\<rparr>)"

definition returned_table :: "ipc \<Rightarrow> u16 \<Rightarrow> ipc_table \<Rightarrow> ipc_table" where
  "returned_table i idx t = t\<lparr>it_free_top := it_free_top t + 1, it_free_slots := (it_free_slots t)(it_free_top t := idx AND ipc_ring_mask i)\<rparr>"

text \<open>The receiver's side, in its address space: a slot, the two ranges, and the packet in its ring.\<close>

lemma receiver_side:
  assumes s: "sc_user_access (io_sched s)" "active_vms s = vb" "has_free_slot i tb" "io_tables s vb (ipc_packets i) = tb"
    and R: "reserve i pd nd (io_free_pages s vb (ipc_free_pages i)) = Some (rd, l1)" "reserve i pn nn l1 = Some (rn, l')"
  defines "r \<equiv> it_free_slots tb (it_free_top tb - 1)"
  obtains s3 s4 s5 s6 where "pop_free_slot i s = Inr (Inr r, s3)" "reserve_range i pd nd s3 = Inr (rd, s4)" "reserve_range i pn nn s4 = Inr (rn, s5)"
    "get_table (ipc_packets i) s5 = Inr (tb\<lparr>it_free_top := it_free_top tb - 1\<rparr>, s5)"
    "put_table (ipc_packets i) (tb\<lparr>it_free_top := it_free_top tb - 1, it_rx_slots := (it_rx_slots tb)(it_rx_index tb AND ipc_ring_mask i := r),
       it_packets := (it_packets tb)(r := p), it_rx_index := it_rx_index tb + 1\<rparr>) s5 = Inr ((), s6)"
    "io_sched s6 = io_sched s" "\<And>vm a. io_tables s6 vm a = (if vm = vb \<and> a = ipc_packets i then received_table i p tb else io_tables s vm a)"
    "io_free_pages s6 vb (ipc_free_pages i) = l'"
proof -
  note B = has_free_slotD [OF s(3)]
  define t where "t = tb\<lparr>it_free_top := it_free_top tb - 1\<rparr>"
  define s3 where "s3 = set_table s i t"
  define s4 where "s4 = set_free_pages s3 i l1"
  define s5 where "s5 = set_free_pages s4 i l'"
  have S: "io_sched s3 = io_sched s" "io_sched s4 = io_sched s" "io_sched s5 = io_sched s"
    by (simp_all add: s3_def s4_def s5_def set_table_def)
  have "pop_free_slot i s = Inr (Inr r, s3)" using pop_free_slot_eq [of s i] s B by (simp add: r_def s3_def t_def)
  moreover have "reserve_range i pd nd s3 = Inr (rd, s4)"
    using s(1,2) R(1) unfolding s4_def by (intro reserve_range_pure) (simp_all add: S, simp add: s3_def set_table_def)
  moreover have "reserve_range i pn nn s4 = Inr (rn, s5)"
    using s(1,2) R(2) unfolding s5_def by (intro reserve_range_pure) (simp_all add: S, simp add: s4_def S)
  moreover have "table s5 i = t" using s(2) by (simp add: s5_def s4_def s3_def set_table_def)
  then have "get_table (ipc_packets i) s5 = Inr (t, s5)" using s(1) by (simp add: get_table_def S)
  moreover have "tb\<lparr>it_free_top := it_free_top tb - 1, it_rx_slots := (it_rx_slots tb)(it_rx_index tb AND ipc_ring_mask i := r),
       it_packets := (it_packets tb)(r := p), it_rx_index := it_rx_index tb + 1\<rparr> = received_table i p tb" by (simp add: received_table_def r_def Let_def)
  then have "put_table (ipc_packets i) (tb\<lparr>it_free_top := it_free_top tb - 1, it_rx_slots := (it_rx_slots tb)(it_rx_index tb AND ipc_ring_mask i := r),
       it_packets := (it_packets tb)(r := p), it_rx_index := it_rx_index tb + 1\<rparr>) s5 = Inr ((), set_table s5 i (received_table i p tb))"
    using s(1) by (simp only: put_table_def S set_table_def simp_thms if_True)
  moreover have "io_tables (set_table s5 i (received_table i p tb)) vm a = (if vm = vb \<and> a = ipc_packets i then received_table i p tb else io_tables s vm a)" for vm a
    using s(2) by (simp add: set_table_def S) (simp add: s5_def s4_def s3_def set_table_def)
  moreover have "io_free_pages (set_table s5 i (received_table i p tb)) vb (ipc_free_pages i) = l'" using s(2) by (simp add: set_table_def s5_def S)
  moreover have "io_sched (set_table s5 i (received_table i p tb)) = io_sched s" by (simp add: set_table_def S)
  ultimately show thesis using that unfolding t_def by blast
qed

lemma process_packet_delivers:
  assumes acc: "sc_user_access (io_sched s)" and vma: "td_virtual_memory (sc_tasks (io_sched s) a) = va" "active_vms s = va"
    and vb: "td_virtual_memory (sc_tasks (io_sched s) b) = vb" "vb \<noteq> va" and ib: "td_ipc (sc_tasks (io_sched s) b) = Some ib"
    and rcv: "receiver (pk_address p) s = Inr (b, s1)" "pk_address p \<noteq> addr"
    and share: "can_share (sc_machine (io_sched s)) vb ib (io_free_pages s vb (ipc_free_pages ib)) p rd rn l'"
    and ta: "io_tables s va (ipc_packets ia) = ta" "ipc_ok ia" "it_packets ta slot = p" "slot \<le> ipc_ring_mask ia"
      "tx_slots (idx AND ipc_ring_mask ia) = slot" "it_free_top ta \<le> ipc_ring_mask ia" "it_free_top ta \<noteq> U16_MAX"
    and tb: "io_tables s vb (ipc_packets ib) = tb" "has_free_slot ib tb"
  shows "\<exists>s'. process_packet ia a addr tx_slots idx s = Inr (True, s')
    \<and> sc_tasks (io_sched s') = (sc_tasks (io_sched s))(b := (sc_tasks (io_sched s) b)\<lparr>td_wait_time := 0\<rparr>)
    \<and> active_vms s' = va \<and> packet_shared (sc_machine (io_sched s)) (ucast vb) (sc_machine (io_sched s')) rd rn
    \<and> io_free_pages s' vb (ipc_free_pages ib) = l'
    \<and> io_tables s' vb (ipc_packets ib) = received_table ib (arrived p addr rd rn) tb
    \<and> io_tables s' va (ipc_packets ia) = returned_table ia idx ta"
proof -
  note B = has_free_slotD [OF tb(2)]
  have and_le: "x AND m \<le> m" for x m :: u16 by (rule word_and_le1)
  define m where "m = sc_machine (io_sched s)"
  obtain l1 where R: "reserve ib (pk_data p) (pk_data_length p) (io_free_pages s vb (ipc_free_pages ib)) = Some (rd, l1)"
      "reserve ib (pk_name p) (ucast (pk_name_length p)) l1 = Some (rn, l')" using share by (auto simp: can_share_def)
  define s1' where "s1' = s\<lparr>io_sched := (io_sched s)\<lparr>sc_groups := sc_groups (io_sched s1)\<rparr>\<rparr>"
  define s2 where "s2 = s1'\<lparr>io_sched := (io_sched s1')\<lparr>sc_machine := m\<lparr>mc_satp := vb\<rparr>\<rparr>\<rparr>"
  have S2: "sc_user_access (io_sched s2)" "active_vms s2 = vb" "io_tables s2 = io_tables s" "io_free_pages s2 = io_free_pages s"
      "sc_tasks (io_sched s2) = sc_tasks (io_sched s)" "sc_machine (io_sched s2) = m\<lparr>mc_satp := vb\<rparr>" using acc by (simp_all add: s2_def s1'_def)
  obtain s3 s4 s5 s6 where rx: "pop_free_slot ib s2 = Inr (Inr (it_free_slots tb (it_free_top tb - 1)), s3)"
      "reserve_range ib (pk_data p) (pk_data_length p) s3 = Inr (rd, s4)" "reserve_range ib (pk_name p) (ucast (pk_name_length p)) s4 = Inr (rn, s5)"
      "get_table (ipc_packets ib) s5 = Inr (tb\<lparr>it_free_top := it_free_top tb - 1\<rparr>, s5)"
      "put_table (ipc_packets ib) (tb\<lparr>it_free_top := it_free_top tb - 1, it_rx_slots := (it_rx_slots tb)(it_rx_index tb AND ipc_ring_mask ib := it_free_slots tb (it_free_top tb - 1)),
         it_packets := (it_packets tb)(it_free_slots tb (it_free_top tb - 1) := arrived p addr rd rn), it_rx_index := it_rx_index tb + 1\<rparr>) s5 = Inr ((), s6)"
      "io_sched s6 = io_sched s2" "\<And>vm a. io_tables s6 vm a = (if vm = vb \<and> a = ipc_packets ib then received_table ib (arrived p addr rd rn) tb else io_tables s vm a)"
      "io_free_pages s6 vb (ipc_free_pages ib) = l'"
    using receiver_side [of s2 vb ib tb _ _ rd l1 _ _ rn l' "arrived p addr rd rn", unfolded S2(3,4), OF S2(1,2) tb(2,1) R] by blast
  define s7 where "s7 = s6\<lparr>io_sched := (io_sched s6)\<lparr>sc_tasks := (sc_tasks (io_sched s))(b := (sc_tasks (io_sched s) b)\<lparr>td_wait_time := 0\<rparr>)\<rparr>\<rparr>"
  define s8 where "s8 = s7\<lparr>io_sched := (io_sched s7)\<lparr>sc_machine := m\<rparr>\<rparr>"
  have rc: "receiver (pk_address p) s = Inr (b, s1')" using receiver_frame [OF rcv(1) refl] by (simp add: s1'_def)
  have ga: "get_table (ipc_packets ia) s = Inr (ta, s)" using acc vma(2) ta(1) by (simp add: get_table_def)
  have gs: "sc_tasks (io_sched s1') = sc_tasks (io_sched s)" "onS (onM (vms_activate vb)) s1' = Inr ((), s2)"
    by (simp_all add: s1'_def s2_def onS_def onM_def vms_activate_def m_def)
  have md: "modS (upd_task b (\<lambda>d. d\<lparr>td_wait_time := 0\<rparr>)) s6 = Inr ((), s7)" "onS (onM (vms_activate va)) s7 = Inr ((), s8)"
    using vma(2) by (simp_all add: modS_def upd_task_def s7_def s8_def rx(6) S2 onS_def onM_def vms_activate_def m_def)
  have "sc_machine (io_sched s8) = sc_machine (io_sched s)" by (simp add: s8_def m_def)
  from share_packet [OF share this] obtain m1 m' where sh: "share_range rd vb RWX_RW s8 = Inr ((), s8\<lparr>io_sched := (io_sched s8)\<lparr>sc_machine := m1\<rparr>\<rparr>)"
      "share_range rn vb RWX_R (s8\<lparr>io_sched := (io_sched s8)\<lparr>sc_machine := m1\<rparr>\<rparr>) = Inr ((), s8\<lparr>io_sched := (io_sched s8)\<lparr>sc_machine := m'\<rparr>\<rparr>)"
      "mc_satp m' = va" "packet_shared (sc_machine (io_sched s)) (ucast vb) m' rd rn" unfolding vma(2) by blast
  define s9 where "s9 = s8\<lparr>io_sched := (io_sched s8)\<lparr>sc_machine := m'\<rparr>\<rparr>"
  have S9: "active_vms s9 = va" "sc_user_access (io_sched s9)" "table s9 ia = ta" "io_tables s9 = io_tables s6" "io_free_pages s9 = io_free_pages s6"
    using vb(2) ta(1) S2 sh(3) by (simp_all add: s9_def s8_def s7_def rx(6,7))
  let ?s = "set_table s9 ia (returned_table ia idx ta)"
  have push: "push_free_slot ia (idx AND ipc_ring_mask ia) s9 = Inr (Inr (), ?s)"
    using push_free_slot_eq [of s9 ia] S9 ta(2,6,7) by (simp add: returned_table_def)
  have "process_packet ia a addr tx_slots idx s = Inr (True, ?s)"
    using vma(1) vb(1) ib rcv(2) ta(2-5) B(1,7)
    by (simp add: process_packet_def Let_def bindK_def ring_slot_ok and_le packet_slot_def ga rc getS_def gs rx(1-4) rx(5) [unfolded arrived_def] md sh
        push [unfolded s9_def] s9_def unwrapK_def)
  moreover have "io_tables ?s vb (ipc_packets ib) = received_table ib (arrived p addr rd rn) tb" "io_free_pages ?s vb (ipc_free_pages ib) = l'"
    "io_tables ?s va (ipc_packets ia) = returned_table ia idx ta" using vb(2) S9 rx(7,8) by (simp_all add: set_table_def)
  moreover have "io_sched ?s = io_sched s9" by (simp add: set_table_def)
  ultimately show ?thesis using sh(4) S9(1) by (intro exI [of _ ?s]) (simp add: s9_def s8_def s7_def)
qed

text \<open>What a task does to send a packet: take a slot, fill it, let go of the lock.\<close>

definition send :: "packet \<Rightarrow> unit duxK" where
  "send p = bindK (unwrapK try_transmit) (\<lambda>slot. bindK (transmit_write slot p) (\<lambda>_. transmit_drop slot))"

definition queued :: "ipc \<Rightarrow> packet \<Rightarrow> ipc_table \<Rightarrow> ipc_table" where
  "queued i p t = (let slot = it_free_slots t (it_free_top t - 1) in
     t\<lparr>it_free_top := it_free_top t - 1, it_packets := (it_packets t)(slot := p),
       it_tx_slots := (it_tx_slots t)(it_tx_index t AND ipc_ring_mask i := slot), it_tx_index := it_tx_index t + 1\<rparr>)"

lemma modG_table [simp]:
  "g_ipc_packets g = g_ipc_packets (u_global u) \<Longrightarrow> u_table (u\<lparr>u_global := g\<rparr>) = u_table u"
  "g_ipc_packets g = g_ipc_packets (u_global u) \<Longrightarrow> set_u_table t (u\<lparr>u_global := g\<rparr>) = (set_u_table t u)\<lparr>u_global := g\<rparr>"
  by (simp_all add: u_table_def set_u_table_def Let_def)

lemma send_eq:
  assumes sh: "shares_table i u" and free: "has_free_slot i (u_table u)" and lock: "\<not> g_transmit_lock (u_global u)"
  shows "send p u = Inr ((), set_u_table (queued i p (u_table u)) u)"
proof -
  note F = has_free_slotD [OF free]
  let ?t = "u_table u" and ?l = "u\<lparr>u_global := (u_global u)\<lparr>g_transmit_lock := True\<rparr>\<rparr>"
  have sh': "shares_table i ?l" using sh by (simp add: shares_table_def)
  have mask: "g_ring_mask (u_global u) = ipc_ring_mask i" using sh by (simp add: shares_table_def)
  have pop: "dux_pop_free_slot ?l = Inr (Inr (it_free_slots ?t (it_free_top ?t - 1)), set_u_table (?t\<lparr>it_free_top := it_free_top ?t - 1\<rparr>) ?l)"
    using dux_pop_free_slot_kernel [OF sh'] pop_free_slot_eq [of "kernel_view ?l" i] kernel_view_table [OF sh'] F by simp
  have g: "(u_global u)\<lparr>g_transmit_lock := False\<rparr> = u_global u" using lock by (cases "u_global u") simp
  have and_le: "x AND m \<le> m" for x m :: u16 by (rule word_and_le1)
  have len: "k < ring_len ((u_global u)\<lparr>g_transmit_lock := b\<rparr>) \<longleftrightarrow> k \<le> ipc_ring_mask i" for k b using ring_len_eq [OF sh] ipc_len_less [OF F(1)] by (simp add: ring_len_def)
  show ?thesis
    using lock pop F(7) g by (simp add: send_def queued_def Let_def try_transmit_def unwrapK_def bindK_def take_transmit_lock_def modG_def transmit_write_def
        dux_packet_def mask transmit_drop_def dux_transmit_ring_def getG_def ring_index_def and_le len)
qed

lemma process_io_one:
  assumes ia: "td_ipc (sc_tasks (io_sched s) a) = Some ia" "ipc_last_transmit_index ia + 1 = it_tx_index ta"
    and vma: "td_virtual_memory (sc_tasks (io_sched s) a) = va" "active_vms s = va"
    and vb: "td_virtual_memory (sc_tasks (io_sched s) b) = vb" "vb \<noteq> va" and ib: "td_ipc (sc_tasks (io_sched s) b) = Some ib"
    and rcv: "receiver (pk_address p) s = Inr (b, s1)" "pk_address p \<noteq> addr"
    and share: "can_share (sc_machine (io_sched s)) vb ib (io_free_pages s vb (ipc_free_pages ib)) p rd rn l'"
    and ta: "io_tables s va (ipc_packets ia) = ta" "ipc_ok ia" "it_packets ta slot = p" "slot \<le> ipc_ring_mask ia"
      "it_tx_slots ta (ipc_last_transmit_index ia AND ipc_ring_mask ia) = slot" "it_free_top ta \<le> ipc_ring_mask ia" "it_free_top ta \<noteq> U16_MAX"
    and tb: "io_tables s vb (ipc_packets ib) = tb" "has_free_slot ib tb"
  shows "\<exists>s'. process_io a addr s = Inr ((), s') \<and> packet_shared (sc_machine (io_sched s)) (ucast vb) (sc_machine (io_sched s')) rd rn
    \<and> io_free_pages s' vb (ipc_free_pages ib) = l'
    \<and> io_tables s' vb (ipc_packets ib) = received_table ib (arrived p addr rd rn) tb
    \<and> io_tables s' va (ipc_packets ia) = returned_table ia (ipc_last_transmit_index ia) ta"
proof -
  let ?s = "s\<lparr>io_sched := (io_sched s)\<lparr>sc_machine := (sc_machine (io_sched s))\<lparr>mc_satp := va\<rparr>, sc_user_access := True\<rparr>\<rparr>"
  have rc: "\<exists>s1. receiver (pk_address p) ?s = Inr (b, s1)" using receiver_frame [OF rcv(1), of ?s] by auto
  then obtain s1' where rc: "receiver (pk_address p) ?s = Inr (b, s1')" ..
  have m: "(sc_machine (io_sched s))\<lparr>mc_satp := va\<rparr> = sc_machine (io_sched s)" using vma(2) by simp
  have one: "unat (it_tx_index ta - ipc_last_transmit_index ia) = Suc 0" using ia(2) by (metis add_diff_cancel_left' unat_1 One_nat_def)
  obtain s2 where "process_packet ia a addr (it_tx_slots ta) (ipc_last_transmit_index ia) ?s = Inr (True, s2)"
      "packet_shared (sc_machine (io_sched s)) (ucast vb) (sc_machine (io_sched s2)) rd rn" "io_free_pages s2 vb (ipc_free_pages ib) = l'"
      "io_tables s2 vb (ipc_packets ib) = received_table ib (arrived p addr rd rn) tb"
      "io_tables s2 va (ipc_packets ia) = returned_table ia (ipc_last_transmit_index ia) ta"
    using process_packet_delivers [of ?s a va b vb ib p s1' addr rd rn l' ia ta slot "it_tx_slots ta" "ipc_last_transmit_index ia" tb] vma vb ib rc rcv share ta tb
    by (auto simp: m)
  then show ?thesis using ia(1) vma ta(1) one
    by (simp add: process_io_def process_packets_def Let_def bindK_def getS_def onS_def onM_def vms_activate_def modS_def set_supervisor_userpage_access_def
        transmit_ring_def get_table_def upd_task_def)
qed

text \<open>A task as it is resumed: its own page and its own page tables.\<close>

definition resumed :: "sv39 \<Rightarrow> global \<Rightarrow> kernel \<Rightarrow> io \<Rightarrow> user" where
  "resumed vm g k s = \<lparr>u_global = g, u_kernel = k\<lparr>k_io := s\<lparr>io_sched := (io_sched s)\<lparr>sc_machine := (sc_machine (io_sched s))\<lparr>mc_satp := vm\<rparr>\<rparr>\<rparr>\<rparr>\<rparr>"

lemma try_receive_one:
  assumes "ipc_ok i" "ipc_ring_mask i = g_ring_mask (u_global u)" "\<not> g_received_lock (u_global u)"
    "it_rx_index (u_table u) = g_last_received_index (u_global u) + 1"
    "it_rx_slots (u_table u) (g_last_received_index (u_global u) AND ipc_ring_mask i) = r" "r \<le> ipc_ring_mask i"
  shows "\<exists>u'. try_receive u = Inr (Some r, u') \<and> received_read r u' = Inr (it_packets (u_table u) r, u')"
proof -
  have len: "k < ring_len ((u_global u)\<lparr>g_received_lock := b\<rparr>) \<longleftrightarrow> k \<le> ipc_ring_mask i" for k b
    using ipc_len_less [OF assms(1)] assms(2) by (simp add: ring_len_def ipc_len_def)
  have and_le: "x AND m \<le> m" for x m :: u16 by (rule word_and_le1)
  show ?thesis using assms(2-6) and_le len
    by (simp add: try_receive_def bindK_def take_received_lock_def modG_def dux_received_ring_def getG_def ring_index_def received_read_def dux_packet_def)
qed

text \<open>
  A task that can send: it runs, the kernel knows its queues and has processed all of them, and there
  is a free slot. A task that can receive: it has queues of its own, a free slot, and no packet that
  it has not looked at.
\<close>

definition sender_ready :: "usize \<Rightarrow> ipc \<Rightarrow> user \<Rightarrow> bool" where
  "sender_ready a i u \<longleftrightarrow> (let td = sc_tasks (k_sched (u_kernel u)) a in
     td_ipc td = Some i \<and> td_virtual_memory td = active_vms (k_io (u_kernel u)) \<and> shares_table i u
     \<and> has_free_slot i (u_table u) \<and> \<not> g_transmit_lock (u_global u) \<and> ipc_last_transmit_index i = it_tx_index (u_table u))"

definition receiver_ready :: "usize \<Rightarrow> ipc \<Rightarrow> global \<Rightarrow> user \<Rightarrow> bool" where
  "receiver_ready b i g u \<longleftrightarrow> (let td = sc_tasks (k_sched (u_kernel u)) b; t = io_tables (k_io (u_kernel u)) (td_virtual_memory td) (ipc_packets i) in
     td_ipc td = Some i \<and> td_virtual_memory td \<noteq> active_vms (k_io (u_kernel u))
     \<and> ipc_packets i = g_ipc_packets g \<and> ipc_ring_mask i = g_ring_mask g
     \<and> has_free_slot i t \<and> \<not> g_received_lock g \<and> g_last_received_index g = it_rx_index t)"

lemma queued_facts:
  assumes "has_free_slot i t"
  defines "slot \<equiv> it_free_slots t (it_free_top t - 1)"
  shows "it_tx_index (queued i p t) = it_tx_index t + 1" "it_packets (queued i p t) slot = p" "slot \<le> ipc_ring_mask i"
    "it_tx_slots (queued i p t) (it_tx_index t AND ipc_ring_mask i) = slot" "it_free_top (queued i p t) \<le> ipc_ring_mask i"
    "it_free_top (queued i p t) \<noteq> U16_MAX" "free_stack (queued i p t) = butlast (free_stack t)"
proof -
  note F = has_free_slotD [OF assms(1)]
  show "it_tx_index (queued i p t) = it_tx_index t + 1" "it_packets (queued i p t) slot = p" "slot \<le> ipc_ring_mask i"
    "it_tx_slots (queued i p t) (it_tx_index t AND ipc_ring_mask i) = slot" "it_free_top (queued i p t) \<le> ipc_ring_mask i"
    "it_free_top (queued i p t) \<noteq> U16_MAX" using F by (simp_all add: queued_def slot_def Let_def)
  have "free_stack (queued i p t) = free_stack (t\<lparr>it_free_top := it_free_top t - 1\<rparr>)" by (simp add: queued_def free_stack_def Let_def)
  then show "free_stack (queued i p t) = butlast (free_stack t)" using free_stack_pop [OF F(2)] by simp
qed

text \<open>
  C34. A packet that one task sends reaches the other: after the sender has filled a slot and queued it,
  and the kernel has processed the sender's queue, the receiver gets a packet with the same contents
  and the address of the sender. If the packet has data or a name, the kernel takes ranges of
  addresses that the receiver offers, puts their addresses in the packet and shares the pages: page after page,
  the receiver has the sender's frame mapped, to read and write for the data and to read for the name. The receiver
  no longer offers these addresses. Nothing else changes in the lower half of the receiver's address space, and nothing in the
  sender's apart from the kernel's windows. The slot that the kernel gives back to the sender is not the one
  the packet was in but the position in the ring it was queued at.
\<close>

theorem packet_delivered:
  fixes u :: user and b :: usize
  defines "vb \<equiv> td_virtual_memory (sc_tasks (k_sched (u_kernel u)) b)" and "m \<equiv> sc_machine (k_sched (u_kernel u))"
  assumes "sender_ready a ia u" "receiver_ready b ib gb u"
    and "receiver (pk_address p) (k_io (u_kernel u)) = Inr (b, s1)" "pk_address p \<noteq> addr"
    and "can_share m vb ib (io_free_pages (k_io (u_kernel u)) vb (ipc_free_pages ib)) p rd rn l'"
  shows "\<exists>u1 s2. send p u = Inr ((), u1) \<and> process_io a addr (k_io (u_kernel u1)) = Inr ((), s2)
    \<and> (\<exists>slot ub. try_receive (resumed vb gb (u_kernel u1) s2) = Inr (Some slot, ub)
         \<and> received_read slot ub = Inr (p\<lparr>pk_data := map_option (\<lambda>(_, rx, _). rx) rd, pk_name := map_option (\<lambda>(_, rx, _). rx) rn, pk_address := addr\<rparr>, ub))
    \<and> packet_shared m (ucast vb) (sc_machine (io_sched s2)) rd rn \<and> io_free_pages s2 vb (ipc_free_pages ib) = l'
    \<and> free_stack (io_tables s2 (mc_satp m) (ipc_packets ia))
        = butlast (free_stack (u_table u)) @ [it_tx_index (u_table u) AND ipc_ring_mask ia]"
proof -
  define va where "va = active_vms (k_io (u_kernel u))"
  define tb where "tb = io_tables (k_io (u_kernel u)) vb (ipc_packets ib)"
  let ?t = "u_table u" and ?q = "queued ia p (u_table u)" and ?u1 = "set_u_table (queued ia p (u_table u)) u"
  let ?s = "k_io (u_kernel ?u1)" and ?r = "it_free_slots tb (it_free_top tb - 1)"
  have A: "td_ipc (sc_tasks (k_sched (u_kernel u)) a) = Some ia" "td_virtual_memory (sc_tasks (k_sched (u_kernel u)) a) = va"
      "shares_table ia u" "has_free_slot ia ?t" "\<not> g_transmit_lock (u_global u)" "ipc_last_transmit_index ia = it_tx_index ?t"
    using assms(3) by (auto simp: sender_ready_def va_def Let_def)
  have B: "td_ipc (sc_tasks (k_sched (u_kernel u)) b) = Some ib" "vb \<noteq> va" "ipc_packets ib = g_ipc_packets gb" "ipc_ring_mask ib = g_ring_mask gb"
      "has_free_slot ib tb" "\<not> g_received_lock gb" "g_last_received_index gb = it_rx_index tb"
    using assms(4) by (auto simp: receiver_ready_def va_def vb_def tb_def Let_def)
  have s: "io_sched ?s = k_sched (u_kernel u)" "io_tables ?s va (ipc_packets ia) = ?q" "io_tables ?s vb (ipc_packets ib) = tb"
      "io_free_pages ?s = io_free_pages (k_io (u_kernel u))"
    using A(3) B(2) by (simp_all add: set_u_table_def shares_table_def va_def tb_def Let_def)
  have sh: "can_share (sc_machine (io_sched ?s)) vb ib (io_free_pages ?s vb (ipc_free_pages ib)) p rd rn l'" using assms(7) by (simp add: s(1,4) m_def)
  define sl where "sl = it_free_slots ?t (it_free_top ?t - 1)"
  have Q: "it_tx_index ?q = it_tx_index ?t + 1" "it_packets ?q sl = p" "sl \<le> ipc_ring_mask ia"
      "it_tx_slots ?q (it_tx_index ?t AND ipc_ring_mask ia) = sl" "it_free_top ?q \<le> ipc_ring_mask ia"
      "it_free_top ?q \<noteq> U16_MAX" "free_stack ?q = butlast (free_stack ?t)"
    unfolding sl_def by (rule queued_facts [OF A(4)])+
  obtain s1' where "receiver (pk_address p) ?s = Inr (b, s1')" using receiver_frame [OF assms(5), of ?s] s(1) by auto
  from process_io_one [of ?s a ia ?q va b vb ib p s1' addr rd rn l' sl tb, OF _ _ _ _ _ B(2) _ this assms(6) sh s(2) _ Q(2,3) _ Q(5,6) s(3) B(5)]
  obtain s2 where p: "process_io a addr ?s = Inr ((), s2)" "packet_shared m (ucast vb) (sc_machine (io_sched s2)) rd rn" "io_free_pages s2 vb (ipc_free_pages ib) = l'"
      and tb2: "io_tables s2 vb (ipc_packets ib) = received_table ib (arrived p addr rd rn) tb"
      and ta2: "io_tables s2 va (ipc_packets ia) = returned_table ia (it_tx_index ?t) ?q"
    using A B(1) s(1) Q(1,4) has_free_slotD(1) [OF A(4)] by (auto simp: va_def vb_def m_def)
  let ?ub = "resumed vb gb (u_kernel ?u1) s2"
  have "u_table ?ub = io_tables s2 vb (ipc_packets ib)" using B(3) by (simp add: resumed_def u_table_def)
  note tb2 = this [unfolded tb2]
  have ub: "u_global ?ub = gb" by (simp add: resumed_def)
  have "\<exists>ub. try_receive ?ub = Inr (Some ?r, ub) \<and> received_read ?r ub = Inr (it_packets (u_table ?ub) ?r, ub)"
    using B has_free_slotD [OF B(5)] by (intro try_receive_one [of ib]) (simp_all add: ub tb2 received_table_def Let_def)
  then have "\<exists>ub. try_receive ?ub = Inr (Some ?r, ub) \<and> received_read ?r ub = Inr (arrived p addr rd rn, ub)" by (simp add: tb2 received_table_def Let_def)
  moreover have "free_stack (io_tables s2 va (ipc_packets ia)) = butlast (free_stack ?t) @ [it_tx_index ?t AND ipc_ring_mask ia]"
    unfolding ta2 returned_table_def using free_stack_push [of ?q] Q(5,7) has_free_slotD(1) [OF A(4)] by (simp add: ipc_ok_def word_le_nat_alt)
  ultimately show ?thesis using send_eq [OF A(3,4,5)] p unfolding arrived_def va_def m_def by blast
qed

subsection \<open>Initialisation\<close>

text \<open>Whatever the page held before, \<open>init\<close> makes the list of reservations well-formed.\<close>

lemma init_reserved_ok:
  assumes "length (g_reserved_entries g) = RESERVED_ENTRIES"
  shows "reserved_ok (init_reserved g)"
proof -
  have "\<exists>a b c es. g_reserved_entries g = a # b # c # es \<and> length es = 249"
    using assms by (cases "g_reserved_entries g"; cases "tl (g_reserved_entries g)"; cases "tl (tl (g_reserved_entries g))") (auto simp: RESERVED_ENTRIES_def)
  then obtain a b c es where g: "g_reserved_entries g = a # b # c # es" "length es = 249" by blast
  have p: "GLOBAL_PTR = 0xffff000" "GLOBAL_PTR + (PAGE_SIZE - 1) = 0xfffffff" by (simp_all add: GLOBAL_PTR_def page_consts)
  have r: "reservations (init_reserved g) = [\<lparr>mm_start = Some 0x10000, mm_end = 0x1ffffff\<rparr>, \<lparr>mm_start = Some 0xffff000, mm_end = 0xfffffff\<rparr>,
     \<lparr>mm_start = Some 0xfff00000, mm_end = 0xfffeffff\<rparr>]"
    by (simp add: reservations_def init_reserved_def g(1) p numeral_steps page_consts)
  show ?thesis unfolding reserved_ok_def r
    by (simp add: init_reserved_def g RESERVED_ENTRIES_def map_ok_def page_inv_def mm_first_def word_le_nat_alt)
qed

text \<open>
  Pushing the slots 0 to 3 onto a stack that is not empty, because the page was not zeroed, panics or
  never ends; \<open>init\<close> gets past it only with exactly these slots on the stack.
\<close>

lemma dux_push_free_slot_Inr:
  assumes "shares_table i u" "dux_push_free_slot x u = Inr ((), u')"
  shows "shares_table i u'" "free_stack (u_table u') = free_stack (u_table u) @ [x]" "unat (it_free_top (u_table u')) \<le> unat (ipc_ring_mask i) + 1"
proof -
  note V = kernel_view_table [OF assms(1)]
  have ok: "ipc_ok i" using assms(1) by (simp add: shares_table_def)
  have top: "it_free_top (u_table u) \<noteq> U16_MAX"
    using assms(2) by (auto simp: dux_push_free_slot_def lock_top_def spin_lock_Inr)
  have eq: "it_free_top (u_table u) \<le> ipc_ring_mask i" "u' = set_u_table ((u_table u)\<lparr>it_free_top := it_free_top (u_table u) + 1,
            it_free_slots := (it_free_slots (u_table u))(it_free_top (u_table u) := x)\<rparr>) u"
    using assms(2) dux_push_free_slot_kernel [OF assms(1), of x] push_free_slot_eq [OF V(2) ok, of x] top V(1) by (auto split: if_splits)
  then have "unat (it_free_top (u_table u)) < 65535" "unat (it_free_top (u_table u) + 1) = unat (it_free_top (u_table u)) + 1"
    using ok unat_add_no_overflow [of "it_free_top (u_table u)" 1] by (auto simp: ipc_ok_def word_le_nat_alt)
  then show "free_stack (u_table u') = free_stack (u_table u) @ [x]" "unat (it_free_top (u_table u')) \<le> unat (ipc_ring_mask i) + 1"
    using eq free_stack_push [of "u_table u" x] by (auto simp: word_le_nat_alt)
  show "shares_table i u'" using assms(1) eq(2) by (simp add: shares_table_def)
qed

lemma push_slots_stack:
  "push_slots n u = Inr ((), u') \<Longrightarrow> shares_table i u \<Longrightarrow>
     shares_table i u' \<and> free_stack (u_table u') = free_stack (u_table u) @ map of_nat [0..<n]
     \<and> (0 < n \<longrightarrow> length (free_stack (u_table u')) \<le> unat (ipc_ring_mask i) + 1)"
proof (induction n arbitrary: u')
  case (Suc n)
  obtain u1 where u1: "push_slots n u = Inr ((), u1)" "dux_push_free_slot (of_nat n) u1 = Inr ((), u')"
    using Suc.prems(1) by (auto simp: bindK_eq_Inr)
  from Suc.IH [OF u1(1) Suc.prems(2)] dux_push_free_slot_Inr [OF _ u1(2)] show ?case by (auto simp: free_stack_def)
qed (simp add: free_stack_def)

lemma init_stack:
  assumes "push_slots 4 u = Inr ((), u')" "shares_table i u" "ipc_ring_mask i = 3"
  shows "free_stack (u_table u) = []" "free_stack (u_table u') = [0, 1, 2, 3]"
proof -
  note P = push_slots_stack [OF assms(1,2)]
  from P have e: "free_stack (u_table u') = free_stack (u_table u) @ map of_nat [0..<4]" by blast
  from P have le: "length (free_stack (u_table u')) \<le> unat (ipc_ring_mask i) + 1" by (metis zero_less_numeral)
  have "length (free_stack (u_table u)) = 0" using le assms(3) unfolding e by simp
  then show "free_stack (u_table u) = []" by simp
  then show "free_stack (u_table u') = [0, 1, 2, 3]" using P by (simp add: upt_rec numeral_eq_Suc)
qed

subsection \<open>Example\<close>

definition table_ex :: ipc_table where
  "table_ex = \<lparr>it_packets = \<lambda>_. packet_sent_ex, it_tx_index = 0, it_tx_slots = \<lambda>_. 0, it_rx_index = 0, it_rx_slots = \<lambda>_. 0,
     it_free_top = 2, it_free_slots = \<lambda>k. k\<rparr>"

text \<open>Task \<open>0x4000\<close> runs; task \<open>0x5000\<close> has the address 3.\<close>

definition user_ex :: user where
  "user_ex = \<lparr>u_global = global_ex\<lparr>g_ipc_packets := 0x1000, g_ring_mask := 1\<rparr>,
     u_kernel = kernel_ex\<lparr>k_io := \<lparr>io_sched = (sched_ex 0)\<lparr>sc_machine := machine_sent_ex, sc_tasks := (\<lambda>_. task_ex)
         (0x4000 := task_ex\<lparr>td_ipc := Some ipc_ex, td_virtual_memory := mc_satp machine_sent_ex\<rparr>,
          0x5000 := task_ex\<lparr>td_ipc := Some ipc_ex, td_virtual_memory := receiver_vms_ex\<rparr>)\<rparr>,
       io_tables = \<lambda>_ _. table_ex, io_free_pages = \<lambda>_ _. offer_ex\<rparr>\<rparr>\<rparr>"

lemmas user_ex_simps = user_ex_def ipc_ex_def table_ex_def packet_sent_ex_def global_ex_def global_zero_def sched_ex_def

lemma user_ex_shares: "shares_table ipc_ex user_ex"
  by (simp add: shares_table_def ipc_ok_def user_ex_simps)

lemma user_ex_free: "u_table user_ex = table_ex" "has_free_slot ipc_ex table_ex"
  by (simp_all add: u_table_def has_free_slot_def ipc_ok_def user_ex_simps)

lemma user_ex_ready: "sender_ready 0x4000 ipc_ex user_ex" "receiver_ready 0x5000 ipc_ex (u_global user_ex) user_ex"
proof -
  show "sender_ready 0x4000 ipc_ex user_ex" using user_ex_shares user_ex_free by (simp add: sender_ready_def Let_def) (simp add: user_ex_simps)
  have "io_tables (k_io (u_kernel user_ex)) v p = table_ex" for v p by (simp add: user_ex_def)
  moreover have "receiver_vms_ex \<noteq> mc_satp machine_sent_ex" by (simp add: receiver_vms_ex_def machine_sent_ex_facts(2) machine_ex_def)
  ultimately show "receiver_ready 0x5000 ipc_ex (u_global user_ex) user_ex" using user_ex_free(2) by (simp add: receiver_ready_def Let_def) (simp add: user_ex_simps)
qed

theorem free_stack_sides_agree_witness:
  "\<exists>u'. dux_pop_free_slot user_ex = Inr (Inr 1, u')"
  using free_stack_sides_agree [OF user_ex_shares] pop_free_slot_eq [of "kernel_view user_ex" ipc_ex] kernel_view_table [OF user_ex_shares]
    has_free_slotD [OF user_ex_free(2)] by (simp add: user_ex_free) (simp add: user_ex_simps)

theorem packet_delivered_witness:
  "\<exists>u1 s2 slot ub. send packet_sent_ex user_ex = Inr ((), u1) \<and> process_io 0x4000 8 (k_io (u_kernel u1)) = Inr ((), s2)
     \<and> try_receive (resumed receiver_vms_ex (u_global user_ex) (u_kernel u1) s2) = Inr (Some slot, ub)
     \<and> received_read slot ub = Inr (packet_sent_ex\<lparr>pk_data := Some 0x41000, pk_name := Some 0x40000, pk_address := 8\<rparr>, ub)
     \<and> pages_shared machine_sent_ex 40 (sc_machine (io_sched s2)) (Some (0x10000, 0x41000, 1)) RWX_RW"
proof -
  have "\<exists>s1. receiver (pk_address packet_sent_ex) (k_io (u_kernel user_ex)) = Inr (0x5000, s1)"
    by (simp add: receiver_def address_group_def address_task_def try_into_def group_get_def arena_get_def group_task_def) (simp add: user_ex_simps)
  then obtain s1 where r: "receiver (pk_address packet_sent_ex) (k_io (u_kernel user_ex)) = Inr (0x5000, s1)" ..
  have p: "pk_address packet_sent_ex \<noteq> 8" by (simp add: packet_sent_ex_def)
  have v: "td_virtual_memory (sc_tasks (k_sched (u_kernel user_ex)) 0x5000) = receiver_vms_ex" "sc_machine (k_sched (u_kernel user_ex)) = machine_sent_ex"
      "io_free_pages (k_io (u_kernel user_ex)) = (\<lambda>_ _. offer_ex)" by (simp_all add: user_ex_def)
  have c: "(ucast receiver_vms_ex :: ppn) = 40" by (simp add: receiver_vms_ex_def)
  from packet_delivered [OF user_ex_ready r p, unfolded v, OF can_share_ex] show ?thesis by (simp add: packet_shared_def c) blast
qed

end
