(* ===== verification/Virtio_Queue.thy ===== *)
theory Virtio_Queue
  imports Pages "HOL-Library.Multiset"
begin

text \<open>
  Split virtqueues of the drivers (\<open>lib/rust/virtio/src/queue.rs\<close>). A queue is a table of descriptors, a
  ring of chains that are available to the device and a ring of chains it has used, in memory that
  the device shares, and a stack of free descriptors that only the driver knows. The record holds
  both; endianness conversions are the identity on the target.
\<close>

subsection \<open>Descriptors and rings\<close>

(* src/lib/rust/virtio/src/queue.rs:11-18 Descriptor *)
record descriptor =
  d_address :: u64
  d_length :: u32
  d_flags :: u16
  d_next :: u16

(* src/lib/rust/virtio/src/queue.rs:20-21 Descriptor::NEXT *)
definition DESC_NEXT :: u16 where
  "DESC_NEXT = 0x1"

(* src/lib/rust/virtio/src/queue.rs:22-22 Descriptor::WRITE *)
definition DESC_WRITE :: u16 where
  "DESC_WRITE = 0x2"

text \<open>
  The fields of \<open>Queue\<close>, and what its three pointers lead to: the table, the available ring
  (\<open>AvailHead\<close>, \<open>AvailElement\<close>) and the used ring (\<open>UsedHead\<close>, \<open>UsedElement\<close>), each of \<open>mask + 1\<close> elements.
\<close>

(* src/lib/rust/virtio/src/queue.rs:29-119 Queue *)
record queue =
  q_mask :: u16
  q_last_used :: u16
  q_free_descriptors :: "u16 list"
  q_free_count :: u16
  q_descriptors :: "descriptor list"
  q_avail_index :: u16
  q_avail_ring :: "u16 list"
  q_used_index :: u16
  q_used_ring :: "(u32 \<times> u32) list"
  q_notify_offset :: u16

(* src/lib/rust/virtio/src/queue.rs:339-345 NoBuffers *)
datatype no_buffers = NoBuffers

subsection \<open>Collecting\<close>

text \<open>
  One chain of descriptors goes back to the free stack. The stack has room for \<open>n\<close> more; a chain that is
  longer, or runs in a circle, ends with a panic. The first result is what the callback is told.
\<close>

(* src/lib/rust/virtio/src/queue.rs:287-300 Queue::collect_used *)
primrec collect_chain :: "nat \<Rightarrow> u16 \<Rightarrow> queue \<Rightarrow> ((u16 \<times> u64 \<times> u32) list \<times> queue) may_panic" where
  "collect_chain 0 descr_index q =
     (if descr_index = - 1 then Inl Assert_Failed
      else bindP (indexP (q_descriptors q) (unat descr_index)) (\<lambda>_. Inl Index_Out_Of_Range))"
| "collect_chain (Suc n) descr_index q =
     (if descr_index = - 1 then Inl Assert_Failed
      else
        bindP (indexP (q_descriptors q) (unat descr_index)) (\<lambda>descr.
        bindP (storeP (q_free_descriptors q) (unat (q_free_count q)) descr_index) (\<lambda>fd.
        let q' = q\<lparr>q_free_descriptors := fd, q_free_count := q_free_count q + 1\<rparr>;
            told = (descr_index, d_address descr, d_length descr) in
        if d_flags descr AND DESC_NEXT > 0
        then bindP (collect_chain n (d_next descr) q') (\<lambda>(es, q''). Inr (told # es, q''))
        else Inr ([told], q'))))"

(* src/lib/rust/virtio/src/queue.rs:284-302 Queue::collect_used *)
primrec collect_loop :: "nat \<Rightarrow> u16 \<Rightarrow> queue \<Rightarrow> ((u16 \<times> u64 \<times> u32) list \<times> queue) may_panic" where
  "collect_loop 0 index q = Inr ([], q)"
| "collect_loop (Suc n) index q =
     bindP (indexP (q_used_ring q) (unat (index AND q_mask q))) (\<lambda>(e, _).
     bindP (collect_chain (length (q_free_descriptors q) - unat (q_free_count q)) (ucast e) q) (\<lambda>(es, q').
     bindP (collect_loop n (index + 1) q') (\<lambda>(es', q''). Inr (es @ es', q''))))"

(* src/lib/rust/virtio/src/queue.rs:270-305 Queue::collect_used *)
definition collect_used :: "queue \<Rightarrow> (nat \<times> (u16 \<times> u64 \<times> u32) list \<times> queue) may_panic" where
  "collect_used q =
     (let head_index = q_used_index q; n = unat (head_index - q_last_used q) in
      bindP (collect_loop n (q_last_used q) q) (\<lambda>(es, q'). Inr (n, es, q'\<lparr>q_last_used := head_index\<rparr>)))"

subsection \<open>Sending\<close>

text \<open>
  \<open>prev\<close> says where the link to the next descriptor goes: to the head of the chain, or to the \<open>next\<close> field
  of a descriptor. The middle result is what the callback \<open>used\<close> is told.
\<close>

(* src/lib/rust/virtio/src/queue.rs:246-260 Queue::send *)
fun send_loop :: "(u64 \<times> u32 \<times> bool) list \<Rightarrow> u16 \<Rightarrow> nat option \<Rightarrow> u16 \<Rightarrow> queue
    \<Rightarrow> ((no_buffers + u16 \<times> u16) \<times> u16 list \<times> queue) may_panic" where
  "send_loop [] free_count prev head q = Inr (Inr (free_count, head), [], q)"
| "send_loop ((address, len, wr) # items) free_count prev head q =
     (case checked_sub free_count 1 of
        None \<Rightarrow> Inr (Inl NoBuffers, [], q)
      | Some fc \<Rightarrow>
          bindP (indexP (q_free_descriptors q) (unat fc)) (\<lambda>i.
          bindP (indexP (q_descriptors q) (unat i)) (\<lambda>d.
          let d' = d\<lparr>d_address := address, d_length := len,
                d_flags := (if wr then DESC_WRITE else 0) OR (if items \<noteq> [] then DESC_NEXT else 0)\<rparr>;
              desc = (q_descriptors q)[unat i := d'] in
          case prev of
            None \<Rightarrow> bindP (send_loop items fc (Some (unat i)) i (q\<lparr>q_descriptors := desc\<rparr>)) (\<lambda>(r, is, q'). Inr (r, i # is, q'))
          | Some j \<Rightarrow>
              bindP (send_loop items fc (Some (unat i)) head (q\<lparr>q_descriptors := desc[j := (desc ! j)\<lparr>d_next := i\<rparr>]\<rparr>))
                (\<lambda>(r, is, q'). Inr (r, i # is, q')))))"

text \<open>The results are those of \<open>send\<close>, of the callback \<open>used\<close> and of the callback of \<open>collect_used\<close>.\<close>

(* src/lib/rust/virtio/src/queue.rs:243-268 Queue::send *)
definition send_now :: "(u64 \<times> u32 \<times> bool) list \<Rightarrow> queue \<Rightarrow> ((no_buffers + unit) \<times> u16 list \<times> queue) may_panic" where
  "send_now items q =
     bindP (send_loop items (q_free_count q) None 0 q) (\<lambda>(r, used, q'). case r of
       Inl NoBuffers \<Rightarrow> Inr (Inl NoBuffers, used, q')
     | Inr (fc, head) \<Rightarrow>
         bindP (storeP (q_avail_ring q') (unat (q_avail_index q' AND q_mask q')) head) (\<lambda>ring.
         Inr (Inr (), used, q'\<lparr>q_free_count := fc, q_avail_ring := ring, q_avail_index := q_avail_index q' + 1\<rparr>)))"

(* src/lib/rust/virtio/src/queue.rs:214-268 Queue::send *)
definition queue_send :: "(u64 \<times> u32 \<times> bool) list \<Rightarrow> queue
    \<Rightarrow> ((no_buffers + unit) \<times> u16 list \<times> (u16 \<times> u64 \<times> u32) list \<times> queue) may_panic" where
  "queue_send items q =
     (if 2 ^ 16 \<le> length items then Inl Unwrap_Failed
      else (let cnt = of_nat (length items) in
        if cnt = 0 then Inr (Inr (), [], [], q)
        else if q_free_count q < cnt then
          bindP (collect_used q) (\<lambda>(_, es, q).
          if q_free_count q < cnt then bindP (send_now items q) (\<lambda>(r, used, q'). Inr (r, used, es, q'))
          else Inr (Inl NoBuffers, [], es, q))
        else bindP (send_now items q) (\<lambda>(r, used, q'). Inr (r, used, [], q'))))"

text \<open>
  \<open>wait_for_used\<close>: \<open>dev\<close> is what the device and \<open>wait_fn\<close> do to the queue between two looks at it.
\<close>

(* src/lib/rust/virtio/src/queue.rs:307-323 Queue::wait_for_used *)
primrec wait_for_used :: "nat \<Rightarrow> (queue \<Rightarrow> queue) \<Rightarrow> queue \<Rightarrow> ((u16 \<times> u64 \<times> u32) list \<times> queue) option may_panic" where
  "wait_for_used 0 dev q = Inr None"
| "wait_for_used (Suc fuel) dev q =
     bindP (collect_used q) (\<lambda>(n, es, q'). if n = 0 then wait_for_used fuel dev (dev q') else Inr (Some (es, q')))"

subsection \<open>Chains\<close>

text \<open>The free descriptors, and the well-formedness of a queue.\<close>

definition free_list :: "queue \<Rightarrow> u16 list" where
  "free_list q = take (unat (q_free_count q)) (q_free_descriptors q)"

definition queue_ok :: "queue \<Rightarrow> bool" where
  "queue_ok q \<longleftrightarrow> length (q_free_descriptors q) = 8 \<and> unat (q_free_count q) \<le> 8
     \<and> distinct (free_list q) \<and> (\<forall>i \<in> set (free_list q). unat i < length (q_descriptors q) \<and> i \<noteq> - 1)
     \<and> length (q_descriptors q) = unat (q_mask q) + 1 \<and> length (q_avail_ring q) = unat (q_mask q) + 1
     \<and> length (q_used_ring q) = unat (q_mask q) + 1"

definition item_flags :: "bool \<Rightarrow> bool \<Rightarrow> u16" where
  "item_flags wr mr = (if wr then DESC_WRITE else 0) OR (if mr then DESC_NEXT else 0)"

text \<open>The descriptors \<open>is\<close> are linked and describe the buffers.\<close>

fun chain :: "descriptor list \<Rightarrow> u16 list \<Rightarrow> (u64 \<times> u32 \<times> bool) list \<Rightarrow> bool" where
  "chain desc [] items \<longleftrightarrow> items = []"
| "chain desc (i # is) [] \<longleftrightarrow> False"
| "chain desc (i # is) ((a, l, w) # items) \<longleftrightarrow>
     unat i < length desc \<and> d_address (desc ! unat i) = a \<and> d_length (desc ! unat i) = l
     \<and> d_flags (desc ! unat i) = item_flags w (items \<noteq> []) \<and> (is \<noteq> [] \<longrightarrow> d_next (desc ! unat i) = hd is) \<and> chain desc is items"

definition told :: "u16 list \<Rightarrow> (u64 \<times> u32 \<times> bool) list \<Rightarrow> (u16 \<times> u64 \<times> u32) list" where
  "told is items = map2 (\<lambda>i (a, l, w). (i, a, l)) is items"

lemma item_flags_next: "item_flags w mr AND DESC_NEXT > 0 \<longleftrightarrow> mr"
  by (simp add: item_flags_def DESC_NEXT_def DESC_WRITE_def)

lemma chain_length: "chain desc is items \<Longrightarrow> length is = length items"
  by (induction desc "is" items rule: chain.induct) auto

lemma chain_cong: "(\<And>i. i \<in> set is \<Longrightarrow> desc' ! unat i = desc ! unat i) \<Longrightarrow> length desc' = length desc \<Longrightarrow> chain desc' is items = chain desc is items"
  by (induction desc "is" items rule: chain.induct) auto

lemma collect_chain_told:
  assumes "chain (q_descriptors q) is items" "is \<noteq> []" "\<forall>i \<in> set is. i \<noteq> - 1"
    "length (q_free_descriptors q) = 8" "unat (q_free_count q) + length is \<le> 8" "n = 8 - unat (q_free_count q)"
  shows "\<exists>fd. collect_chain n (hd is) q = Inr (told is items, q\<lparr>q_free_descriptors := fd, q_free_count := q_free_count q + of_nat (length is)\<rparr>)
    \<and> length fd = 8 \<and> take (unat (q_free_count q) + length is) fd = take (unat (q_free_count q)) (q_free_descriptors q) @ is"
  using assms
proof (induction "q_descriptors q" "is" items arbitrary: q n rule: chain.induct)
  case (3 i "is" a l w items)
  let ?c = "unat (q_free_count q)" and ?fd = "q_free_descriptors q"
  let ?q = "q\<lparr>q_free_descriptors := ?fd[?c := i], q_free_count := q_free_count q + 1\<rparr>"
  obtain m where n: "n = Suc m" "m = 8 - Suc ?c" using "3.prems"(5,6) by (cases n) auto
  have c: "unat (q_free_count q + 1) = Suc ?c" using "3.prems"(5) unat_add_no_overflow [of "q_free_count q" 1] by simp
  have t: "take (Suc ?c) (?fd[?c := i]) = take ?c ?fd @ [i]" using "3.prems"(4,5) by (simp add: take_Suc_conv_app_nth)
  have step: "collect_chain n i q = (if items \<noteq> [] then bindP (collect_chain m (d_next (q_descriptors q ! unat i)) ?q) (\<lambda>(es, q''). Inr ((i, a, l) # es, q''))
      else Inr ([(i, a, l)], ?q))"
    unfolding n(1) using "3.prems"(1,3,4,5) by (simp add: item_flags_next)
  show ?case
  proof (cases "is = []")
    case True
    then have "items = []" using "3.prems"(1) by simp
    with True show ?thesis using step t "3.prems"(4) by (intro exI [of _ "?fd[?c := i]"]) (simp add: told_def)
  next
    case False
    then have "items \<noteq> []" using "3.prems"(1) by (cases "is") auto
    obtain fd where "collect_chain m (hd is) ?q = Inr (told is items, ?q\<lparr>q_free_descriptors := fd, q_free_count := q_free_count ?q + of_nat (length is)\<rparr>)"
        "length fd = 8" "take (unat (q_free_count ?q) + length is) fd = take (unat (q_free_count ?q)) (q_free_descriptors ?q) @ is"
      using "3.hyps" [of ?q m] "3.prems" False c n by auto
    then show ?thesis using step "3.prems"(1) c t False \<open>items \<noteq> []\<close> by (intro exI [of _ fd]) (simp add: told_def add.assoc)
  qed
qed auto

text \<open>The table after one pass of \<open>send_loop\<close>.\<close>

definition linked :: "nat option \<Rightarrow> u16 \<Rightarrow> descriptor \<Rightarrow> descriptor list \<Rightarrow> descriptor list" where
  "linked prev i d D = (case prev of None \<Rightarrow> D[unat i := d] | Some j \<Rightarrow> D[unat i := d, j := (D[unat i := d] ! j)\<lparr>d_next := i\<rparr>])"

lemma length_linked [simp]: "length (linked prev i d D) = length D"
  by (simp add: linked_def split: option.splits)

lemma send_loop_step:
  assumes "fc \<noteq> 0" "unat (fc - 1) < length (q_free_descriptors q)"
    and i: "i = q_free_descriptors q ! unat (fc - 1)" "unat i < length (q_descriptors q)"
  shows "send_loop ((a, l, w) # items) fc prev head q =
    bindP (send_loop items (fc - 1) (Some (unat i)) (if prev = None then i else head)
      (q\<lparr>q_descriptors := linked prev i ((q_descriptors q ! unat i)\<lparr>d_address := a, d_length := l, d_flags := item_flags w (items \<noteq> [])\<rparr>) (q_descriptors q)\<rparr>))
    (\<lambda>(r, is, q'). Inr (r, i # is, q'))"
proof -
  have "indexP (q_free_descriptors q) (unat (fc - 1)) = Inr i" "indexP (q_descriptors q) (unat i) = Inr (q_descriptors q ! unat i)" using assms by simp_all
  then show ?thesis using assms(1) by (cases prev) (simp_all add: checked_sub_1 linked_def item_flags_def Let_def)
qed

lemma send_loop_chain:
  assumes "length items \<le> unat fc" "unat fc \<le> length (q_free_descriptors q)" "distinct (take (unat fc) (q_free_descriptors q))"
    "\<forall>i \<in> set (take (unat fc) (q_free_descriptors q)). unat i < length (q_descriptors q)"
    "\<forall>j. prev = Some j \<longrightarrow> j < length (q_descriptors q) \<and> j \<notin> unat ` set (take (unat fc) (q_free_descriptors q))"
  defines "is \<equiv> rev (drop (unat fc - length items) (take (unat fc) (q_free_descriptors q)))"
  shows "\<exists>desc. send_loop items fc prev head q
      = Inr (Inr (fc - of_nat (length items), if prev = None \<and> items \<noteq> [] then hd is else head), is, q\<lparr>q_descriptors := desc\<rparr>)
    \<and> length desc = length (q_descriptors q) \<and> chain desc is items
    \<and> (\<forall>k < length desc. k \<notin> unat ` set is \<longrightarrow> desc ! k = (if prev = Some k \<and> items \<noteq> [] then (q_descriptors q ! k)\<lparr>d_next := hd is\<rparr> else q_descriptors q ! k))"
  using assms(1-5) unfolding is_def
proof (induction items arbitrary: fc prev head q)
  case Nil
  have "q\<lparr>q_descriptors := q_descriptors q\<rparr> = q" by simp
  with Nil show ?case by (intro exI [of _ "q_descriptors q"]) simp
next
  case (Cons item items)
  obtain a l w where item: "item = (a, l, w)" by (cases item)
  let ?fd = "q_free_descriptors q" and ?c = "unat fc" and ?D = "q_descriptors q"
  define i where "i = ?fd ! (?c - 1)"
  have z: "fc \<noteq> 0" using Cons.prems(1) by auto
  then have c: "fc \<noteq> 0" "unat (fc - 1) = ?c - 1" "?c - 1 < length ?fd" using Cons.prems(1,2) unat_minus_1 [OF z] by auto
  have take: "take ?c ?fd = take (?c - 1) ?fd @ [i]" using c Cons.prems(1) take_Suc_conv_app_nth [OF c(3)] by (simp add: i_def)
  have i: "unat i < length ?D" "i \<notin> set (take (?c - 1) ?fd)" using Cons.prems(3,4) unfolding take by auto
  define d where "d = (?D ! unat i)\<lparr>d_address := a, d_length := l, d_flags := item_flags w (items \<noteq> [])\<rparr>"
  define D where "D = linked prev i d ?D"
  have D: "length D = length ?D" by (simp add: D_def)
  have j: "j < length ?D \<and> j \<noteq> unat i \<and> j \<notin> unat ` set (take (?c - 1) ?fd)" if "prev = Some j" for j
    using Cons.prems(5) that unfolding take by auto
  have Di: "D ! unat i = d" using i j by (auto simp: D_def linked_def split: option.splits)
  have Dk: "D ! k = (if prev = Some k then (?D ! k)\<lparr>d_next := i\<rparr> else ?D ! k)" if "k < length ?D" "k \<noteq> unat i" for k
    using that i j by (auto simp: D_def linked_def split: option.splits)
  let ?q = "q\<lparr>q_descriptors := D\<rparr>"
  define xs where "xs = rev (drop (?c - 1 - length items) (take (?c - 1) ?fd))"
  define head' where "head' = (if prev = None then i else head)"
  have is': "rev (drop (?c - length (item # items)) (take ?c ?fd)) = i # xs"
    unfolding take xs_def using c Cons.prems(1) by simp
  have xs: "unat i \<notin> unat ` set xs" "set xs \<subseteq> set (take (?c - 1) ?fd)" using i(2) unfolding xs_def by (auto simp flip: word_unat_eq_iff dest: in_set_dropD)
  have p: "length items \<le> unat (fc - 1)" "unat (fc - 1) \<le> length (q_free_descriptors ?q)" "distinct (take (unat (fc - 1)) (q_free_descriptors ?q))"
    "\<forall>i \<in> set (take (unat (fc - 1)) (q_free_descriptors ?q)). unat i < length (q_descriptors ?q)"
    "\<forall>j. Some (unat i) = Some j \<longrightarrow> j < length (q_descriptors ?q) \<and> j \<notin> unat ` set (take (unat (fc - 1)) (q_free_descriptors ?q))"
    using Cons.prems(1-4) i c D unfolding take by (auto simp flip: word_unat_eq_iff)
  have xs': "rev (drop (?c - 1 - length items) (take (?c - 1) (q_free_descriptors ?q))) = xs" by (simp add: xs_def)
  obtain E where E0: "send_loop items (fc - 1) (Some (unat i)) head' ?q
        = Inr (Inr (fc - 1 - of_nat (length items), if Some (unat i) = None \<and> items \<noteq> [] then hd xs else head'), xs, ?q\<lparr>q_descriptors := E\<rparr>)"
      "length E = length (q_descriptors ?q)" "chain E xs items"
      "\<forall>k < length E. k \<notin> unat ` set xs \<longrightarrow> E ! k = (if Some (unat i) = Some k \<and> items \<noteq> [] then (q_descriptors ?q ! k)\<lparr>d_next := hd xs\<rparr> else q_descriptors ?q ! k)"
    using Cons.IH [OF p, of head'] unfolding c(2) xs' by blast
  have E: "send_loop items (fc - 1) (Some (unat i)) head' ?q = Inr (Inr (fc - 1 - of_nat (length items), head'), xs, q\<lparr>q_descriptors := E\<rparr>)"
      "length E = length ?D" "chain E xs items" using E0(1-3) D by simp_all
  have Ek: "E ! k = (if unat i = k \<and> items \<noteq> [] then (D ! k)\<lparr>d_next := hd xs\<rparr> else D ! k)" if "k < length ?D" "k \<notin> unat ` set xs" for k
    using E0(2,4) D that by auto
  have "send_loop (item # items) fc prev head q = bindP (send_loop items (fc - 1) (Some (unat i)) head' ?q) (\<lambda>(r, is, q'). Inr (r, i # is, q'))"
    unfolding item head'_def D_def d_def using c i(1) by (intro send_loop_step) (simp_all add: i_def)
  then have send: "send_loop (item # items) fc prev head q = Inr (Inr (fc - of_nat (length (item # items)), head'), i # xs, q\<lparr>q_descriptors := E\<rparr>)"
    using E(1) by (simp add: algebra_simps)
  have "E ! unat i = (if items \<noteq> [] then d\<lparr>d_next := hd xs\<rparr> else d)" using Ek [OF i(1) xs(1)] Di by simp
  then have ch: "chain E (i # xs) (item # items)" using E(2,3) i(1) chain_length [OF E(3)] by (cases "items = []") (auto simp: item d_def)
  have "E ! k = (if prev = Some k then (?D ! k)\<lparr>d_next := i\<rparr> else ?D ! k)" if "k < length ?D" "k \<notin> unat ` set (i # xs)" for k
    using Ek [of k] Dk [of k] that by auto
  then show ?case unfolding is' using send ch E(2) by (intro exI [of _ E]) (auto simp: head'_def)
qed

text \<open>The device puts the chain that starts at \<open>head\<close> on the used ring.\<close>

definition device_uses :: "u16 \<Rightarrow> u32 \<Rightarrow> queue \<Rightarrow> queue" where
  "device_uses head len q = q\<lparr>q_used_ring := (q_used_ring q)[unat (q_used_index q AND q_mask q) := (ucast head, len)],
     q_used_index := q_used_index q + 1\<rparr>"

lemma ring_position: "unat (x AND m) < unat m + 1" for x m :: u16
  using word_and_le1 [of x m] by (simp add: word_le_nat_alt less_Suc_eq_le word_and_le1)

lemma queue_send_chain:
  assumes ok: "queue_ok q" and items: "items \<noteq> []" "length items \<le> unat (q_free_count q)"
  defines "is \<equiv> rev (drop (unat (q_free_count q) - length items) (free_list q))"
  shows "\<exists>desc. let q' = q\<lparr>q_descriptors := desc, q_free_count := q_free_count q - of_nat (length items),
         q_avail_ring := (q_avail_ring q)[unat (q_avail_index q AND q_mask q) := hd is], q_avail_index := q_avail_index q + 1\<rparr> in
      queue_send items q = Inr (Inr (), is, [], q') \<and> queue_ok q' \<and> chain desc is items \<and> free_list q = free_list q' @ rev is"
proof -
  let ?c = "unat (q_free_count q)" and ?n = "length items"
  have Q: "length (q_free_descriptors q) = 8" "?c \<le> 8" "distinct (free_list q)"
      "\<forall>i \<in> set (free_list q). unat i < length (q_descriptors q) \<and> i \<noteq> - 1" "length (q_avail_ring q) = unat (q_mask q) + 1" using ok by (auto simp: queue_ok_def)
  have n: "unat (of_nat ?n :: u16) = ?n" using items(2) Q(2) by (intro unat_of_nat_less) simp
  have nz: "(of_nat ?n :: u16) \<noteq> 0" using n items(1) by (metis length_0_conv unat_0)
  have cnt: "\<not> q_free_count q < of_nat ?n" "(of_nat ?n :: u16) \<le> q_free_count q" using items(2) n by (auto simp: word_less_nat_alt word_le_nat_alt)
  have fc: "unat (q_free_count q - of_nat ?n) = ?c - ?n" using n cnt(2) by (simp add: unat_sub)
  obtain desc where D: "send_loop items (q_free_count q) None 0 q = Inr (Inr (q_free_count q - of_nat ?n, hd is), is, q\<lparr>q_descriptors := desc\<rparr>)"
      "length desc = length (q_descriptors q)" "chain desc is items"
    using send_loop_chain [of items "q_free_count q" q None 0] items Q unfolding is_def free_list_def by auto
  let ?q = "q\<lparr>q_descriptors := desc, q_free_count := q_free_count q - of_nat ?n,
         q_avail_ring := (q_avail_ring q)[unat (q_avail_index q AND q_mask q) := hd is], q_avail_index := q_avail_index q + 1\<rparr>"
  have "queue_send items q = Inr (Inr (), is, [], ?q)"
    using D(1) cnt nz items(2) Q(2,5) ring_position by (simp add: queue_send_def send_now_def)
  moreover have fl: "free_list q = free_list ?q @ rev is"
    using append_take_drop_id [of "?c - ?n" "free_list q"] by (simp add: free_list_def is_def fc min_def)
  moreover have "queue_ok ?q" using ok D(2) fc Q(1,2,3,4) unfolding queue_ok_def fl by auto
  ultimately show ?thesis using D(3) by (intro exI [of _ desc]) (simp only: Let_def simp_thms)
qed

lemma collect_used_one:
  assumes ok: "queue_ok q" and ch: "chain (q_descriptors q) is items" "is \<noteq> []" "\<forall>i \<in> set is. unat i < length (q_descriptors q) \<and> i \<noteq> - 1"
    and fit: "unat (q_free_count q) + length is \<le> 8" "distinct (free_list q @ is)"
    and used: "q_used_index q = q_last_used q + 1" "q_used_ring q ! unat (q_last_used q AND q_mask q) = (ucast (hd is), len)"
  shows "\<exists>q'. collect_used q = Inr (1, told is items, q') \<and> queue_ok q' \<and> free_list q' = free_list q @ is"
proof -
  have Q: "length (q_free_descriptors q) = 8" "length (q_used_ring q) = unat (q_mask q) + 1" using ok by (auto simp: queue_ok_def)
  obtain fd where fd: "collect_chain (8 - unat (q_free_count q)) (hd is) q
        = Inr (told is items, q\<lparr>q_free_descriptors := fd, q_free_count := q_free_count q + of_nat (length is)\<rparr>)"
      "length fd = 8" "take (unat (q_free_count q) + length is) fd = free_list q @ is"
    using collect_chain_told [OF ch(1,2) _ Q(1) fit(1) refl] ch(3) unfolding free_list_def by blast
  let ?q = "q\<lparr>q_free_descriptors := fd, q_free_count := q_free_count q + of_nat (length is), q_last_used := q_used_index q\<rparr>"
  have n: "unat (of_nat (length is) :: u16) = length is" using fit(1) by (intro unat_of_nat_less) simp
  then have c: "unat (q_free_count q + of_nat (length is)) = unat (q_free_count q) + length is"
    using fit(1) by (subst unat_add_no_overflow) auto
  have one: "unat (q_used_index q - q_last_used q) = Suc 0" using used(1) by simp
  have h: "ucast (ucast (hd is) :: u32) = hd is" by (rule ucast_up_ucast_id) (simp add: is_up)
  have "collect_used q = Inr (1, told is items, ?q)"
    unfolding collect_used_def Let_def one using used(2) fd(1) h Q ring_position [of "q_last_used q" "q_mask q"] by simp
  moreover have "free_list ?q = free_list q @ is" using fd(3) c by (simp add: free_list_def)
  moreover from this have "queue_ok ?q" using ok ch(3) fit fd(2) c unfolding queue_ok_def by auto
  ultimately show ?thesis by blast
qed

text \<open>
  C35. What is sent through a queue comes back. When enough descriptors are free, sending buffers takes
  that many, links them in a chain that describes the buffers in order, and makes the chain available
  to the device. After the device has used the chain, collecting reports exactly these buffers in
  order and returns their descriptors; the queue is well-formed after each step, no descriptor is
  lost and none is free twice.
\<close>

theorem virtio_send_collect:
  assumes "queue_ok q" "items \<noteq> []" "length items \<le> unat (q_free_count q)" "q_last_used q = q_used_index q"
  shows "\<exists>is q' q''. queue_send items q = Inr (Inr (), is, [], q') \<and> queue_ok q'
    \<and> chain (q_descriptors q') is items \<and> free_list q = free_list q' @ rev is
    \<and> q_avail_ring q' ! unat (q_avail_index q AND q_mask q) = hd is \<and> q_avail_index q' = q_avail_index q + 1
    \<and> collect_used (device_uses (hd is) len q') = Inr (1, told is items, q'') \<and> queue_ok q'' \<and> free_list q'' = free_list q' @ is"
proof -
  define "is" where "is = rev (drop (unat (q_free_count q) - length items) (free_list q))"
  define after where "after desc = q\<lparr>q_descriptors := desc, q_free_count := q_free_count q - of_nat (length items),
         q_avail_ring := (q_avail_ring q)[unat (q_avail_index q AND q_mask q) := hd is], q_avail_index := q_avail_index q + 1\<rparr>" for desc
  obtain desc where D: "queue_send items q = Inr (Inr (), is, [], after desc)" "queue_ok (after desc)" "chain desc is items" "free_list q = free_list (after desc) @ rev is"
    using queue_send_chain [OF assms(1-3), folded is_def, unfolded Let_def] unfolding after_def by blast
  define q' where "q' = after desc"
  note S = D [folded q'_def] and q' = q'_def [unfolded after_def]
  have Q: "length (q_avail_ring q) = unat (q_mask q) + 1" "length (q_used_ring q) = unat (q_mask q) + 1" "length (q_free_descriptors q) = 8"
      "unat (q_free_count q) \<le> 8" "distinct (free_list q)" "\<forall>i \<in> set (free_list q). unat i < length (q_descriptors q) \<and> i \<noteq> - 1"
      "length (q_descriptors q) = unat (q_mask q) + 1" using assms(1) by (auto simp: queue_ok_def)
  let ?d = "device_uses (hd is) len q'"
  have d: "free_list ?d = free_list q'" "q_free_count ?d = q_free_count q'" "q_descriptors ?d = desc" "q_mask ?d = q_mask q" "q_last_used ?d = q_used_index q"
      "q_used_index ?d = q_used_index q + 1" using assms(4) by (simp_all add: device_uses_def free_list_def q')
  have len: "length is = length items" "length desc = unat (q_mask q) + 1" using chain_length [OF S(3)] S(2) by (auto simp: queue_ok_def q')
  have ne: "is \<noteq> []" using len(1) assms(2) by auto
  have "length (free_list q') = unat (q_free_count q')" using Q(3) S(2) by (simp add: free_list_def queue_ok_def)
  moreover have "length (free_list q) = unat (q_free_count q)" using Q(3,4) by (simp add: free_list_def)
  ultimately have c: "unat (q_free_count q') + length is \<le> 8" using S(4) Q(4) by simp
  have "queue_ok ?d" using S(2) by (auto simp: queue_ok_def device_uses_def free_list_def)
  moreover have "q_used_ring ?d ! unat (q_last_used ?d AND q_mask ?d) = (ucast (hd is), len)"
    using Q(2) ring_position [of "q_used_index q" "q_mask q"] by (simp add: device_uses_def q' assms(4))
  ultimately obtain q'' where "collect_used ?d = Inr (1, told is items, q'')" "queue_ok q''" "free_list q'' = free_list q' @ is"
    using collect_used_one [of ?d "is" items len] S c Q(5,6,7) len ne unfolding d by auto
  with S q' show ?thesis using Q(1) ring_position [of "q_avail_index q" "q_mask q"]
    by (intro exI [of _ "is"] exI [of _ q'] exI [of _ q'']) simp
qed

definition queue_ex :: queue where
  "queue_ex = \<lparr>q_mask = 7, q_last_used = 3, q_free_descriptors = [5, 7, 6, 0, 1, 3, 2, 4], q_free_count = 8,
     q_descriptors = replicate 8 \<lparr>d_address = 0, d_length = 0, d_flags = 0, d_next = 0\<rparr>, q_avail_index = 3, q_avail_ring = replicate 8 0,
     q_used_index = 3, q_used_ring = replicate 8 (0, 0), q_notify_offset = 0\<rparr>"

lemma queue_ex_ok: "queue_ok queue_ex"
  by (simp add: queue_ok_def free_list_def queue_ex_def)

theorem virtio_send_collect_witness:
  "\<exists>is q' q''. queue_send [(0x1000, 16, False), (0x2000, 512, True)] queue_ex = Inr (Inr (), is, [], q')
     \<and> collect_used (device_uses (hd is) 512 q') = Inr (1, told is [(0x1000, 16, False), (0x2000, 512, True)], q'') \<and> queue_ok q''"
proof -
  have "length [(0x1000 :: u64, 16 :: u32, False), (0x2000, 512, True)] \<le> unat (q_free_count queue_ex)" "q_last_used queue_ex = q_used_index queue_ex"
    by (simp_all add: queue_ex_def)
  from virtio_send_collect [OF queue_ex_ok _ this, of 512] show ?thesis by blast
qed

subsection \<open>Too few free descriptors\<close>

lemma send_loop_short:
  assumes "unat fc < length items" "unat fc \<le> length (q_free_descriptors q)"
    "\<forall>i \<in> set (take (unat fc) (q_free_descriptors q)). unat i < length (q_descriptors q)"
  shows "\<exists>is q'. send_loop items fc prev head q = Inr (Inl NoBuffers, is, q')"
  using assms
proof (induction items arbitrary: fc prev head q)
  case (Cons item items)
  obtain a l w where item: "item = (a, l, w)" by (cases item)
  show ?case
  proof (cases "fc = 0")
    case True
    then show ?thesis by (simp add: item checked_sub_1)
  next
    case False
    have u: "unat fc = Suc (unat (fc - 1))" by (rule unat_minus_1 [OF False])
    define i where "i = q_free_descriptors q ! unat (fc - 1)"
    have "i \<in> set (take (unat fc) (q_free_descriptors q))" using u Cons.prems(2) by (auto simp: i_def in_set_conv_nth)
    then have i: "unat i < length (q_descriptors q)" using Cons.prems(3) by blast
    have "set (take (unat (fc - 1)) (q_free_descriptors q)) \<subseteq> set (take (unat fc) (q_free_descriptors q))" unfolding u by (rule set_take_subset_set_take) simp
    then have "\<exists>is q'. send_loop items (fc - 1) (Some (unat i)) h (q\<lparr>q_descriptors := D\<rparr>) = Inr (Inl NoBuffers, is, q')"
      if "length D = length (q_descriptors q)" for h D
      using Cons.IH [of "fc - 1" "q\<lparr>q_descriptors := D\<rparr>" "Some (unat i)" h] Cons.prems u that by auto
    then obtain xs q' where "send_loop items (fc - 1) (Some (unat i)) (if prev = None then i else head)
        (q\<lparr>q_descriptors := linked prev i ((q_descriptors q ! unat i)\<lparr>d_address := a, d_length := l, d_flags := item_flags w (items \<noteq> [])\<rparr>) (q_descriptors q)\<rparr>)
        = Inr (Inl NoBuffers, xs, q')" by fastforce
    then show ?thesis using send_loop_step [OF False _ i_def i, of a l w items prev head] u Cons.prems(2) by (simp add: item)
  qed
qed simp

text \<open>
  C36. Sending never succeeds when it has to collect descriptors first: with fewer free descriptors than
  buffers the result is \<open>NoBuffers\<close>, whether collecting has freed enough of them or not.
\<close>

theorem send_never_after_collecting:
  assumes "length items < 2 ^ 16" "unat (q_free_count q) < length items" "collect_used q = Inr (n, es, q1)" "queue_ok q1"
  shows "\<exists>is q'. queue_send items q = Inr (Inl NoBuffers, is, es, q') \<and> (length items \<le> unat (q_free_count q1) \<longrightarrow> is = [] \<and> q' = q1)"
proof -
  have u: "unat (of_nat (length items) :: u16) = length items" using assms(1) by (intro unat_of_nat_less) simp
  have nz: "(of_nat (length items) :: u16) \<noteq> 0" using u assms(2) by (metis gr_implies_not0 unat_0)
  have lt: "q_free_count q < of_nat (length items)" using u assms(2) by (simp add: word_less_nat_alt)
  show ?thesis
  proof (cases "unat (q_free_count q1) < length items")
    case True
    have "\<exists>is q'. send_loop items (q_free_count q1) None 0 q1 = Inr (Inl NoBuffers, is, q')"
      using assms(4) by (intro send_loop_short [OF True]) (auto simp: queue_ok_def free_list_def)
    then show ?thesis using True u nz lt assms(1,3) by (auto simp: queue_send_def send_now_def word_less_nat_alt)
  next
    case False
    then show ?thesis using u nz lt assms(1,3) by (simp add: queue_send_def word_less_nat_alt)
  qed
qed

text \<open>A queue with no free descriptor, whose only chain the device has used.\<close>

definition queue_used :: queue where
  "queue_used = queue_ex\<lparr>q_free_count := 7, q_used_index := 4, q_used_ring := replicate 8 (4, 512)\<rparr>"

theorem send_never_after_collecting_witness:
  "\<exists>q1 is q'. collect_used queue_used = Inr (1, [(4, 0, 0)], q1) \<and> unat (q_free_count q1) = 8
     \<and> queue_send (replicate 8 (0, 0, False)) queue_used = Inr (Inl NoBuffers, is, [(4, 0, 0)], q')"
proof -
  have ok: "queue_ok queue_used" by (simp add: queue_ok_def free_list_def queue_ex_def queue_used_def)
  have "\<exists>q1. collect_used queue_used = Inr (1, told [4] [(0, 0, False)], q1) \<and> queue_ok q1 \<and> free_list q1 = free_list queue_used @ [4]"
    using ok by (rule collect_used_one) (simp_all add: free_list_def queue_ex_def queue_used_def item_flags_def)
  then obtain q1 where q1: "collect_used queue_used = Inr (1, [(4, 0, 0)], q1)" "queue_ok q1" "free_list q1 = free_list queue_used @ [4]"
    by (auto simp: told_def)
  have "length (free_list q1) = unat (q_free_count q1)" using q1(2) by (simp add: free_list_def queue_ok_def)
  moreover have "free_list queue_used = [5, 7, 6, 0, 1, 3, 2]" by (simp add: free_list_def queue_used_def queue_ex_def)
  ultimately have "unat (q_free_count q1) = 8" using q1(3) by simp
  moreover have "length (replicate 8 (0 :: u64, 0 :: u32, False)) < 2 ^ 16" "unat (q_free_count queue_used) < length (replicate 8 (0 :: u64, 0 :: u32, False))"
    by (simp_all add: queue_used_def queue_ex_def)
  ultimately show ?thesis using send_never_after_collecting [OF _ _ q1(1,2)] q1(1) by blast
qed

end
