(* ===== verification/Kernel_Api.thy ===== *)
theory Kernel_Api
  imports Trap_Props
begin

text \<open>
  The bindings through which tasks call the kernel (\<open>lib/rust/kernel\<close>): the numbers and arguments of the
  system calls, the status codes, and the structures that both sides lay out in memory. They repeat
  what the kernel defines in \<open>syscall.rs\<close> and \<open>task/ipc.rs\<close>, so they are correct when they agree with it.
  A stub that runs on the machine enters the kernel through \<open>ecall\<close> and reads its results from registers.
\<close>

subsection \<open>System calls\<close>

text \<open>
  A stub puts the number of the call in \<open>a7\<close> and its arguments in \<open>a0\<close> onwards; the other argument
  registers keep whatever they held, and so do the bits of a register above an argument that is
  narrower. The kernel looks the number up in its table.
\<close>

definition reg_u8 :: "usize \<Rightarrow> u8 \<Rightarrow> usize" where
  "reg_u8 r b = (r AND NOT (mask 8)) OR ucast b"

definition reg_u16 :: "usize \<Rightarrow> u16 \<Rightarrow> usize" where
  "reg_u16 r h = (r AND NOT (mask 16)) OR ucast h"

(* src/lib/rust/kernel/src/riscv.rs:3-66 syscall! *)
definition ecall :: "nat \<Rightarrow> usize \<Rightarrow> nat \<Rightarrow> (nat \<Rightarrow> usize) \<Rightarrow> sys_exit sysK" where
  "ecall fuel task code a = syscall_table fuel (a 0) (a 1) (a 2) (a 3) task ! code"

(* src/lib/rust/kernel/src/lib.rs:205-205 io_wait *)
definition api_io_wait :: "nat \<Rightarrow> usize \<Rightarrow> (nat \<Rightarrow> usize) \<Rightarrow> u64 \<Rightarrow> sys_exit sysK" where
  "api_io_wait fuel task a time = ecall fuel task 0 (a(0 := time))"

(* src/lib/rust/kernel/src/lib.rs:206-213 io_set_queues *)
definition api_io_set_queues :: "nat \<Rightarrow> usize \<Rightarrow> (nat \<Rightarrow> usize) \<Rightarrow> usize \<Rightarrow> u8 \<Rightarrow> usize \<Rightarrow> usize \<Rightarrow> sys_exit sysK" where
  "api_io_set_queues fuel task a packets mask_bits free_addr free_pages_size =
     ecall fuel task 1 (a(0 := packets, 1 := reg_u8 (a 1) mask_bits, 2 := free_addr, 3 := free_pages_size))"

(* src/lib/rust/kernel/src/lib.rs:214-214 io_set_notify_handler *)
definition api_io_set_notify_handler :: "nat \<Rightarrow> usize \<Rightarrow> (nat \<Rightarrow> usize) \<Rightarrow> usize \<Rightarrow> sys_exit sysK" where
  "api_io_set_notify_handler fuel task a handler = ecall fuel task 2 (a(0 := handler))"

(* src/lib/rust/kernel/src/lib.rs:216-216 mem_alloc *)
definition api_mem_alloc :: "nat \<Rightarrow> usize \<Rightarrow> (nat \<Rightarrow> usize) \<Rightarrow> usize \<Rightarrow> usize \<Rightarrow> u8 \<Rightarrow> sys_exit sysK" where
  "api_mem_alloc fuel task a address sz flags = ecall fuel task 3 (a(0 := address, 1 := sz, 2 := reg_u8 (a 2) flags))"

(* src/lib/rust/kernel/src/lib.rs:217-217 mem_dealloc *)
definition api_mem_dealloc :: "nat \<Rightarrow> usize \<Rightarrow> (nat \<Rightarrow> usize) \<Rightarrow> usize \<Rightarrow> usize \<Rightarrow> sys_exit sysK" where
  "api_mem_dealloc fuel task a address sz = ecall fuel task 4 (a(0 := address, 1 := sz))"

(* src/lib/rust/kernel/src/lib.rs:218-224 mem_physical_address *)
definition api_mem_physical_address :: "nat \<Rightarrow> usize \<Rightarrow> (nat \<Rightarrow> usize) \<Rightarrow> usize \<Rightarrow> usize \<Rightarrow> usize \<Rightarrow> sys_exit sysK" where
  "api_mem_physical_address fuel task a address store cnt = ecall fuel task 7 (a(0 := address, 1 := store, 2 := cnt))"

(* src/lib/rust/kernel/src/lib.rs:226-232 sys_set_interrupt_controller *)
definition api_sys_set_interrupt_controller :: "nat \<Rightarrow> usize \<Rightarrow> (nat \<Rightarrow> usize) \<Rightarrow> usize \<Rightarrow> usize \<Rightarrow> u16 \<Rightarrow> sys_exit sysK" where
  "api_sys_set_interrupt_controller fuel task a ppn cnt max_devices = ecall fuel task 8 (a(0 := ppn, 1 := cnt, 2 := reg_u16 (a 2) max_devices))"

(* src/lib/rust/kernel/src/lib.rs:234-234 io_notify_return *)
definition api_io_notify_return :: "nat \<Rightarrow> usize \<Rightarrow> (nat \<Rightarrow> usize) \<Rightarrow> sys_exit sysK" where
  "api_io_notify_return fuel task a = ecall fuel task 9 a"

(* src/lib/rust/kernel/src/lib.rs:236-236 sys_reserve_interrupt *)
definition api_sys_reserve_interrupt :: "nat \<Rightarrow> usize \<Rightarrow> (nat \<Rightarrow> usize) \<Rightarrow> usize \<Rightarrow> sys_exit sysK" where
  "api_sys_reserve_interrupt fuel task a interrupt = ecall fuel task 10 (a(0 := interrupt))"

(* src/lib/rust/kernel/src/lib.rs:238-245 task_spawn *)
definition api_task_spawn :: "nat \<Rightarrow> usize \<Rightarrow> (nat \<Rightarrow> usize) \<Rightarrow> usize \<Rightarrow> usize \<Rightarrow> usize \<Rightarrow> usize \<Rightarrow> sys_exit sysK" where
  "api_task_spawn fuel task a mappings mappings_count program_counter stack_pointer =
     ecall fuel task 11 (a(0 := mappings, 1 := mappings_count, 2 := program_counter, 3 := stack_pointer))"

(* src/lib/rust/kernel/src/lib.rs:247-253 dev_dma_alloc *)
definition api_dev_dma_alloc :: "nat \<Rightarrow> usize \<Rightarrow> (nat \<Rightarrow> usize) \<Rightarrow> usize \<Rightarrow> usize \<Rightarrow> u8 \<Rightarrow> sys_exit sysK" where
  "api_dev_dma_alloc fuel task a address sz flags = ecall fuel task 12 (a(0 := address, 1 := sz, 2 := reg_u8 (a 2) flags))"

(* src/lib/rust/kernel/src/lib.rs:255-255 sys_platform_info *)
definition api_sys_platform_info :: "nat \<Rightarrow> usize \<Rightarrow> (nat \<Rightarrow> usize) \<Rightarrow> usize \<Rightarrow> usize \<Rightarrow> sys_exit sysK" where
  "api_sys_platform_info fuel task a address max_count = ecall fuel task 13 (a(0 := address, 1 := max_count))"

(* src/lib/rust/kernel/src/lib.rs:256-263 sys_direct_alloc *)
definition api_sys_direct_alloc :: "nat \<Rightarrow> usize \<Rightarrow> (nat \<Rightarrow> usize) \<Rightarrow> usize \<Rightarrow> usize \<Rightarrow> usize \<Rightarrow> u8 \<Rightarrow> sys_exit sysK" where
  "api_sys_direct_alloc fuel task a address start_page cnt flags =
     ecall fuel task 14 (a(0 := address, 1 := start_page, 2 := cnt, 3 := reg_u8 (a 3) flags))"

(* src/lib/rust/kernel/src/lib.rs:264-264 sys_log *)
definition api_sys_log :: "nat \<Rightarrow> usize \<Rightarrow> (nat \<Rightarrow> usize) \<Rightarrow> usize \<Rightarrow> usize \<Rightarrow> sys_exit sysK" where
  "api_sys_log fuel task a str len = ecall fuel task 15 (a(0 := str, 1 := len))"

(* src/lib/rust/kernel/src/lib.rs:266-272 sys_registry_add *)
definition api_sys_registry_add :: "nat \<Rightarrow> usize \<Rightarrow> (nat \<Rightarrow> usize) \<Rightarrow> usize \<Rightarrow> usize \<Rightarrow> usize \<Rightarrow> sys_exit sysK" where
  "api_sys_registry_add fuel task a name name_length address = ecall fuel task 16 (a(0 := name, 1 := name_length, 2 := address))"

(* src/lib/rust/kernel/src/lib.rs:273-273 sys_registry_get *)
definition api_sys_registry_get :: "nat \<Rightarrow> usize \<Rightarrow> (nat \<Rightarrow> usize) \<Rightarrow> usize \<Rightarrow> usize \<Rightarrow> sys_exit sysK" where
  "api_sys_registry_get fuel task a name name_length = ecall fuel task 17 (a(0 := name, 1 := name_length))"

lemmas api_stubs = api_io_wait_def api_io_set_queues_def api_io_set_notify_handler_def api_mem_alloc_def api_mem_dealloc_def
  api_mem_physical_address_def api_sys_set_interrupt_controller_def api_io_notify_return_def api_sys_reserve_interrupt_def
  api_task_spawn_def api_dev_dma_alloc_def api_sys_platform_info_def api_sys_direct_alloc_def api_sys_log_def
  api_sys_registry_add_def api_sys_registry_get_def

subsection \<open>Codes and flags\<close>

(* src/lib/rust/kernel/src/lib.rs:29-42 Return *)
fun return_code :: "status \<Rightarrow> usize option" where
  "return_code ST_Ok = Some 0"
| "return_code ST_InvalidCall = Some 1"
| "return_code ST_NullArgument = Some 2"
| "return_code ST_MemoryOverlap = Some 3"
| "return_code ST_MemoryUnavailable = Some 4"
| "return_code ST_MemoryLocked = Some 5"
| "return_code ST_MemoryNotAllocated = Some 6"
| "return_code ST_MemoryInvalidProtectionFlags = Some 7"
| "return_code ST_BadAlignment = Some 8"
| "return_code ST_NotFound = Some 9"
| "return_code ST_TooLong = Some 10"
| "return_code ST_Occupied = Some 11"
| "return_code ST_Unavailable = None"

(* src/lib/rust/kernel/src/lib.rs:15-15 PROT_READ *)
definition PROT_READ :: u8 where
  "PROT_READ = 0x1"

(* src/lib/rust/kernel/src/lib.rs:16-16 PROT_WRITE *)
definition PROT_WRITE :: u8 where
  "PROT_WRITE = 0x2"

(* src/lib/rust/kernel/src/lib.rs:17-20 PROT_EXEC *)
definition PROT_EXEC :: u8 where
  "PROT_EXEC = 0x4"

subsection \<open>Operations and identifiers\<close>

(* src/lib/rust/kernel/src/lib.rs:123-138 Op *)
datatype op =
    Op_Read
  | Op_Write
  | Op_Info
  | Op_List
  | Op_MapRead
  | Op_MapWrite
  | Op_MapReadWrite
  | Op_MapExec
  | Op_MapReadExec
  | Op_MapReadCow
  | Op_MapExecCow
  | Op_MapReadExecCow

text \<open>The variants in the order of their discriminants, which start at 1 and have no gaps.\<close>

definition op_variants :: "op list" where
  "op_variants = [Op_Read, Op_Write, Op_Info, Op_List, Op_MapRead, Op_MapWrite, Op_MapReadWrite, Op_MapExec, Op_MapReadExec,
     Op_MapReadCow, Op_MapExecCow, Op_MapReadExecCow]"

(* src/lib/rust/kernel/src/lib.rs:140-145 NonZeroU8::from *)
fun op_u8 :: "op \<Rightarrow> u8" where
  "op_u8 Op_Read = 1"
| "op_u8 Op_Write = 2"
| "op_u8 Op_Info = 3"
| "op_u8 Op_List = 4"
| "op_u8 Op_MapRead = 5"
| "op_u8 Op_MapWrite = 6"
| "op_u8 Op_MapReadWrite = 7"
| "op_u8 Op_MapExec = 8"
| "op_u8 Op_MapReadExec = 9"
| "op_u8 Op_MapReadCow = 10"
| "op_u8 Op_MapExecCow = 11"
| "op_u8 Op_MapReadExecCow = 12"

text \<open>\<open>try_from\<close> transmutes a number that is at most the number of variants; \<open>n\<close> is not 0 by its type.\<close>

(* src/lib/rust/kernel/src/lib.rs:147-162 Op::try_from *)
definition op_try_from :: "u8 \<Rightarrow> op option" where
  "op_try_from n = (if unat n \<le> length op_variants then Some (op_variants ! (unat n - 1)) else None)"

(* src/lib/rust/kernel/src/lib.rs:52-58 UUID *)
type_synonym uuid = "u64 \<times> u64"

(* src/lib/rust/kernel/src/lib.rs:64-69 UUID::new *)
definition uuid_new :: "u128 \<Rightarrow> uuid" where
  "uuid_new u = (ucast u, ucast (drop_bit 64 u))"

(* src/lib/rust/kernel/src/lib.rs:78-82 u128::from *)
definition uuid_u128 :: "uuid \<Rightarrow> u128" where
  "uuid_u128 u = ucast (fst u) OR push_bit 64 (ucast (snd u))"

text \<open>The bytes that \<open>Display\<close> prints, two digits each; a shift by more than 127 wraps around.\<close>

(* src/lib/rust/kernel/src/lib.rs:90-105 UUID::fmt *)
definition uuid_shown :: "uuid \<Rightarrow> u8 list" where
  "uuid_shown u = (let n = uuid_u128 u in
     [ucast n, ucast (drop_bit 8 n)]
     @ concat (map (\<lambda>i. [ucast (drop_bit ((16 * i) mod 128) n), ucast (drop_bit ((24 * i) mod 128) n)]) [1..<8]))"

subsection \<open>Structures in memory\<close>

text \<open>
  The offsets of the fields of a structure with the layout of C, and its size, from the size and the
  alignment of the fields.
\<close>

definition align_up :: "nat \<Rightarrow> nat \<Rightarrow> nat" where
  "align_up n a = (n + a - 1) div a * a"

fun field_offsets :: "nat \<Rightarrow> (nat \<times> nat) list \<Rightarrow> nat list" where
  "field_offsets off [] = [align_up off 8]"
| "field_offsets off ((sz, al) # fs) = align_up off al # field_offsets (align_up off al + sz) fs"

(* src/lib/rust/kernel/src/lib.rs:107-121 Packet *)
definition packet_fields :: "(nat \<times> nat) list" where
  "packet_fields = [(16, 8), (8, 8), (8, 8), (8, 8), (8, 8), (8, 8), (2, 2), (2, 2), (1, 1), (1, 1)]"

(* src/lib/rust/kernel/src/lib.rs:164-168 FreePage *)
definition free_page_fields :: "(nat \<times> nat) list" where
  "free_page_fields = [(8, 8), (8, 8)]"

(* src/lib/rust/kernel/src/lib.rs:191-197 TaskSpawnMapping *)
definition mapping_fields :: "(nat \<times> nat) list" where
  "mapping_fields = [(8, 8), (1, 1), (1, 1), (8, 8)]"

text \<open>The same structures as the kernel declares them.\<close>

(* src/kernel/src/task/ipc.rs:14-26 Packet *)
definition kernel_packet_fields :: "(nat \<times> nat) list" where
  "kernel_packet_fields = [(2 * 8, 8), (8, 8), (8, 8), (8, 8), (8, 8), (8, 8), (2, 2), (2, 2), (1, 1), (1, 1)]"

(* src/kernel/src/task/ipc.rs:363-367 FreePage *)
definition kernel_free_page_fields :: "(nat \<times> nat) list" where
  "kernel_free_page_fields = [(8, 8), (8, 8)]"

(* src/kernel/src/syscall.rs:96-102 Mapping *)
definition kernel_mapping_fields :: "(nat \<times> nat) list" where
  "kernel_mapping_fields = [(8, 8), (1, 1), (1, 1), (8, 8)]"

subsection \<open>Physical addresses\<close>

text \<open>\<open>checked_shl\<close> fails for shifts of 64 and more only, whatever bits are shifted out.\<close>

(* src/lib/rust/kernel/src/lib.rs:339-348 PhysicalAddress::try_from *)
definition pa_from_ppn :: "usize \<Rightarrow> usize option" where
  "pa_from_ppn ppn = (if 12 < (64 :: nat) then Some (push_bit 12 ppn) else None)"

(* src/lib/rust/kernel/src/lib.rs:350-358 PPN::try_from *)
definition ppn_from_pa :: "usize \<Rightarrow> usize option" where
  "ppn_from_pa pa = (if pa AND PAGE_OFFSET_MASK = 0 then Some (drop_bit 12 pa) else None)"

subsection \<open>The log\<close>

(* src/lib/rust/kernel/src/lib.rs:275-285 SysLog::write_str *)
definition syslog_write_str :: "nat \<Rightarrow> usize \<Rightarrow> (nat \<Rightarrow> usize) \<Rightarrow> usize \<Rightarrow> usize \<Rightarrow> (unit + unit) sysK" where
  "syslog_write_str fuel task a str len =
     bindK (api_sys_log fuel task a str len) (\<lambda>r. case r of
       Return st _ \<Rightarrow> retK (if status_u8 st = 0 then Inr () else Inl ())
     | _ \<Rightarrow> panicK Endless_Loop)"

subsection \<open>Agreement with the kernel\<close>

text \<open>The handlers do not look at the bits above a narrow argument.\<close>

lemma reg_low:
  "ucast (reg_u8 r b) = b" "ucast (reg_u16 r h) = h" "ucast (ucast b :: usize) = b" "ucast (ucast h :: usize) = h"
  "sys_mem_alloc p n (reg_u8 r b) = sys_mem_alloc p n (ucast b)"
proof -
  show "ucast (reg_u8 r b) = b" "ucast (reg_u16 r h) = h" "ucast (ucast b :: usize) = b" "ucast (ucast h :: usize) = h"
    by (rule bit_word_eqI; auto simp: reg_u8_def reg_u16_def bit_simps dest: bit_imp_le_length)+
  have "reg_u8 r b AND mask 3 = ucast b AND mask 3" by (rule bit_word_eqI) (auto simp: reg_u8_def bit_simps)
  then have "decode_rwx_flags (reg_u8 r b) = decode_rwx_flags (ucast b)" by (simp add: decode_rwx_flags_def mask_eq_exp_minus_1)
  then show "sys_mem_alloc p n (reg_u8 r b) = sys_mem_alloc p n (ucast b)" by (simp only: sys_mem_alloc_def)
qed

lemma stubs_call_handlers:
  "api_io_wait fuel task a x = sys_io_wait fuel task x"
  "api_io_set_queues fuel task a x b y z = sys_io_set_queues task x (ucast b) y z"
  "api_io_set_notify_handler fuel task a x = sys_io_set_notify_handler task x"
  "api_mem_alloc fuel task a x y b = sys_mem_alloc x y (ucast b)"
  "api_mem_dealloc fuel task a x y = sys_mem_dealloc x y"
  "api_mem_physical_address fuel task a x y z = sys_mem_physical_addresses x y z"
  "api_sys_set_interrupt_controller fuel task a x y h = sys_set_interrupt_controller x y (ucast h)"
  "api_io_notify_return fuel task a = sys_io_notify_return task (a 0)"
  "api_sys_reserve_interrupt fuel task a x = sys_reserve_interrupt x"
  "api_task_spawn fuel task a x y z w = sys_task_spawn x y z w"
  "api_dev_dma_alloc fuel task a x y b = sys_dev_dma_alloc x y"
  "api_sys_platform_info fuel task a x y = sys_platform_info x"
  "api_sys_direct_alloc fuel task a x y z b = sys_direct_alloc x y z"
  "api_sys_log fuel task a x y = sys_log x y"
  "api_sys_registry_add fuel task a x y z = sys_registry_add x y z"
  "api_sys_registry_get fuel task a x y = sys_registry_get x y"
  by (simp_all add: api_stubs ecall_def syscall_table_def sys_io_set_queues_def sys_set_interrupt_controller_def reg_low)

lemma return_code_status: "return_code st = Some c \<longleftrightarrow> st \<noteq> ST_Unavailable \<and> c = ucast (status_u8 st)"
  by (cases st) auto

lemma op_variants_u8: "k < 12 \<Longrightarrow> op_u8 (op_variants ! k) = of_nat (Suc k)"
  by (auto simp: op_variants_def less_Suc_eq numeral_eq_Suc)

lemma op_try_from_u8: "n \<noteq> 0 \<Longrightarrow> op_try_from n = Some p \<longleftrightarrow> op_u8 p = n"
proof
  assume n: "n \<noteq> 0" and "op_try_from n = Some p"
  then have "unat n \<le> 12" "p = op_variants ! (unat n - 1)" by (auto simp: op_try_from_def op_variants_def split: if_splits)
  moreover have "Suc (unat n - 1) = unat n" using n by (cases "unat n") (auto simp: unat_eq_zero)
  ultimately show "op_u8 p = n" using op_variants_u8 [of "unat n - 1"] by simp
next
  assume "op_u8 p = n"
  then show "op_try_from n = Some p" by (cases p) (auto simp: op_try_from_def op_variants_def)
qed

lemma uuid_roundtrip: "uuid_u128 (uuid_new u) = u" "uuid_new (uuid_u128 v) = v"
proof -
  show "uuid_u128 (uuid_new u) = u" by (rule bit_word_eqI) (auto simp: uuid_u128_def uuid_new_def bit_simps)
  have "ucast (ucast x OR push_bit 64 (ucast y) :: u128) = x" "ucast (drop_bit 64 (ucast x OR push_bit 64 (ucast y) :: u128)) = y" for x y :: u64
    by (rule bit_word_eqI, auto simp: bit_simps dest: bit_imp_le_length)+
  then show "uuid_new (uuid_u128 v) = v" by (simp add: uuid_u128_def uuid_new_def)
qed

lemma layouts_agree:
  "field_offsets 0 packet_fields = field_offsets 0 kernel_packet_fields" "field_offsets 0 free_page_fields = field_offsets 0 kernel_free_page_fields"
  "field_offsets 0 mapping_fields = field_offsets 0 kernel_mapping_fields"
  by (simp_all add: packet_fields_def kernel_packet_fields_def free_page_fields_def kernel_free_page_fields_def mapping_fields_def kernel_mapping_fields_def)

text \<open>\<open>Display\<close> never shows bits 56 to 63, so different identifiers can look the same.\<close>

lemma uuid_shown_ambiguous: "uuid_shown (0, 0) = uuid_shown (push_bit 56 1, 0)" "(0, 0) \<noteq> (push_bit 56 1 :: u64, 0 :: u64)"
  by (simp_all add: uuid_shown_def uuid_u128_def Let_def upt_rec)

text \<open>A page number that does not fit is cut off instead of refused.\<close>

lemma pa_from_ppn_wraps: "pa_from_ppn (push_bit 52 1) = Some 0"
  by (simp add: pa_from_ppn_def)

subsection \<open>Calls on the machine\<close>

text \<open>
  A stub as it runs: the registers are set, \<open>ecall\<close> traps into the kernel, and when the task goes on the
  status is all of \<open>a0\<close> and the value is \<open>a1\<close>. The result is \<^const>\<open>None\<close> when another task runs or none.
\<close>

definition set_args :: "usize \<Rightarrow> usize list \<Rightarrow> (nat \<Rightarrow> usize) \<Rightarrow> nat \<Rightarrow> usize" where
  "set_args code args x = (\<lambda>n. if n = 17 then code else if 10 \<le> n \<and> n - 10 < length args then args ! (n - 10) else x n)"

(* src/lib/rust/kernel/src/riscv.rs:3-66 syscall! *)
definition stub_call :: "nat \<Rightarrow> usize \<Rightarrow> u32 \<Rightarrow> usize \<Rightarrow> usize list \<Rightarrow> cpu \<Rightarrow> ((usize \<times> usize) option \<times> cpu) may_panic" where
  "stub_call fuel padding source code args c =
     bindP (deliver fuel padding source False 8 (c\<lparr>c_x := set_args code args (c_x c)\<rparr>)) (\<lambda>(r, c').
     Inr (if r = Resumed then Some (c_x c' 10, c_x c' 11) else None, c'))"

text \<open>A register whose low byte is set is that byte exactly when the bits above it are zero.\<close>

lemma padded_byte: "push_bit 8 padding OR ucast (b :: u8) = (ucast b :: usize) \<longleftrightarrow> take_bit 56 padding = 0"
proof
  assume e: "push_bit 8 padding OR ucast b = (ucast b :: usize)"
  show "take_bit 56 padding = 0"
  proof (rule bit_word_eqI)
    fix n assume "n < LENGTH(64)"
    have "bit (push_bit 8 padding OR ucast b) (n + 8) \<longleftrightarrow> bit (ucast b :: usize) (n + 8)" unfolding e ..
    then show "bit (take_bit 56 padding) n \<longleftrightarrow> bit (0 :: usize) n"
      using bit_imp_le_length [of b "n + 8"] by (auto simp: bit_simps)
  qed
next
  assume z: "take_bit 56 padding = 0"
  have "\<not> bit padding n" if "n < 56" for n
    using bit_take_bit_iff [of 56 padding n] that unfolding z by simp
  then show "push_bit 8 padding OR ucast b = (ucast b :: usize)"
    by (intro bit_word_eqI) (auto simp: bit_simps)
qed

text \<open>
  C37. A stub gives its caller what the handler returned, but the status only if the kernel happens to clear
  the rest of the register. When the handler that the number selects returns a status and a value for the
  arguments of the stub, the task goes on behind the \<open>ecall\<close> with the kernel's new state, the value is the
  handler's, every register but \<open>a0\<close> and \<open>a1\<close> is as the stub had set it, and the low byte of the status is
  the handler's. The kernel sets only that byte, and the stub reads the whole register: the status is the
  code that the bindings define for it exactly when the 56 bits above are zero. The status
  \<open>Unavailable\<close> has no code in the bindings.
\<close>

theorem stub_call_returns:
  fixes c :: cpu and code :: nat and args :: "usize list"
  defines "x \<equiv> set_args (of_nat code) args (c_x c)" and "t \<equiv> sc_sscratch (c_sched c)"
  assumes "t \<noteq> 0" "sc_task_data_address (c_sched c) \<noteq> t" "code < 20"
    "ecall fuel t code (\<lambda>i. x (10 + i)) (c_kernel (save_context (c_pc c + 4) (take_trap 8 (c\<lparr>c_x := x\<rparr>)))) = Inr (Return st v, k')"
  shows "\<exists>status c'. stub_call fuel padding source (of_nat code) args c = Inr (Some (status, v), c')
    \<and> c_kernel c' = k' \<and> c_user c' \<and> c_pc c' = c_pc c + 4 \<and> (\<forall>n \<in> {1..31} - {10, 11}. c_x c' n = x n)
    \<and> ucast status = status_u8 st \<and> (return_code st = Some status \<longleftrightarrow> st \<noteq> ST_Unavailable \<and> take_bit 56 padding = 0)"
proof -
  let ?c = "c\<lparr>c_x := x\<rparr>"
  have "unat (of_nat code :: usize) = code" using assms(5) by (intro unat_of_nat_less) simp
  then have "unat (c_x ?c 17) = code" "\<not> 20 \<le> c_x ?c 17" using assms(5) by (simp_all add: x_def set_args_def word_le_nat_alt)
  with ecall_returns [of ?c fuel st v k' padding source] assms(3,4,6) obtain c' where
    c': "deliver fuel padding source False 8 ?c = Inr (Resumed, c')" "c_user c'" "c_pc c' = c_pc c + 4" "c_kernel c' = k'"
      "c_x c' 10 = push_bit 8 padding OR ucast (status_u8 st)" "c_x c' 11 = v" "\<forall>n \<in> {1..31} - {10, 11}. c_x c' n = x n"
    by (auto simp: ecall_def t_def)
  have "return_code st = Some (c_x c' 10) \<longleftrightarrow> st \<noteq> ST_Unavailable \<and> take_bit 56 padding = 0"
    unfolding return_code_status c'(5) padded_byte ..
  moreover have "ucast (c_x c' 10) = status_u8 st" unfolding c'(5) by (rule bit_word_eqI) (auto simp: bit_simps)
  moreover have "stub_call fuel padding source (of_nat code) args c = Inr (Some (c_x c' 10, v), c')"
    using c'(1,6) by (simp add: stub_call_def flip: x_def)
  ultimately show ?thesis using c' by blast
qed

text \<open>\<open>io_set_notify_handler\<close> with a handler at \<open>0x9000\<close>, when the kernel clears the register and when it does not.\<close>

lemma stub_call_returns_witness:
  "(\<exists>c'. stub_call 0 0 0 2 [0x9000] cpu_ex = Inr (Some (0, 0), c'))
   \<and> (\<exists>status c'. stub_call 0 1 0 2 [0x9000] cpu_ex = Inr (Some (status, 0), c') \<and> return_code ST_Ok \<noteq> Some status)"
proof -
  let ?x = "set_args (of_nat 2) [0x9000] (c_x cpu_ex)"
  have t: "sc_sscratch (c_sched cpu_ex) = 0x5000" "sc_task_data_address (c_sched cpu_ex) = 0x3000" by (simp_all add: cpu_ex_def sched_ex_def)
  have "\<exists>k'. ecall 0 0x5000 2 (\<lambda>i. ?x (10 + i)) (c_kernel (save_context (c_pc cpu_ex + 4) (take_trap 8 (cpu_ex\<lparr>c_x := ?x\<rparr>)))) = Inr (Return ST_Ok 0, k')"
    by (simp add: ecall_def syscall_table_def sys_io_set_notify_handler_def set_notification_handler_def set_args_def)
      (simp add: save_context_def set_saved_def upd_task_def Let_def cpu_ex_def sched_ex_def task_ex_def)
  then obtain k' where k: "ecall 0 (sc_sscratch (c_sched cpu_ex)) 2 (\<lambda>i. ?x (10 + i))
      (c_kernel (save_context (c_pc cpu_ex + 4) (take_trap 8 (cpu_ex\<lparr>c_x := ?x\<rparr>)))) = Inr (Return ST_Ok 0, k')" unfolding t by blast
  have n: "sc_sscratch (c_sched cpu_ex) \<noteq> 0" "sc_task_data_address (c_sched cpu_ex) \<noteq> sc_sscratch (c_sched cpu_ex)" "(2 :: nat) < 20" unfolding t by simp_all
  have "take_bit 56 (1 :: usize) \<noteq> 0" by simp
  then show ?thesis using stub_call_returns [OF n k, of 0 0] stub_call_returns [OF n k, of 1 0] by auto
qed

end
