(* ===== verification/Byte_Memory.thy ===== *)
theory Byte_Memory
  imports Norost_Prelude
begin

text \<open>
  Memory as bytes, for the code that reads and writes it through raw pointers: device trees, ELF files and
  the stacks of new tasks. Memory is a function from addresses to bytes, and every address can be read.
\<close>

type_synonym memory = "usize \<Rightarrow> u8"

definition bytes_at :: "memory \<Rightarrow> usize \<Rightarrow> nat \<Rightarrow> u8 list" where
  "bytes_at mem p n = map (\<lambda>k. mem (p + of_nat k)) [0..<n]"

text \<open>\<open>holds mem p bs\<close>: the bytes \<open>bs\<close> are at the address \<open>p\<close>.\<close>

definition holds :: "memory \<Rightarrow> usize \<Rightarrow> u8 list \<Rightarrow> bool" where
  "holds mem p bs \<longleftrightarrow> bytes_at mem p (length bs) = bs"

definition write_bytes :: "usize \<Rightarrow> u8 list \<Rightarrow> memory \<Rightarrow> memory" where
  "write_bytes p bs mem = (\<lambda>a. if unat (a - p) < length bs then bs ! unat (a - p) else mem a)"

text \<open>Little-endian integers of \<open>n\<close> bytes.\<close>

definition le_bytes :: "nat \<Rightarrow> 'a::len word \<Rightarrow> u8 list" where
  "le_bytes n w = map (\<lambda>k. ucast (drop_bit (8 * k) w)) [0..<n]"

definition le_at :: "nat \<Rightarrow> memory \<Rightarrow> usize \<Rightarrow> 'a::len word" where
  "le_at n mem p = foldr (\<lambda>b w. push_bit 8 w OR ucast b) (bytes_at mem p n) 0"

abbreviation le16_bytes :: "u16 \<Rightarrow> u8 list" where "le16_bytes \<equiv> le_bytes 2"
abbreviation le32_bytes :: "u32 \<Rightarrow> u8 list" where "le32_bytes \<equiv> le_bytes 4"
abbreviation le64_bytes :: "u64 \<Rightarrow> u8 list" where "le64_bytes \<equiv> le_bytes 8"
abbreviation le16_at :: "memory \<Rightarrow> usize \<Rightarrow> u16" where "le16_at \<equiv> le_at 2"
abbreviation le32_at :: "memory \<Rightarrow> usize \<Rightarrow> u32" where "le32_at \<equiv> le_at 4"
abbreviation le64_at :: "memory \<Rightarrow> usize \<Rightarrow> u64" where "le64_at \<equiv> le_at 8"

text \<open>The bytes from an address to the next multiple of a size.\<close>

definition align_offset :: "usize \<Rightarrow> usize \<Rightarrow> usize" where
  "align_offset p sz = (- p) mod sz"

subsection \<open>Bytes that are held\<close>

lemma length_bytes_at [simp]: "length (bytes_at mem p n) = n"
  by (simp add: bytes_at_def)

lemma bytes_at_add: "bytes_at mem p (m + n) = bytes_at mem p m @ bytes_at mem (p + of_nat m) n"
  by (rule nth_equalityI) (auto simp: bytes_at_def nth_append algebra_simps of_nat_diff)

lemma bytes_at_Suc: "bytes_at mem p (Suc n) = mem p # bytes_at mem (p + 1) n"
  using bytes_at_add [of mem p 1 n] by (simp add: bytes_at_def)

lemma holds_Nil [simp]: "holds mem p []"
  by (simp add: holds_def bytes_at_def)

lemma holds_Cons [simp]: "holds mem p (b # bs) \<longleftrightarrow> mem p = b \<and> holds mem (p + 1) bs"
  by (simp add: holds_def bytes_at_Suc)

lemma holds_append [simp]: "holds mem p (a @ b) \<longleftrightarrow> holds mem p a \<and> holds mem (p + of_nat (length a)) b"
  by (simp add: holds_def bytes_at_add append_eq_append_conv)

lemma holds_bytes_at: "holds mem p bs \<Longrightarrow> length bs \<le> n \<Longrightarrow> \<exists>r. bytes_at mem p n = bs @ r"
  using bytes_at_add [of mem p "length bs" "n - length bs"] by (auto simp: holds_def)

lemma holds_iff_nth: "holds mem p bs \<longleftrightarrow> (\<forall>k < length bs. mem (p + of_nat k) = bs ! k)"
proof -
  have "bytes_at mem p (length bs) ! k = mem (p + of_nat k)" if "k < length bs" for k using that by (simp add: bytes_at_def)
  then show ?thesis unfolding holds_def by (metis length_bytes_at nth_equalityI)
qed

lemma unat_diff_nat:
  assumes "a < 2 ^ 64" "b < 2 ^ 64"
  shows "unat (of_nat a - of_nat b :: usize) = (if b \<le> a then a - b else a + 2 ^ 64 - b)"
proof -
  have "unat (of_nat a :: usize) = a" "unat (of_nat b :: usize) = b" using assms by (simp_all add: unat_of_nat_less)
  then show ?thesis by (simp add: unat_sub_if' word_le_nat_alt)
qed

text \<open>Overwriting a part of what is held.\<close>

lemma holds_overwrite:
  assumes "holds mem p (x @ g @ r)" "length bs = length g" "length (x @ g @ r) < 2 ^ 64"
  shows "holds (write_bytes (p + of_nat (length x)) bs mem) p (x @ bs @ r)"
  unfolding holds_iff_nth
proof (intro allI impI)
  fix k assume k: "k < length (x @ bs @ r)"
  have u: "unat (p + of_nat k - (p + of_nat (length x))) = (if length x \<le> k then k - length x else k + 2 ^ 64 - length x)"
    using unat_diff_nat [of k "length x"] k assms(2,3) by simp
  have m: "mem (p + of_nat k) = (x @ g @ r) ! k" using assms(1,2) k unfolding holds_iff_nth by simp
  consider "k < length x" | "length x \<le> k" "k < length x + length bs" | "length x + length bs \<le> k" by linarith
  then show "write_bytes (p + of_nat (length x)) bs mem (p + of_nat k) = (x @ bs @ r) ! k"
  proof cases
    case 1
    then have "\<not> k + 2 ^ 64 - length x < length bs" using assms(2,3) by simp
    then show ?thesis using 1 u m by (simp add: write_bytes_def nth_append)
  next
    case 2
    then have "k - length x < length bs" by linarith
    then show ?thesis using 2 u by (simp add: write_bytes_def nth_append)
  next
    case 3
    then have "\<not> k - length x < length bs" by linarith
    then show ?thesis using 3 u m assms(2) by (simp add: write_bytes_def nth_append)
  qed
qed

subsection \<open>Integers that are held\<close>

lemma length_le_bytes [simp]: "length (le_bytes n w) = n"
  by (simp add: le_bytes_def)

lemma le_bytes_fold: "foldr (\<lambda>b w. push_bit 8 w OR ucast b) (le_bytes n w) 0 = take_bit (8 * n) (w :: 'a::len word)"
proof (induction n arbitrary: w)
  case (Suc n)
  have "le_bytes (Suc n) w = ucast w # le_bytes n (drop_bit 8 w)"
    by (simp add: le_bytes_def map_upt_Suc add.commute del: upt_Suc)
  moreover have "push_bit 8 (take_bit (8 * n) (drop_bit 8 w)) OR ucast (ucast w :: u8) = take_bit (8 * Suc n) w"
    by (rule bit_word_eqI) (auto simp: bit_simps)
  ultimately show ?case using Suc.IH [of "drop_bit 8 w"] by simp
qed (simp add: le_bytes_def)

lemma le_at_holds: "holds mem p (le_bytes n w) \<Longrightarrow> LENGTH('a) = 8 * n \<Longrightarrow> le_at n mem p = (w :: 'a::len word)"
  using le_bytes_fold [of n w] by (simp add: holds_def le_at_def take_bit_word_eq_self)

lemma le16_at_holds: "holds mem p (le16_bytes w) \<Longrightarrow> le16_at mem p = w"
  by (rule le_at_holds) simp_all

lemma le32_at_holds: "holds mem p (le32_bytes w) \<Longrightarrow> le32_at mem p = w"
  by (rule le_at_holds) simp_all

lemma le64_at_holds: "holds mem p (le64_bytes w) \<Longrightarrow> le64_at mem p = w"
  by (rule le_at_holds) simp_all

end
