(* ===== verification/Fdt_Format.thy ===== *)
theory Fdt_Format
  imports Byte_Memory
begin

text \<open>
  The flattened device tree that the firmware leaves in memory: big-endian integers, the header, and a
  reference encoding of trees. The two parsers of the repository, one in the user library and one in
  the kernel, are modelled in the theories \<open>Device_Tree\<close> and \<open>Kernel_Device_Tree\<close>, and both read the
  bytes of this theory.
\<close>

subsection \<open>Big-endian integers\<close>

definition be32 :: "u8 \<Rightarrow> u8 \<Rightarrow> u8 \<Rightarrow> u8 \<Rightarrow> u32" where
  "be32 a b c d = push_bit 24 (ucast a) OR push_bit 16 (ucast b) OR push_bit 8 (ucast c) OR ucast d"

definition be32_at :: "memory \<Rightarrow> usize \<Rightarrow> u32" where
  "be32_at mem p = be32 (mem p) (mem (p + 1)) (mem (p + 2)) (mem (p + 3))"

definition be64_at :: "memory \<Rightarrow> usize \<Rightarrow> u64" where
  "be64_at mem p = push_bit 32 (ucast (be32_at mem p)) OR ucast (be32_at mem (p + 4))"

definition be_bytes :: "u32 \<Rightarrow> u8 list" where
  "be_bytes w = [ucast (drop_bit 24 w), ucast (drop_bit 16 w), ucast (drop_bit 8 w), ucast w]"

lemma length_be_bytes [simp]: "length (be_bytes w) = 4"
  by (simp add: be_bytes_def)

lemma be_bytes_not_Nil [simp]: "be_bytes w \<noteq> []"
  by (simp add: be_bytes_def)

lemma be32_be_bytes: "be32 (ucast (drop_bit 24 w)) (ucast (drop_bit 16 w)) (ucast (drop_bit 8 w)) (ucast w) = w"
proof (rule bit_word_eqI)
  fix n assume "n < LENGTH(32)"
  then consider "n < 8" | "8 \<le> n" "n < 16" | "16 \<le> n" "n < 24" | "24 \<le> n" "n < 32" by fastforce
  then show "bit (be32 (ucast (drop_bit 24 w)) (ucast (drop_bit 16 w)) (ucast (drop_bit 8 w)) (ucast w)) n = bit w n"
    by cases (auto simp: be32_def bit_simps)
qed

lemma be32_at_holds: "holds mem p (be_bytes w) \<Longrightarrow> be32_at mem p = w"
  by (simp add: be_bytes_def be32_at_def add.assoc be32_be_bytes)

text \<open>Padding to whole words.\<close>

definition pad4 :: "u8 list \<Rightarrow> u8 list" where
  "pad4 bs = bs @ replicate ((4 - length bs mod 4) mod 4) 0"

lemma length_pad4: "length (pad4 bs) = 4 * ((length bs + 3) div 4)"
proof -
  have "n + (4 - n mod 4) mod 4 = 4 * ((n + 3) div 4)" for n :: nat
  proof -
    have "4 * q + r + (4 - r) mod 4 = 4 * ((4 * q + r + 3) div 4)" if "r < 4" for q r :: nat
    proof -
      from that consider "r = 0" | "r = 1" | "r = 2" | "r = 3" by linarith
      then show ?thesis by cases simp_all
    qed
    from this [of "n mod 4" "n div 4"] show ?thesis by simp
  qed
  then show ?thesis by (simp add: pad4_def)
qed

subsection \<open>C strings\<close>

text \<open>A string ends at the first zero byte of a slice.\<close>

(* src/lib/rust/device_tree/src/lib.rs:496-501 cstr_to_str *)
definition cstr_to_str :: "u8 list \<Rightarrow> u8 list option" where
  "cstr_to_str s = (if 0 \<in> set s then Some (takeWhile (\<lambda>c. c \<noteq> 0) s) else None)"

lemma cstr_to_str_Some: "0 \<notin> set n \<Longrightarrow> cstr_to_str (n @ 0 # r) = Some n"
  by (auto simp: cstr_to_str_def takeWhile_append2 [where xs = n] takeWhile_tail)

lemma cstr_to_str_bounded: "cstr_to_str s = Some n \<Longrightarrow> length n < length s"
proof -
  have "0 \<in> set s \<Longrightarrow> length (takeWhile (\<lambda>c. c \<noteq> 0) s) < length s" by (induction s) auto
  then show "cstr_to_str s = Some n \<Longrightarrow> length n < length s" by (auto simp: cstr_to_str_def split: if_splits)
qed

subsection \<open>The header\<close>

(* src/lib/rust/device_tree/src/lib.rs:53-75 Header *)
record fdt_header =
  fh_magic :: u32
  fh_total_size :: u32
  fh_offset_structure_block :: u32
  fh_offset_strings_block :: u32
  fh_offset_memory_reservation_block :: u32
  fh_version :: u32
  fh_last_compatible_version :: u32
  fh_boot_cpu_id_physical :: u32
  fh_size_strings_block :: u32
  fh_size_structure_block :: u32

definition header_at :: "memory \<Rightarrow> usize \<Rightarrow> fdt_header" where
  "header_at mem p =
     \<lparr>fh_magic = be32_at mem p, fh_total_size = be32_at mem (p + 4),
      fh_offset_structure_block = be32_at mem (p + 8), fh_offset_strings_block = be32_at mem (p + 12),
      fh_offset_memory_reservation_block = be32_at mem (p + 16), fh_version = be32_at mem (p + 20),
      fh_last_compatible_version = be32_at mem (p + 24), fh_boot_cpu_id_physical = be32_at mem (p + 28),
      fh_size_strings_block = be32_at mem (p + 32), fh_size_structure_block = be32_at mem (p + 36)\<rparr>"

definition FDT_MAGIC :: u32 where "FDT_MAGIC = 0xd00dfeed"

abbreviation (input) "TOKEN_BEGIN_NODE \<equiv> 1 :: u32"
abbreviation (input) "TOKEN_END_NODE \<equiv> 2 :: u32"
abbreviation (input) "TOKEN_PROP \<equiv> 3 :: u32"
abbreviation (input) "TOKEN_NOP \<equiv> 4 :: u32"
abbreviation (input) "TOKEN_END \<equiv> 9 :: u32"

subsection \<open>Trees and their encoding\<close>

text \<open>
  A node has a name, properties (a name and a value) and children. Names of properties are kept in the
  strings block; \<open>off\<close> gives the place of each.
\<close>

datatype dt_tree = DT_Node (dt_name: "u8 list") (dt_props: "(u8 list \<times> u8 list) list") (dt_children: "dt_tree list")

definition prop_bytes :: "(u8 list \<Rightarrow> u32) \<Rightarrow> u8 list \<times> u8 list \<Rightarrow> u8 list" where
  "prop_bytes off p = be_bytes TOKEN_PROP @ be_bytes (of_nat (length (snd p))) @ be_bytes (off (fst p)) @ pad4 (snd p)"

primrec node_bytes :: "(u8 list \<Rightarrow> u32) \<Rightarrow> dt_tree \<Rightarrow> u8 list" where
  "node_bytes off (DT_Node n ps cs) =
     be_bytes TOKEN_BEGIN_NODE @ pad4 (n @ [0]) @ concat (map (prop_bytes off) ps)
     @ concat (map (node_bytes off) cs) @ be_bytes TOKEN_END_NODE"

text \<open>The steps that a reader needs at most for a tree.\<close>

primrec dt_weight :: "dt_tree \<Rightarrow> nat" where
  "dt_weight (DT_Node n ps cs) =
     4 + length n + sum_list (map (\<lambda>p. 2 + length (fst p)) ps) + sum_list (map dt_weight cs)"

primrec dt_nodes :: "dt_tree \<Rightarrow> nat" where
  "dt_nodes (DT_Node n ps cs) = 1 + sum_list (map dt_nodes cs)"

text \<open>What holds of every node of a tree.\<close>

primrec dt_all :: "(u8 list \<Rightarrow> (u8 list \<times> u8 list) list \<Rightarrow> bool) \<Rightarrow> dt_tree \<Rightarrow> bool" where
  "dt_all P (DT_Node n ps cs) \<longleftrightarrow> P n ps \<and> list_all (dt_all P) cs"

text \<open>The strings block at \<open>s\<close> with \<open>sz\<close> bytes holds the string \<open>n\<close> at its offset.\<close>

definition string_at :: "memory \<Rightarrow> usize \<Rightarrow> nat \<Rightarrow> (u8 list \<Rightarrow> u32) \<Rightarrow> u8 list \<Rightarrow> bool" where
  "string_at mem s sz off n \<longleftrightarrow> 0 \<notin> set n \<and> unat (off n) + length n < sz \<and> holds mem (s + ucast (off n)) (n @ [0])"

lemma node_bytes_4: "4 dvd length (node_bytes off t)"
proof (induction t)
  case (DT_Node n ps cs)
  have "4 dvd length (concat (map (prop_bytes off) ps))"
    by (induction ps) (auto simp: prop_bytes_def length_pad4)
  moreover have "4 dvd length (concat (map (node_bytes off) cs))"
    using DT_Node by (induction cs) auto
  ultimately show ?case by (simp add: length_pad4)
qed

lemma prop_bytes_4: "4 dvd length (prop_bytes off p)"
  by (simp add: prop_bytes_def length_pad4)

lemma node_bytes_bound: "8 \<le> length (node_bytes off t)"
  by (cases t) simp

end
