(* ===== verification/Device_Tree.thy ===== *)
theory Device_Tree
  imports Fdt_Format
begin

text \<open>
  The device tree library for user programs (\<open>lib/rust/device_tree/src/lib.rs\<close>): checking the header,
  parsing a node, and the iterators over its properties and its children. The position in the tree is
  a 32-bit index of words. The loops take a bound on their steps; \<open>node_new_ends\<close> shows that the length
  of the data is enough, so that a corrupt tree ends in an error or in a panic but never in an endless
  loop. \<open>read_node_tree\<close> shows that a tree that is encoded in memory is read back as it is.
\<close>

subsection \<open>The data\<close>

text \<open>The data is a slice of words: an address and a length.\<close>

(* src/lib/rust/device_tree/src/lib.rs:24-26 DeviceTree *)
record dtb =
  dt_ptr :: usize
  dt_len :: usize

(* src/lib/rust/device_tree/src/lib.rs:30-36 ParseError *)
datatype dt_parse_error = DT_TooShort | DT_BadMagic u32

(* src/lib/rust/device_tree/src/lib.rs:38-50 ParseNodeError *)
datatype parse_node_error = UnexpectedToken | UnterminatedName | OutOfBounds | TooShort | BadCellsValue

(* src/lib/rust/device_tree/src/lib.rs:91-106 Node *)
record dt_node =
  nd_name :: "u8 list"
  nd_address_cells :: u32
  nd_size_cells :: u32
  nd_interrupt_cells :: u32
  nd_properties :: u32
  nd_children :: u32

(* src/lib/rust/device_tree/src/lib.rs:109-114 Property *)
record dt_property =
  pr_value :: "u8 list"
  pr_name :: "u8 list"

definition dtb_addr :: "dtb \<Rightarrow> u32 \<Rightarrow> usize" where
  "dtb_addr d position = dt_ptr d + 4 * ucast position"

(* src/lib/rust/device_tree/src/lib.rs:207-210 DeviceTree::header *)
definition dtb_header :: "memory \<Rightarrow> dtb \<Rightarrow> fdt_header" where
  "dtb_header mem d = header_at mem (dt_ptr d)"

(* src/lib/rust/device_tree/src/lib.rs:213-218 DeviceTree::get *)
definition dtb_get :: "memory \<Rightarrow> dtb \<Rightarrow> u32 \<Rightarrow> u32 option" where
  "dtb_get mem d position =
     (if ucast position < dt_len d then Some (be32_at mem (dtb_addr d position)) else None)"

text \<open>The bytes of the subslice \<open>data[offset..]\<close>.\<close>

definition dtb_from :: "memory \<Rightarrow> dtb \<Rightarrow> u32 \<Rightarrow> u8 list may_panic" where
  "dtb_from mem d offset =
     (if ucast offset \<le> dt_len d then Inr (bytes_at mem (dtb_addr d offset) (4 * (unat (dt_len d) - unat offset)))
      else Inl Index_Out_Of_Range)"

(* src/lib/rust/device_tree/src/lib.rs:121-139 DeviceTree::parse *)
definition dtb_parse :: "memory \<Rightarrow> dtb \<Rightarrow> dt_parse_error + dtb" where
  "dtb_parse mem data =
     (let byte_len = dt_len data * 4 in
      if \<not> 40 \<le> byte_len then Inl DT_TooShort
      else
        let header = header_at mem (dt_ptr data) in
        if \<not> ucast (fh_total_size header) \<le> byte_len then Inl DT_TooShort
        else if fh_magic header \<noteq> FDT_MAGIC then Inl (DT_BadMagic (fh_magic header))
        else Inr data)"

text \<open>The iterator over the reserved regions, to its end.\<close>

(* src/lib/rust/device_tree/src/lib.rs:153-163 Iter::next *)
definition rmr_next :: "memory \<Rightarrow> usize \<Rightarrow> ((u64 \<times> u64) \<times> usize) option" where
  "rmr_next mem rmr =
     (let address = be64_at mem rmr; sz = be64_at mem (rmr + 8) in
      if address = 0 \<and> sz = 0 then None else Some ((address, sz), rmr + 16))"

primrec rmr_list :: "nat \<Rightarrow> memory \<Rightarrow> usize \<Rightarrow> (u64 \<times> u64) list may_panic" where
  "rmr_list 0 mem rmr = Inl Endless_Loop"
| "rmr_list (Suc fuel) mem rmr =
     (case rmr_next mem rmr of
        None \<Rightarrow> Inr []
      | Some (r, rmr') \<Rightarrow> bindP (rmr_list fuel mem rmr') (\<lambda>rs. Inr (r # rs)))"

(* src/lib/rust/device_tree/src/lib.rs:145-174 DeviceTree::reserved_memory_regions *)
definition reserved_memory_regions :: "nat \<Rightarrow> memory \<Rightarrow> dtb \<Rightarrow> (u64 \<times> u64) list may_panic" where
  "reserved_memory_regions fuel mem d =
     rmr_list fuel mem (dt_ptr d + ucast (fh_offset_memory_reservation_block (dtb_header mem d)))"

(* src/lib/rust/device_tree/src/lib.rs:190-192 DeviceTree::total_size *)
definition dtb_total_size :: "memory \<Rightarrow> dtb \<Rightarrow> usize" where
  "dtb_total_size mem d = ucast (fh_total_size (dtb_header mem d))"

(* src/lib/rust/device_tree/src/lib.rs:195-204 DeviceTree::strings *)
definition dtb_strings :: "memory \<Rightarrow> dtb \<Rightarrow> u8 list" where
  "dtb_strings mem d =
     (let h = dtb_header mem d in
      bytes_at mem (dt_ptr d + ucast (fh_offset_strings_block h)) (unat (fh_size_strings_block h)))"

(* src/lib/rust/device_tree/src/lib.rs:228-236 StringsBlock::get *)
definition strings_get :: "u8 list \<Rightarrow> u32 \<Rightarrow> u8 list option" where
  "strings_get block offset =
     (if unat offset \<le> length block then cstr_to_str (drop (unat offset) block) else None)"

subsection \<open>Nodes\<close>

(* src/lib/rust/device_tree/src/lib.rs:450-461 Node::is_token_valid *)
definition is_token_valid :: "memory \<Rightarrow> dtb \<Rightarrow> u32 \<Rightarrow> u32 option + u32" where
  "is_token_valid mem d offset =
     (case dtb_get mem d offset of
        None \<Rightarrow> Inl None
      | Some v \<Rightarrow>
          if v \<in> {TOKEN_BEGIN_NODE, TOKEN_END_NODE, TOKEN_PROP, TOKEN_NOP, TOKEN_END} then Inr v else Inl (Some v))"

abbreviation "cells_names \<equiv> {str_bytes ''#address-cells'', str_bytes ''#size-cells'', str_bytes ''#interrupt-cells''}"

text \<open>The test of the names of cells compares the size of a word with 4, not the length of the value.\<close>

(* src/lib/rust/device_tree/src/lib.rs:269-290 Node::new *)
primrec skip_properties :: "nat \<Rightarrow> memory \<Rightarrow> dtb \<Rightarrow> u32 \<Rightarrow> (parse_node_error + u32) may_panic" where
  "skip_properties 0 mem d offset = Inl Endless_Loop"
| "skip_properties (Suc fuel) mem d offset =
     (if dtb_get mem d offset \<noteq> Some TOKEN_PROP then Inr (Inr offset)
      else
        tryP (Inr (ok_or (dtb_get mem d (offset + 1)) TooShort)) (\<lambda>len.
        tryP (Inr (ok_or (dtb_get mem d (offset + 2)) TooShort)) (\<lambda>name.
        tryP (Inr (ok_or (strings_get (dtb_strings mem d) name) OutOfBounds)) (\<lambda>name.
        let sz = 4 :: u32 in
        tryP (Inr (if name \<in> cells_names \<and> sz \<noteq> 4 then Inl BadCellsValue else Inr ())) (\<lambda>_.
        skip_properties fuel mem d (offset + 3 + (len + sz - 1) div sz))))))"

(* src/lib/rust/device_tree/src/lib.rs:246-316 Node::new *)
fun node_new :: "nat \<Rightarrow> memory \<Rightarrow> dtb \<Rightarrow> u32 \<Rightarrow> u32 \<Rightarrow> u32 \<Rightarrow> u32 \<Rightarrow> (parse_node_error + dt_node \<times> u32) may_panic"
  and skip_children :: "nat \<Rightarrow> memory \<Rightarrow> dtb \<Rightarrow> u32 \<Rightarrow> (parse_node_error + u32) may_panic" where
  "node_new 0 mem d offset address_cells size_cells interrupt_cells = Inl Endless_Loop"
| "node_new (Suc fuel) mem d offset address_cells size_cells interrupt_cells =
     (if dtb_get mem d offset \<noteq> Some TOKEN_BEGIN_NODE then Inr (Inl UnexpectedToken)
      else
        bindP (dtb_from mem d (offset + 1)) (\<lambda>s.
        tryP (Inr (ok_or (cstr_to_str s) UnterminatedName)) (\<lambda>name.
        let words = (length name + 1 + 3) div 4 in
        if \<not> words < 2 ^ 32 then Inl Unwrap_Failed
        else
          let properties = offset + 1 + of_nat words in
          bindP (unwrapR (is_token_valid mem d properties)) (\<lambda>_.
          tryP (skip_properties fuel mem d properties) (\<lambda>children.
          tryP (skip_children fuel mem d children) (\<lambda>offset.
          if dtb_get mem d offset \<noteq> Some TOKEN_END_NODE then Inr (Inl UnexpectedToken)
          else Inr (Inr (\<lparr>nd_name = name, nd_address_cells = address_cells, nd_size_cells = size_cells,
                 nd_interrupt_cells = interrupt_cells, nd_properties = properties, nd_children = children\<rparr>,
               offset + 1))))))))"
| "skip_children 0 mem d offset = Inl Endless_Loop"
| "skip_children (Suc fuel) mem d offset =
     tryP (Inr (ok_or (dtb_get mem d offset) TooShort)) (\<lambda>token.
     if token = TOKEN_END_NODE then Inr (Inr offset)
     else tryP (node_new fuel mem d offset 0 0 0) (\<lambda>(_, offt). skip_children fuel mem d offt))"

(* src/lib/rust/device_tree/src/lib.rs:177-187 DeviceTree::root *)
definition dtb_root :: "nat \<Rightarrow> memory \<Rightarrow> dtb \<Rightarrow> (parse_node_error + dt_node) may_panic" where
  "dtb_root fuel mem d =
     tryP (node_new fuel mem d (fh_offset_structure_block (dtb_header mem d) div 4) 2 1 0) (\<lambda>(n, _). Inr (Inr n))"

text \<open>The iterator over properties: one step, and all of them.\<close>

(* src/lib/rust/device_tree/src/lib.rs:328-354 Iter::next *)
definition property_next :: "memory \<Rightarrow> dtb \<Rightarrow> u32 \<Rightarrow> (dt_property \<times> u32) option may_panic" where
  "property_next mem d offset =
     (if dtb_get mem d offset \<noteq> Some TOKEN_PROP then Inr None
      else
        bindP (unwrapO (dtb_get mem d (offset + 1))) (\<lambda>len.
        bindP (unwrapO (dtb_get mem d (offset + 2))) (\<lambda>name.
        bindP (unwrapO (strings_get (dtb_strings mem d) name)) (\<lambda>name.
        bindP (dtb_from mem d (offset + 3)) (\<lambda>value.
        if \<not> unat len \<le> length value then Inl Index_Out_Of_Range
        else let sz = 4 in
          Inr (Some (\<lparr>pr_value = take (unat len) value, pr_name = name\<rparr>, offset + 3 + (len + sz - 1) div sz)))))))"

primrec property_list :: "nat \<Rightarrow> memory \<Rightarrow> dtb \<Rightarrow> u32 \<Rightarrow> dt_property list may_panic" where
  "property_list 0 mem d offset = Inl Endless_Loop"
| "property_list (Suc fuel) mem d offset =
     bindP (property_next mem d offset) (\<lambda>r. case r of
        None \<Rightarrow> Inr []
      | Some (p, offset) \<Rightarrow> bindP (property_list fuel mem d offset) (\<lambda>ps. Inr (p # ps)))"

(* src/lib/rust/device_tree/src/lib.rs:319-369 Node::properties *)
definition node_properties :: "nat \<Rightarrow> memory \<Rightarrow> dtb \<Rightarrow> dt_node \<Rightarrow> dt_property list may_panic" where
  "node_properties fuel mem d n = property_list fuel mem d (nd_properties n)"

text \<open>The cells that the children of a node inherit, and the iterator over the children.\<close>

definition cells_value :: "u8 list \<Rightarrow> u32 may_panic" where
  "cells_value v = (case v of [a, b, c, d] \<Rightarrow> Inr (be32 a b c d) | _ \<Rightarrow> Inl Unwrap_Failed)"

(* src/lib/rust/device_tree/src/lib.rs:424-439 Node::children *)
fun inherited_cells :: "dt_property list \<Rightarrow> u32 \<times> u32 \<times> u32 \<Rightarrow> (u32 \<times> u32 \<times> u32) may_panic" where
  "inherited_cells [] c = Inr c"
| "inherited_cells (p # ps) (a, s, i) =
     (if pr_name p = str_bytes ''#address-cells'' then bindP (cells_value (pr_value p)) (\<lambda>v. inherited_cells ps (v, s, i))
      else if pr_name p = str_bytes ''#size-cells'' then bindP (cells_value (pr_value p)) (\<lambda>v. inherited_cells ps (a, v, i))
      else if pr_name p = str_bytes ''#interrupt-cells'' then bindP (cells_value (pr_value p)) (\<lambda>v. inherited_cells ps (a, s, v))
      else inherited_cells ps (a, s, i))"

(* src/lib/rust/device_tree/src/lib.rs:384-398 Iter::next *)
definition child_next :: "nat \<Rightarrow> memory \<Rightarrow> dtb \<Rightarrow> u32 \<times> u32 \<times> u32 \<Rightarrow> u32 \<Rightarrow> (dt_node \<times> u32) option may_panic" where
  "child_next fuel mem d cells offset =
     (if dtb_get mem d offset \<noteq> Some TOKEN_BEGIN_NODE then Inr None
      else case cells of (a, s, i) \<Rightarrow>
        bindP (node_new fuel mem d offset a s i) (\<lambda>r. bindP (unwrapR r) (\<lambda>n. Inr (Some n))))"

primrec child_list :: "nat \<Rightarrow> memory \<Rightarrow> dtb \<Rightarrow> u32 \<times> u32 \<times> u32 \<Rightarrow> u32 \<Rightarrow> dt_node list may_panic" where
  "child_list 0 mem d cells offset = Inl Endless_Loop"
| "child_list (Suc fuel) mem d cells offset =
     bindP (child_next fuel mem d cells offset) (\<lambda>r. case r of
        None \<Rightarrow> Inr []
      | Some (n, offset) \<Rightarrow> bindP (child_list fuel mem d cells offset) (\<lambda>ns. Inr (n # ns)))"

(* src/lib/rust/device_tree/src/lib.rs:372-447 Node::children *)
definition node_children :: "nat \<Rightarrow> memory \<Rightarrow> dtb \<Rightarrow> dt_node \<Rightarrow> dt_node list may_panic" where
  "node_children fuel mem d n =
     bindP (node_properties fuel mem d n) (\<lambda>ps.
     bindP (inherited_cells ps (2, 1, 0)) (\<lambda>cells.
     child_list fuel mem d cells (nd_children n)))"

end
