(* ===== verification/Device_Tree_Props.thy ===== *)
theory Device_Tree_Props
  imports Device_Tree
begin

text \<open>
  Facts on the device tree library: it always ends, and it reads back the trees that are encoded in
  memory.
\<close>

subsection \<open>Positions\<close>

text \<open>\<open>located mem d offset bs\<close>: the bytes \<open>bs\<close> are in the data from the word \<open>offset\<close> on.\<close>

definition located :: "memory \<Rightarrow> dtb \<Rightarrow> u32 \<Rightarrow> u8 list \<Rightarrow> bool" where
  "located mem d offset bs \<longleftrightarrow> holds mem (dtb_addr d offset) bs \<and> 4 * unat offset + length bs \<le> 4 * unat (dt_len d)"

definition small :: "dtb \<Rightarrow> bool" where
  "small d \<longleftrightarrow> unat (dt_len d) \<le> 2 ^ 30"

lemma unat_offset_add: "unat (offset :: u32) + n < 2 ^ 32 \<Longrightarrow> unat (offset + of_nat n) = unat offset + n"
  by (subst unat_add_no_overflow) (simp_all add: unat_of_nat_less)

lemma dtb_addr_add:
  assumes "unat offset + n < 2 ^ 32"
  shows "dtb_addr d (offset + of_nat n) = dtb_addr d offset + of_nat (4 * n)"
proof -
  have "(ucast (offset + of_nat n) :: usize) = ucast offset + of_nat n"
    unfolding word_unat_eq_iff using assms
    by (subst unat_add_no_overflow) (simp_all add: unat_offset_add unat_of_nat_less)
  then show ?thesis by (simp add: dtb_addr_def algebra_simps)
qed

lemma located_append:
  assumes "small d" "located mem d offset (a @ b)" "length a = 4 * n"
  shows "located mem d offset a" "located mem d (offset + of_nat n) b" "unat (offset + of_nat n) = unat offset + n"
proof -
  have n: "unat offset + n < 2 ^ 32" using assms by (simp add: located_def small_def)
  then show "unat (offset + of_nat n) = unat offset + n" by (rule unat_offset_add)
  then show "located mem d offset a" "located mem d (offset + of_nat n) b"
    using assms(2,3) by (auto simp: located_def dtb_addr_add [OF n])
qed

lemma dtb_get_less: "dtb_get mem d offset = Some w \<Longrightarrow> unat offset < unat (dt_len d)"
  by (auto simp: dtb_get_def word_less_nat_alt split: if_splits)

lemma located_get:
  assumes "small d" "located mem d offset (be_bytes w @ r)"
  shows "dtb_get mem d offset = Some w" "located mem d (offset + 1) r"
proof -
  note l = located_append [OF assms, of 1]
  show "located mem d (offset + 1) r" using l(2) by simp
  from l(1) have "holds mem (dtb_addr d offset) (be_bytes w)" "unat offset < unat (dt_len d)"
    by (simp_all add: located_def)
  then show "dtb_get mem d offset = Some w" by (simp add: dtb_get_def be32_at_holds word_less_nat_alt)
qed

lemma located_from:
  assumes "located mem d offset bs"
  shows "\<exists>r. dtb_from mem d offset = Inr (bs @ r)"
proof -
  have "length bs \<le> 4 * (unat (dt_len d) - unat offset)" "unat offset \<le> unat (dt_len d)"
    using assms by (auto simp: located_def)
  then show ?thesis
    using holds_bytes_at [of mem "dtb_addr d offset" bs] assms by (simp add: located_def dtb_from_def word_le_nat_alt)
qed

lemma strings_get_at:
  assumes "string_at mem (dt_ptr d + ucast (fh_offset_strings_block (dtb_header mem d)))
    (unat (fh_size_strings_block (dtb_header mem d))) off n"
  shows "strings_get (dtb_strings mem d) (off n) = Some n"
proof -
  let ?s = "dt_ptr d + ucast (fh_offset_strings_block (dtb_header mem d))"
  let ?sz = "unat (fh_size_strings_block (dtb_header mem d))"
  have a: "0 \<notin> set n" "unat (off n) + length n < ?sz" "holds mem (?s + ucast (off n)) (n @ [0])"
    using assms by (simp_all add: string_at_def)
  have "bytes_at mem ?s ?sz = bytes_at mem ?s (unat (off n)) @ bytes_at mem (?s + ucast (off n)) (?sz - unat (off n))"
    using a(2) bytes_at_add [of mem ?s "unat (off n)" "?sz - unat (off n)"] by simp
  then have "drop (unat (off n)) (dtb_strings mem d) = bytes_at mem (?s + ucast (off n)) (?sz - unat (off n))"
    by (simp add: dtb_strings_def Let_def)
  moreover have "length (n @ [0]) \<le> ?sz - unat (off n)" using a(2) by simp
  then obtain r where "bytes_at mem (?s + ucast (off n)) (?sz - unat (off n)) = (n @ [0]) @ r"
    using holds_bytes_at [OF a(3)] by blast
  ultimately show ?thesis using a(1,2) cstr_to_str_Some [of n r] by (simp add: strings_get_def dtb_strings_def Let_def)
qed

subsection \<open>The parser ends\<close>

lemma dtb_step_words: "unat ((len + 4 - 1) div 4 :: u32) \<le> 2 ^ 30"
proof -
  have "unat (len + 4 - 1 :: u32) < 2 ^ 32" using unat_less_2p [of "len + 4 - 1"] by simp
  then show ?thesis by (simp add: unat_div)
qed

lemma property_step:
  assumes "small d" "unat offset < unat (dt_len d)"
  shows "unat (offset + 3 + (len + 4 - 1) div 4 :: u32) = unat offset + 3 + unat ((len + 4 - 1) div 4 :: u32)"
proof -
  have "unat (offset + 3) = unat offset + 3"
    using assms by (subst unat_add_no_overflow) (simp_all add: small_def)
  then show ?thesis
    using assms dtb_step_words [of len] by (subst unat_add_no_overflow) (simp_all add: small_def)
qed

lemma skip_properties_mono:
  assumes "small d" "skip_properties fuel mem d offset = Inr (Inr offset')"
  shows "unat offset \<le> unat offset'"
  using assms(2)
proof (induction fuel arbitrary: offset)
  case (Suc fuel)
  show ?case
  proof (cases "dtb_get mem d offset = Some TOKEN_PROP")
    case True
    with Suc.prems obtain len where "skip_properties fuel mem d (offset + 3 + (len + 4 - 1) div 4) = Inr (Inr offset')"
      by (auto simp: tryP_def Let_def ok_or_def split: option.splits)
    then show ?thesis using Suc.IH property_step [OF assms(1) dtb_get_less [OF True]] by fastforce
  qed (use Suc.prems in auto)
qed simp

lemma skip_properties_ends:
  assumes "small d" "unat (dt_len d) - unat offset < fuel"
  shows "\<exists>r. skip_properties fuel mem d offset = Inr r"
  using assms(2)
proof (induction fuel arbitrary: offset)
  case (Suc fuel)
  show ?case
  proof (cases "dtb_get mem d offset = Some TOKEN_PROP")
    case True
    note l = dtb_get_less [OF True]
    have "\<exists>r. skip_properties fuel mem d (offset + 3 + (len + 4 - 1) div 4) = Inr r" for len
      using Suc.IH [of "offset + 3 + (len + 4 - 1) div 4"] Suc.prems l property_step [OF assms(1) l, of len] by simp
    then show ?thesis by (auto simp: tryP_def Let_def ok_or_def split: option.splits)
  qed simp
qed simp

lemma name_words:
  assumes "small d" "dtb_get mem d offset = Some w" "dtb_from mem d (offset + 1) = Inr s" "cstr_to_str s = Some name"
  shows "unat (offset + 1 + of_nat ((length name + 1 + 3) div 4)) = unat offset + 1 + (length name + 1 + 3) div 4"
    "(length name + 1 + 3) div 4 < 2 ^ 32"
proof -
  have o: "unat (offset + 1) = unat offset + 1"
    using dtb_get_less [OF assms(2)] assms(1) by (subst unat_add_no_overflow) (simp_all add: small_def)
  have "length s = 4 * (unat (dt_len d) - (unat offset + 1))"
    using assms(3) o by (auto simp: dtb_from_def split: if_splits)
  then have w: "unat offset + 1 + (length name + 1 + 3) div 4 \<le> unat (dt_len d)"
    using cstr_to_str_bounded [OF assms(4)] dtb_get_less [OF assms(2)] by linarith
  then show "(length name + 1 + 3) div 4 < 2 ^ 32" 
    using assms(1) power_strict_increasing [of 30 32 "2 :: nat"] unfolding small_def by linarith
  from w show "unat (offset + 1 + of_nat ((length name + 1 + 3) div 4)) = unat offset + 1 + (length name + 1 + 3) div 4"
    using assms(1) by (subst unat_offset_add) (auto simp: o small_def)
qed

text \<open>What a node that was parsed consists of.\<close>

lemma node_new_success:
  assumes "small d" "node_new (Suc fuel) mem d offset a s i = Inr (Inr (n, offset'))"
  obtains p c e where "unat offset + 1 < unat p" "unat offset < unat (dt_len d)" "skip_properties fuel mem d p = Inr (Inr c)"
    "skip_children fuel mem d c = Inr (Inr e)" "dtb_get mem d e = Some TOKEN_END_NODE" "offset' = e + 1"
proof -
  have g: "dtb_get mem d offset = Some TOKEN_BEGIN_NODE" using assms(2) by (auto split: if_splits)
  then obtain t name where t: "dtb_from mem d (offset + 1) = Inr t" "cstr_to_str t = Some name"
    using assms(2) by (auto simp: bindP_eq_Inr tryP_eq ok_or_def split: option.splits)
  let ?p = "offset + 1 + of_nat ((length name + 1 + 3) div 4)"
  note w = name_words [OF assms(1) g t]
  from assms(2) g t w(2) obtain c e where "skip_properties fuel mem d ?p = Inr (Inr c)"
    "skip_children fuel mem d c = Inr (Inr e)" "dtb_get mem d e = Some TOKEN_END_NODE" "offset' = e + 1"
    by (auto simp: Let_def bindP_eq_Inr tryP_eq split: if_splits)
  moreover have "unat offset + 1 < unat ?p" using w(1) by linarith
  ultimately show thesis using that dtb_get_less [OF g] by blast
qed

lemma parser_advances:
  assumes "small d"
  shows "node_new fuel mem d offset a s i = Inr (Inr (n, offset')) \<Longrightarrow> unat offset < unat offset' \<and> unat offset' \<le> unat (dt_len d)"
    and "skip_children fuel mem d offset = Inr (Inr offset') \<Longrightarrow> unat offset \<le> unat offset' \<and> unat offset' < unat (dt_len d)"
proof (induction fuel arbitrary: offset offset' a s i n)
  case (Suc fuel)
  {
    case 1
    from node_new_success [OF assms 1] obtain p c e where h: "unat offset + 1 < unat p" "skip_properties fuel mem d p = Inr (Inr c)"
      "skip_children fuel mem d c = Inr (Inr e)" "dtb_get mem d e = Some TOKEN_END_NODE" "offset' = e + 1" by blast
    have "unat (e + 1) = unat e + 1"
      using dtb_get_less [OF h(4)] assms by (subst unat_add_no_overflow) (simp_all add: small_def)
    then show ?case using h dtb_get_less [OF h(4)] skip_properties_mono [OF assms h(2)] Suc.IH(2) [OF h(3)] unfolding h(5) by (intro conjI; linarith)
  next
    case 2
    show ?case
    proof (cases "dtb_get mem d offset = Some TOKEN_END_NODE")
      case True
      then show ?thesis using 2 dtb_get_less by fastforce
    next
      case False
      with 2 obtain m e where "node_new fuel mem d offset 0 0 0 = Inr (Inr (m, e))" "skip_children fuel mem d e = Inr (Inr offset')"
        by (auto simp: tryP_eq ok_or_def split: option.splits if_splits)
      then show ?thesis using Suc.IH by (meson less_imp_le order_trans)
    qed
  }
qed simp_all

text \<open>With as many steps as twice the words that are left, the parser comes to an end.\<close>

lemma parser_ends:
  assumes "small d"
  shows "2 * (unat (dt_len d) - unat offset) < fuel \<Longrightarrow> node_new fuel mem d offset a s i \<noteq> Inl Endless_Loop"
    and "2 * (unat (dt_len d) - unat offset) + 1 < fuel \<Longrightarrow> skip_children fuel mem d offset \<noteq> Inl Endless_Loop"
proof (induction fuel arbitrary: offset a s i)
  case (Suc fuel)
  {
    case 1
    show ?case
    proof
      assume e: "node_new (Suc fuel) mem d offset a s i = Inl Endless_Loop"
      then have g: "dtb_get mem d offset = Some TOKEN_BEGIN_NODE" by (auto split: if_splits)
      with e obtain t name where t: "dtb_from mem d (offset + 1) = Inr t" "cstr_to_str t = Some name"
        by (auto simp: bindP_def tryP_def ok_or_def dtb_from_def split: option.splits if_splits sum.splits)
      let ?p = "offset + 1 + of_nat ((length name + 1 + 3) div 4)"
      have p: "unat offset + 1 < unat ?p" using name_words [OF assms g t] by linarith
      note l = dtb_get_less [OF g]
      have f: "unat (dt_len d) - unat ?p < fuel" using 1 p l by linarith
      then obtain r where r: "skip_properties fuel mem d ?p = Inr r" using skip_properties_ends [OF assms] by blast
      from e g t r name_words(2) [OF assms g t] obtain c where "r = Inr c" "skip_children fuel mem d c = Inl Endless_Loop"
        by (cases r) (auto simp: Let_def tryP_def bindP_def unwrapR_def split: sum.splits if_splits)
      moreover from this r have "unat ?p \<le> unat c" using skip_properties_mono [OF assms] by blast
      then have "2 * (unat (dt_len d) - unat c) + 1 < fuel" using 1 p l by linarith
      ultimately show False using Suc.IH(2) by blast
    qed
  next
    case 2
    show ?case
    proof
      assume e: "skip_children (Suc fuel) mem d offset = Inl Endless_Loop"
      have "node_new fuel mem d offset 0 0 0 \<noteq> Inl Endless_Loop" using 2 Suc.IH(1) by simp
      with e obtain m c where "node_new fuel mem d offset 0 0 0 = Inr (Inr (m, c))" "skip_children fuel mem d c = Inl Endless_Loop"
        by (auto simp: tryP_eq ok_or_def split: option.splits if_splits)
      moreover from parser_advances(1) [OF assms this(1)] have "2 * (unat (dt_len d) - unat c) + 1 < fuel" using 2 by linarith
      ultimately show False using Suc.IH(2) by blast
    qed
  }
qed simp_all

subsection \<open>Properties are read back\<close>

abbreviation strings_ok :: "memory \<Rightarrow> dtb \<Rightarrow> (u8 list \<Rightarrow> u32) \<Rightarrow> u8 list \<Rightarrow> bool" where
  "strings_ok mem d off n \<equiv>
     string_at mem (dt_ptr d + ucast (fh_offset_strings_block (dtb_header mem d))) (unat (fh_size_strings_block (dtb_header mem d))) off n"

definition prop_of :: "u8 list \<times> u8 list \<Rightarrow> dt_property" where
  "prop_of p = \<lparr>pr_value = snd p, pr_name = fst p\<rparr>"

lemma prop_of_sel [simp]: "pr_name (prop_of p) = fst p" "pr_value (prop_of p) = snd p"
  by (simp_all add: prop_of_def)

lemma words_of_length:
  assumes "l + 3 < 2 ^ 32"
  shows "(of_nat l + 4 - 1 :: u32) div 4 = of_nat ((l + 3) div 4)"
proof -
  have "unat (3 + of_nat l :: u32) = l + 3" using assms by (subst unat_add_no_overflow) (simp_all add: unat_of_nat_less)
  moreover have "(l + 3) div 4 < 2 ^ 32" using assms by linarith
  ultimately show ?thesis by (simp add: word_unat_eq_iff unat_div unat_of_nat_less)
qed

lemma property_read:
  assumes "small d" "located mem d offset (prop_bytes off p @ r)" "strings_ok mem d off (fst p)"
  shows "skip_properties (Suc fuel) mem d offset = skip_properties fuel mem d (offset + of_nat (length (prop_bytes off p) div 4))"
    and "property_next mem d offset = Inr (Some (prop_of p, offset + of_nat (length (prop_bytes off p) div 4)))"
    and "located mem d (offset + of_nat (length (prop_bytes off p) div 4)) r"
proof -
  let ?v = "snd p"
  have b: "prop_bytes off p @ r = be_bytes TOKEN_PROP @ be_bytes (of_nat (length ?v)) @ be_bytes (off (fst p)) @ pad4 ?v @ r"
    by (simp add: prop_bytes_def)
  note l0 = located_get [OF assms(1) assms(2) [unfolded b]]
  note l1 = located_get [OF assms(1) l0(2)]
  note l2 = located_get [OF assms(1) l1(2)]
  have l3: "located mem d (offset + 3) (pad4 ?v @ r)" using l2(2) by (simp add: add.assoc)
  have "length (pad4 ?v) \<ge> length ?v" by (simp add: pad4_def)
  then have v: "length ?v + 3 < 2 ^ 32" using assms(1,2) by (simp add: located_def small_def prop_bytes_def)
  have n: "length (prop_bytes off p) div 4 = 3 + (length ?v + 3) div 4" by (simp add: prop_bytes_def length_pad4)
  have o: "offset + of_nat (length (prop_bytes off p) div 4) = offset + 3 + (of_nat (length ?v) + 4 - 1) div 4"
    unfolding words_of_length [OF v] n by simp
  obtain q where q: "dtb_from mem d (offset + 3) = Inr ((pad4 ?v @ r) @ q)" using located_from [OF l3] by blast
  have u: "unat (of_nat (length ?v) :: u32) = length ?v" using v by (intro unat_of_nat_less) simp
  show "skip_properties (Suc fuel) mem d offset = skip_properties fuel mem d (offset + of_nat (length (prop_bytes off p) div 4))"
    unfolding o using l0 l1 l2 strings_get_at [OF assms(3)] by (simp add: Let_def add.assoc)
  show "property_next mem d offset = Inr (Some (prop_of p, offset + of_nat (length (prop_bytes off p) div 4)))"
    unfolding o using l0 l1 l2 strings_get_at [OF assms(3)] u q
    by (simp add: property_next_def prop_of_def Let_def add.assoc pad4_def)
  show "located mem d (offset + of_nat (length (prop_bytes off p) div 4)) r"
    using located_append(2) [OF assms(1) l3 length_pad4] by (simp add: n add.assoc)
qed

lemma properties_read:
  assumes "small d" "located mem d offset (concat (map (prop_bytes off) ps) @ be_bytes w @ r)" "w \<noteq> TOKEN_PROP"
    and "list_all (\<lambda>p. strings_ok mem d off (fst p)) ps" "length ps < fuel"
  shows "skip_properties fuel mem d offset = Inr (Inr (offset + of_nat (length (concat (map (prop_bytes off) ps)) div 4)))"
    and "property_list fuel mem d offset = Inr (map prop_of ps)"
proof -
  have "skip_properties fuel mem d offset = Inr (Inr (offset + of_nat (length (concat (map (prop_bytes off) ps)) div 4)))
    \<and> property_list fuel mem d offset = Inr (map prop_of ps)"
    using assms(2,4,5)
  proof (induction ps arbitrary: offset fuel)
    case Nil
    then show ?case using located_get(1) [OF assms(1), of mem offset w r] assms(3) by (cases fuel) (simp_all add: property_next_def)
  next
    case (Cons p ps)
    obtain f where f: "fuel = Suc f" using Cons.prems(3) by (cases fuel) auto
    have l: "located mem d offset (prop_bytes off p @ (concat (map (prop_bytes off) ps) @ be_bytes w @ r))" and
      s: "strings_ok mem d off (fst p)" using Cons.prems by simp_all
    note r = property_read [OF assms(1) l s]
    obtain k where "length (prop_bytes off p) = 4 * k" using prop_bytes_4 by blast
    then have "length (concat (map (prop_bytes off) (p # ps))) div 4 = length (prop_bytes off p) div 4 + length (concat (map (prop_bytes off) ps)) div 4"
      by simp
    then show ?case
      using Cons.IH [OF r(3)] Cons.prems r(1) [of f] r(2) by (simp add: f add.assoc del: skip_properties.simps(2) concat.simps)
  qed
  then show "skip_properties fuel mem d offset = Inr (Inr (offset + of_nat (length (concat (map (prop_bytes off) ps)) div 4)))"
    "property_list fuel mem d offset = Inr (map prop_of ps)" by blast+
qed

lemma dvd_length_concat_map: "(\<And>x. k dvd length (f x)) \<Longrightarrow> k dvd length (concat (map f xs))"
  by (induction xs) auto

subsection \<open>Nodes are read back\<close>

definition name_len :: "u8 list \<Rightarrow> nat" where
  "name_len n = (length n + 1 + 3) div 4"

text \<open>The node that is parsed from the encoding of a tree at \<open>offset\<close>.\<close>

definition node_of :: "(u8 list \<Rightarrow> u32) \<Rightarrow> u32 \<Rightarrow> u32 \<times> u32 \<times> u32 \<Rightarrow> dt_tree \<Rightarrow> dt_node" where
  "node_of off offset cells t = (case cells of (a, s, i) \<Rightarrow>
     (let p = offset + 1 + of_nat (name_len (dt_name t)) in
      \<lparr>nd_name = dt_name t, nd_address_cells = a, nd_size_cells = s, nd_interrupt_cells = i,
       nd_properties = p, nd_children = p + of_nat (length (concat (map (prop_bytes off) (dt_props t))) div 4)\<rparr>))"

definition node_end :: "(u8 list \<Rightarrow> u32) \<Rightarrow> u32 \<Rightarrow> dt_tree \<Rightarrow> u32" where
  "node_end off offset t = offset + of_nat (length (node_bytes off t) div 4)"

definition readable :: "memory \<Rightarrow> dtb \<Rightarrow> (u8 list \<Rightarrow> u32) \<Rightarrow> dt_tree \<Rightarrow> bool" where
  "readable mem d off t = dt_all (\<lambda>n ps. 0 \<notin> set n \<and> list_all (\<lambda>p. strings_ok mem d off (fst p)) ps) t"

text \<open>Where the parts of an encoded node are.\<close>

lemma located_node:
  assumes "small d" "located mem d offset (node_bytes off (DT_Node n ps cs) @ r)"
  defines "p \<equiv> offset + 1 + of_nat (name_len n)"
  defines "c \<equiv> p + of_nat (length (concat (map (prop_bytes off) ps)) div 4)"
  shows "dtb_get mem d offset = Some TOKEN_BEGIN_NODE" "located mem d (offset + 1) (n @ [0])"
    "located mem d p (concat (map (prop_bytes off) ps) @ concat (map (node_bytes off) cs) @ be_bytes TOKEN_END_NODE @ r)"
    "located mem d c (concat (map (node_bytes off) cs) @ be_bytes TOKEN_END_NODE @ r)"
    "node_end off offset (DT_Node n ps cs) = c + of_nat (length (concat (map (node_bytes off) cs)) div 4) + 1"
    "located mem d (node_end off offset (DT_Node n ps cs)) r"
proof -
  let ?ps = "concat (map (prop_bytes off) ps)" and ?cs = "concat (map (node_bytes off) cs)"
  obtain kp where kp: "length ?ps = 4 * kp"
    using prop_bytes_4 by (metis (no_types, lifting) dvd_def dvd_length_concat_map)
  obtain kc where kc: "length ?cs = 4 * kc"
    using node_bytes_4 by (metis (no_types, lifting) dvd_def dvd_length_concat_map)
  have l: "located mem d offset (be_bytes TOKEN_BEGIN_NODE @ (pad4 (n @ [0]) @ ?ps @ ?cs @ be_bytes TOKEN_END_NODE @ r))"
    using assms(2) by simp
  show "dtb_get mem d offset = Some TOKEN_BEGIN_NODE" by (rule located_get(1) [OF assms(1) l])
  note l1 = located_get(2) [OF assms(1) l]
  show "located mem d (offset + 1) (n @ [0])" using l1 by (auto simp: located_def pad4_def)
  have pl: "length (pad4 (n @ [0])) = 4 * name_len n" by (simp add: length_pad4 name_len_def)
  show lp: "located mem d p (?ps @ ?cs @ be_bytes TOKEN_END_NODE @ r)"
    using located_append(2) [OF assms(1) l1 pl] by (simp add: p_def)
  show lc: "located mem d c (?cs @ be_bytes TOKEN_END_NODE @ r)"
    using located_append(2) [OF assms(1) lp kp] kp by (simp add: c_def)
  have "length (node_bytes off (DT_Node n ps cs)) = 4 * (2 + name_len n + kp + kc)"
    using pl kp kc by simp
  then show e: "node_end off offset (DT_Node n ps cs) = c + of_nat (length ?cs div 4) + 1"
    using kp kc by (simp add: node_end_def c_def p_def algebra_simps)
  have "located mem d (c + of_nat kc) (be_bytes TOKEN_END_NODE @ r)" using located_append(2) [OF assms(1) lc kc] .
  then show "located mem d (node_end off offset (DT_Node n ps cs)) r"
    using located_get(2) [OF assms(1)] kc by (simp add: e)
qed

lemma children_first:
  obtains w q where "concat (map (node_bytes off) cs) @ be_bytes TOKEN_END_NODE @ r = be_bytes w @ q" "w = TOKEN_BEGIN_NODE \<or> w = TOKEN_END_NODE"
    "w = TOKEN_END_NODE \<longleftrightarrow> cs = []"
proof (cases cs)
  case (Cons c cs')
  then show ?thesis using that [of TOKEN_BEGIN_NODE] by (cases c) simp
qed (use that in simp)

lemma node_end_add: "length (concat (map (node_bytes off) (c # cs))) div 4 = length (node_bytes off c) div 4 + length (concat (map (node_bytes off) cs)) div 4"
  using node_bytes_4 [of off c] by (auto elim: dvdE)

text \<open>One node is parsed; its children are skipped.\<close>

definition parses :: "memory \<Rightarrow> dtb \<Rightarrow> (u8 list \<Rightarrow> u32) \<Rightarrow> dt_tree \<Rightarrow> bool" where
  "parses mem d off t \<longleftrightarrow> (\<forall>offset r fuel a s i.
     located mem d offset (node_bytes off t @ r) \<longrightarrow> dt_weight t \<le> fuel \<longrightarrow>
     node_new fuel mem d offset a s i = Inr (Inr (node_of off offset (a, s, i) t, node_end off offset t)))"

lemma parsesD:
  "parses mem d off t \<Longrightarrow> located mem d offset (node_bytes off t @ r) \<Longrightarrow> dt_weight t \<le> fuel
    \<Longrightarrow> node_new fuel mem d offset a s i = Inr (Inr (node_of off offset (a, s, i) t, node_end off offset t))"
  unfolding parses_def by blast

lemma located_node_end:
  assumes "small d" "located mem d offset (node_bytes off t @ r)"
  shows "located mem d (node_end off offset t) r" "dtb_get mem d offset = Some TOKEN_BEGIN_NODE"
  using located_node(1,6) [OF assms(1), of mem offset off] assms(2) by (cases t; blast)+

lemma skip_children_read:
  assumes "small d" "list_all (parses mem d off) cs" "located mem d offset (concat (map (node_bytes off) cs) @ be_bytes TOKEN_END_NODE @ r)"
    "sum_list (map dt_weight cs) < fuel"
  shows "skip_children fuel mem d offset = Inr (Inr (offset + of_nat (length (concat (map (node_bytes off) cs)) div 4)))"
  using assms(2-)
proof (induction cs arbitrary: offset fuel)
  case Nil
  then show ?case using located_get(1) [OF assms(1), of mem offset TOKEN_END_NODE r] by (cases fuel) simp_all
next
  case (Cons c cs)
  obtain f where f: "fuel = Suc f" using Cons.prems(3) by (cases fuel) auto
  have l: "located mem d offset (node_bytes off c @ (concat (map (node_bytes off) cs) @ be_bytes TOKEN_END_NODE @ r))"
    using Cons.prems(2) by simp
  note e = located_node_end [OF assms(1) l]
  have w: "dt_weight c \<le> f" "sum_list (map dt_weight cs) < f" using Cons.prems(3) f by (cases c; simp)+
  have "node_new f mem d offset 0 0 0 = Inr (Inr (node_of off offset (0, 0, 0) c, node_end off offset c))"
    using parsesD [OF _ l w(1)] Cons.prems(1) by simp
  moreover have "skip_children f mem d (node_end off offset c)
      = Inr (Inr (node_end off offset c + of_nat (length (concat (map (node_bytes off) cs)) div 4)))"
    using Cons.IH [OF _ e(1) w(2)] Cons.prems(1) by simp
  ultimately show ?case using e(2) unfolding f node_end_add by (simp add: node_end_def add.assoc)
qed

lemma located_end:
  assumes "small d" "located mem d offset (concat (map (node_bytes off) cs) @ be_bytes w @ r)"
  shows "dtb_get mem d (offset + of_nat (length (concat (map (node_bytes off) cs)) div 4)) = Some w"
proof -
  obtain k where k: "length (concat (map (node_bytes off) cs)) = 4 * k"
    using dvd_length_concat_map [of 4 "node_bytes off" cs] node_bytes_4 by (auto elim: dvdE)
  then show ?thesis using located_get(1) [OF assms(1) located_append(2) [OF assms k]] by simp
qed

lemma node_parses: "small d \<Longrightarrow> readable mem d off t \<Longrightarrow> parses mem d off t"
proof (induction t)
  case (DT_Node n ps cs)
  let ?t = "DT_Node n ps cs"
  have all: "0 \<notin> set n" "list_all (\<lambda>p. strings_ok mem d off (fst p)) ps" "list_all (parses mem d off) cs"
    using DT_Node.prems(2) DT_Node.IH [OF _ DT_Node.prems(1)] by (auto simp: readable_def list_all_iff)
  have "node_new fuel mem d offset a s i = Inr (Inr (node_of off offset (a, s, i) ?t, node_end off offset ?t))"
    if l: "located mem d offset (node_bytes off ?t @ r)" and w: "dt_weight ?t \<le> fuel" for offset r fuel a s i
  proof -
    obtain f where f: "fuel = Suc f" using w by (cases fuel) auto
    have "length ps \<le> sum_list (map (\<lambda>p. 2 + length (fst p)) ps)" by (induction ps) auto
    then have lf: "length ps < f" "sum_list (map dt_weight cs) < f" using w f by simp_all
    note ln = located_node [OF DT_Node.prems(1) l]
    let ?p = "offset + 1 + of_nat (name_len n)"
    let ?c = "?p + of_nat (length (concat (map (prop_bytes off) ps)) div 4)"
    obtain q where "dtb_from mem d (offset + 1) = Inr ((n @ [0]) @ q)" using located_from [OF ln(2)] by blast
    then have fr: "dtb_from mem d (offset + 1) = Inr (n @ 0 # q)" by simp
    obtain v x where v: "concat (map (node_bytes off) cs) @ be_bytes TOKEN_END_NODE @ r = be_bytes v @ x"
      "v = TOKEN_BEGIN_NODE \<or> v = TOKEN_END_NODE" by (rule children_first)
    have lp: "located mem d ?p (concat (map (prop_bytes off) ps) @ be_bytes v @ x)" using ln(3) v(1) by simp
    have ne: "v \<noteq> TOKEN_PROP" using v(2) by auto
    have tok: "\<exists>u. is_token_valid mem d ?p = Inr u"
    proof (cases ps)
      case Nil
      then show ?thesis using located_get(1) [OF DT_Node.prems(1), of mem ?p v x] lp v(2) by (auto simp: is_token_valid_def)
    next
      case (Cons p ps')
      then show ?thesis using located_get(1) [OF DT_Node.prems(1), of mem ?p TOKEN_PROP] lp by (simp add: is_token_valid_def prop_bytes_def)
    qed
    have sp: "skip_properties f mem d ?p = Inr (Inr ?c)"
      by (rule properties_read(1) [OF DT_Node.prems(1) lp ne all(2) lf(1)])
    let ?e = "?c + of_nat (length (concat (map (node_bytes off) cs)) div 4)"
    have sc: "skip_children f mem d ?c = Inr (Inr ?e)"
      by (rule skip_children_read [OF DT_Node.prems(1) all(3) ln(4) lf(2)])
    have ge: "dtb_get mem d ?e = Some TOKEN_END_NODE"
      using located_end [OF DT_Node.prems(1) ln(4)] .
    have nw: "(length n + 1 + 3) div 4 < 2 ^ 32"
      by (rule name_words(2) [OF DT_Node.prems(1) ln(1) fr cstr_to_str_Some [OF all(1)]])
    show ?thesis
      using ln(1) fr cstr_to_str_Some [OF all(1), of q] nw tok sp sc ge
      unfolding f ln(5) by (auto simp: Let_def name_len_def node_of_def)
  qed
  then show ?case unfolding parses_def by blast
qed

subsection \<open>The whole tree\<close>

text \<open>
  A client reads a node with the two iterators. The result has, for each node, the numbers of cells that
  the library reports: the ones that the parent sets, or the defaults. A repeated property counts with
  its last value.
\<close>

datatype rt_tree = RT_Node "u8 list" "u32 \<times> u32 \<times> u32" "(u8 list \<times> u8 list) list" "rt_tree list"

definition cell_upd :: "(u8 list \<times> u8 list) list \<Rightarrow> u8 list \<Rightarrow> u32 \<Rightarrow> u32" where
  "cell_upd ps name dflt = (case map_of (rev ps) name of Some [a, b, c, d] \<Rightarrow> be32 a b c d | _ \<Rightarrow> dflt)"

definition cells_of :: "(u8 list \<times> u8 list) list \<Rightarrow> u32 \<times> u32 \<times> u32" where
  "cells_of ps = (cell_upd ps (str_bytes ''#address-cells'') 2, cell_upd ps (str_bytes ''#size-cells'') 1, cell_upd ps (str_bytes ''#interrupt-cells'') 0)"

primrec with_cells :: "u32 \<times> u32 \<times> u32 \<Rightarrow> dt_tree \<Rightarrow> rt_tree" where
  "with_cells cells (DT_Node n ps cs) = RT_Node n cells ps (map (with_cells (cells_of ps)) cs)"

primrec mapP :: "('a \<Rightarrow> 'b may_panic) \<Rightarrow> 'a list \<Rightarrow> 'b list may_panic" where
  "mapP f [] = Inr []"
| "mapP f (x # xs) = bindP (f x) (\<lambda>y. bindP (mapP f xs) (\<lambda>ys. Inr (y # ys)))"

primrec read_node :: "nat \<Rightarrow> memory \<Rightarrow> dtb \<Rightarrow> dt_node \<Rightarrow> rt_tree may_panic" where
  "read_node 0 mem d n = Inl Endless_Loop"
| "read_node (Suc fuel) mem d n =
     bindP (node_properties fuel mem d n) (\<lambda>ps.
     bindP (node_children fuel mem d n) (\<lambda>ns.
     bindP (mapP (read_node fuel mem d) ns) (\<lambda>cs.
     Inr (RT_Node (nd_name n) (nd_address_cells n, nd_size_cells n, nd_interrupt_cells n)
       (map (\<lambda>p. (pr_name p, pr_value p)) ps) cs))))"

definition cells_ok :: "u8 list \<times> u8 list \<Rightarrow> bool" where
  "cells_ok p \<longleftrightarrow> (fst p \<in> cells_names \<longrightarrow> length (snd p) = 4)"

lemma cells_value_4: "length v = 4 \<Longrightarrow> \<exists>a b c d. v = [a, b, c, d]"
  by (auto simp: eval_nat_numeral length_Suc_conv)

lemma cells_names_distinct:
  "str_bytes ''#address-cells'' \<noteq> str_bytes ''#size-cells''" "str_bytes ''#address-cells'' \<noteq> str_bytes ''#interrupt-cells''"
  "str_bytes ''#size-cells'' \<noteq> str_bytes ''#interrupt-cells''"
  by (simp_all add: str_bytes_def)

lemma cell_upd_Cons:
  assumes "list_all cells_ok (p # ps)" "name \<in> cells_names"
  shows "cell_upd (p # ps) name dflt
    = cell_upd ps name (if fst p = name then (case snd p of [a, b, c, d] \<Rightarrow> be32 a b c d | _ \<Rightarrow> dflt) else dflt)"
proof (cases "map_of (rev ps) name")
  case None
  then show ?thesis by (auto simp: cell_upd_def map_add_def)
next
  case (Some v)
  then have "(name, v) \<in> set ps" using map_of_SomeD by fastforce
  with assms have "length v = 4" by (auto simp: list_all_iff cells_ok_def)
  with cells_value_4 [OF this] Some show ?thesis by (auto simp: cell_upd_def map_add_def)
qed

lemma inherited_cells_upd:
  "list_all cells_ok ps \<Longrightarrow> inherited_cells (map prop_of ps) (a, s, i)
    = Inr (cell_upd ps (str_bytes ''#address-cells'') a, cell_upd ps (str_bytes ''#size-cells'') s, cell_upd ps (str_bytes ''#interrupt-cells'') i)"
proof (induction ps arbitrary: a s i)
  case Nil
  then show ?case by (simp add: cell_upd_def)
next
  case (Cons p ps)
  note u = cell_upd_Cons [OF Cons.prems]
  have IH: "inherited_cells (map prop_of ps) (a, s, i)
    = Inr (cell_upd ps (str_bytes ''#address-cells'') a, cell_upd ps (str_bytes ''#size-cells'') s, cell_upd ps (str_bytes ''#interrupt-cells'') i)" for a s i
    using Cons by simp
  show ?case
  proof (cases "fst p \<in> cells_names")
    case True
    then have "length (snd p) = 4" using Cons.prems by (auto simp: cells_ok_def)
    then obtain b c d e where "snd p = [b, c, d, e]" using cells_value_4 by blast
    then show ?thesis using True cells_names_distinct IH
      by (auto simp: cells_value_def u)
  next
    case False
    then show ?thesis using IH by (auto simp: u)
  qed
qed

lemma inherited_cells_of: "list_all cells_ok ps \<Longrightarrow> inherited_cells (map prop_of ps) (2, 1, 0) = Inr (cells_of ps)"
  by (simp add: cells_of_def inherited_cells_upd)

text \<open>The children of a node, one behind the other.\<close>

primrec nodes_of :: "(u8 list \<Rightarrow> u32) \<Rightarrow> u32 \<times> u32 \<times> u32 \<Rightarrow> dt_tree list \<Rightarrow> u32 \<Rightarrow> dt_node list" where
  "nodes_of off cells [] offset = []"
| "nodes_of off cells (c # cs) offset = node_of off offset cells c # nodes_of off cells cs (node_end off offset c)"

lemma child_list_read:
  assumes "small d" "list_all (parses mem d off) cs" "located mem d offset (concat (map (node_bytes off) cs) @ be_bytes TOKEN_END_NODE @ r)"
    "sum_list (map dt_weight cs) < fuel"
  shows "child_list fuel mem d cells offset = Inr (nodes_of off cells cs offset)"
  using assms(2-)
proof (induction cs arbitrary: offset fuel)
  case Nil
  then show ?case using located_get(1) [OF assms(1), of mem offset TOKEN_END_NODE r] by (cases fuel) (simp_all add: child_next_def)
next
  case (Cons c cs)
  obtain f where f: "fuel = Suc f" using Cons.prems(3) by (cases fuel) auto
  have l: "located mem d offset (node_bytes off c @ (concat (map (node_bytes off) cs) @ be_bytes TOKEN_END_NODE @ r))"
    using Cons.prems(2) by simp
  note e = located_node_end [OF assms(1) l]
  have w: "dt_weight c \<le> f" "sum_list (map dt_weight cs) < f" using Cons.prems(3) f by (cases c; simp)+
  have "node_new f mem d offset x y z = Inr (Inr (node_of off offset (x, y, z) c, node_end off offset c))" for x y z
    using parsesD [OF _ l w(1)] Cons.prems(1) by simp
  moreover have "child_list f mem d cells (node_end off offset c) = Inr (nodes_of off cells cs (node_end off offset c))"
    using Cons.IH [OF _ e(1) w(2)] Cons.prems(1) by simp
  ultimately show ?case using e(2) unfolding f by (cases cells) (simp add: child_next_def)
qed

definition cells_all_ok :: "dt_tree \<Rightarrow> bool" where
  "cells_all_ok t = dt_all (\<lambda>n ps. list_all cells_ok ps) t"

lemma read_children:
  assumes "small d" "located mem d offset (concat (map (node_bytes off) cs) @ r)"
    and "\<And>c offset r. c \<in> set cs \<Longrightarrow> located mem d offset (node_bytes off c @ r) \<Longrightarrow> f (node_of off offset cells c) = Inr (with_cells cells c)"
  shows "mapP f (nodes_of off cells cs offset) = Inr (map (with_cells cells) cs)"
  using assms(2,3)
proof (induction cs arbitrary: offset)
  case (Cons c cs)
  have l: "located mem d offset (node_bytes off c @ (concat (map (node_bytes off) cs) @ r))" using Cons.prems(1) by simp
  from Cons.IH [OF located_node_end(1) [OF assms(1) l]] Cons.prems(2) [OF _ l] Cons.prems(2) show ?case by simp
qed simp

lemma read_node_tree:
  assumes "small d"
  shows "readable mem d off t \<Longrightarrow> cells_all_ok t \<Longrightarrow> located mem d offset (node_bytes off t @ r) \<Longrightarrow> dt_weight t \<le> fuel
    \<Longrightarrow> read_node fuel mem d (node_of off offset cells t) = Inr (with_cells cells t)"
proof (induction t arbitrary: offset r fuel cells)
  case (DT_Node n ps cs)
  obtain f where f: "fuel = Suc f" using DT_Node.prems(4) by (cases fuel) auto
  have "length ps \<le> sum_list (map (\<lambda>p. 2 + length (fst p)) ps)" by (induction ps) auto
  then have lf: "length ps < f" "sum_list (map dt_weight cs) < f" using DT_Node.prems(4) f by simp_all
  have ps: "list_all (\<lambda>p. strings_ok mem d off (fst p)) ps" "list_all cells_ok ps"
    and cs: "\<And>c. c \<in> set cs \<Longrightarrow> readable mem d off c" "\<And>c. c \<in> set cs \<Longrightarrow> cells_all_ok c"
    using DT_Node.prems(1,2) by (auto simp: readable_def cells_all_ok_def list_all_iff)
  have pa: "list_all (parses mem d off) cs" using cs(1) node_parses [OF assms] by (simp add: list_all_iff)
  note ln = located_node [OF assms DT_Node.prems(3)]
  obtain v x where v: "concat (map (node_bytes off) cs) @ be_bytes TOKEN_END_NODE @ r = be_bytes v @ x"
    "v = TOKEN_BEGIN_NODE \<or> v = TOKEN_END_NODE" by (rule children_first)
  let ?n = "node_of off offset cells (DT_Node n ps cs)"
  have pl: "node_properties f mem d ?n = Inr (map prop_of ps)"
    using properties_read(2) [OF assms _ _ ps(1) lf(1)] ln(3) v
    by (cases cells) (fastforce simp: node_properties_def node_of_def Let_def)
  have lc: "located mem d (nd_children ?n) (concat (map (node_bytes off) cs) @ be_bytes TOKEN_END_NODE @ r)"
    using ln(4) by (cases cells) (simp add: node_of_def Let_def)
  have cl: "node_children f mem d ?n = Inr (nodes_of off (cells_of ps) cs (nd_children ?n))"
    using child_list_read [OF assms pa lc lf(2)] pl inherited_cells_of [OF ps(2)] by (simp add: node_children_def)
  have "read_node f mem d (node_of off o' (cells_of ps) c) = Inr (with_cells (cells_of ps) c)"
    if c: "c \<in> set cs" and "located mem d o' (node_bytes off c @ r')" for c o' r'
  proof -
    have "dt_weight c \<le> f" using lf(2) member_le_sum_list [of "dt_weight c" "map dt_weight cs"] c by simp
    then show ?thesis using DT_Node.IH [OF c cs(1,2) [OF c] that(2)] by blast
  qed
  then have "mapP (read_node f mem d) (nodes_of off (cells_of ps) cs (nd_children ?n)) = Inr (map (with_cells (cells_of ps)) cs)"
    using read_children [OF assms lc] by blast
  with pl cl show ?case unfolding f by (cases cells) (simp add: node_of_def Let_def comp_def)
qed

subsection \<open>What the library does not accept\<close>

text \<open>
  A token that means nothing (\<open>FDT_NOP\<close>) may stand between the parts of a node. The library counts it as
  a valid token, and then fails because it is not the start of a node.
\<close>

lemma nop_refused:
  assumes "small d" "located mem d offset (be_bytes TOKEN_BEGIN_NODE @ pad4 (n @ [0]) @ be_bytes TOKEN_NOP @ r)" "0 \<notin> set n"
  shows "node_new (Suc (Suc (Suc fuel))) mem d offset a s i = Inr (Inl UnexpectedToken)"
proof -
  note l = located_get [OF assms(1,2)]
  have pl: "length (pad4 (n @ [0])) = 4 * name_len n" by (simp add: length_pad4 name_len_def)
  let ?p = "offset + 1 + of_nat (name_len n)"
  have g: "dtb_get mem d ?p = Some TOKEN_NOP"
    using located_get(1) [OF assms(1) located_append(2) [OF assms(1) l(2) pl]] .
  have "located mem d (offset + 1) ((n @ [0]) @ replicate ((4 - length (n @ [0]) mod 4) mod 4) 0 @ be_bytes TOKEN_NOP @ r)"
    using l(2) by (simp add: pad4_def)
  from located_from [OF this] obtain q where fr: "dtb_from mem d (offset + 1) = Inr (n @ 0 # q)" by auto
  note c = cstr_to_str_Some [OF assms(3), of q]
  show ?thesis using l(1) fr c name_words(2) [OF assms(1) l(1) fr c] g by (simp add: Let_def name_len_def is_token_valid_def)
qed

text \<open>
  A value of \<open>#address-cells\<close> that is not four bytes long is accepted by the parser, because the test
  there looks at the size of a word, and ends in a panic when the children are visited.
\<close>

lemma bad_cells_panic:
  "length v \<noteq> 4 \<Longrightarrow> inherited_cells (prop_of (str_bytes ''#address-cells'', v) # ps) (a, s, i) = Inl Unwrap_Failed"
  by (auto simp: cells_value_def split: list.splits)

end
