(* ===== verification/Kernel_Device_Tree.thy ===== *)
theory Kernel_Device_Tree
  imports Fdt_Format Kernel_Log
begin

text \<open>
  The device tree parser of the kernel (\<open>kernel/src/driver/device_tree.rs\<close>). It is an interpreter with a
  program counter in the structure block; a node borrows the interpreter, and dropping a node moves the
  program counter behind whatever of the node was not read. \<open>print_node\<close> is the walk over a tree of
  \<open>dump_dtb\<close> in \<open>main.rs\<close>, with the tree that it prints as the result. Loops that skip tokens and strings
  take a bound on their steps.
\<close>

subsection \<open>State\<close>

(* src/kernel/src/driver/device_tree.rs:29-32 ParseDTBError *)
datatype parse_dtb_error = DTB_BadMagic u32

(* src/kernel/src/driver/device_tree.rs:73-82 Interpreter *)
record interpreter =
  ip_pc :: usize
  ip_strings :: usize
  ip_node_count :: usize
  ip_finished :: bool

(* src/kernel/src/driver/device_tree.rs:95-102 NodeState *)
datatype node_state = Properties | ChildNodes | Empty

(* src/kernel/src/driver/device_tree.rs:85-92 Node *)
record k_node =
  kn_name :: "u8 list"
  kn_state :: node_state

(* src/kernel/src/driver/device_tree.rs:105-110 Property *)
record k_property =
  kp_value :: "u8 list"
  kp_name :: "u8 list"

type_synonym 'a interpK = "(interpreter, 'a) comp"

subsection \<open>The header\<close>

(* src/kernel/src/driver/device_tree.rs:122-130 DeviceTree::parse_dtb *)
definition parse_dtb :: "memory \<Rightarrow> usize \<Rightarrow> parse_dtb_error + usize" where
  "parse_dtb mem address =
     (let header = header_at mem address in
      if fh_magic header \<noteq> FDT_MAGIC then Inl (DTB_BadMagic (fh_magic header)) else Inr address)"

(* src/kernel/src/driver/device_tree.rs:144-154 Iter::next *)
definition k_rmr_next :: "memory \<Rightarrow> usize \<Rightarrow> ((u64 \<times> u64) \<times> usize) option" where
  "k_rmr_next mem rmr =
     (let address = be64_at mem rmr; sz = be64_at mem (rmr + 8) in
      if address = 0 \<and> sz = 0 then None else Some ((address, sz), rmr + 16))"

(* src/kernel/src/driver/device_tree.rs:136-165 DeviceTree::reserved_memory_regions *)
definition k_reserved_memory_regions :: "memory \<Rightarrow> usize \<Rightarrow> usize" where
  "k_reserved_memory_regions mem header =
     header + ucast (fh_offset_memory_reservation_block (header_at mem header))"

(* src/kernel/src/driver/device_tree.rs:168-188 DeviceTree::interpreter *)
definition dt_interpreter :: "memory \<Rightarrow> usize \<Rightarrow> interpreter" where
  "dt_interpreter mem header =
     \<lparr>ip_pc = header + ucast (fh_offset_structure_block (header_at mem header)),
      ip_strings = header + ucast (fh_offset_strings_block (header_at mem header)),
      ip_node_count = 0, ip_finished = False\<rparr>"

(* src/kernel/src/driver/device_tree.rs:191-193 DeviceTree::total_size *)
definition k_total_size :: "memory \<Rightarrow> usize \<Rightarrow> usize" where
  "k_total_size mem header = ucast (fh_total_size (header_at mem header))"

subsection \<open>Strings\<close>

primrec cstr_scan :: "nat \<Rightarrow> memory \<Rightarrow> usize \<Rightarrow> u8 list may_panic" where
  "cstr_scan 0 mem p = Inl Endless_Loop"
| "cstr_scan (Suc fuel) mem p =
     (if mem p = 0 then Inr [] else bindP (cstr_scan fuel mem (p + 1)) (\<lambda>s. Inr (mem p # s)))"

(* src/kernel/src/util.rs:42-51 cstr_to_str *)
definition k_cstr_to_str :: "nat \<Rightarrow> memory \<Rightarrow> usize \<Rightarrow> ((nat \<times> nat option) + u8 list) may_panic" where
  "k_cstr_to_str fuel mem cstr =
     bindP (cstr_scan fuel mem cstr) (\<lambda>s. Inr (case from_utf8 s of Inl e \<Rightarrow> Inl e | Inr _ \<Rightarrow> Inr s))"

(* src/kernel/src/driver/device_tree.rs:198-204 StringsBlock::get *)
definition k_strings_get :: "nat \<Rightarrow> memory \<Rightarrow> usize \<Rightarrow> u32 \<Rightarrow> u8 list may_panic" where
  "k_strings_get fuel mem strings offset = bindP (k_cstr_to_str fuel mem (strings + ucast offset)) unwrapR"

subsection \<open>The interpreter\<close>

(* src/kernel/src/driver/device_tree.rs:220-223 Interpreter::current *)
definition current_token :: "memory \<Rightarrow> interpreter \<Rightarrow> u32" where
  "current_token mem i = be32_at mem (ip_pc i)"

(* src/kernel/src/driver/device_tree.rs:227-231 Interpreter::advance *)
definition advance :: "u32 \<Rightarrow> interpreter \<Rightarrow> interpreter" where
  "advance steps i = i\<lparr>ip_pc := ip_pc i + 4 * ucast steps\<rparr>"

(* src/kernel/src/driver/device_tree.rs:234-238 Interpreter::step *)
definition step_token :: "memory \<Rightarrow> interpreter \<Rightarrow> u32 \<times> interpreter" where
  "step_token mem i = (current_token mem i, advance 1 i)"

(* src/kernel/src/driver/device_tree.rs:241-245 Interpreter::rewind *)
definition rewind :: "u32 \<Rightarrow> interpreter \<Rightarrow> interpreter" where
  "rewind steps i = i\<lparr>ip_pc := ip_pc i - 4 * ucast steps\<rparr>"

(* src/kernel/src/driver/device_tree.rs:254-284 Interpreter::step_node *)
primrec step_node :: "nat \<Rightarrow> memory \<Rightarrow> k_node option interpK" where
  "step_node 0 mem = panicK Endless_Loop"
| "step_node (Suc fuel) mem = (\<lambda>i.
     (let (tk, i) = step_token mem i in
      if tk = TOKEN_BEGIN_NODE then
        bindP (k_cstr_to_str fuel mem (ip_pc i)) (\<lambda>r.
        bindP (unwrapR r) (\<lambda>name.
        let align = of_nat (length name) + 1; align = (align + 3) AND NOT 3 in
        Inr (Some \<lparr>kn_name = name, kn_state = Properties\<rparr>, advance (align div 4) i)))
      else if tk = TOKEN_END_NODE then Inr (None, i\<lparr>ip_node_count := ip_node_count i + 1\<rparr>)
      else if tk = TOKEN_PROP then Inl Explicit_Panic
      else if tk = TOKEN_NOP then step_node fuel mem i
      else if tk = TOKEN_END then Inr (None, i\<lparr>ip_finished := True\<rparr>)
      else Inl Explicit_Panic))"

(* src/kernel/src/driver/device_tree.rs:215-217 Interpreter::next_node *)
definition next_node :: "nat \<Rightarrow> memory \<Rightarrow> k_node option interpK" where
  "next_node fuel mem = step_node fuel mem"

(* src/kernel/src/driver/device_tree.rs:293-324 Interpreter::step_property *)
primrec step_property :: "nat \<Rightarrow> memory \<Rightarrow> k_property option interpK" where
  "step_property 0 mem = panicK Endless_Loop"
| "step_property (Suc fuel) mem = (\<lambda>i.
     (let (tk, i) = step_token mem i in
      if tk = TOKEN_BEGIN_NODE then Inr (None, rewind 1 i)
      else if tk = TOKEN_END_NODE then Inr (None, rewind 1 i)
      else if tk = TOKEN_PROP then
        (let (len, i) = step_token mem i; (name, i) = step_token mem i in
         bindP (k_strings_get fuel mem (ip_strings i) name) (\<lambda>name.
         let value = bytes_at mem (ip_pc i) (unat len); align = (len + 3) AND NOT 3 in
         Inr (Some \<lparr>kp_value = value, kp_name = name\<rparr>, advance (align div 4) i)))
      else if tk = TOKEN_NOP then step_property fuel mem i
      else if tk = TOKEN_END then Inr (None, i\<lparr>ip_finished := True\<rparr>)
      else Inl Explicit_Panic))"

(* src/kernel/src/driver/device_tree.rs:327-335 Interpreter::finish *)
primrec finish :: "nat \<Rightarrow> memory \<Rightarrow> unit interpK" where
  "finish 0 mem = panicK Endless_Loop"
| "finish (Suc fuel) mem = (\<lambda>i.
     if ip_finished i then Inr ((), i)
     else
       let (tk, i) = step_token mem i in
       finish fuel mem
         (if tk = TOKEN_END_NODE then i\<lparr>ip_node_count := ip_node_count i + 1\<rparr>
          else if tk = TOKEN_END then i\<lparr>ip_finished := True\<rparr> else i))"

subsection \<open>Nodes\<close>

text \<open>The operations on a node return the node with its new state beside their result.\<close>

(* src/kernel/src/driver/device_tree.rs:340-351 Node::next_property *)
definition next_property :: "nat \<Rightarrow> memory \<Rightarrow> k_node \<Rightarrow> (k_property option \<times> k_node) interpK" where
  "next_property fuel mem n =
     (if kn_state n = Properties then
        bindK (step_property fuel mem) (\<lambda>p. case p of
          Some p \<Rightarrow> retK (Some p, n)
        | None \<Rightarrow> retK (None, n\<lparr>kn_state := ChildNodes\<rparr>))
      else retK (None, n))"

(* src/kernel/src/driver/device_tree.rs:354-365 Node::next_child_node *)
definition next_child_node :: "nat \<Rightarrow> memory \<Rightarrow> k_node \<Rightarrow> (k_node option \<times> k_node) interpK" where
  "next_child_node fuel mem n =
     (if kn_state n = ChildNodes then
        bindK (step_node fuel mem) (\<lambda>c. case c of
          Some c \<Rightarrow> retK (Some c, n)
        | None \<Rightarrow> retK (None, n\<lparr>kn_state := Empty\<rparr>))
      else retK (None, n))"

text \<open>Dropping a node: a child that the condition of the loop returns is dropped at once.\<close>

primrec drop_properties :: "nat \<Rightarrow> memory \<Rightarrow> k_node \<Rightarrow> k_node interpK" where
  "drop_properties 0 mem n = panicK Endless_Loop"
| "drop_properties (Suc fuel) mem n =
     bindK (next_property fuel mem n) (\<lambda>(p, n). if p \<noteq> None then drop_properties fuel mem n else retK n)"

(* src/kernel/src/driver/device_tree.rs:368-374 Node::drop *)
fun drop_node :: "nat \<Rightarrow> memory \<Rightarrow> k_node \<Rightarrow> unit interpK"
  and drop_children :: "nat \<Rightarrow> memory \<Rightarrow> k_node \<Rightarrow> unit interpK" where
  "drop_node 0 mem n = panicK Endless_Loop"
| "drop_node (Suc fuel) mem n = bindK (drop_properties fuel mem n) (\<lambda>n. drop_children fuel mem n)"
| "drop_children 0 mem n = panicK Endless_Loop"
| "drop_children (Suc fuel) mem n =
     bindK (next_child_node fuel mem n) (\<lambda>(c, n). case c of
        Some c \<Rightarrow> bindK (drop_node fuel mem c) (\<lambda>_. drop_children fuel mem n)
      | None \<Rightarrow> retK ())"

primrec print_properties :: "nat \<Rightarrow> memory \<Rightarrow> k_node \<Rightarrow> ((u8 list \<times> u8 list) list \<times> k_node) interpK" where
  "print_properties 0 mem n = panicK Endless_Loop"
| "print_properties (Suc fuel) mem n =
     bindK (next_property fuel mem n) (\<lambda>(p, n). case p of
        Some p \<Rightarrow> bindK (print_properties fuel mem n) (\<lambda>(ps, n). retK ((kp_name p, kp_value p) # ps, n))
      | None \<Rightarrow> retK ([], n))"

(* src/kernel/src/main.rs:91-120 dump_dtb::print_node *)
fun print_node :: "nat \<Rightarrow> memory \<Rightarrow> k_node \<Rightarrow> dt_tree interpK"
  and print_children :: "nat \<Rightarrow> memory \<Rightarrow> k_node \<Rightarrow> (dt_tree list \<times> k_node) interpK" where
  "print_node 0 mem n = panicK Endless_Loop"
| "print_node (Suc fuel) mem n =
     bindK (print_properties fuel mem n) (\<lambda>(ps, n).
     bindK (print_children fuel mem n) (\<lambda>(cs, n).
     bindK (drop_node fuel mem n) (\<lambda>_. retK (DT_Node (kn_name n) ps cs))))"
| "print_children 0 mem n = panicK Endless_Loop"
| "print_children (Suc fuel) mem n =
     bindK (next_child_node fuel mem n) (\<lambda>(c, n). case c of
        Some c \<Rightarrow> bindK (print_node fuel mem c) (\<lambda>t. bindK (print_children fuel mem n) (\<lambda>(ts, n). retK (t # ts, n)))
      | None \<Rightarrow> retK ([], n))"

end
