(* ===== verification/Kernel_Device_Tree_Props.thy ===== *)
theory Kernel_Device_Tree_Props
  imports Device_Tree_Props Kernel_Device_Tree
begin

text \<open>
  The kernel reads back the trees that are encoded in memory, whether it visits a node or drops it
  unread, and the two parsers of the repository read the same tree.
\<close>

subsection \<open>Single steps\<close>

definition moved :: "nat \<Rightarrow> nat \<Rightarrow> interpreter \<Rightarrow> interpreter" where
  "moved k m i = i\<lparr>ip_pc := ip_pc i + of_nat k, ip_node_count := ip_node_count i + of_nat m\<rparr>"

lemma moved_simps [simp]:
  "ip_pc (moved k m i) = ip_pc i + of_nat k" "ip_strings (moved k m i) = ip_strings i"
  "moved k m (moved k' m' i) = moved (k' + k) (m' + m) i"
  by (simp_all add: moved_def add.assoc)

lemma step_token_holds:
  assumes "holds mem (ip_pc i) (be_bytes w @ r)"
  shows "step_token mem i = (w, moved 4 0 i)" "holds mem (ip_pc (moved 4 0 i)) r" "rewind 1 (moved 4 0 i) = i"
  using assms by (simp_all add: step_token_def current_token_def be32_at_holds advance_def rewind_def moved_def)

lemma cstr_scan_holds: "holds mem p (s @ [0]) \<Longrightarrow> 0 \<notin> set s \<Longrightarrow> length s < fuel \<Longrightarrow> cstr_scan fuel mem p = Inr s"
proof (induction s arbitrary: p fuel)
  case Nil
  then show ?case by (cases fuel) auto
next
  case (Cons c s)
  then show ?case by (cases fuel) (auto simp: add.assoc)
qed

text \<open>Rounding up to whole words as the code does it.\<close>

lemma word_align: "((x + 3) AND NOT 3) div 4 = (x + 3) div (4 :: u32)"
proof -
  have "(y AND NOT 3) div 4 = y div 4" for y :: u32
  proof -
    have "drop_bit 2 (y AND NOT (mask 2)) = drop_bit 2 y" by (rule bit_word_eqI) (auto simp: bit_simps dest: bit_imp_le_length)
    then show ?thesis by (simp add: drop_bit_eq_div mask_eq_exp_minus_1)
  qed
  then show ?thesis .
qed

lemma advance_words:
  assumes "l + 3 < 2 ^ 32"
  shows "advance ((of_nat l + 3 AND NOT 3) div 4) i = moved (4 * ((l + 3) div 4)) 0 i"
proof -
  have "(of_nat l + 3 :: u32) div 4 = of_nat ((l + 3) div 4)" using words_of_length [OF assms] by (simp add: algebra_simps)
  moreover have "(l + 3) div 4 < 2 ^ 32" using assms by linarith
  then have "(ucast (of_nat ((l + 3) div 4) :: u32) :: usize) = of_nat ((l + 3) div 4)"
    unfolding word_unat_eq_iff by (simp add: unat_of_nat_less)
  ultimately show ?thesis unfolding word_align by (simp add: advance_def moved_def)
qed

definition kernel_string :: "memory \<Rightarrow> usize \<Rightarrow> (u8 list \<Rightarrow> u32) \<Rightarrow> u8 list \<Rightarrow> bool" where
  "kernel_string mem strings off n \<longleftrightarrow> 0 \<notin> set n \<and> from_utf8 n = Inr () \<and> holds mem (strings + ucast (off n)) (n @ [0])"

definition kernel_prop :: "memory \<Rightarrow> usize \<Rightarrow> (u8 list \<Rightarrow> u32) \<Rightarrow> u8 list \<times> u8 list \<Rightarrow> bool" where
  "kernel_prop mem strings off p \<longleftrightarrow> kernel_string mem strings off (fst p) \<and> length (snd p) + 3 < 2 ^ 32"

definition kernel_readable :: "memory \<Rightarrow> usize \<Rightarrow> (u8 list \<Rightarrow> u32) \<Rightarrow> dt_tree \<Rightarrow> bool" where
  "kernel_readable mem strings off t = dt_all (\<lambda>n ps.
     0 \<notin> set n \<and> from_utf8 n = Inr () \<and> length n + 4 < 2 ^ 32 \<and> list_all (kernel_prop mem strings off) ps) t"

lemma step_property_read:
  assumes "holds mem (ip_pc i) (prop_bytes off p @ r)" "kernel_prop mem (ip_strings i) off p" "length (fst p) < fuel"
  shows "step_property (Suc fuel) mem i = Inr (Some \<lparr>kp_value = snd p, kp_name = fst p\<rparr>, moved (length (prop_bytes off p)) 0 i)"
proof -
  let ?v = "snd p"
  have b: "holds mem (ip_pc i) (be_bytes TOKEN_PROP @ (be_bytes (of_nat (length ?v)) @ (be_bytes (off (fst p)) @ (?v @ r'))))"
    if "pad4 ?v @ r = ?v @ r'" for r' using assms(1) that by (simp add: prop_bytes_def)
  obtain r' where r': "pad4 ?v @ r = ?v @ r'" by (simp add: pad4_def)
  note s1 = step_token_holds [OF b [OF r']]
  note s2 = step_token_holds [OF s1(2)]
  note s3 = step_token_holds [OF s2(2)]
  have k: "0 \<notin> set (fst p)" "from_utf8 (fst p) = Inr ()" "holds mem (ip_strings i + ucast (off (fst p))) (fst p @ [0])"
    "length ?v + 3 < 2 ^ 32" using assms(2) by (simp_all add: kernel_prop_def kernel_string_def)
  have u: "unat (of_nat (length ?v) :: u32) = length ?v" using k(4) by (intro unat_of_nat_less) simp
  have "holds mem (ip_pc i + 12) ?v" using s3(2) by simp
  then have v: "bytes_at mem (ip_pc i + 12) (length ?v) = ?v" by (simp add: holds_def)
  have str: "k_strings_get fuel mem (ip_strings i) (off (fst p)) = Inr (fst p)"
    using cstr_scan_holds [OF k(3,1) assms(3)] k(2) by (simp add: k_strings_get_def k_cstr_to_str_def)
  have l: "length (prop_bytes off p) = 12 + 4 * ((length ?v + 3) div 4)" by (simp add: prop_bytes_def length_pad4)
  show ?thesis using s1(1) s2(1) s3(1) str u v advance_words [OF k(4)] unfolding l by (simp add: Let_def)
qed

lemma step_property_none:
  assumes "holds mem (ip_pc i) (be_bytes w @ r)" "w = TOKEN_BEGIN_NODE \<or> w = TOKEN_END_NODE"
  shows "step_property (Suc fuel) mem i = Inr (None, i)"
  using step_token_holds [OF assms(1)] assms(2) by auto

lemma step_node_read:
  assumes "holds mem (ip_pc i) (be_bytes TOKEN_BEGIN_NODE @ pad4 (n @ [0]) @ r)" "0 \<notin> set n" "from_utf8 n = Inr ()" "length n + 4 < 2 ^ 32"
    "length n < fuel"
  shows "step_node (Suc fuel) mem i = Inr (Some \<lparr>kn_name = n, kn_state = Properties\<rparr>, moved (4 + length (pad4 (n @ [0]))) 0 i)"
    "holds mem (ip_pc (moved (4 + length (pad4 (n @ [0]))) 0 i)) r"
proof -
  note s = step_token_holds [OF assms(1)]
  have "holds mem (ip_pc i + 4) (n @ [0])" using s(2) by (simp add: pad4_def)
  from cstr_scan_holds [OF this assms(2,5)] assms(3) have c: "k_cstr_to_str fuel mem (ip_pc i + 4) = Inr (Inr n)"
    by (simp add: k_cstr_to_str_def)
  have a: "length n + 1 + 3 < 2 ^ 32" using assms(4) by simp
  show "step_node (Suc fuel) mem i = Inr (Some \<lparr>kn_name = n, kn_state = Properties\<rparr>, moved (4 + length (pad4 (n @ [0]))) 0 i)"
    using s(1) c advance_words [OF a, of "moved 4 0 i"] unfolding length_pad4 by (simp add: Let_def add.commute)
  show "holds mem (ip_pc (moved (4 + length (pad4 (n @ [0]))) 0 i)) r" using assms(1) by (simp add: add.assoc)
qed

lemma step_node_end:
  assumes "holds mem (ip_pc i) (be_bytes TOKEN_END_NODE @ r)"
  shows "step_node (Suc fuel) mem i = Inr (None, moved 4 1 i)"
  using step_token_holds [OF assms] by (simp add: moved_def)

subsection \<open>Visiting a node\<close>

lemma properties_visited:
  assumes "holds mem (ip_pc i) (concat (map (prop_bytes off) ps) @ be_bytes w @ r)" "w = TOKEN_BEGIN_NODE \<or> w = TOKEN_END_NODE"
    and "list_all (kernel_prop mem (ip_strings i) off) ps" "sum_list (map (\<lambda>p. 2 + length (fst p)) ps) + 1 < fuel" "kn_state n = Properties"
  shows "drop_properties fuel mem n i = Inr (n\<lparr>kn_state := ChildNodes\<rparr>, moved (length (concat (map (prop_bytes off) ps))) 0 i)
    \<and> print_properties fuel mem n i = Inr ((ps, n\<lparr>kn_state := ChildNodes\<rparr>), moved (length (concat (map (prop_bytes off) ps))) 0 i)"
  using assms(1,3,4)
proof (induction ps arbitrary: i fuel)
  case Nil
  obtain f where f: "fuel = Suc (Suc f)" using Nil.prems(3) less_imp_Suc_add [of 1 fuel] by auto
  have "step_property (Suc f) mem i = Inr (None, i)" using step_property_none [OF _ assms(2)] Nil.prems(1) by simp
  then have "next_property (Suc f) mem n i = Inr ((None, n\<lparr>kn_state := ChildNodes\<rparr>), i)"
    using assms(5) by (simp add: next_property_def kern_simps del: step_property.simps)
  then show ?case by (simp add: f bindK_Inr moved_def)
next
  case (Cons p ps)
  have "1 < fuel" using Cons.prems(3) by simp
  then obtain f where f: "fuel = Suc (Suc f)" using less_imp_Suc_add [of 1 fuel] by auto
  have l: "length (fst p) < f" "sum_list (map (\<lambda>p. 2 + length (fst p)) ps) + 1 < Suc f" using Cons.prems(3) f by simp_all
  have h: "holds mem (ip_pc i) (prop_bytes off p @ (concat (map (prop_bytes off) ps) @ be_bytes w @ r))" using Cons.prems(1) by simp
  let ?i = "moved (length (prop_bytes off p)) 0 i"
  have "step_property (Suc f) mem i = Inr (Some \<lparr>kp_value = snd p, kp_name = fst p\<rparr>, ?i)"
    using step_property_read [OF h _ l(1)] Cons.prems(2) by simp
  then have "next_property (Suc f) mem n i = Inr ((Some \<lparr>kp_value = snd p, kp_name = fst p\<rparr>, n), ?i)"
    using assms(5) by (simp add: next_property_def kern_simps del: step_property.simps)
  moreover have "holds mem (ip_pc ?i) (concat (map (prop_bytes off) ps) @ be_bytes w @ r)" using h by simp
  ultimately show ?case using Cons.IH [of ?i "Suc f"] Cons.prems(2) l(2) by (simp add: f bindK_Inr)
qed

definition visits :: "memory \<Rightarrow> usize \<Rightarrow> (u8 list \<Rightarrow> u32) \<Rightarrow> dt_tree \<Rightarrow> bool" where
  "visits mem strings off t \<longleftrightarrow> (\<forall>i r fuel.
     holds mem (ip_pc i) (node_bytes off t @ r) \<longrightarrow> ip_strings i = strings \<longrightarrow> dt_weight t \<le> fuel \<longrightarrow>
     (\<exists>j. step_node fuel mem i = Inr (Some \<lparr>kn_name = dt_name t, kn_state = Properties\<rparr>, j)
       \<and> drop_node fuel mem \<lparr>kn_name = dt_name t, kn_state = Properties\<rparr> j = Inr ((), moved (length (node_bytes off t)) (dt_nodes t) i)
       \<and> print_node fuel mem \<lparr>kn_name = dt_name t, kn_state = Properties\<rparr> j = Inr (t, moved (length (node_bytes off t)) (dt_nodes t) i)))"

lemma visitsD:
  assumes "visits mem strings off t" "holds mem (ip_pc i) (node_bytes off t @ r)" "ip_strings i = strings" "dt_weight t \<le> fuel"
  obtains j where "step_node fuel mem i = Inr (Some \<lparr>kn_name = dt_name t, kn_state = Properties\<rparr>, j)"
    "drop_node fuel mem \<lparr>kn_name = dt_name t, kn_state = Properties\<rparr> j = Inr ((), moved (length (node_bytes off t)) (dt_nodes t) i)"
    "print_node fuel mem \<lparr>kn_name = dt_name t, kn_state = Properties\<rparr> j = Inr (t, moved (length (node_bytes off t)) (dt_nodes t) i)"
  using assms unfolding visits_def by blast

lemma children_visited:
  assumes "list_all (visits mem (ip_strings i) off) cs" "holds mem (ip_pc i) (concat (map (node_bytes off) cs) @ be_bytes TOKEN_END_NODE @ r)"
    and "sum_list (map dt_weight cs) + 1 < fuel" "kn_state n = ChildNodes"
  shows "drop_children fuel mem n i = Inr ((), moved (length (concat (map (node_bytes off) cs)) + 4) (sum_list (map dt_nodes cs) + 1) i)
    \<and> print_children fuel mem n i = Inr ((cs, n\<lparr>kn_state := Empty\<rparr>), moved (length (concat (map (node_bytes off) cs)) + 4) (sum_list (map dt_nodes cs) + 1) i)"
  using assms(1-3)
proof (induction cs arbitrary: i fuel)
  case Nil
  obtain f where f: "fuel = Suc (Suc f)" using Nil.prems(3) less_imp_Suc_add [of 1 fuel] by auto
  have "step_node (Suc f) mem i = Inr (None, moved 4 1 i)" using step_node_end Nil.prems(2) by simp
  then have "next_child_node (Suc f) mem n i = Inr ((None, n\<lparr>kn_state := Empty\<rparr>), moved 4 1 i)"
    using assms(4) by (simp add: next_child_node_def kern_simps del: step_node.simps)
  then show ?case by (simp add: f bindK_Inr)
next
  case (Cons c cs)
  have w: "4 \<le> dt_weight c" by (cases c) simp
  obtain f where f: "fuel = Suc f" "dt_weight c \<le> f" "sum_list (map dt_weight cs) + 1 < f"
    using Cons.prems(3) w by (cases fuel) auto
  have h: "holds mem (ip_pc i) (node_bytes off c @ (concat (map (node_bytes off) cs) @ be_bytes TOKEN_END_NODE @ r))" using Cons.prems(2) by simp
  let ?i = "moved (length (node_bytes off c)) (dt_nodes c) i" and ?c = "\<lparr>kn_name = dt_name c, kn_state = Properties\<rparr>"
  obtain j where j: "step_node f mem i = Inr (Some ?c, j)" "drop_node f mem ?c j = Inr ((), ?i)" "print_node f mem ?c j = Inr (c, ?i)"
    using visitsD [OF _ h refl f(2)] Cons.prems(1) by auto
  from j(1) have "next_child_node f mem n i = Inr ((Some ?c, n), j)"
    using assms(4) by (simp add: next_child_node_def kern_simps)
  moreover have "holds mem (ip_pc ?i) (concat (map (node_bytes off) cs) @ be_bytes TOKEN_END_NODE @ r)" using h by simp
  ultimately show ?case using Cons.IH [of ?i f] Cons.prems(1) f(3) j(2,3) by (simp add: f(1) bindK_Inr add.assoc)
qed

lemma drop_empty_node: "1 < fuel \<Longrightarrow> kn_state n = Empty \<Longrightarrow> drop_node fuel mem n i = Inr ((), i)"
proof -
  assume e: "kn_state n = Empty" and "1 < fuel"
  then obtain f where "fuel = Suc (Suc f)" using less_imp_Suc_add [of 1 fuel] by auto
  with e show ?thesis by (simp add: next_property_def next_child_node_def bindK_Inr)
qed

lemma node_visits: "kernel_readable mem strings off t \<Longrightarrow> visits mem strings off t"
proof (induction t)
  case (DT_Node n ps cs)
  let ?t = "DT_Node n ps cs" and ?n = "\<lparr>kn_name = n, kn_state = Properties\<rparr>" and ?m = "\<lparr>kn_name = n, kn_state = ChildNodes\<rparr>"
  let ?ps = "concat (map (prop_bytes off) ps)" and ?cs = "concat (map (node_bytes off) cs)"
  have all: "0 \<notin> set n" "from_utf8 n = Inr ()" "length n + 4 < 2 ^ 32" "list_all (kernel_prop mem strings off) ps" "list_all (visits mem strings off) cs"
    using DT_Node.prems DT_Node.IH by (auto simp: kernel_readable_def list_all_iff)
  have "\<exists>j. step_node fuel mem i = Inr (Some ?n, j)
      \<and> drop_node fuel mem ?n j = Inr ((), moved (length (node_bytes off ?t)) (dt_nodes ?t) i)
      \<and> print_node fuel mem ?n j = Inr (?t, moved (length (node_bytes off ?t)) (dt_nodes ?t) i)"
    if h: "holds mem (ip_pc i) (node_bytes off ?t @ r)" and st: "ip_strings i = strings" and w: "dt_weight ?t \<le> fuel" for i r fuel
  proof -
    obtain f where f: "fuel = Suc f" using w by (cases fuel) auto
    have l: "length n < f" "sum_list (map (\<lambda>p. 2 + length (fst p)) ps) + 1 < f" "sum_list (map dt_weight cs) + 1 < f" "1 < f"
      using w f by simp_all
    have h': "holds mem (ip_pc i) (be_bytes TOKEN_BEGIN_NODE @ pad4 (n @ [0]) @ (?ps @ ?cs @ be_bytes TOKEN_END_NODE @ r))" using h by simp
    note sn = step_node_read [OF h' all(1,2,3) l(1)]
    let ?j = "moved (4 + length (pad4 (n @ [0]))) 0 i"
    obtain v x where v: "?cs @ be_bytes TOKEN_END_NODE @ r = be_bytes v @ x" "v = TOKEN_BEGIN_NODE \<or> v = TOKEN_END_NODE"
      by (rule children_first)
    have pv: "drop_properties f mem ?n ?j = Inr (?m, moved (length ?ps) 0 ?j)" "print_properties f mem ?n ?j = Inr ((ps, ?m), moved (length ?ps) 0 ?j)"
      using properties_visited [OF _ v(2), of mem ?j off ps x f ?n] sn(2) all(4) l(2) st unfolding v(1) by simp_all
    let ?k = "moved (length ?ps) 0 ?j"
    have "holds mem (ip_pc ?k) (?cs @ be_bytes TOKEN_END_NODE @ r)" using sn(2) by (simp add: add.assoc)
    then have cv: "drop_children f mem ?m ?k = Inr ((), moved (length ?cs + 4) (sum_list (map dt_nodes cs) + 1) ?k)"
      "print_children f mem ?m ?k = Inr ((cs, \<lparr>kn_name = n, kn_state = Empty\<rparr>), moved (length ?cs + 4) (sum_list (map dt_nodes cs) + 1) ?k)"
      using children_visited [of mem ?k off cs r f ?m] all(5) l(3) st by simp_all
    have e: "moved (length ?cs + 4) (sum_list (map dt_nodes cs) + 1) ?k = moved (length (node_bytes off ?t)) (dt_nodes ?t) i"
      by (simp add: algebra_simps)
    show ?thesis
      using sn(1) pv cv drop_empty_node [OF l(4), of "\<lparr>kn_name = n, kn_state = Empty\<rparr>" mem] unfolding f e
      by (simp del: step_node.simps node_bytes.simps dt_nodes.simps moved_simps add: bindK_Inr)
  qed
  then show ?case unfolding visits_def dt_tree.sel by blast
qed

subsection \<open>Both parsers\<close>

definition tree_text :: "dt_tree \<Rightarrow> bool" where
  "tree_text t = dt_all (\<lambda>n ps. from_utf8 n = Inr () \<and> list_all (\<lambda>p. from_utf8 (fst p) = Inr ()) ps) t"

text \<open>The data \<open>d\<close> is a flattened device tree of the tree \<open>t\<close>, with the names of properties where \<open>off\<close> says.\<close>

definition fdt_encodes :: "memory \<Rightarrow> dtb \<Rightarrow> (u8 list \<Rightarrow> u32) \<Rightarrow> dt_tree \<Rightarrow> bool" where
  "fdt_encodes mem d off t \<longleftrightarrow>
     small d \<and> 10 \<le> unat (dt_len d) \<and> fh_magic (dtb_header mem d) = FDT_MAGIC
     \<and> unat (fh_total_size (dtb_header mem d)) \<le> 4 * unat (dt_len d)
     \<and> 4 dvd unat (fh_offset_structure_block (dtb_header mem d))
     \<and> located mem d (fh_offset_structure_block (dtb_header mem d) div 4) (node_bytes off t @ be_bytes TOKEN_END)
     \<and> readable mem d off t \<and> cells_all_ok t \<and> tree_text t"

lemma node_bytes_lengths:
  "length (node_bytes off t) \<le> 2 ^ 32 \<Longrightarrow> dt_all (\<lambda>n ps. length n + 4 < 2 ^ 32 \<and> list_all (\<lambda>p. length (snd p) + 3 < 2 ^ 32) ps) t"
proof (induction t)
  case (DT_Node n ps cs)
  have c: "length (node_bytes off c) \<le> length (concat (map (node_bytes off) cs))" if "c \<in> set cs" for c
    using that by (induction cs) auto
  have "length (snd p) + 12 \<le> length (concat (map (prop_bytes off) ps))" if "p \<in> set ps" for p
  proof -
    have "length (snd p) + 12 \<le> length (prop_bytes off p)" by (simp add: prop_bytes_def pad4_def)
    also have "\<dots> \<le> length (concat (map (prop_bytes off) ps))" using that by (induction ps) auto
    finally show ?thesis .
  qed
  then have "length (snd p) + 3 < 2 ^ 32" if "p \<in> set ps" for p using DT_Node.prems that by fastforce
  moreover have "length n + 1 \<le> length (pad4 (n @ [0]))" by (simp add: pad4_def)
  then have "length n + 4 < 2 ^ 32" using DT_Node.prems by simp
  moreover have "length (node_bytes off c) \<le> 2 ^ 32" if "c \<in> set cs" for c using DT_Node.prems c [OF that] by simp
  ultimately show ?case using DT_Node.IH by (simp add: list_all_iff)
qed

lemma dt_all_mono: "dt_all P t \<Longrightarrow> dt_all Q t \<Longrightarrow> (\<And>n ps. P n ps \<Longrightarrow> Q n ps \<Longrightarrow> R n ps) \<Longrightarrow> dt_all R t"
  by (induction t) (auto simp: list_all_iff)

lemma dt_all_conj: "dt_all P t \<Longrightarrow> dt_all Q t \<Longrightarrow> dt_all (\<lambda>n ps. P n ps \<and> Q n ps) t"
  by (erule dt_all_mono) auto

lemma kernel_readable_encoded:
  assumes "fdt_encodes mem d off t"
  shows "kernel_readable mem (dt_ptr d + ucast (fh_offset_strings_block (dtb_header mem d))) off t"
proof -
  have "length (node_bytes off t) \<le> 2 ^ 32" using assms by (simp add: fdt_encodes_def located_def small_def)
  note l = node_bytes_lengths [OF this]
  have r: "readable mem d off t" and x: "tree_text t" using assms by (simp_all add: fdt_encodes_def)
  show ?thesis unfolding kernel_readable_def
    by (rule dt_all_mono [OF r [unfolded readable_def] dt_all_conj [OF l x [unfolded tree_text_def]]])
      (auto simp: list_all_iff kernel_prop_def kernel_string_def string_at_def)
qed

lemma structure_address:
  assumes "4 dvd unat (x :: u32)"
  shows "dtb_addr d (x div 4) = dt_ptr d + ucast x"
proof -
  have "4 * (unat x div 4) = unat x" using assms by simp
  then have "(4 * ucast (x div 4) :: usize) = ucast x"
    unfolding word_unat_eq_iff using unat_less_2p [of x] by (subst unat_mult_no_overflow) (simp_all add: unat_div)
  then show ?thesis by (simp add: dtb_addr_def)
qed

lemma dt_weight_positive: "4 \<le> dt_weight t"
  by (cases t) simp

text \<open>
  C38. The two device tree parsers of the repository read the same tree from data without \<open>FDT_NOP\<close> tokens.
  When memory holds the encoding of a tree in which no such token stands, the library for user programs accepts the data, parses the root, and its iterators give
  back every node with its name, its properties in order, its children in order and the numbers of
  cells that its parent sets. The interpreter of the kernel finds the root at the same place and its
  walk gives back the same tree. A node that the kernel drops without reading anything of it leaves the
  interpreter in the state in which the walk leaves it, with every node counted once, and the next
  node is the end of the tree. The agreement ends with \<open>FDT_NOP\<close>: the kernel passes over such a token
  between nodes and between properties, and the library refuses a node that has one behind its name.
\<close>

theorem device_tree_parsers_agree:
  assumes "fdt_encodes mem d off t" "dt_weight t \<le> fuel"
  shows "dtb_parse mem d = Inr d
    \<and> (\<exists>n. dtb_root fuel mem d = Inr (Inr n) \<and> read_node fuel mem d n = Inr (with_cells (2, 1, 0) t))
    \<and> parse_dtb mem (dt_ptr d) = Inr (dt_ptr d)
    \<and> (\<exists>n i j k. next_node fuel mem (dt_interpreter mem (dt_ptr d)) = Inr (Some n, i)
      \<and> print_node fuel mem n i = Inr (t, j) \<and> drop_node fuel mem n i = Inr ((), j) \<and> ip_node_count j = of_nat (dt_nodes t)
      \<and> next_node fuel mem j = Inr (None, k) \<and> ip_finished k)
    \<and> (\<forall>mem' i g. current_token mem' i = TOKEN_NOP \<longrightarrow> step_node (Suc g) mem' i = step_node g mem' (advance 1 i)
      \<and> step_property (Suc g) mem' i = step_property g mem' (advance 1 i))
    \<and> (\<forall>mem' offset n rest g a s i. located mem' d offset (be_bytes TOKEN_BEGIN_NODE @ pad4 (n @ [0]) @ be_bytes TOKEN_NOP @ rest) \<and> 0 \<notin> set n
      \<longrightarrow> node_new (Suc (Suc (Suc g))) mem' d offset a s i = Inr (Inl UnexpectedToken))"
proof (intro conjI)
  let ?h = "dtb_header mem d"
  have f: "small d" "10 \<le> unat (dt_len d)" "fh_magic ?h = FDT_MAGIC" "unat (fh_total_size ?h) \<le> 4 * unat (dt_len d)"
    and o: "4 dvd unat (fh_offset_structure_block ?h)"
    and l: "located mem d (fh_offset_structure_block ?h div 4) (node_bytes off t @ be_bytes TOKEN_END)"
    and r: "readable mem d off t" "cells_all_ok t"
    using assms(1) by (simp_all add: fdt_encodes_def)
  have "unat (dt_len d * 4) = 4 * unat (dt_len d)" using f(1) by (subst unat_mult_no_overflow) (simp_all add: small_def)
  then show "dtb_parse mem d = Inr d"
    using f by (simp add: dtb_parse_def Let_def dtb_header_def word_le_nat_alt)
  show "\<exists>n. dtb_root fuel mem d = Inr (Inr n) \<and> read_node fuel mem d n = Inr (with_cells (2, 1, 0) t)"
    using parsesD [OF node_parses [OF f(1) r(1)] l assms(2)] read_node_tree [OF f(1) r l assms(2)] by (simp add: dtb_root_def)
  show "parse_dtb mem (dt_ptr d) = Inr (dt_ptr d)" using f(3) by (simp add: parse_dtb_def dtb_header_def)
  show "\<forall>mem' i g. current_token mem' i = TOKEN_NOP \<longrightarrow> step_node (Suc g) mem' i = step_node g mem' (advance 1 i)
      \<and> step_property (Suc g) mem' i = step_property g mem' (advance 1 i)"
    by (simp add: step_token_def)
  show "\<forall>mem' offset n rest g a s i. located mem' d offset (be_bytes TOKEN_BEGIN_NODE @ pad4 (n @ [0]) @ be_bytes TOKEN_NOP @ rest) \<and> 0 \<notin> set n
      \<longrightarrow> node_new (Suc (Suc (Suc g))) mem' d offset a s i = Inr (Inl UnexpectedToken)"
    using nop_refused [OF f(1)] by blast
  let ?i = "dt_interpreter mem (dt_ptr d)"
  have h: "holds mem (ip_pc ?i) (node_bytes off t @ be_bytes TOKEN_END)"
    using l structure_address [OF o, of d] by (simp add: located_def dt_interpreter_def dtb_header_def)
  have "ip_strings ?i = dt_ptr d + ucast (fh_offset_strings_block ?h)" by (simp add: dt_interpreter_def dtb_header_def)
  from visitsD [OF node_visits [OF kernel_readable_encoded [OF assms(1)]] h this assms(2)] obtain i where
    i: "step_node fuel mem ?i = Inr (Some \<lparr>kn_name = dt_name t, kn_state = Properties\<rparr>, i)"
    "drop_node fuel mem \<lparr>kn_name = dt_name t, kn_state = Properties\<rparr> i = Inr ((), moved (length (node_bytes off t)) (dt_nodes t) ?i)"
    "print_node fuel mem \<lparr>kn_name = dt_name t, kn_state = Properties\<rparr> i = Inr (t, moved (length (node_bytes off t)) (dt_nodes t) ?i)"
    by blast
  let ?j = "moved (length (node_bytes off t)) (dt_nodes t) ?i"
  have "holds mem (ip_pc ?j) (be_bytes TOKEN_END @ [])" using h by simp
  from step_token_holds(1) [OF this] obtain g where "fuel = Suc g" "step_token mem ?j = (TOKEN_END, moved 4 0 ?j)"
    using assms(2) dt_weight_positive [of t] by (cases fuel) auto
  then have "step_node fuel mem ?j = Inr (None, (moved 4 0 ?j)\<lparr>ip_finished := True\<rparr>)" by simp
  moreover have "ip_node_count ?j = of_nat (dt_nodes t)" by (simp add: moved_def dt_interpreter_def)
  ultimately show "\<exists>n i j k. next_node fuel mem ?i = Inr (Some n, i)
      \<and> print_node fuel mem n i = Inr (t, j) \<and> drop_node fuel mem n i = Inr ((), j) \<and> ip_node_count j = of_nat (dt_nodes t)
      \<and> next_node fuel mem j = Inr (None, k) \<and> ip_finished k"
    unfolding next_node_def using i by (intro exI [of _ i] exI [of _ ?j] exI conjI) auto
qed

text \<open>The tree of a machine with one child node, at address 4096.\<close>

definition tree_ex :: dt_tree where
  "tree_ex = DT_Node [] [(str_bytes ''#address-cells'', [0, 0, 0, 1])] [DT_Node (str_bytes ''soc'') [(str_bytes ''reg'', [0, 0, 16, 0, 5])] []]"

definition strings_ex :: "u8 list" where
  "strings_ex = str_bytes ''#address-cells'' @ [0] @ str_bytes ''reg'' @ [0, 0]"

definition off_ex :: "u8 list \<Rightarrow> u32" where
  "off_ex n = (if n = str_bytes ''reg'' then 15 else 0)"

definition blob_ex :: "u8 list" where
  "blob_ex = concat (map be_bytes [FDT_MAGIC, 124, 40, 104, 0, 17, 16, 0, 20, 64]) @ node_bytes off_ex tree_ex @ be_bytes TOKEN_END @ strings_ex"

definition mem_ex :: memory where
  "mem_ex a = (if 4096 \<le> a \<and> unat (a - 4096) < length blob_ex then blob_ex ! unat (a - 4096) else 0)"

definition dtb_ex :: dtb where
  "dtb_ex = \<lparr>dt_ptr = 4096, dt_len = 31\<rparr>"

lemma holds_ex: "holds mem_ex 4096 blob_ex"
proof -
  have "length blob_ex = 124"
    by (simp add: blob_ex_def tree_ex_def strings_ex_def prop_bytes_def pad4_def str_bytes_def)
  then have "mem_ex (4096 + of_nat k) = blob_ex ! k" if "k < length blob_ex" for k
    using that by (simp add: mem_ex_def unat_of_nat_less word_le_nat_alt unat_word_ariths)
  then show ?thesis by (auto simp: holds_def bytes_at_def intro: nth_equalityI)
qed

lemma pieces_ex:
  "holds mem_ex 4096 (be_bytes FDT_MAGIC)" "holds mem_ex 4100 (be_bytes 124)" "holds mem_ex 4104 (be_bytes 40)"
  "holds mem_ex 4108 (be_bytes 104)" "holds mem_ex 4128 (be_bytes 20)"
  "holds mem_ex 4136 (node_bytes off_ex tree_ex @ be_bytes TOKEN_END)" "holds mem_ex 4200 strings_ex"
  "length (node_bytes off_ex tree_ex) = 60"
proof -
  show l: "length (node_bytes off_ex tree_ex) = 60"
    by (simp add: tree_ex_def prop_bytes_def pad4_def str_bytes_def)
  show "holds mem_ex 4096 (be_bytes FDT_MAGIC)" "holds mem_ex 4100 (be_bytes 124)" "holds mem_ex 4104 (be_bytes 40)"
    "holds mem_ex 4108 (be_bytes 104)" "holds mem_ex 4128 (be_bytes 20)"
    "holds mem_ex 4136 (node_bytes off_ex tree_ex @ be_bytes TOKEN_END)" "holds mem_ex 4200 strings_ex"
    using holds_ex by (simp_all add: blob_ex_def l)
qed

lemma encodes_ex: "fdt_encodes mem_ex dtb_ex off_ex tree_ex"
proof -
  note p = pieces_ex
  have h: "fh_magic (dtb_header mem_ex dtb_ex) = FDT_MAGIC" "fh_total_size (dtb_header mem_ex dtb_ex) = 124"
    "fh_offset_structure_block (dtb_header mem_ex dtb_ex) = 40" "fh_offset_strings_block (dtb_header mem_ex dtb_ex) = 104"
    "fh_size_strings_block (dtb_header mem_ex dtb_ex) = 20"
    using p(1-5) [THEN be32_at_holds] by (simp_all add: dtb_header_def header_at_def dtb_ex_def)
  have s: "holds mem_ex 4200 (str_bytes ''#address-cells'' @ [0])" "holds mem_ex 4215 (str_bytes ''reg'' @ [0])"
    using p(7) by (simp_all add: strings_ex_def str_bytes_def)
  have n: "str_bytes ''#address-cells'' \<noteq> str_bytes ''reg''" by (simp add: str_bytes_def)
  have z: "0 \<notin> set (str_bytes ''#address-cells'')" "0 \<notin> set (str_bytes ''reg'')" "0 \<notin> set (str_bytes ''soc'')"
    "length (str_bytes ''#address-cells'') = 14" "length (str_bytes ''reg'') = 3"
    by (simp_all add: str_bytes_def)
  have "strings_ok mem_ex dtb_ex off_ex (str_bytes ''#address-cells'')" "strings_ok mem_ex dtb_ex off_ex (str_bytes ''reg'')"
    using s n z by (simp_all add: string_at_def h off_ex_def) (simp_all add: dtb_ex_def)
  then have r: "readable mem_ex dtb_ex off_ex tree_ex" using z by (simp add: readable_def tree_ex_def)
  have c: "cells_all_ok tree_ex" by (simp add: cells_all_ok_def tree_ex_def cells_ok_def str_bytes_def)
  have "from_utf8 [] = Inr ()" "from_utf8 (str_bytes ''#address-cells'') = Inr ()" "from_utf8 (str_bytes ''soc'') = Inr ()"
    "from_utf8 (str_bytes ''reg'') = Inr ()" by code_simp+
  then have "tree_text tree_ex" by (simp add: tree_text_def tree_ex_def)
  moreover have "located mem_ex dtb_ex 10 (node_bytes off_ex tree_ex @ be_bytes TOKEN_END)"
    using p(6) unfolding located_def by (simp add: dtb_addr_def p(8)) (simp add: dtb_ex_def)
  ultimately show ?thesis using r c by (simp add: fdt_encodes_def h) (simp add: small_def dtb_ex_def)
qed

theorem device_tree_parsers_agree_witness:
  "(\<exists>n. dtb_root 40 mem_ex dtb_ex = Inr (Inr n)
     \<and> read_node 40 mem_ex dtb_ex n = Inr (RT_Node [] (2, 1, 0) [(str_bytes ''#address-cells'', [0, 0, 0, 1])]
         [RT_Node (str_bytes ''soc'') (1, 1, 0) [(str_bytes ''reg'', [0, 0, 16, 0, 5])] []]))
   \<and> (\<exists>n i j. next_node 40 mem_ex (dt_interpreter mem_ex 4096) = Inr (Some n, i) \<and> print_node 40 mem_ex n i = Inr (tree_ex, j)
       \<and> ip_node_count j = 2)"
proof -
  have "dt_weight tree_ex \<le> 40" by (simp add: tree_ex_def str_bytes_def)
  moreover have "with_cells (2, 1, 0) tree_ex = RT_Node [] (2, 1, 0) [(str_bytes ''#address-cells'', [0, 0, 0, 1])]
      [RT_Node (str_bytes ''soc'') (1, 1, 0) [(str_bytes ''reg'', [0, 0, 16, 0, 5])] []]"
    by (simp add: tree_ex_def cells_of_def cell_upd_def be32_def str_bytes_def)
  moreover have "dt_nodes tree_ex = 2" by (simp add: tree_ex_def)
  ultimately show ?thesis
    using device_tree_parsers_agree [OF encodes_ex, of 40] by (auto simp: dtb_ex_def)
qed

end
