(* ===== verification/Driver_Args.thy ===== *)
theory Driver_Args
  imports Kernel_Log
begin

text \<open>
  The arguments of drivers (\<open>lib/rust/driver/src/lib.rs\<close>). The init process and the PCI service describe
  a device to its driver with command line arguments such as \<open>--reg 10000000 100\<close>; the driver parses them
  again. The macro \<open>derive!\<close> gives each kind of argument a structure of 128-bit numbers, \<open>to_args\<close> and
  \<open>from_args\<close>. \<open>parse_args_strings\<close> shows that
  the driver gets what was described, and \<open>Driver_Start\<close> follows the arguments through the stack of the driver.
\<close>

subsection \<open>Kinds of arguments\<close>

(* src/lib/rust/driver/src/lib.rs:247-279 Arg *)
datatype driver_arg =
    Reg u128 u128
  | Range u128 u128 u128
  | InterruptMap u128 u128 u128 u128 u128
  | InterruptMapMask u128 u128
  | Pci u128 u128 u128
  | PciInterrupt u128 u128
  | BarMmio u128 u128 u128
  | BarIo u128 u128 u128
  | Other "u8 list"

(* src/lib/rust/driver/src/lib.rs:171-172 OutOfMemory *)
datatype out_of_memory = OutOfMemory

text \<open>What \<open>from_str_radix\<close> of the standard library reports.\<close>

datatype parse_int_error = PIE_Empty | PIE_InvalidDigit | PIE_PosOverflow

(* src/lib/rust/driver/src/lib.rs:341-350 ParseError *)
datatype driver_parse_error =
    TooManyRegs
  | TooManyRanges
  | MissingArgument string
  | Utf8Error "nat \<times> nat option"
  | ParseIntError parse_int_error
  | UnknownArgument "u8 list"
  | DPE_OutOfMemory

(* src/lib/rust/driver/src/lib.rs:281-306 Arg::cmd_arg *)
fun cmd_arg :: "driver_arg \<Rightarrow> u8 list + u8 list" where
  "cmd_arg (Reg _ _) = Inr (str_bytes ''reg'')"
| "cmd_arg (Range _ _ _) = Inr (str_bytes ''range'')"
| "cmd_arg (InterruptMap _ _ _ _ _) = Inr (str_bytes ''interrupt-map'')"
| "cmd_arg (InterruptMapMask _ _) = Inr (str_bytes ''interrupt-map-mask'')"
| "cmd_arg (Pci _ _ _) = Inr (str_bytes ''pci'')"
| "cmd_arg (PciInterrupt _ _) = Inr (str_bytes ''pci-interrupt'')"
| "cmd_arg (BarIo _ _ _) = Inr (str_bytes ''bar-io'')"
| "cmd_arg (BarMmio _ _ _) = Inr (str_bytes ''bar-mmio'')"
| "cmd_arg (Other x) = (case from_utf8 x of Inl _ \<Rightarrow> Inl x | Inr _ \<Rightarrow> Inr x)"

subsection \<open>Hexadecimal numbers\<close>

(* src/lib/rust/driver/src/lib.rs:195-203 len_hex *)
function len_hex_loop :: "u128 \<Rightarrow> usize \<Rightarrow> usize" where
  "len_hex_loop num i =
     (let i = i + 1; num = drop_bit 4 num in
      if num \<noteq> 0 then len_hex_loop num i else i)"
  by pat_completeness auto
termination
proof (relation "measure (unat \<circ> fst)")
  fix num :: u128 and i x xa
  assume x: "x = i + (1 :: usize)" "xa = drop_bit 4 num" "xa \<noteq> 0"
  have "unat xa = unat num div 16" using x(2) by (simp add: unat_drop_bit)
  moreover have "unat xa \<noteq> 0" using x(3) by (simp add: unat_eq_zero)
  ultimately show "((xa, x), (num, i)) \<in> measure (unat \<circ> fst)" by auto
qed simp

definition len_hex :: "u128 \<Rightarrow> usize" where
  "len_hex num = len_hex_loop num 0"

(* src/lib/rust/driver/src/lib.rs:205-215 fmt_hex *)
function fmt_hex_loop :: "u8 list \<Rightarrow> usize \<Rightarrow> u128 \<Rightarrow> u8 list may_panic" where
  "fmt_hex_loop buf i num =
     (let d = ucast (num mod 16) :: u8 in
      bindP (storeP buf (unat i) ((if d < 10 then 48 else 97 - 10) + d)) (\<lambda>buf.
      if num div 16 \<noteq> 0 then fmt_hex_loop buf (i - 1) (num div 16) else Inr buf))"
  by pat_completeness auto
termination
proof (relation "measure (unat \<circ> snd \<circ> snd)")
  fix buf x :: "u8 list" and i :: usize and num :: u128
  assume n: "num div 16 \<noteq> 0"
  have "unat (num div 16) = unat num div 16" by (simp add: unat_div)
  moreover have "unat (num div 16) \<noteq> 0" using n by (simp add: unat_eq_zero)
  ultimately show "((x, i - 1, num div 16), (buf, i, num)) \<in> measure (unat \<circ> snd \<circ> snd)" by auto
qed simp

declare len_hex_loop.simps [simp del] fmt_hex_loop.simps [simp del]

(* src/lib/rust/driver/src/lib.rs:205-215 fmt_hex *)
definition fmt_hex :: "u8 list \<Rightarrow> u128 \<Rightarrow> u8 list may_panic" where
  "fmt_hex buf num =
     bindP (fmt_hex_loop buf (of_nat (length buf) - 1) num) (\<lambda>buf.
     bindP (unwrapR (from_utf8 buf)) (\<lambda>_. Inr buf))"

text \<open>\<open>u128::from_str_radix(s, 16)\<close>: an optional plus sign, and digits of either case.\<close>

definition hex_digit :: "u8 \<Rightarrow> u8 option" where
  "hex_digit c =
     (if 48 \<le> c \<and> c \<le> 57 then Some (c - 48)
      else if 97 \<le> c \<and> c \<le> 102 then Some (c - 87)
      else if 65 \<le> c \<and> c \<le> 70 then Some (c - 55) else None)"

fun parse_hex :: "u8 list \<Rightarrow> u128 \<Rightarrow> parse_int_error + u128" where
  "parse_hex [] acc = Inr acc"
| "parse_hex (c # cs) acc =
     (case hex_digit c of
        None \<Rightarrow> Inl PIE_InvalidDigit
      | Some d \<Rightarrow>
          if unat acc * 16 + unat d < 2 ^ 128 then parse_hex cs (acc * 16 + ucast d) else Inl PIE_PosOverflow)"

definition from_str_radix16 :: "u8 list \<Rightarrow> parse_int_error + u128" where
  "from_str_radix16 s =
     (if s = [] then Inl PIE_Empty
      else if s = [43] \<or> s = [45] then Inl PIE_InvalidDigit
      else parse_hex (if hd s = 43 then tl s else s) 0)"

subsection \<open>Writing and reading arguments\<close>

text \<open>
  \<open>alloc\<close> splits a part off a buffer, and \<open>add_argument\<close> takes one argument; both are closures of the caller,
  and \<open>'s\<close> is the state that \<open>add_argument\<close> changes.
\<close>

type_synonym alloc_fn = "u8 list \<Rightarrow> usize \<Rightarrow> out_of_memory + (u8 list \<times> u8 list)"
type_synonym 's add_fn = "u8 list \<Rightarrow> 's \<Rightarrow> out_of_memory + 's"

primrec to_loop :: "alloc_fn \<Rightarrow> 's add_fn \<Rightarrow> u128 list \<Rightarrow> u8 list \<Rightarrow> 's \<Rightarrow> (out_of_memory + (u8 list \<times> 's)) may_panic" where
  "to_loop alloc add_argument [] alloc_buffer s = Inr (Inr (alloc_buffer, s))"
| "to_loop alloc add_argument (a # args) alloc_buffer s =
     tryP (Inr (alloc alloc_buffer (len_hex a))) (\<lambda>(b, r).
     bindP (fmt_hex b a) (\<lambda>arg.
     tryP (Inr (add_argument arg s)) (\<lambda>s.
     to_loop alloc add_argument args r s)))"

(* src/lib/rust/driver/src/lib.rs:184-225 to *)
definition driver_to :: "u8 list \<Rightarrow> u8 list \<Rightarrow> alloc_fn \<Rightarrow> 's add_fn \<Rightarrow> u128 list \<Rightarrow> 's \<Rightarrow> (out_of_memory + (u8 list \<times> 's)) may_panic" where
  "driver_to name alloc_buffer alloc add_argument args s =
     tryP (Inr (add_argument name s)) (\<lambda>s. to_loop alloc add_argument args alloc_buffer s)"

text \<open>The numbers of an argument, in the order of the fields.\<close>

fun arg_values :: "driver_arg \<Rightarrow> u128 list" where
  "arg_values (Reg a b) = [a, b]"
| "arg_values (Range a b c) = [a, b, c]"
| "arg_values (InterruptMap a b c d e) = [a, b, c, d, e]"
| "arg_values (InterruptMapMask a b) = [a, b]"
| "arg_values (Pci a b c) = [a, b, c]"
| "arg_values (PciInterrupt a b) = [a, b]"
| "arg_values (BarMmio a b c) = [a, b, c]"
| "arg_values (BarIo a b c) = [a, b, c]"
| "arg_values (Other x) = []"

definition is_other :: "driver_arg \<Rightarrow> bool" where
  "is_other a = (case a of Other _ \<Rightarrow> True | _ \<Rightarrow> False)"

(* src/lib/rust/driver/src/lib.rs:11-21 to_args *)
definition to_args :: "driver_arg \<Rightarrow> u8 list \<Rightarrow> alloc_fn \<Rightarrow> 's add_fn \<Rightarrow> 's \<Rightarrow> (out_of_memory + (u8 list \<times> 's)) may_panic" where
  "to_args a buf alloc add_argument s =
     driver_to (str_bytes ''--'' @ (case cmd_arg a of Inr c \<Rightarrow> c | Inl c \<Rightarrow> c)) buf alloc add_argument (arg_values a) s"

text \<open>\<open>from\<close> first takes all strings from the iterator, then checks their encoding, then parses them.\<close>

primrec map_sum_list :: "('a \<Rightarrow> 'e + 'b) \<Rightarrow> 'a list \<Rightarrow> 'e + 'b list" where
  "map_sum_list f [] = Inr []"
| "map_sum_list f (x # xs) = (case f x of Inl e \<Rightarrow> Inl e | Inr y \<Rightarrow>
     (case map_sum_list f xs of Inl e \<Rightarrow> Inl e | Inr ys \<Rightarrow> Inr (y # ys)))"

(* src/lib/rust/driver/src/lib.rs:227-245 from *)
definition driver_from :: "u8 list list \<Rightarrow> string \<Rightarrow> nat \<Rightarrow> (driver_parse_error + u128 list) \<times> u8 list list" where
  "driver_from args name n =
     (if length args < n then (Inl (MissingArgument name), [])
      else
        (case map_sum_list from_utf8 (take n args) of
           Inl e \<Rightarrow> Inl (Utf8Error e)
         | Inr _ \<Rightarrow>
             (case map_sum_list from_str_radix16 (take n args) of
                Inl e \<Rightarrow> Inl (ParseIntError e)
              | Inr vs \<Rightarrow> Inr vs), drop n args))"

text \<open>The structure that \<open>from_args\<close> builds from the numbers; the name selects the case of the caller.\<close>

(* src/lib/rust/driver/src/lib.rs:22-33 from_args *)
definition from_args :: "string \<Rightarrow> nat \<Rightarrow> (u128 list \<Rightarrow> driver_arg) \<Rightarrow> u8 list list \<Rightarrow> (driver_parse_error + driver_arg) \<times> u8 list list" where
  "from_args name n build args =
     (case driver_from args name n of
        (Inl e, rest) \<Rightarrow> (Inl e, rest)
      | (Inr vs, rest) \<Rightarrow> (Inr (build vs), rest))"

text \<open>
  One argument of \<open>parse_args\<close>. A kind that the crate was built without falls through to \<open>Other\<close>; the
  features of the two kinds of base address are the wrong way round.
\<close>

(* src/lib/rust/driver/src/lib.rs:316-334 parse_args *)
definition parse_arg :: "(string \<Rightarrow> bool) \<Rightarrow> u8 list \<Rightarrow> u8 list list \<Rightarrow> (driver_parse_error + driver_arg) \<times> u8 list list" where
  "parse_arg feature ty args =
     (if feature ''parse-reg'' \<and> ty = str_bytes ''--reg'' then from_args ''Reg'' 2 (\<lambda>v. Reg (v ! 0) (v ! 1)) args
      else if feature ''parse-range'' \<and> ty = str_bytes ''--range'' then from_args ''Range'' 3 (\<lambda>v. Range (v ! 0) (v ! 1) (v ! 2)) args
      else if feature ''parse-interrupt-map'' \<and> ty = str_bytes ''--interrupt-map'' then
        from_args ''InterruptMap'' 5 (\<lambda>v. InterruptMap (v ! 0) (v ! 1) (v ! 2) (v ! 3) (v ! 4)) args
      else if feature ''parse-interrupt-map-mask'' \<and> ty = str_bytes ''--interrupt-map-mask'' then
        from_args ''InterruptMapMask'' 2 (\<lambda>v. InterruptMapMask (v ! 0) (v ! 1)) args
      else if feature ''parse-pci'' \<and> ty = str_bytes ''--pci'' then from_args ''Pci'' 3 (\<lambda>v. Pci (v ! 0) (v ! 1) (v ! 2)) args
      else if feature ''parse-pci-interrupt'' \<and> ty = str_bytes ''--pci-interrupt'' then
        from_args ''PciInterrupt'' 2 (\<lambda>v. PciInterrupt (v ! 0) (v ! 1)) args
      else if feature ''parse-bar-mmio'' \<and> ty = str_bytes ''--bar-io'' then from_args ''BarIo'' 3 (\<lambda>v. BarIo (v ! 0) (v ! 1) (v ! 2)) args
      else if feature ''parse-bar-io'' \<and> ty = str_bytes ''--bar-mmio'' then from_args ''BarMmio'' 3 (\<lambda>v. BarMmio (v ! 0) (v ! 1) (v ! 2)) args
      else (Inr (Other ty), args))"

text \<open>The closure \<open>f\<close> gets the argument and the iterator, and may take arguments from it.\<close>

(* src/lib/rust/driver/src/lib.rs:309-338 parse_args *)
primrec parse_args :: "nat \<Rightarrow> (string \<Rightarrow> bool) \<Rightarrow> (driver_arg \<Rightarrow> u8 list list \<Rightarrow> 's \<Rightarrow> ('s \<times> u8 list list) may_panic)
    \<Rightarrow> u8 list list \<Rightarrow> 's \<Rightarrow> (driver_parse_error + 's) may_panic" where
  "parse_args 0 feature f args s = Inl Endless_Loop"
| "parse_args (Suc fuel) feature f args s =
     (case args of
        [] \<Rightarrow> Inr (Inr s)
      | ty # args \<Rightarrow>
          (case parse_arg feature ty args of
             (Inl e, _) \<Rightarrow> Inr (Inl e)
           | (Inr a, args) \<Rightarrow> bindP (f a args s) (\<lambda>(s, args). parse_args fuel feature f args s)))"

text \<open>
  The closures of the init process: the buffer is split where it is long enough, and arguments are kept in
  an array of 128. The PCI service has the same closures with an array of 64.
\<close>

(* src/services/init/b0/src/main.rs:59-68 alloc *)
definition split_alloc :: alloc_fn where
  "split_alloc buf sz = (if unat sz \<le> length buf then Inr (take (unat sz) buf, drop (unat sz) buf) else Inl OutOfMemory)"

(* src/services/init/b0/src/main.rs:69-73 add_arg *)
definition array_add :: "nat \<Rightarrow> u8 list list add_fn" where
  "array_add capacity arg args = (if length args < capacity then Inr (args @ [arg]) else Inl OutOfMemory)"

text \<open>A list of arguments, each with \<open>.unwrap()\<close>.\<close>

(* src/services/init/b0/src/main.rs:75-88 main *)
primrec push_args :: "nat \<Rightarrow> driver_arg list \<Rightarrow> u8 list \<Rightarrow> u8 list list \<Rightarrow> (u8 list \<times> u8 list list) may_panic" where
  "push_args capacity [] buf args = Inr (buf, args)"
| "push_args capacity (a # as) buf args =
     bindP (to_args a buf split_alloc (array_add capacity) args) (\<lambda>r.
     bindP (unwrapR r) (\<lambda>(buf, args). push_args capacity as buf args))"

subsection \<open>Digits\<close>

definition hexc :: "nat \<Rightarrow> u8" where
  "hexc d = (if d < 10 then 48 else 87) + of_nat d"

text \<open>The digits of a number, most significant first.\<close>

fun hexn :: "nat \<Rightarrow> u8 list" where
  "hexn n = (if n < 16 then [hexc n] else hexn (n div 16) @ [hexc (n mod 16)])"

declare hexn.simps [simp del]

lemma hexn_less: "n < 16 \<Longrightarrow> hexn n = [hexc n]"
  by (simp add: hexn.simps)

lemma hexn_step: "\<not> n < 16 \<Longrightarrow> hexn n = hexn (n div 16) @ [hexc (n mod 16)]"
  by (subst hexn.simps) simp

lemma hexn_not_Nil [simp]: "hexn n \<noteq> []"
  by (subst hexn.simps) simp

lemma length_hexn_pos [simp]: "0 < length (hexn n)"
  by simp

lemma div_16_pos: "\<not> n < 16 \<longleftrightarrow> 0 < n div (16 :: nat)"
  by auto

lemma length_hexn: "n < 16 ^ Suc k \<Longrightarrow> length (hexn n) \<le> Suc k"
proof (induction k arbitrary: n)
  case (Suc k)
  show ?case
  proof (cases "n < 16")
    case False
    have "n div 16 < 16 ^ Suc k" using Suc.prems by (intro less_mult_imp_div_less) (simp add: mult.commute)
    then show ?thesis using Suc.IH False by (simp add: hexn_step)
  qed (simp add: hexn_less)
qed (simp add: hexn_less)

lemma length_hexn_u128: "length (hexn (unat (num :: u128))) \<le> 32"
proof -
  have "unat num < 16 ^ Suc 31" using unat_less_2p [of num] by (simp add: power_mult [of 2 4 32, simplified])
  from length_hexn [OF this] show ?thesis by simp
qed

lemma len_hex_loop_length: "len_hex_loop num i = i + of_nat (length (hexn (unat num)))"
proof (induction num i rule: len_hex_loop.induct)
  case (1 num i)
  have u: "unat (drop_bit 4 num) = unat num div 16" by (simp add: unat_drop_bit)
  have z: "drop_bit 4 num \<noteq> 0 \<longleftrightarrow> \<not> unat num < 16"
    using u unat_eq_zero [of "drop_bit 4 num"] div_16_pos by auto
  show ?case
  proof (cases "unat num < 16")
    case True
    then show ?thesis using z by (subst len_hex_loop.simps) (simp add: hexn_less)
  next
    case False
    then show ?thesis using 1 [of "i + 1" "drop_bit 4 num"] z by (subst len_hex_loop.simps) (simp add: hexn_step u)
  qed
qed

lemma unat_len_hex: "unat (len_hex num) = length (hexn (unat num))"
  using length_hexn_u128 [of num] by (simp add: len_hex_def len_hex_loop_length unat_of_nat_less)

lemma digit_of_word:
  assumes "d = ucast (num mod 16 :: u128)"
  shows "(if d < 10 then 48 else 97 - 10) + d = hexc (unat (num mod 16))"
proof -
  have "unat (num mod 16) < 16" by (simp add: unat_mod)
  then have "unat (of_nat (unat (num mod 16)) :: u8) = unat (num mod 16)" by (intro unat_of_nat_less) simp
  moreover have d: "d = of_nat (unat (num mod 16))" using assms by simp
  ultimately have "unat d = unat (num mod 16)" by simp
  then show ?thesis using d unfolding hexc_def word_less_nat_alt by simp
qed

lemma fmt_hex_loop_digits:
  "length (hexn (unat num)) \<le> length buf \<Longrightarrow> unat i + 1 = length (hexn (unat num))
    \<Longrightarrow> fmt_hex_loop buf i num = Inr (hexn (unat num) @ drop (length (hexn (unat num))) buf)"
proof (induction buf i num rule: fmt_hex_loop.induct)
  case (1 buf i num)
  let ?c = "hexc (unat (num mod 16))"
  have m: "unat (num mod 16) = unat num mod 16" "unat (num div 16) = unat num div 16" by (simp_all add: unat_mod unat_div)
  have z: "num div 16 \<noteq> 0 \<longleftrightarrow> \<not> unat num < 16"
    using m(2) unat_eq_zero [of "num div 16"] div_16_pos by auto
  have i: "unat i < length buf" using 1(2,3) by simp
  have step: "fmt_hex_loop buf i num
      = (if num div 16 \<noteq> 0 then fmt_hex_loop (buf[unat i := ?c]) (i - 1) (num div 16) else Inr (buf[unat i := ?c]))"
    using i digit_of_word [OF refl, of num] by (subst fmt_hex_loop.simps) (simp add: Let_def)
  show ?case
  proof (cases "unat num < 16")
    case True
    then have "unat i = 0" using 1(3) by (simp add: hexn_less)
    then show ?thesis using step z True i m(1) by (cases buf) (simp_all add: hexn_less)
  next
    case False
    then have l: "unat i = length (hexn (unat (num div 16)))" using 1(3) by (simp add: hexn_step m(2))
    have p: "0 < unat i" unfolding l by simp
    then have "i \<noteq> 0" by auto
    from unat_minus_one [OF this] p have "unat (i - 1) + 1 = unat i" by linarith
    then have "fmt_hex_loop (buf[unat i := ?c]) (i - 1) (num div 16)
        = Inr (hexn (unat (num div 16)) @ drop (length (hexn (unat (num div 16)))) (buf[unat i := ?c]))"
      using 1(1) [OF refl _ , of "buf[unat i := ?c]"] z False i l digit_of_word [OF refl, of num] by simp
    moreover have "drop (unat i) (buf[unat i := ?c]) = ?c # drop (Suc (unat i)) buf"
      using i by (simp add: Cons_nth_drop_Suc [symmetric])
    ultimately show ?thesis using step z False l by (simp add: hexn_step m)
  qed
qed

lemma hexc_cases: "d < 16 \<Longrightarrow> hex_digit (hexc d) = Some (of_nat d) \<and> hexc d < 128 \<and> hexc d \<noteq> 43 \<and> hexc d \<noteq> 45"
proof -
  have "list_all (\<lambda>d. hex_digit (hexc d) = Some (of_nat d) \<and> hexc d < 128 \<and> hexc d \<noteq> 43 \<and> hexc d \<noteq> 45) [0..<16]"
    by code_simp
  then show "d < 16 \<Longrightarrow> hex_digit (hexc d) = Some (of_nat d) \<and> hexc d < 128 \<and> hexc d \<noteq> 43 \<and> hexc d \<noteq> 45"
    by (simp add: list_all_iff)
qed

lemma hexn_chars: "c \<in> set (hexn n) \<Longrightarrow> c < 128 \<and> c \<noteq> 43 \<and> c \<noteq> 45"
proof (induction n rule: hexn.induct)
  case (1 n)
  show ?case
  proof (cases "n < 16")
    case True
    then show ?thesis using "1.prems" hexc_cases [of n] by (simp add: hexn_less)
  next
    case False
    then show ?thesis using 1 hexc_cases [of "n mod 16"] by (auto simp: hexn_step)
  qed
qed

lemma utf8_scan_ascii: "list_all (\<lambda>c. c < 128) s \<Longrightarrow> utf8_scan n s = Inr ()"
proof (induction s arbitrary: n)
  case Nil
  then show ?case by (subst utf8_scan.simps) simp
next
  case (Cons c s)
  then show ?case by (subst utf8_scan.simps) simp
qed

lemma from_utf8_hexn: "from_utf8 (hexn n) = Inr ()"
  unfolding from_utf8_def by (rule utf8_scan_ascii) (simp add: list_all_iff hexn_chars)

lemma fmt_hex_digits: "length buf = length (hexn (unat num)) \<Longrightarrow> fmt_hex buf num = Inr (hexn (unat num))"
proof -
  assume l: "length buf = length (hexn (unat num))"
  have b: "length buf < 2 ^ 64" "0 < length buf" using l length_hexn_u128 [of num] by simp_all
  have "unat (of_nat (length buf) - 1 :: usize) + 1 = length (hexn (unat num))"
  proof -
    have u: "unat (of_nat (length buf) :: usize) = length buf" using b by (intro unat_of_nat_less) simp
    then have "(of_nat (length buf) :: usize) \<noteq> 0" using b(2) by auto
    from unat_minus_one [OF this] u b(2) l show ?thesis by linarith
  qed
  from fmt_hex_loop_digits [OF _ this, of buf] l from_utf8_hexn show ?thesis by (simp add: fmt_hex_def)
qed

lemma parse_hex_append: "parse_hex (xs @ ys) acc = (case parse_hex xs acc of Inl e \<Rightarrow> Inl e | Inr a \<Rightarrow> parse_hex ys a)"
  by (induction xs arbitrary: acc) (auto split: option.splits)

lemma ucast_digit: "d < 16 \<Longrightarrow> (ucast (of_nat d :: u8) :: u128) = of_nat d"
  by (simp add: word_unat_eq_iff unat_of_nat_less)

lemma parse_hexn: "n < 2 ^ 128 \<Longrightarrow> parse_hex (hexn n) 0 = Inr (of_nat n)"
proof (induction n rule: hexn.induct)
  case (1 n)
  show ?case
  proof (cases "n < 16")
    case True
    then show ?thesis using hexc_cases [OF True] by (simp add: hexn_less unat_of_nat_less ucast_digit)
  next
    case False
    have d: "n div 16 < 2 ^ 128" "n mod 16 < 16" using "1.prems" by auto
    have "parse_hex (hexn (n div 16)) 0 = Inr (of_nat (n div 16))" using 1(1) [OF False d(1)] .
    moreover have "unat (of_nat (n div 16) :: u128) = n div 16" "unat (of_nat (n mod 16) :: u8) = n mod 16"
      using d by (auto intro: unat_of_nat_less)
    moreover have "(of_nat (n div 16) * 16 + of_nat (n mod 16) :: u128) = of_nat (n div 16 * 16 + n mod 16)"
      by (simp only: of_nat_add of_nat_mult of_nat_numeral)
    ultimately show ?thesis
      using False hexc_cases [OF d(2)] "1.prems" by (simp add: hexn_step parse_hex_append ucast_digit)
  qed
qed

lemma from_str_hexn: "from_str_radix16 (hexn (unat num)) = Inr num"
proof -
  have "hd (hexn (unat num)) \<noteq> 43" "hexn (unat num) \<noteq> [43]" "hexn (unat num) \<noteq> [45]"
    using hexn_chars [of "hd (hexn (unat num))" "unat num"] hexn_chars [of 45 "unat num"] hexn_chars [of 43 "unat num"]
    by (auto simp: hd_in_set)
  then show ?thesis using parse_hexn [of "unat num"] unat_less_2p [of num] by (simp add: from_str_radix16_def)
qed

subsection \<open>Round trip\<close>

definition hexs :: "u128 \<Rightarrow> u8 list" where
  "hexs v = hexn (unat v)"

lemma map_sum_list_hexs: "map_sum_list from_utf8 (map hexs vs) = Inr (map (\<lambda>_. ()) vs)" "map_sum_list from_str_radix16 (map hexs vs) = Inr vs"
  by (induction vs) (simp_all add: hexs_def from_utf8_hexn from_str_hexn)

text \<open>The strings of an argument: its name and its numbers.\<close>

definition arg_name :: "driver_arg \<Rightarrow> u8 list" where
  "arg_name a = str_bytes ''--'' @ (case cmd_arg a of Inr c \<Rightarrow> c | Inl c \<Rightarrow> c)"

definition arg_strings :: "driver_arg \<Rightarrow> u8 list list" where
  "arg_strings a = arg_name a # map hexs (arg_values a)"

definition arg_bytes :: "driver_arg \<Rightarrow> nat" where
  "arg_bytes a = sum_list (map (length \<circ> hexs) (arg_values a))"

lemma to_loop_array:
  "sum_list (map (length \<circ> hexs) vs) \<le> length buf \<Longrightarrow> length args + length vs \<le> capacity
    \<Longrightarrow> to_loop split_alloc (array_add capacity) vs buf args
      = Inr (Inr (drop (sum_list (map (length \<circ> hexs) vs)) buf, args @ map hexs vs))"
proof (induction vs arbitrary: buf args)
  case (Cons v vs)
  have a: "split_alloc buf (len_hex v) = Inr (take (length (hexs v)) buf, drop (length (hexs v)) buf)"
    using Cons.prems(1) by (simp add: split_alloc_def unat_len_hex hexs_def)
  have f: "fmt_hex (take (length (hexs v)) buf) v = Inr (hexs v)"
    using Cons.prems(1) fmt_hex_digits [of "take (length (hexs v)) buf" v] by (simp add: hexs_def min_def)
  have "to_loop split_alloc (array_add capacity) vs (drop (length (hexs v)) buf) (args @ [hexs v])
      = Inr (Inr (drop (sum_list (map (length \<circ> hexs) vs)) (drop (length (hexs v)) buf), (args @ [hexs v]) @ map hexs vs))"
    using Cons.prems by (intro Cons.IH) simp_all
  moreover have "array_add capacity (hexs v) args = Inr (args @ [hexs v])" using Cons.prems(2) by (simp add: array_add_def)
  ultimately show ?case using a f by (simp add: add.commute comp_def)
qed simp

lemma to_args_array:
  assumes "arg_bytes a \<le> length buf" "length args + length (arg_strings a) \<le> capacity"
  shows "to_args a buf split_alloc (array_add capacity) args = Inr (Inr (drop (arg_bytes a) buf, args @ arg_strings a))"
proof -
  have "array_add capacity (arg_name a) args = Inr (args @ [arg_name a])"
    using assms(2) by (simp add: array_add_def arg_strings_def)
  then show ?thesis
    using to_loop_array [of "arg_values a" buf "args @ [arg_name a]" capacity] assms
    by (simp add: to_args_def driver_to_def arg_name_def arg_bytes_def arg_strings_def comp_def)
qed

lemma push_args_array:
  "sum_list (map arg_bytes as) \<le> length buf \<Longrightarrow> length args + sum_list (map (length \<circ> arg_strings) as) \<le> capacity
    \<Longrightarrow> push_args capacity as buf args = Inr (drop (sum_list (map arg_bytes as)) buf, args @ concat (map arg_strings as))"
proof (induction as arbitrary: buf args)
  case (Cons a as)
  have "push_args capacity as (drop (arg_bytes a) buf) (args @ arg_strings a)
      = Inr (drop (sum_list (map arg_bytes as)) (drop (arg_bytes a) buf), (args @ arg_strings a) @ concat (map arg_strings as))"
    using Cons.prems by (intro Cons.IH) simp_all
  then show ?case using to_args_array [of a buf args capacity] Cons.prems by (simp add: add.commute)
qed simp

text \<open>The feature of the crate that makes it parse a kind of argument.\<close>

fun needed_feature :: "driver_arg \<Rightarrow> string" where
  "needed_feature (Reg _ _) = ''parse-reg''"
| "needed_feature (Range _ _ _) = ''parse-range''"
| "needed_feature (InterruptMap _ _ _ _ _) = ''parse-interrupt-map''"
| "needed_feature (InterruptMapMask _ _) = ''parse-interrupt-map-mask''"
| "needed_feature (Pci _ _ _) = ''parse-pci''"
| "needed_feature (PciInterrupt _ _) = ''parse-pci-interrupt''"
| "needed_feature (BarMmio _ _ _) = ''parse-bar-io''"
| "needed_feature (BarIo _ _ _) = ''parse-bar-mmio''"
| "needed_feature (Other _) = []"

lemma driver_from_hexs: "driver_from (map hexs vs @ rest) name (length vs) = (Inr vs, rest)"
  by (simp add: driver_from_def map_sum_list_hexs)

lemma from_args_hexs:
  "length vs = n \<Longrightarrow> from_args name n build (map hexs vs @ rest) = (Inr (build vs), rest)"
  using driver_from_hexs [of vs rest name] by (simp add: from_args_def)

lemma parse_arg_strings:
  assumes "\<not> is_other a" "feature (needed_feature a)"
  shows "parse_arg feature (arg_name a) (map hexs (arg_values a) @ rest) = (Inr a, rest)"
proof -
  note f = from_args_hexs [of "arg_values a"]
  show ?thesis
    using assms f by (cases a) (simp_all add: parse_arg_def arg_name_def is_other_def str_bytes_def del: map_append)
qed

definition collect_arg :: "driver_arg \<Rightarrow> u8 list list \<Rightarrow> driver_arg list \<Rightarrow> (driver_arg list \<times> u8 list list) may_panic" where
  "collect_arg a args s = Inr (s @ [a], args)"

lemma parse_args_strings:
  "list_all (\<lambda>a. \<not> is_other a \<and> feature (needed_feature a)) as \<Longrightarrow> length as < fuel
    \<Longrightarrow> parse_args fuel feature collect_arg (concat (map arg_strings as)) s = Inr (Inr (s @ as))"
proof (induction as arbitrary: fuel s)
  case Nil
  then show ?case by (cases fuel) simp_all
next
  case (Cons a as)
  obtain f where f: "fuel = Suc f" using Cons.prems(2) by (cases fuel) auto
  have "parse_args f feature collect_arg (concat (map arg_strings as)) (s @ [a]) = Inr (Inr ((s @ [a]) @ as))"
    using Cons.prems f by (intro Cons.IH) simp_all
  then show ?case using parse_arg_strings [of a feature "concat (map arg_strings as)"] Cons.prems(1)
    by (simp add: f arg_strings_def [of a] collect_arg_def [of a _ s])
qed

end
