(* ===== verification/Task_Stack.thy ===== *)
theory Task_Stack
  imports Byte_Memory
begin

text \<open>
  The first stack of a task. \<open>spawn_elf\<close> of the user library (\<open>lib/rust/dux/src/task.rs\<close>) writes the
  arguments and the object entries of a new task to a stack of sixteen pages that it maps into the task;
  the entry code of the services (\<open>services/driver/*/src/rtbegin.rs\<close>) finds the arguments again through
  the stack pointer. The stack is at an address of its own in the task that spawns and below \<open>0x80000000\<close>
  in the new task. \<open>stack_args_read\<close> shows that the new task reads the arguments that were written.
\<close>

subsection \<open>Writing the stack\<close>

(* src/lib/rust/dux/src/task.rs:203-217 spawn_elf *)
primrec push_strings :: "u8 list list \<Rightarrow> memory \<Rightarrow> usize \<Rightarrow> usize \<Rightarrow> (memory \<times> usize \<times> usize) may_panic" where
  "push_strings [] mem sp stack_offset = Inr (mem, sp, stack_offset)"
| "push_strings (arg # arguments) mem sp stack_offset =
     (let len = of_nat (length arg) :: usize; words = (len + 1) div 2 + 1; sp = sp - 2 * words in
      bindP (unwrapO (try_into len :: u16 option)) (\<lambda>l.
      push_strings arguments (write_bytes (sp + 2) arg (write_bytes sp (le16_bytes l) mem)) sp (stack_offset + 2 * words)))"

(* src/lib/rust/dux/src/task.rs:230-235 spawn_elf *)
primrec push_pointers :: "u8 list list \<Rightarrow> usize \<Rightarrow> memory \<Rightarrow> usize \<Rightarrow> memory \<times> usize" where
  "push_pointers [] strings_base mem sp = (mem, sp)"
| "push_pointers (arg # arguments) strings_base mem sp =
     (let sp = sp - 8; bytes = ((of_nat (length arg) + 1) AND NOT 1) + 2 in
      push_pointers arguments (strings_base + bytes) (write_bytes sp (le64_bytes strings_base) mem) sp)"

text \<open>An object is the address of a task and an identifier of two words.\<close>

(* src/lib/rust/dux/src/task.rs:240-245 spawn_elf *)
primrec push_objects :: "(usize \<times> u64 \<times> u64) list \<Rightarrow> memory \<Rightarrow> usize \<Rightarrow> memory \<times> usize" where
  "push_objects [] mem sp = (mem, sp)"
| "push_objects (e # entries) mem sp =
     (case e of (addr, x, y) \<Rightarrow>
        push_objects entries (write_bytes (sp - 24) (le64_bytes x @ le64_bytes y) (write_bytes (sp - 8) (le64_bytes addr) mem)) (sp - 24))"

definition STACK_PAGES :: usize where
  "STACK_PAGES = 16"

(* src/lib/rust/dux/src/task.rs:189-246 spawn_elf *)
definition write_stack :: "usize \<Rightarrow> u8 list list \<Rightarrow> (usize \<times> u64 \<times> u64) list \<Rightarrow> memory \<Rightarrow> (memory \<times> usize) may_panic" where
  "write_stack addr arguments object_entries mem =
     bindP (push_strings arguments mem (addr + STACK_PAGES * 4096) 0) (\<lambda>(mem, sp, stack_offset).
     let sz = 8; offt = (sz - align_offset sp sz) AND (sz - 1); sp = sp - offt; stack_offset = stack_offset + offt;
         strings_base = 0x80000000 - stack_offset + offt; sp = sp - 8;
         mem = write_bytes sp (le64_bytes (of_nat (length arguments))) mem;
         (mem, sp) = push_pointers (rev arguments) strings_base mem sp; sp = sp - 8;
         mem = write_bytes sp (le64_bytes (of_nat (length object_entries))) mem;
         (mem, sp) = push_objects object_entries mem sp in
     Inr (mem, stack_offset))"

text \<open>The pages of the stack: the address in the new task and the address in the task that spawns.\<close>

(* src/lib/rust/dux/src/task.rs:248-262 spawn_elf *)
definition stack_mappings :: "usize \<Rightarrow> (usize \<times> usize) list" where
  "stack_mappings addr = map (\<lambda>k. (0x7fff0000 + of_nat k * 4096, addr + of_nat k * 4096)) [0..<16]"

(* src/lib/rust/dux/src/task.rs:266-275 spawn_elf *)
definition initial_sp :: "usize \<Rightarrow> usize" where
  "initial_sp stack_offset = 0x80000000 - stack_offset"

text \<open>The memory of the new task, through its mappings.\<close>

definition task_memory :: "(usize \<times> usize) list \<Rightarrow> memory \<Rightarrow> memory" where
  "task_memory ms mem a =
     (case map_of ms (a AND NOT 0xfff) of Some p \<Rightarrow> mem (p OR (a AND 0xfff)) | None \<Rightarrow> 0)"

subsection \<open>Reading the arguments\<close>

(* src/services/driver/pci/src/rtbegin.rs:20-32 ArgIter::next *)
definition arg_at :: "memory \<Rightarrow> usize \<Rightarrow> u8 list" where
  "arg_at mem ptr = (let s = le64_at mem ptr; len = le16_at mem s in bytes_at mem (s + 2) (unat len))"

(* src/services/driver/pci/src/rtbegin.rs:9-32 args *)
primrec arg_iter :: "nat \<Rightarrow> memory \<Rightarrow> usize \<Rightarrow> u8 list list" where
  "arg_iter 0 mem ptr = []"
| "arg_iter (Suc n) mem ptr = arg_at mem ptr # arg_iter n mem (ptr + 8)"

text \<open>The entry code: the count is below the stack pointer, and the pointers are below the count.\<close>

(* src/services/driver/pci/src/rtbegin.rs:34-57 _start *)
definition start_args :: "memory \<Rightarrow> usize \<Rightarrow> u8 list list" where
  "start_args mem sp =
     (let t0 = le64_at mem (sp - 8); sp = sp - 8; t1 = push_bit 3 t0; sp = sp - t1 in
      arg_iter (unat t0) mem sp)"

subsection \<open>What is below an address\<close>

text \<open>\<open>stacked mem tp c\<close>: the bytes \<open>c\<close> are below the address \<open>tp\<close>.\<close>

definition stacked :: "memory \<Rightarrow> usize \<Rightarrow> u8 list \<Rightarrow> bool" where
  "stacked mem tp c \<longleftrightarrow> holds mem (tp - of_nat (length c)) c"

lemma stacked_append:
  "stacked mem tp (b @ c) \<longleftrightarrow> holds mem (tp - of_nat (length c) - of_nat (length b)) b \<and> stacked mem tp c"
proof -
  have "tp - of_nat (length (b @ c)) = tp - of_nat (length c) - of_nat (length b)" by (simp add: algebra_simps)
  then show ?thesis unfolding stacked_def by (simp add: algebra_simps)
qed

lemma stacked_extend: "stacked mem tp c \<Longrightarrow> stacked mem tp (bytes_at mem (tp - of_nat (length c) - of_nat n) n @ c)"
  unfolding stacked_append by (simp add: holds_def)

lemma stacked_overwrite:
  assumes "stacked mem tp (x @ g @ c)" "length bs = length g" "length (x @ g @ c) < 2 ^ 64"
  shows "stacked (write_bytes (tp - of_nat (length (x @ g @ c)) + of_nat (length x)) bs mem) tp (x @ bs @ c)"
  using holds_overwrite [OF assms(1) [unfolded stacked_def] assms(2,3)] assms(2) by (simp add: stacked_def)

lemma stacked_push:
  assumes "stacked mem tp c" "length bs + length c < 2 ^ 64"
  shows "stacked (write_bytes (tp - of_nat (length c) - of_nat (length bs)) bs mem) tp (bs @ c)"
proof -
  let ?g = "bytes_at mem (tp - of_nat (length c) - of_nat (length bs)) (length bs)"
  have "stacked mem tp ([] @ ?g @ c)" using stacked_extend [OF assms(1)] by simp
  from stacked_overwrite [OF this, of bs] assms(2) show ?thesis by (simp add: algebra_simps)
qed

subsection \<open>The strings\<close>

text \<open>The bytes that an argument takes on the stack: its length, its characters and padding to even length.\<close>

definition arg_size :: "u8 list \<Rightarrow> nat" where
  "arg_size arg = 2 * ((length arg + 1) div 2 + 1)"

definition block_ok :: "u8 list \<Rightarrow> u8 list \<Rightarrow> bool" where
  "block_ok arg b \<longleftrightarrow> (\<exists>pad. b = le16_bytes (of_nat (length arg)) @ arg @ pad) \<and> length b = arg_size arg"

lemma arg_size_bounds: "length arg + 2 \<le> arg_size arg"
  unfolding arg_size_def by presburger

lemma arg_words:
  assumes "length arg < 65536"
  shows "2 * ((of_nat (length arg) + 1) div 2 + 1) = (of_nat (arg_size arg) :: usize)"
proof -
  have "unat (of_nat (length arg) + 1 :: usize) = length arg + 1"
    using assms by (subst unat_add_no_overflow) (simp_all add: unat_of_nat_less)
  then have "unat ((of_nat (length arg) + 1) div 2 :: usize) = (length arg + 1) div 2" by (simp add: unat_div)
  then have "(of_nat (length arg) + 1) div 2 = (of_nat ((length arg + 1) div 2) :: usize)" 
    using assms unfolding word_unat_eq_iff by (subst unat_of_nat_less) auto
  then show ?thesis by (simp add: arg_size_def)
qed

lemma push_string:
  assumes "stacked mem tp c" "length arg < 65536" "length c + arg_size arg < 2 ^ 64"
  defines "sp \<equiv> tp - of_nat (length c) - of_nat (arg_size arg)"
  shows "\<exists>b. block_ok arg b \<and> stacked (write_bytes (sp + 2) arg (write_bytes sp (le16_bytes (of_nat (length arg))) mem)) tp (b @ c)"
proof -
  obtain n where s: "arg_size arg = 2 + (length arg + n)" using arg_size_bounds [of arg] by (metis add.assoc add.commute le_Suc_ex)
  let ?l = "le16_bytes (of_nat (length arg))" and ?g = "bytes_at mem sp (arg_size arg)"
  have "stacked mem tp (?g @ c)" using stacked_extend [OF assms(1)] by (simp add: sp_def)
  moreover have "?g = bytes_at mem sp 2 @ bytes_at mem (sp + 2) (length arg) @ bytes_at mem (sp + 2 + of_nat (length arg)) n"
    using bytes_at_add [of mem sp 2 "length arg + n"] bytes_at_add [of mem "sp + 2" "length arg" n] unfolding s by simp
  ultimately have 1: "stacked mem tp ([] @ bytes_at mem sp 2 @ (bytes_at mem (sp + 2) (length arg) @ bytes_at mem (sp + 2 + of_nat (length arg)) n @ c))"
    by simp
  let ?m = "write_bytes sp ?l mem" and ?p = "bytes_at mem (sp + 2 + of_nat (length arg)) n"
  have sp: "sp = tp - of_nat (length (bytes_at mem sp 2 @ bytes_at mem (sp + 2) (length arg) @ ?p @ c))"
    using s by (simp add: sp_def algebra_simps flip: of_nat_add)
  have 2: "stacked ?m tp (?l @ bytes_at mem (sp + 2) (length arg) @ (?p @ c))"
    using stacked_overwrite [OF 1, of ?l] sp s assms(3) by simp
  have "stacked (write_bytes (sp + 2) arg ?m) tp (?l @ arg @ (?p @ c))"
    using stacked_overwrite [OF 2, of arg] sp s assms(3) by simp
  moreover have "block_ok arg (?l @ arg @ ?p)" using s by (auto simp: block_ok_def)
  ultimately show ?thesis by fastforce
qed

lemma try_into_length: "length arg < 65536 \<Longrightarrow> (try_into (of_nat (length arg) :: usize) :: u16 option) = Some (of_nat (length arg))"
proof -
  assume "length arg < 65536"
  then have "unat (of_nat (length arg) :: usize) = length arg" "unat (of_nat (length arg) :: u16) = length arg"
    by (simp_all add: unat_of_nat_less)
  moreover from this have "(ucast (of_nat (length arg) :: usize) :: u16) = of_nat (length arg)"
    by (metis of_nat_unat ucast_id)
  ultimately show ?thesis using \<open>length arg < 65536\<close> by (simp add: try_into_def)
qed

lemma push_strings_blocks:
  "stacked mem tp c \<Longrightarrow> list_all (\<lambda>arg. length arg < 65536) args \<Longrightarrow> length c + sum_list (map arg_size args) < 2 ^ 64
    \<Longrightarrow> \<exists>mem' bl. push_strings args mem (tp - of_nat (length c)) so
        = Inr (mem', tp - of_nat (length c + sum_list (map arg_size args)), so + of_nat (sum_list (map arg_size args)))
      \<and> list_all2 block_ok args bl \<and> stacked mem' tp (concat (rev bl) @ c)"
proof (induction args arbitrary: mem c so)
  case (Cons arg args)
  have l: "length arg < 65536" "length c + arg_size arg < 2 ^ 64" using Cons.prems(2,3) by simp_all
  let ?sp = "tp - of_nat (length c) - of_nat (arg_size arg)"
  let ?m = "write_bytes (?sp + 2) arg (write_bytes ?sp (le16_bytes (of_nat (length arg))) mem)"
  obtain b where b: "block_ok arg b" "stacked ?m tp (b @ c)" using push_string [OF Cons.prems(1) l] by blast
  have lb: "length b = arg_size arg" using b(1) by (simp add: block_ok_def)
  have pr: "list_all (\<lambda>arg. length arg < 65536) args" "length (b @ c) + sum_list (map arg_size args) < 2 ^ 64"
    using Cons.prems(2,3) lb by simp_all
  obtain mem' bl where r: "push_strings args ?m (tp - of_nat (length (b @ c))) (so + of_nat (arg_size arg))
      = Inr (mem', tp - of_nat (length (b @ c) + sum_list (map arg_size args)), so + of_nat (arg_size arg) + of_nat (sum_list (map arg_size args)))"
    "list_all2 block_ok args bl" "stacked mem' tp (concat (rev bl) @ b @ c)"
    using Cons.IH [OF b(2) pr, of "so + of_nat (arg_size arg)"] by blast
  have sp: "?sp = tp - of_nat (length (b @ c))" by (simp add: lb algebra_simps)
  have "push_strings (arg # args) mem (tp - of_nat (length c)) so
      = push_strings args ?m (tp - of_nat (length (b @ c))) (so + of_nat (arg_size arg))"
    by (simp only: push_strings.simps Let_def arg_words [OF l(1)] try_into_length [OF l(1)] unwrapO_simps bindP_Inr sp)
  also note r(1)
  finally have fin: "push_strings (arg # args) mem (tp - of_nat (length c)) so
      = Inr (mem', tp - of_nat (length (b @ c) + sum_list (map arg_size args)), so + of_nat (arg_size arg) + of_nat (sum_list (map arg_size args)))" .
  have e: "length c + sum_list (map arg_size (arg # args)) = length (b @ c) + sum_list (map arg_size args)"
    "so + of_nat (sum_list (map arg_size (arg # args))) = so + of_nat (arg_size arg) + of_nat (sum_list (map arg_size args))"
    by (simp_all add: lb add.assoc)
  have "list_all2 block_ok (arg # args) (b # bl)" "stacked mem' tp (concat (rev (b # bl)) @ c)"
    using r(2,3) b(1) by simp_all
  with fin show ?case unfolding e by blast
qed simp

subsection \<open>Pointers and objects\<close>

primrec string_addresses :: "u8 list list \<Rightarrow> usize \<Rightarrow> usize list" where
  "string_addresses [] p = []"
| "string_addresses (arg # args) p = p # string_addresses args (p + of_nat (arg_size arg))"

lemma length_string_addresses [simp]: "length (string_addresses args p) = length args"
  by (induction args arbitrary: p) simp_all

lemma arg_bytes_even:
  assumes "length arg < 65536"
  shows "((of_nat (length arg) + 1) AND NOT 1) + 2 = (of_nat (arg_size arg) :: usize)"
proof -
  have "(x AND NOT 1) = 2 * (x div 2)" for x :: usize
  proof -
    have "push_bit n (drop_bit n x) = x AND NOT (mask n)" for n by (rule bit_word_eqI) (auto simp: bit_simps)
    from this [of 1] show ?thesis by (simp add: push_bit_eq_mult drop_bit_eq_div mult.commute)
  qed
  then show ?thesis using arg_words [OF assms] by (simp add: distrib_left)
qed

lemma push_pointers_stacked:
  "stacked mem tp c \<Longrightarrow> list_all (\<lambda>arg. length arg < 65536) args \<Longrightarrow> length c + 8 * length args < 2 ^ 64
    \<Longrightarrow> \<exists>mem'. push_pointers args base mem (tp - of_nat (length c)) = (mem', tp - of_nat (length c + 8 * length args))
      \<and> stacked mem' tp (concat (map le64_bytes (rev (string_addresses args base))) @ c)"
proof (induction args arbitrary: mem c base)
  case (Cons arg args)
  let ?m = "write_bytes (tp - of_nat (length c) - 8) (le64_bytes base) mem"
  have s: "stacked ?m tp (le64_bytes base @ c)" using stacked_push [OF Cons.prems(1), of "le64_bytes base"] Cons.prems(3) by simp
  have pr: "list_all (\<lambda>arg. length arg < 65536) args" "length (le64_bytes base @ c) + 8 * length args < 2 ^ 64"
    using Cons.prems(2,3) by simp_all
  obtain mem' where "push_pointers args (base + of_nat (arg_size arg)) ?m (tp - of_nat (length (le64_bytes base @ c)))
      = (mem', tp - of_nat (length (le64_bytes base @ c) + 8 * length args))"
    "stacked mem' tp (concat (map le64_bytes (rev (string_addresses args (base + of_nat (arg_size arg))))) @ le64_bytes base @ c)"
    using Cons.IH [OF s pr, of "base + of_nat (arg_size arg)"] by blast
  then show ?case using arg_bytes_even [of arg] Cons.prems(2)
    by (intro exI [of _ mem']) (simp add: Let_def algebra_simps del: One_nat_def)
qed simp

definition object_bytes :: "usize \<times> u64 \<times> u64 \<Rightarrow> u8 list" where
  "object_bytes e = (case e of (addr, x, y) \<Rightarrow> le64_bytes x @ le64_bytes y @ le64_bytes addr)"

lemma push_objects_stacked:
  "stacked mem tp c \<Longrightarrow> length c + 24 * length es < 2 ^ 64
    \<Longrightarrow> \<exists>mem'. push_objects es mem (tp - of_nat (length c)) = (mem', tp - of_nat (length c + 24 * length es))
      \<and> stacked mem' tp (concat (map object_bytes (rev es)) @ c)"
proof (induction es arbitrary: mem c)
  case (Cons e es)
  obtain addr x y where e: "e = (addr, x, y)" by (cases e)
  let ?m1 = "write_bytes (tp - of_nat (length c) - 8) (le64_bytes addr) mem"
  have s1: "stacked ?m1 tp (le64_bytes addr @ c)" using stacked_push [OF Cons.prems(1), of "le64_bytes addr"] Cons.prems(2) by simp
  let ?m = "write_bytes (tp - of_nat (length c) - 24) (le64_bytes x @ le64_bytes y) ?m1"
  have s: "stacked ?m tp (object_bytes e @ c)"
    using stacked_push [OF s1, of "le64_bytes x @ le64_bytes y"] Cons.prems(2) by (simp add: object_bytes_def e algebra_simps)
  have l: "length (object_bytes e @ c) = length c + 24" by (simp add: object_bytes_def e)
  have pr: "length (object_bytes e @ c) + 24 * length es < 2 ^ 64" using Cons.prems(2) l by simp
  obtain mem' where m: "push_objects es ?m (tp - of_nat (length (object_bytes e @ c))) = (mem', tp - of_nat (length (object_bytes e @ c) + 24 * length es))"
    "stacked mem' tp (concat (map object_bytes (rev es)) @ object_bytes e @ c)"
    using Cons.IH [OF s pr] by blast
  have sp: "tp - of_nat (length c) - 24 = tp - of_nat (length (object_bytes e @ c))" unfolding l by (simp add: algebra_simps)
  have "push_objects (e # es) mem (tp - of_nat (length c)) = push_objects es ?m (tp - of_nat (length (object_bytes e @ c)))"
    unfolding sp [symmetric] by (simp only: push_objects.simps e prod.case)
  also have "\<dots> = (mem', tp - of_nat (length c + 24 * length (e # es)))" using m(1) unfolding l by (simp add: add.assoc)
  finally show ?case using m(2) by simp
qed simp

subsection \<open>The whole stack\<close>

definition strings_size :: "u8 list list \<Rightarrow> nat" where
  "strings_size args = sum_list (map arg_size args)"

definition stack_size :: "u8 list list \<Rightarrow> (usize \<times> u64 \<times> u64) list \<Rightarrow> nat" where
  "stack_size args objs = strings_size args + 23 + 8 * length args + 24 * length objs"

definition stack_bytes :: "u8 list list \<Rightarrow> (usize \<times> u64 \<times> u64) list \<Rightarrow> u8 list \<Rightarrow> u8 list list \<Rightarrow> u8 list" where
  "stack_bytes args objs gap bl =
     concat (map object_bytes (rev objs)) @ le64_bytes (of_nat (length objs))
     @ concat (map le64_bytes (rev (string_addresses (rev args) (0x80000000 - of_nat (strings_size args)))))
     @ le64_bytes (of_nat (length args)) @ gap @ concat (rev bl)"

lemma sum_blocks: "list_all2 block_ok args bl \<Longrightarrow> length (concat (rev bl)) = strings_size args"
  by (induction rule: list_all2_induct) (auto simp: block_ok_def strings_size_def)

lemma write_stack_layout:
  assumes "list_all (\<lambda>arg. length arg < 65536) args" "stack_size args objs \<le> 65536"
  shows "\<exists>mem' gap bl. write_stack addr args objs mem = Inr (mem', of_nat (strings_size args + length gap))
    \<and> list_all2 block_ok args bl \<and> length gap \<le> 7 \<and> stacked mem' (addr + 65536) (stack_bytes args objs gap bl)"
proof -
  let ?t = "addr + 65536" and ?s = "strings_size args"
  have b: "?s < 2 ^ 64" using assms(2) by (simp add: stack_size_def)
  obtain m1 bl where 1: "push_strings args mem (?t - of_nat 0) 0 = Inr (m1, ?t - of_nat ?s, 0 + of_nat ?s)"
    "list_all2 block_ok args bl" "stacked m1 ?t (concat (rev bl))"
    using push_strings_blocks [of mem ?t "[]" args 0] assms(1) b by (auto simp: stacked_def strings_size_def)
  let ?o = "(8 - align_offset (?t - of_nat ?s) 8) AND (8 - 1)"
  define gap where "gap = bytes_at m1 (?t - of_nat ?s - of_nat (unat ?o)) (unat ?o)"
  have "?o \<le> 8 - 1" by (rule word_and_le1)
  then have "?o \<le> 7" by simp
  then have g: "length gap \<le> 7" "of_nat (length gap) = ?o" by (simp_all add: gap_def word_le_nat_alt)
  have ls: "length (concat (rev bl)) = ?s" using sum_blocks [OF 1(2)] .
  have 2: "stacked m1 ?t (gap @ concat (rev bl))" using stacked_extend [OF 1(3), of "unat ?o"] by (simp only: gap_def ls)
  define c2 where "c2 = gap @ concat (rev bl)"
  have l2: "length c2 = ?s + length gap" using ls by (simp add: c2_def)
  let ?n = "le64_bytes (of_nat (length args))"
  define m3 where "m3 = write_bytes (?t - of_nat (length c2) - 8) ?n m1"
  have 3: "stacked m3 ?t (?n @ c2)" using stacked_push [OF 2 [folded c2_def], of ?n] g l2 assms(2) by (simp add: m3_def stack_size_def)
  let ?base = "0x80000000 - of_nat ?s"
  have r: "list_all (\<lambda>arg. length arg < 65536) (rev args)" "length (?n @ c2) + 8 * length (rev args) < 2 ^ 64"
    using assms g l2 by (simp_all add: stack_size_def list_all_iff)
  obtain m4 where 4: "push_pointers (rev args) ?base m3 (?t - of_nat (length (?n @ c2))) = (m4, ?t - of_nat (length (?n @ c2) + 8 * length (rev args)))"
    "stacked m4 ?t (concat (map le64_bytes (rev (string_addresses (rev args) ?base))) @ ?n @ c2)"
    using push_pointers_stacked [OF 3 r] by blast
  define c4 where "c4 = concat (map le64_bytes (rev (string_addresses (rev args) ?base))) @ ?n @ c2"
  have "length (concat (map le64_bytes xs)) = 8 * length xs" for xs by (induction xs) auto
  then have l4: "length c4 = length (?n @ c2) + 8 * length (rev args)" by (simp add: c4_def)
  let ?m = "le64_bytes (of_nat (length objs))"
  define m5 where "m5 = write_bytes (?t - of_nat (length c4) - 8) ?m m4"
  have 5: "stacked m5 ?t (?m @ c4)" using stacked_push [OF 4(2) [folded c4_def], of ?m] g l2 l4 assms(2) by (simp add: m5_def stack_size_def)
  have r5: "length (?m @ c4) + 24 * length objs < 2 ^ 64" using assms(2) g l2 l4 by (simp add: stack_size_def)
  obtain m6 where 6: "push_objects objs m5 (?t - of_nat (length (?m @ c4))) = (m6, ?t - of_nat (length (?m @ c4) + 24 * length objs))"
    "stacked m6 ?t (concat (map object_bytes (rev objs)) @ ?m @ c4)"
    using push_objects_stacked [OF 5 r5] by blast
  have sp: "?t - of_nat ?s - ?o = ?t - of_nat (length c2)" unfolding l2 of_nat_add g(2) by simp
  have sp2: "?t - of_nat (length c2) - 8 = ?t - of_nat (length (?n @ c2))" by (simp add: algebra_simps)
  have sp4: "?t - of_nat (length (?n @ c2) + 8 * length (rev args)) = ?t - of_nat (length c4)" unfolding l4 ..
  have sp5: "?t - of_nat (length c4) - 8 = ?t - of_nat (length (?m @ c4))" by (simp add: algebra_simps)
  have so: "0 + of_nat ?s + ?o = of_nat (?s + length gap)" unfolding of_nat_add g(2) by simp
  have base: "0x80000000 - of_nat (?s + length gap) + ?o = ?base" unfolding of_nat_add g(2) by simp
  have top: "push_strings args mem (addr + 16 * 4096) 0 = Inr (m1, ?t - of_nat ?s, 0 + of_nat ?s)" using 1(1) by simp
  have "write_stack addr args objs mem = Inr (m6, of_nat (?s + length gap))"
    unfolding write_stack_def STACK_PAGES_def top
    by (simp only: Let_def bindP_Inr prod.case so base sp sp2 m3_def [unfolded sp2, symmetric] 4(1) sp4 sp5 m5_def [unfolded sp5, symmetric] 6(1))
  then show ?thesis using 1(2) g(1) 6(2) by (auto simp: stack_bytes_def c4_def c2_def)
qed

subsection \<open>The view of the new task\<close>

lemma stack_page:
  assumes "k < 65536"
  shows "(0x7fff0000 + of_nat k) AND NOT 0xfff = (0x7fff0000 + of_nat (k div 4096) * 4096 :: usize)"
    and "(0x7fff0000 + of_nat k) AND 0xfff = (of_nat (k mod 4096) :: usize)"
proof -
  let ?a = "0x7fff0000 + of_nat k :: usize"
  have u: "unat (0x7fff0000 + of_nat n :: usize) = 0x7fff0000 + n" if "n < 65536" for n
    using that by (subst unat_add_no_overflow) (simp_all add: unat_of_nat_less)
  have m: "0xfff = (mask 12 :: usize)" by (simp add: mask_eq_exp_minus_1)
  have md: "(0x7fff0000 + k) mod 2 ^ 12 = k mod 4096" using mod_mult_self2 [of k 4096 524272] by (simp add: add.commute)
  have "unat (?a AND 0xfff) = k mod 4096" unfolding m unat_and_mask u [OF assms] by (rule md)
  then show "?a AND 0xfff = of_nat (k mod 4096)"
    unfolding word_unat_eq_iff by (subst unat_of_nat_less) auto
  have q: "k div 4096 * 4096 < 65536" using assms div_times_less_eq_dividend [of k 4096] by linarith
  have "unat (?a AND NOT 0xfff) = 0x7fff0000 + k div 4096 * 4096"
    unfolding m unat_and_not_mask u [OF assms] md by (simp add: minus_mod_eq_div_mult [symmetric])
  then have "?a AND NOT 0xfff = 0x7fff0000 + of_nat (k div 4096 * 4096)" unfolding word_unat_eq_iff u [OF q] .
  then show "?a AND NOT 0xfff = 0x7fff0000 + of_nat (k div 4096) * 4096" by simp
qed

lemma aligned_or:
  assumes "addr AND 0xfff = (0 :: usize)"
  shows "(addr + of_nat q * 4096) OR of_nat (r mod 4096) = addr + of_nat q * 4096 + of_nat (r mod 4096)"
proof -
  have m: "0xfff = (mask 12 :: usize)" by (simp add: mask_eq_exp_minus_1)
  let ?p = "addr + of_nat q * 4096" and ?r = "of_nat (r mod 4096) :: usize"
  have "of_nat q * 4096 = push_bit 12 (of_nat q :: usize)" by (simp add: push_bit_eq_mult)
  moreover have "addr = push_bit 12 (drop_bit 12 addr)"
    using bits_ident [of 12 addr] assms unfolding m take_bit_eq_mask [symmetric] by simp
  ultimately have p: "?p = push_bit 12 (drop_bit 12 addr + of_nat q)" unfolding push_bit_add by simp
  have "unat ?r = r mod 4096" by (simp add: unat_of_nat_less)
  then have "unat (take_bit 12 ?r) = unat ?r" by (simp add: take_bit_eq_mask unat_and_mask)
  then have r: "take_bit 12 ?r = ?r" by (simp only: word_unat_eq_iff)
  have "push_bit 12 x AND take_bit 12 y = 0" for x y :: usize by (rule bit_word_eqI) (auto simp: bit_simps)
  from this [of "drop_bit 12 addr + of_nat q" ?r] have "?p AND ?r = 0" by (simp only: p r)
  then show ?thesis by (simp add: disjunctive_add_eq_or)
qed

lemma task_memory_stack:
  assumes "addr AND 0xfff = 0" "k < 65536"
  shows "task_memory (stack_mappings addr) mem (0x7fff0000 + of_nat k) = mem (addr + of_nat k)"
proof -
  let ?f = "\<lambda>i. 0x7fff0000 + of_nat i * 4096 :: usize"
  have "distinct (map ?f [0..<16])" by code_simp
  then have d: "distinct (map fst (stack_mappings addr))" by (simp add: stack_mappings_def comp_def)
  have "(?f (k div 4096), addr + of_nat (k div 4096) * 4096) \<in> set (stack_mappings addr)"
    using assms(2) by (auto simp: stack_mappings_def image_iff intro!: bexI [of _ "k div 4096"])
  then have "map_of (stack_mappings addr) (?f (k div 4096)) = Some (addr + of_nat (k div 4096) * 4096)"
    using map_of_eq_Some_iff [OF d] by blast
  moreover have "of_nat (k div 4096) * 4096 + of_nat (k mod 4096) = (of_nat k :: usize)"
    by (metis of_nat_add of_nat_mult of_nat_numeral div_mult_mod_eq)
  ultimately show ?thesis unfolding task_memory_def stack_page [OF assms(2)]
    using aligned_or [OF assms(1)] by (simp add: add.assoc)
qed

lemma stacked_task:
  assumes "addr AND 0xfff = 0" "stacked mem (addr + 65536) c" "length c \<le> 65536"
  shows "stacked (task_memory (stack_mappings addr) mem) 0x80000000 c"
  unfolding stacked_def holds_iff_nth
proof (intro allI impI)
  fix j assume j: "j < length c"
  let ?k = "65536 - length c + j"
  have k: "of_nat ?k = (65536 - of_nat (length c) + of_nat j :: usize)" using assms(3) by (simp add: of_nat_diff)
  have "?k < 65536" using j assms(3) by linarith
  from task_memory_stack [OF assms(1) this]
  have "task_memory (stack_mappings addr) mem (0x7fff0000 + of_nat ?k) = mem (addr + of_nat ?k)" .
  moreover have "mem (addr + 65536 - of_nat (length c) + of_nat j) = c ! j"
    using assms(2) j unfolding stacked_def holds_iff_nth by blast
  moreover have "addr + 65536 - of_nat (length c) + of_nat j = addr + of_nat ?k"
    "0x80000000 - of_nat (length c) + of_nat j = (0x7fff0000 + of_nat ?k :: usize)" unfolding k by simp_all
  ultimately show "task_memory (stack_mappings addr) mem (0x80000000 - of_nat (length c) + of_nat j) = c ! j" by (simp only:)
qed

subsection \<open>Reading the arguments back\<close>

lemma blocks_at:
  "list_all2 block_ok args bl \<Longrightarrow> holds mem p (concat bl)
    \<Longrightarrow> list_all2 (\<lambda>a arg. holds mem a (le16_bytes (of_nat (length arg)) @ arg)) (string_addresses args p) args"
proof (induction arbitrary: p rule: list_all2_induct)
  case (Cons arg args b bl)
  obtain pad where b: "b = le16_bytes (of_nat (length arg)) @ arg @ pad" "length b = arg_size arg"
    using Cons.hyps(1) by (auto simp: block_ok_def)
  have "holds mem p b" "holds mem (p + of_nat (arg_size arg)) (concat bl)" using Cons.prems b(2) by simp_all
  then show ?case using Cons.IH b(1) by simp
qed simp

lemma arg_iter_reads:
  "list_all2 (\<lambda>a arg. holds mem a (le16_bytes (of_nat (length arg)) @ arg)) as args \<Longrightarrow> list_all (\<lambda>arg. length arg < 65536) args
    \<Longrightarrow> holds mem p (concat (map le64_bytes as)) \<Longrightarrow> arg_iter (length args) mem p = args"
proof (induction arbitrary: p rule: list_all2_induct)
  case (Cons a as arg args)
  have "holds mem p (le64_bytes a)" using Cons.prems(2) by simp
  then have a: "le64_at mem p = a" by (rule le64_at_holds)
  have "holds mem a (le16_bytes (of_nat (length arg)))" "holds mem (a + 2) arg" using Cons.hyps(1) by simp_all
  moreover have "unat (of_nat (length arg) :: u16) = length arg" using Cons.prems(1) by (simp add: unat_of_nat_less)
  ultimately have "arg_at mem p = arg" using le16_at_holds [of mem a] by (simp add: arg_at_def Let_def a holds_def)
  then show ?case using Cons.IH [of "p + 8"] Cons.prems by simp
qed simp

lemma start_args_stack:
  assumes "stacked mem 0x80000000 (stack_bytes args objs gap bl)" "list_all2 block_ok args bl"
    "list_all (\<lambda>arg. length arg < 65536) args" "length args < 2 ^ 61"
  shows "start_args mem (initial_sp (of_nat (strings_size args + length gap))) = args"
proof -
  let ?b = "concat (rev bl)" and ?n = "le64_bytes (of_nat (length args))"
  let ?as = "rev (string_addresses (rev args) (0x80000000 - of_nat (strings_size args)))"
  have l: "length ?b = strings_size args" using sum_blocks [OF assms(2)] .
  define c where "c = gap @ ?b"
  have lc: "length c = strings_size args + length gap" by (simp only: c_def length_append l add.commute)
  have s: "stacked mem 0x80000000 (concat (map le64_bytes ?as) @ ?n @ c)" and sb: "stacked mem 0x80000000 ?b"
    using assms(1) by (simp_all add: stack_bytes_def stacked_append c_def)
  have "holds mem (0x80000000 - of_nat (strings_size args)) ?b" using sb by (simp only: stacked_def l)
  from blocks_at [OF _ this] have "list_all2 (\<lambda>a arg. holds mem a (le16_bytes (of_nat (length arg)) @ arg)) ?as args"
    using assms(2) list_all2_rev [of _ "string_addresses (rev args) (0x80000000 - of_nat (strings_size args))" "rev args"]
    by (simp add: list_all2_rev)
  moreover have "length (concat (map le64_bytes xs)) = 8 * length xs" for xs by (induction xs) auto
  then have p: "holds mem (0x80000000 - of_nat (length c) - 8 - of_nat (8 * length args)) (concat (map le64_bytes ?as))"
    and n: "holds mem (0x80000000 - of_nat (length c) - 8) ?n"
    using s by (simp_all add: stacked_append algebra_simps)
  ultimately have it: "arg_iter (length args) mem (0x80000000 - of_nat (length c) - 8 - of_nat (8 * length args)) = args"
    using arg_iter_reads assms(3) by blast
  have "unat (of_nat (length args) :: u64) = length args" using assms(4) by (simp add: unat_of_nat_less)
  moreover have "push_bit 3 (of_nat (length args)) = (of_nat (8 * length args) :: u64)" by (simp add: push_bit_eq_mult)
  ultimately show ?thesis
    unfolding start_args_def initial_sp_def Let_def lc [symmetric] le64_at_holds [OF n] using it by simp
qed

lemma length_stack_bytes:
  "list_all2 block_ok args bl \<Longrightarrow> length gap \<le> 7 \<Longrightarrow> length (stack_bytes args objs gap bl) \<le> stack_size args objs"
proof -
  assume a: "list_all2 block_ok args bl" "length gap \<le> 7"
  have "length (concat (map le64_bytes xs)) = 8 * length xs" for xs by (induction xs) auto
  moreover have "length (concat (map object_bytes xs)) = 24 * length xs" for xs
    by (induction xs) (auto simp: object_bytes_def split: prod.splits)
  ultimately show ?thesis using a(2) sum_blocks [OF a(1)] unfolding stack_bytes_def stack_size_def by simp
qed

lemma write_stack_read:
  assumes "list_all (\<lambda>arg. length arg < 65536) args" "stack_size args objs \<le> 65536" "addr AND 0xfff = 0"
  shows "\<exists>mem' so. write_stack addr args objs mem = Inr (mem', so)
    \<and> start_args (task_memory (stack_mappings addr) mem') (initial_sp so) = args"
proof -
  obtain mem' gap bl where w: "write_stack addr args objs mem = Inr (mem', of_nat (strings_size args + length gap))"
    "list_all2 block_ok args bl" "length gap \<le> 7" "stacked mem' (addr + 65536) (stack_bytes args objs gap bl)"
    using write_stack_layout [OF assms(1,2)] by blast
  have "length (stack_bytes args objs gap bl) \<le> 65536" using length_stack_bytes [OF w(2,3), of objs] assms(2) by linarith
  note s = stacked_task [OF assms(3) w(4) this]
  have "length args < 2 ^ 61" using assms(2) by (simp add: stack_size_def)
  from start_args_stack [OF s w(2) assms(1) this] w(1) show ?thesis by blast
qed

text \<open>
  C39. A new task reads the arguments that it was spawned with. Whatever the arguments and objects are, as long
  as they fit on the sixteen pages of the stack and no argument has 65536 bytes or more, writing the stack
  succeeds wherever its pages are in the task that spawns, and the entry code of the new task, with the stack
  pointer that it is given and through the mappings that it is given, finds the same arguments in the same order.
\<close>

theorem stack_args_read:
  assumes "list_all (\<lambda>arg. length arg < 65536) args" "stack_size args objs \<le> 65536" "addr AND 0xfff = 0"
  shows "\<exists>mem' so. write_stack addr args objs mem = Inr (mem', so)
    \<and> start_args (task_memory (stack_mappings addr) mem') (initial_sp so) = args"
  by (rule write_stack_read [OF assms])

text \<open>Two arguments and no objects, on a stack that is at \<open>0x10000\<close>.\<close>

theorem stack_args_read_witness:
  "\<exists>mem' so. write_stack 0x10000 [[45, 45, 114], [49]] [] (\<lambda>_. 0) = Inr (mem', so)
    \<and> start_args (task_memory (stack_mappings 0x10000) mem') (initial_sp so) = [[45, 45, 114], [49]]"
  by (rule stack_args_read) (simp_all add: stack_size_def strings_size_def arg_size_def)

end
