(* ===== verification/Driver_Start.thy ===== *)
theory Driver_Start
  imports Driver_Args Task_Stack
begin

text \<open>
  How a driver learns of its device: the init process (\<open>services/init/b0/src/main.rs\<close>) writes the
  registers, ranges and interrupts of the device as arguments, \<open>spawn_elf\<close> puts them on the stack
  of the new task, and the driver parses what its entry code finds there. This theory composes the three.
\<close>

lemma length_arg_name: "\<not> is_other a \<Longrightarrow> length (arg_name a) \<le> 32"
  by (cases a) (simp_all add: arg_name_def is_other_def str_bytes_def)

lemma length_arg_strings: "\<not> is_other a \<Longrightarrow> s \<in> set (arg_strings a) \<Longrightarrow> length s \<le> 32"
  using length_arg_name length_hexn_u128 by (auto simp: arg_strings_def hexs_def)

lemma strings_size_le: "list_all (\<lambda>s. length s \<le> 32) args \<Longrightarrow> strings_size args \<le> 34 * length args"
proof (induction args)
  case (Cons s args)
  have "length s \<le> 32" using Cons.prems by simp
  then have "arg_size s \<le> 34" unfolding arg_size_def by presburger
  then show ?case using Cons by (simp add: strings_size_def)
qed (simp add: strings_size_def)

text \<open>
  C40. What the init process tells a driver is what the driver reads. When the arguments fit into the
  buffer of 4096 bytes and the array of 128 strings, writing them succeeds for every value of the 128-bit
  numbers, the stack of the new task has room for them, and the driver, parsing what its entry code finds
  on the stack, gets the same arguments in the same order, provided that it was built to parse them.
\<close>

theorem driver_told_what_it_reads:
  assumes "sum_list (map arg_bytes as) \<le> length buf" "sum_list (map (length \<circ> arg_strings) as) \<le> 128"
    and "list_all (\<lambda>a. \<not> is_other a \<and> feature (needed_feature a)) as" "length as < fuel" "addr AND 0xfff = 0"
  shows "\<exists>buf' args mem' so. push_args 128 as buf [] = Inr (buf', args) \<and> write_stack addr args [] mem = Inr (mem', so)
    \<and> parse_args fuel feature collect_arg (start_args (task_memory (stack_mappings addr) mem') (initial_sp so)) []
      = Inr (Inr as)"
proof -
  let ?args = "concat (map arg_strings as)"
  have p: "push_args 128 as buf [] = Inr (drop (sum_list (map arg_bytes as)) buf, ?args)"
    using push_args_array [of as buf "[]" 128] assms(1,2) by simp
  have s: "list_all (\<lambda>s. length s \<le> 32) ?args" using assms(3) length_arg_strings by (fastforce simp: list_all_iff)
  then have l: "list_all (\<lambda>s. length s < 65536) ?args" by (rule list.pred_mono_strong) simp
  have "length ?args \<le> 128" using assms(2) by (simp add: length_concat comp_def)
  then have "stack_size ?args [] \<le> 65536" using strings_size_le [OF s] by (simp add: stack_size_def)
  from write_stack_read [OF l this assms(5)] obtain mem' so where
    "write_stack addr ?args [] mem = Inr (mem', so)"
    "start_args (task_memory (stack_mappings addr) mem') (initial_sp so) = ?args" by blast
  then show ?thesis using p parse_args_strings [OF assms(3,4), of "[]"] by auto
qed

text \<open>The description of a serial port, and a driver that parses registers only.\<close>

theorem driver_told_what_it_reads_witness:
  "\<exists>buf' args mem' so. push_args 128 [Reg 0x10000000 0x100] (replicate 4096 0) [] = Inr (buf', args)
    \<and> write_stack 0x20000 args [] (\<lambda>_. 0) = Inr (mem', so)
    \<and> parse_args 2 (\<lambda>f. f = ''parse-reg'') collect_arg (start_args (task_memory (stack_mappings 0x20000) mem') (initial_sp so)) []
      = Inr (Inr [Reg 0x10000000 0x100])"
proof -
  have h: "length (hexs v) \<le> 32" for v using length_hexn_u128 by (simp add: hexs_def)
  from h [of "0x10000000"] h [of "0x100"] have "arg_bytes (Reg 0x10000000 0x100) \<le> 64" by (simp add: arg_bytes_def)
  then show ?thesis by (intro driver_told_what_it_reads) (auto simp: is_other_def arg_strings_def)
qed

end
