(* ===== verification/Elf.thy ===== *)
theory Elf
  imports Byte_Memory Sv39_Entry
begin

text \<open>
  The ELF parser of the kernel (\<open>kernel/src/elf.rs\<close>), which reads the executable of the first task. The file
  is a slice of memory, and its headers are read through pointers. \<open>elf_parse_ok\<close> shows what the
  parser makes of a file with the headers that a linker writes: one segment for each loadable program
  header, whose frames are the pages of the file.
\<close>

subsection \<open>Headers\<close>

(* src/kernel/src/elf.rs:56-64 Identifier *)
record elf_identifier =
  ei_magic :: "u8 list"
  ei_class :: u8
  ei_data :: u8
  ei_version :: u8

(* src/kernel/src/elf.rs:26-49 FileHeader *)
record file_header =
  eh_typ :: u16
  eh_machine :: u16
  eh_version :: u32
  eh_entry :: usize
  eh_program_header_offset :: usize
  eh_section_header_offset :: usize
  eh_flags :: u32
  eh_header_size :: u16
  eh_program_header_entry_size :: u16
  eh_program_header_entry_count :: u16
  eh_section_header_entry_size :: u16
  eh_section_header_entry_count :: u16
  eh_section_header_str_rndx :: u16

(* src/kernel/src/elf.rs:97-114 ProgramHeader *)
record program_header =
  ph_typ :: u32
  ph_flags :: u32
  ph_offset :: usize
  ph_virtual_address :: usize
  ph_physical_address :: usize
  ph_file_size :: usize
  ph_memory_size :: usize
  ph_alignment :: usize

text \<open>A structure with the layout of C, at an address.\<close>

definition identifier_at :: "memory \<Rightarrow> usize \<Rightarrow> elf_identifier" where
  "identifier_at mem p =
     \<lparr>ei_magic = bytes_at mem p 4, ei_class = mem (p + 4), ei_data = mem (p + 5), ei_version = mem (p + 6)\<rparr>"

definition file_header_at :: "memory \<Rightarrow> usize \<Rightarrow> file_header" where
  "file_header_at mem p =
     \<lparr>eh_typ = le16_at mem (p + 16), eh_machine = le16_at mem (p + 18), eh_version = le32_at mem (p + 20),
      eh_entry = le64_at mem (p + 24), eh_program_header_offset = le64_at mem (p + 32),
      eh_section_header_offset = le64_at mem (p + 40), eh_flags = le32_at mem (p + 48),
      eh_header_size = le16_at mem (p + 52), eh_program_header_entry_size = le16_at mem (p + 54),
      eh_program_header_entry_count = le16_at mem (p + 56), eh_section_header_entry_size = le16_at mem (p + 58),
      eh_section_header_entry_count = le16_at mem (p + 60), eh_section_header_str_rndx = le16_at mem (p + 62)\<rparr>"

definition program_header_at :: "memory \<Rightarrow> usize \<Rightarrow> program_header" where
  "program_header_at mem p =
     \<lparr>ph_typ = le32_at mem p, ph_flags = le32_at mem (p + 4), ph_offset = le64_at mem (p + 8),
      ph_virtual_address = le64_at mem (p + 16), ph_physical_address = le64_at mem (p + 24),
      ph_file_size = le64_at mem (p + 32), ph_memory_size = le64_at mem (p + 40), ph_alignment = le64_at mem (p + 48)\<rparr>"

(* src/kernel/src/elf.rs:120-120 TYPE_EXEC *)
definition TYPE_EXEC :: u16 where
  "TYPE_EXEC = 2"

(* src/kernel/src/elf.rs:269-271 ProgramHeader::TYPE_LOAD *)
definition TYPE_LOAD :: u32 where
  "TYPE_LOAD = 1"

(* src/kernel/src/arch/riscv/mod.rs:66-84 elf *)
definition ELF_MACHINE :: u16 where
  "ELF_MACHINE = 0xf3"

(* src/kernel/src/arch/mod.rs:23-30 ELF_FLAGS *)
definition ELF_FLAGS :: u32 where
  "ELF_FLAGS = 0x0001 OR 0x0004"

subsection \<open>Parsing\<close>

(* src/kernel/src/elf.rs:122-134 Segment *)
record segment =
  sg_address :: page
  sg_ppn :: ppn_range
  sg_flags :: rwx
  sg_clear_from :: usize
  sg_clear_to :: usize

(* src/kernel/src/elf.rs:219-230 parse *)
definition segment_flags :: "u32 \<Rightarrow> rwx may_panic" where
  "segment_flags flags =
     (let f = flags AND 7 in
      if f = 1 OR 2 OR 4 then Inr RWX_RWX
      else if f = 1 OR 4 then Inr RWX_RX
      else if f = 1 OR 2 then Inl Explicit_Panic
      else if f = 1 then Inr RWX_X
      else if f = 2 OR 4 then Inr RWX_RW
      else if f = 2 then Inl Explicit_Panic
      else if f = 4 then Inr RWX_R
      else Inl Explicit_Panic)"

text \<open>One loadable program header; \<open>data\<close> is the slice at \<open>ptr\<close> of \<open>len\<close> bytes.\<close>

(* src/kernel/src/elf.rs:217-259 parse *)
definition parse_segment :: "usize \<Rightarrow> usize \<Rightarrow> program_header \<Rightarrow> segment may_panic" where
  "parse_segment ptr len header =
     bindP (segment_flags (ph_flags header)) (\<lambda>flags.
     assertP (ph_offset header AND 0xfff = ph_virtual_address header AND 0xfff)
     (let offset = ph_offset header AND 0xfff in
      bindP (unwrapR (page_from_pointer (ph_virtual_address header AND NOT 0xfff))) (\<lambda>address.
      bindP (unwrapO (try_into ((ph_memory_size header + offset + 0xfff) div PAGE_SIZE))) (\<lambda>count.
      let start = ph_offset header AND NOT 0xfff in
      if \<not> start \<le> len then Inl Index_Out_Of_Range
      else Inr \<lparr>sg_address = address, sg_ppn = range_from_ptr (ptr + start) count, sg_flags = flags,
                 sg_clear_from = ph_file_size header + offset, sg_clear_to = ph_memory_size header + offset\<rparr>))))"

(* src/kernel/src/elf.rs:202-262 parse *)
fun parse_headers :: "memory \<Rightarrow> usize \<Rightarrow> usize \<Rightarrow> usize \<Rightarrow> nat list \<Rightarrow> nat \<Rightarrow> segment option list
    \<Rightarrow> segment option list may_panic" where
  "parse_headers mem ptr len offset [] i segments = Inr segments"
| "parse_headers mem ptr len offset (k # ks) i segments =
     assertP (i < length segments)
     (let header = program_header_at mem (ptr + offset + 56 * of_nat k) in
      if ph_typ header \<noteq> TYPE_LOAD then parse_headers mem ptr len offset ks i segments
      else bindP (parse_segment ptr len header) (\<lambda>s.
        parse_headers mem ptr len offset ks (i + 1) (segments[i := Some s])))"

(* src/kernel/src/elf.rs:136-265 parse *)
definition elf_parse :: "memory \<Rightarrow> usize \<Rightarrow> usize \<Rightarrow> segment option list \<Rightarrow> (segment option list \<times> usize) may_panic" where
  "elf_parse mem ptr len segments =
     assertP (16 \<le> len)
     (let identifier = identifier_at mem ptr in
      assertP (ei_magic identifier = [0x7f, 0x45, 0x4c, 0x46])
     (assertP (align_offset ptr 8 = 0)
     (assertP (ei_class identifier = 2)
     (assertP (ei_data identifier = 1)
     (assertP (ei_version identifier = 1)
     (assertP (64 \<le> len)
     (let header = file_header_at mem ptr in
      assertP (eh_typ header = TYPE_EXEC)
     (assertP (eh_machine header = ELF_MACHINE)
     (assertP (eh_flags header AND NOT ELF_FLAGS = 0)
     (let count = ucast (eh_program_header_entry_count header) :: usize;
          sz = ucast (eh_program_header_entry_size header) :: usize in
      assertP (sz = 56)
     (assertP (count * sz + eh_program_header_offset header \<le> len)
     (bindP (parse_headers mem ptr len (eh_program_header_offset header) [0..<unat count] 0 segments) (\<lambda>segments.
      Inr (segments, eh_entry header))))))))))))))"

subsection \<open>Files\<close>

text \<open>The headers of a file as bytes; \<open>pad\<close> is the unused end of the identifier.\<close>

definition file_header_bytes :: "u8 list \<Rightarrow> file_header \<Rightarrow> u8 list" where
  "file_header_bytes pad h =
     [0x7f, 0x45, 0x4c, 0x46, 2, 1, 1] @ pad @ le16_bytes (eh_typ h) @ le16_bytes (eh_machine h) @ le32_bytes (eh_version h)
     @ le64_bytes (eh_entry h) @ le64_bytes (eh_program_header_offset h) @ le64_bytes (eh_section_header_offset h)
     @ le32_bytes (eh_flags h) @ le16_bytes (eh_header_size h) @ le16_bytes (eh_program_header_entry_size h)
     @ le16_bytes (eh_program_header_entry_count h) @ le16_bytes (eh_section_header_entry_size h)
     @ le16_bytes (eh_section_header_entry_count h) @ le16_bytes (eh_section_header_str_rndx h)"

definition program_header_bytes :: "program_header \<Rightarrow> u8 list" where
  "program_header_bytes h =
     le32_bytes (ph_typ h) @ le32_bytes (ph_flags h) @ le64_bytes (ph_offset h) @ le64_bytes (ph_virtual_address h)
     @ le64_bytes (ph_physical_address h) @ le64_bytes (ph_file_size h) @ le64_bytes (ph_memory_size h) @ le64_bytes (ph_alignment h)"

lemma file_header_at_holds:
  assumes "holds mem p (file_header_bytes pad h)" "length pad = 9"
  shows "file_header_at mem p = h" "identifier_at mem p = \<lparr>ei_magic = [0x7f, 0x45, 0x4c, 0x46], ei_class = 2, ei_data = 1, ei_version = 1\<rparr>"
proof -
  show "file_header_at mem p = h"
    using assms by (simp add: file_header_bytes_def file_header_at_def le_at_holds add.assoc)
  show "identifier_at mem p = \<lparr>ei_magic = [0x7f, 0x45, 0x4c, 0x46], ei_class = 2, ei_data = 1, ei_version = 1\<rparr>"
    using assms(1) by (simp add: file_header_bytes_def identifier_at_def bytes_at_def upt_rec [of _ 4] add.assoc)
qed

lemma length_program_header_bytes [simp]: "length (program_header_bytes h) = 56"
  by (simp add: program_header_bytes_def)

lemma program_header_at_holds: "holds mem p (program_header_bytes h) \<Longrightarrow> program_header_at mem p = h"
  by (simp add: program_header_bytes_def program_header_at_def le_at_holds add.assoc)

lemma program_headers_at:
  "holds mem p (concat (map program_header_bytes hs)) \<Longrightarrow> k < length hs \<Longrightarrow> program_header_at mem (p + 56 * of_nat k) = hs ! k"
proof (induction hs arbitrary: p k)
  case (Cons h hs)
  show ?case
  proof (cases k)
    case 0
    then show ?thesis using Cons.prems program_header_at_holds by simp
  next
    case (Suc k')
    then have "program_header_at mem (p + 56 + 56 * of_nat k') = hs ! k'" using Cons.prems by (intro Cons.IH) simp_all
    then show ?thesis using Suc by (simp add: algebra_simps)
  qed
qed simp

subsection \<open>Segments\<close>

text \<open>
  A program header that can be loaded: pages that are not only written to, an address on the same place of a
  page as the offset, not in the first page, and sizes that fit.
\<close>

definition ph_ok :: "usize \<Rightarrow> program_header \<Rightarrow> bool" where
  "ph_ok len h \<longleftrightarrow> ph_flags h AND 7 \<in> {1, 4, 5, 6, 7} \<and> unat (ph_offset h) mod 4096 = unat (ph_virtual_address h) mod 4096
     \<and> 4096 \<le> unat (ph_virtual_address h) \<and> unat (ph_offset h) \<le> unat len \<and> unat (ph_memory_size h) < 2 ^ 40"

fun the_flags :: "u32 \<Rightarrow> rwx" where
  "the_flags f = (if f AND 7 = 7 then RWX_RWX else if f AND 7 = 5 then RWX_RX else if f AND 7 = 1 then RWX_X
     else if f AND 7 = 6 then RWX_RW else RWX_R)"

definition segment_pages :: "program_header \<Rightarrow> nat" where
  "segment_pages h = (unat (ph_memory_size h) + unat (ph_offset h) mod 4096 + 4095) div 4096"

definition segment_of :: "usize \<Rightarrow> program_header \<Rightarrow> segment" where
  "segment_of ptr h =
     \<lparr>sg_address = ph_virtual_address h AND NOT 0xfff,
      sg_ppn = range_from_ptr (ptr + (ph_offset h AND NOT 0xfff)) (of_nat (segment_pages h)), sg_flags = the_flags (ph_flags h),
      sg_clear_from = ph_file_size h + (ph_offset h AND 0xfff), sg_clear_to = ph_memory_size h + (ph_offset h AND 0xfff)\<rparr>"

lemma unat_and_not_4095: "unat (x AND NOT 0xfff :: usize) = unat x - unat x mod 4096"
  using unat_and_not_mask [of x 12] by (simp add: mask_eq_exp_minus_1)

lemma segment_pages_bound: "ph_ok len h \<Longrightarrow> segment_pages h < 2 ^ 29"
proof -
  assume "ph_ok len h"
  then have "unat (ph_memory_size h) < 2 ^ 40" by (simp add: ph_ok_def)
  moreover have "unat (ph_offset h) mod 4096 < 4096" by simp
  ultimately have "unat (ph_memory_size h) + unat (ph_offset h) mod 4096 + 4095 < 2 ^ 29 * 4096" by simp
  then show ?thesis unfolding segment_pages_def by (rule less_mult_imp_div_less)
qed

lemma parse_segment_ok:
  assumes "ph_ok len h"
  shows "parse_segment ptr len h = Inr (segment_of ptr h)"
proof -
  note a = assms [unfolded ph_ok_def]
  have f: "segment_flags (ph_flags h) = Inr (the_flags (ph_flags h))" using a by (auto simp: segment_flags_def Let_def)
  have o: "ph_offset h AND 0xfff = ph_virtual_address h AND 0xfff" using a by (simp add: word_unat_eq_iff unat_and_4095)
  let ?v = "ph_virtual_address h AND NOT 0xfff"
  have "4096 dvd unat ?v" unfolding unat_and_not_4095 by (simp add: minus_mod_eq_mult_div)
  moreover have "unat ?v \<noteq> 0"
  proof -
    have "4096 \<le> unat (ph_virtual_address h)" "unat (ph_virtual_address h) mod 4096 < 4096" using a by simp_all
    then show ?thesis unfolding unat_and_not_4095 by linarith
  qed
  ultimately have v: "page_from_pointer ?v = Inr ?v" by (auto simp: page_from_pointer_eq page_from_usize_Inr page_inv_def)
  let ?n = "ph_memory_size h + (ph_offset h AND 0xfff) + 0xfff"
  have w: "unat (ph_offset h AND 0xfff) = unat (ph_offset h) mod 4096" by (rule unat_and_4095)
  have l: "unat (ph_memory_size h) < 2 ^ 40" "unat (ph_offset h) mod 4096 < 4096" using a by simp_all
  have "unat (ph_memory_size h + (ph_offset h AND 0xfff)) = unat (ph_memory_size h) + unat (ph_offset h) mod 4096"
    using l w by (subst unat_add_no_overflow) simp_all
  then have "unat ?n = unat (ph_memory_size h) + unat (ph_offset h) mod 4096 + 4095"
    using l by (subst unat_add_no_overflow) simp_all
  then have n: "unat (?n div PAGE_SIZE) = segment_pages h" by (simp add: unat_div page_consts segment_pages_def)
  have "ucast (?n div PAGE_SIZE) = (of_nat (segment_pages h) :: u32)" unfolding n [symmetric] by simp
  then have c: "(try_into (?n div PAGE_SIZE) :: u32 option) = Some (of_nat (segment_pages h))"
    using segment_pages_bound [OF assms] n by (simp add: try_into_def)
  have s: "ph_offset h AND NOT 0xfff \<le> len" unfolding word_le_nat_alt unat_and_not_4095 using a by linarith
  show ?thesis unfolding parse_segment_def Let_def f v c o [symmetric] using s by (simp add: segment_of_def)
qed

definition loads :: "program_header list \<Rightarrow> program_header list" where
  "loads hs = filter (\<lambda>h. ph_typ h = TYPE_LOAD) hs"

lemma parse_headers_ok:
  assumes "\<And>k. k \<in> set ks \<Longrightarrow> program_header_at mem (ptr + off + 56 * of_nat k) = h k"
    "list_all (ph_ok len) (loads (map h ks))" "length (loads (map h ks)) < r"
  shows "parse_headers mem ptr len off ks (length segs) (map Some segs @ replicate r None)
    = Inr (map Some (segs @ map (segment_of ptr) (loads (map h ks))) @ replicate (r - length (loads (map h ks))) None)"
  using assms
proof (induction ks arbitrary: segs r)
  case (Cons k ks)
  have h: "program_header_at mem (ptr + off + 56 * of_nat k) = h k" using Cons.prems(1) by simp
  show ?case
  proof (cases "ph_typ (h k) = TYPE_LOAD")
    case True
    obtain r' where r: "r = Suc r'" using Cons.prems(3) by (cases r) auto
    have "(map Some segs @ replicate r None)[length segs := Some (segment_of ptr (h k))] = map Some (segs @ [segment_of ptr (h k)]) @ replicate r' None"
      by (simp add: r list_update_append)
    moreover have "parse_segment ptr len (h k) = Inr (segment_of ptr (h k))"
      using Cons.prems(2) True by (intro parse_segment_ok) (simp add: loads_def)
    moreover have "parse_headers mem ptr len off ks (length (segs @ [segment_of ptr (h k)])) (map Some (segs @ [segment_of ptr (h k)]) @ replicate r' None)
      = Inr (map Some ((segs @ [segment_of ptr (h k)]) @ map (segment_of ptr) (loads (map h ks))) @ replicate (r' - length (loads (map h ks))) None)"
      using Cons.prems r True by (intro Cons.IH) (simp_all add: loads_def)
    ultimately show ?thesis using h True r by (simp add: loads_def)
  next
    case False
    moreover from this have "loads (map h (k # ks)) = loads (map h ks)" by (simp add: loads_def)
    moreover have "0 < r" using Cons.prems(3) by simp
    ultimately show ?thesis using Cons.IH [of r segs] Cons.prems h by simp
  qed
qed (simp add: loads_def)

text \<open>\<open>elf_file mem ptr len h hs\<close>: an executable for the machine with the header \<open>h\<close> and the program headers \<open>hs\<close>.\<close>

definition elf_file :: "memory \<Rightarrow> usize \<Rightarrow> usize \<Rightarrow> file_header \<Rightarrow> program_header list \<Rightarrow> bool" where
  "elf_file mem ptr len h hs \<longleftrightarrow> ptr mod 8 = 0 \<and> 64 \<le> unat len
     \<and> (\<exists>pad. length pad = 9 \<and> holds mem ptr (file_header_bytes pad h))
     \<and> eh_typ h = 2 \<and> eh_machine h = 0xf3 \<and> eh_flags h AND NOT 5 = 0 \<and> eh_program_header_entry_size h = 56
     \<and> unat (eh_program_header_entry_count h) = length hs
     \<and> unat (eh_program_header_offset h) + 56 * length hs \<le> unat len
     \<and> holds mem (ptr + eh_program_header_offset h) (concat (map program_header_bytes hs))"

lemma align_offset_0: "ptr mod 8 = 0 \<Longrightarrow> align_offset ptr 8 = 0"
proof -
  assume "ptr mod 8 = 0"
  then have "ptr = 8 * (ptr div 8)" using mult_div_mod_eq [of 8 ptr] by simp
  then have n: "- ptr = 8 * (- (ptr div 8))" by (simp add: mult_minus_right)
  have "(8 * y) mod 8 = 0" for y :: usize by (simp add: word_unat_eq_iff unat_mod unat_word_ariths mod_mod_cancel)
  then show ?thesis unfolding align_offset_def n .
qed

lemma elf_parse_ok:
  assumes "elf_file mem ptr len h hs" "list_all (ph_ok len) (loads hs)" "length (loads hs) < n"
  shows "elf_parse mem ptr len (replicate n None)
    = Inr (map Some (map (segment_of ptr) (loads hs)) @ replicate (n - length (loads hs)) None, eh_entry h)"
proof -
  note f = assms(1) [unfolded elf_file_def]
  have H: "file_header_at mem ptr = h"
    "identifier_at mem ptr = \<lparr>ei_magic = [0x7f, 0x45, 0x4c, 0x46], ei_class = 2, ei_data = 1, ei_version = 1\<rparr>"
    using f file_header_at_holds by blast+
  let ?c = "ucast (eh_program_header_entry_count h) :: usize"
  have c: "unat ?c = length hs" "length hs < 65536" using f unat_bounds(2) [of "eh_program_header_entry_count h"] by simp_all
  have "unat (?c * 56) = 56 * length hs" using c by (subst unat_mult_no_overflow) simp_all
  then have s: "?c * 56 + eh_program_header_offset h \<le> len"
    unfolding word_le_nat_alt using f c unat_bounds(4) [of len] by (subst unat_add_no_overflow) simp_all
  have k: "map ((!) hs) [0..<length hs] = hs" by (rule map_nth)
  have p: "program_header_at mem (ptr + eh_program_header_offset h + 56 * of_nat i) = hs ! i" if "i \<in> set [0..<length hs]" for i
    using f that by (intro program_headers_at) simp_all
  from parse_headers_ok [where ks = "[0..<length hs]" and h = "(!) hs" and len = len and r = n and segs = "[]", OF p] assms(2,3)
  have "parse_headers mem ptr len (eh_program_header_offset h) [0..<length hs] 0 (replicate n None)
    = Inr (map Some (map (segment_of ptr) (loads hs)) @ replicate (n - length (loads hs)) None)" by (simp add: k)
  then show ?thesis unfolding elf_parse_def Let_def H
    using f s c align_offset_0 [of ptr] by (simp add: TYPE_EXEC_def ELF_MACHINE_def ELF_FLAGS_def word_le_nat_alt)
qed

end
