(* ===== verification/Sv39_User.thy ===== *)
theory Sv39_User
  imports Sv39_Props Byte_Memory
begin

text \<open>
  Accesses to user pages, and bytes of physical memory. While the kernel allows itself access to user
  pages (the bit \<open>SUM\<close> of \<open>sstatus\<close>, \<open>set_supervisor_userpage_access\<close>), its loads and stores ignore the
  user bit of an entry. A program in user mode reaches only pages whose user bit is set. The software map \<open>vm_lookup\<close> and the hardware walk agree for the entries that the kernel
  writes, which \<open>entries_ok\<close> says of every page table.
\<close>

subsection \<open>Accesses\<close>

definition user_translate :: "phys \<Rightarrow> ppn \<Rightarrow> access \<Rightarrow> usize \<Rightarrow> ppn option" where
  "user_translate mem root a va = hw_translate (\<lambda>f i. if a = Fetch then mem f i else mem f i AND NOT 0x10) root a va"

text \<open>
  User mode asks for the user bit where the supervisor refuses it: it is the walk with bit 4 of every entry
  inverted, which the walk looks at in leaves only.
\<close>

definition user_mode_translate :: "phys \<Rightarrow> ppn \<Rightarrow> access \<Rightarrow> usize \<Rightarrow> ppn option" where
  "user_mode_translate mem root a va = hw_translate (\<lambda>f i. mem f i XOR 0x10) root a va"

definition get_byte :: "u64 \<Rightarrow> nat \<Rightarrow> u8" where
  "get_byte w k = ucast (drop_bit (8 * k) w)"

definition set_byte :: "u64 \<Rightarrow> nat \<Rightarrow> u8 \<Rightarrow> u64" where
  "set_byte w k b = (w AND NOT (push_bit (8 * k) 0xff)) OR push_bit (8 * k) (ucast b)"

text \<open>The byte of a frame at the place in the page that an address names, and physical memory by addresses.\<close>

definition frame_byte :: "phys \<Rightarrow> ppn \<Rightarrow> usize \<Rightarrow> u8" where
  "frame_byte mem f a = get_byte (mem f (word_index a)) (unat a mod 8)"

definition phys_bytes :: "phys \<Rightarrow> memory" where
  "phys_bytes mem a = frame_byte mem (ppn_from_ptr a) a"

definition frame_store :: "phys \<Rightarrow> ppn \<Rightarrow> usize \<Rightarrow> u8 \<Rightarrow> phys" where
  "frame_store mem f a b = mem_upd mem f (word_index a) (set_byte (mem f (word_index a)) (unat a mod 8) b)"

text \<open>A store of one byte; \<open>ua\<close> allows access to user pages.\<close>

definition store_u8 :: "bool \<Rightarrow> usize \<Rightarrow> u8 \<Rightarrow> unit kern" where
  "store_u8 ua va b m =
     (case (if ua then user_translate else hw_translate) (mc_mem m) (mc_root m) Store va of
        None \<Rightarrow> Inl Page_Fault
      | Some f \<Rightarrow> Inr ((), m\<lparr>mc_mem := frame_store (mc_mem m) f va b\<rparr>))"

text \<open>The byte that an access of a program in user mode reaches at an address; \<open>None\<close> is a fault.\<close>

definition user_byte :: "machine \<Rightarrow> access \<Rightarrow> usize \<Rightarrow> u8 option" where
  "user_byte m a va = (case user_mode_translate (mc_mem m) (mc_root m) a va of
      None \<Rightarrow> None | Some f \<Rightarrow> Some (frame_byte (mc_mem m) f va))"

lemma bit_0xff: "bit (0xff :: u64) i \<longleftrightarrow> i < 8"
  using bit_mask_iff [where ?'a = "64 word", of 8 i] by (auto simp: mask_eq_exp_minus_1)

lemma get_set_byte_same: "k < 8 \<Longrightarrow> get_byte (set_byte w k b) k = b"
  unfolding get_byte_def set_byte_def
  by (rule bit_word_eqI, unfold bit_ucast_iff bit_drop_bit_eq comp_def bit_or_iff bit_and_iff bit_not_iff bit_push_bit_iff bit_0xff) simp

lemma get_set_byte_other:
  assumes "k < 8" "j < 8" "j \<noteq> k"
  shows "get_byte (set_byte w k b) j = get_byte w j"
proof (rule bit_word_eqI)
  fix n assume n: "n < LENGTH(8)"
  have "\<not> (8 * k \<le> 8 * j + n \<and> 8 * j + n - 8 * k < 8)" using assms(3) n by auto
  moreover have "bit b i \<longrightarrow> i < 8" for i using bit_imp_le_length [of b i] by simp
  moreover have "possible_bit TYPE(64 word) (8 * j + n)" using assms(2) n by (simp add: possible_bit_word)
  ultimately show "bit (get_byte (set_byte w k b) j) n = bit (get_byte w j) n"
    using n unfolding get_byte_def set_byte_def bit_ucast_iff bit_drop_bit_eq comp_def bit_or_iff bit_and_iff bit_not_iff bit_push_bit_iff bit_0xff by blast
qed

lemma get_set_byte: "k < 8 \<Longrightarrow> j < 8 \<Longrightarrow> get_byte (set_byte w k b) j = (if j = k then b else get_byte w j)"
  by (simp add: get_set_byte_same get_set_byte_other)

lemma frame_byte_store:
  "frame_byte (frame_store mem f a b) g c =
    (if g = f \<and> word_index c = word_index a \<and> unat c mod 8 = unat a mod 8 then b else frame_byte mem g c)"
  by (auto simp: frame_byte_def frame_store_def get_set_byte mem_upd_apply)

subsection \<open>Entries that the kernel writes\<close>

definition entry_ok :: "u64 \<Rightarrow> bool" where
  "entry_ok e \<longleftrightarrow> (entry_is_valid e \<and> is_table e \<longrightarrow> e = new_table (entry_ppn e))"

definition entries_ok :: "machine \<Rightarrow> bool" where
  "entries_ok m \<longleftrightarrow> (\<forall>f \<in> tables (mc_mem m) (mc_root m). \<forall>i. entry_ok (mc_mem m f i))"

lemma entry_ok_written:
  "entry_ok (new_table p)" "entry_ok (pte (ucast (q :: ppn)) 199)" "entry_ok new_invalid" "entry_ok (mapped_leaf mp rwx acc)" "entry_ok 0"
proof -
  show "entry_ok (new_table p)" by (simp add: entry_ok_def new_table_facts)
  show "entry_ok (pte (ucast (q :: ppn)) 199)" using not_table_window by (auto simp: entry_ok_def)
  show "entry_ok new_invalid" using not_table_invalid by (auto simp: entry_ok_def)
  show "entry_ok (mapped_leaf mp rwx acc)"
    by (cases rwx) (simp_all add: entry_ok_def mapped_leaf_def is_table_bits bit_pte bit_leaf_flags del: One_nat_def)
  show "entry_ok 0" by (simp add: entry_ok_def entry_is_valid_bit)
qed

text \<open>\<open>wrote_ok m0 m\<close>: every word of memory that differs is an entry that the kernel writes.\<close>

definition wrote_ok :: "machine \<Rightarrow> machine \<Rightarrow> bool" where
  "wrote_ok m0 m \<longleftrightarrow> (\<forall>f i. mc_mem m f i = mc_mem m0 f i \<or> entry_ok (mc_mem m f i))"

lemma wrote_ok_refl [simp]: "wrote_ok m m"
  by (simp add: wrote_ok_def)

lemma keeps_load [keeps_intros]: "keeps P (load_u64 va)"
  by (auto simp: keeps_def load_u64_def split: option.splits)

lemma keeps_entry_ptr [keeps_intros]: "keeps P (entry_ptr tbl i)"
  by (simp add: entry_ptr_def keeps_intros)

lemma wrote_ok_store: "entry_ok v \<Longrightarrow> keeps (wrote_ok m0) (store_u64 va v)"
  by (auto simp: keeps_def store_u64_def wrote_ok_def mem_upd_apply split: option.splits)

lemma wrote_ok_alloc [keeps_intros]: "keeps (wrote_ok m0) allocK"
  by (auto simp: keeps_def allocK_def wrote_ok_def split: sum.splits)

lemma wrote_ok_window [keeps_intros]: "keeps (wrote_ok m0) (table_a p)" "keeps (wrote_ok m0) (table_b p)"
  by (auto simp: table_a_def table_b_def map_highmem_a_def map_highmem_b_def translate_highmem_a_def translate_highmem_b_def
      window_entry_a window_entry_b intro!: keeps_intros wrote_ok_store entry_ok_written)

lemma wrote_ok_ensure [keeps_intros]: "keeps (wrote_ok m0) (ensure_table p)"
  unfolding ensure_table_def by (intro keeps_intros wrote_ok_store entry_ok_written)

lemma wrote_ok_set_leaf [keeps_intros]: "keeps (wrote_ok m0) (set_leaf p mp rwx acc)"
proof -
  have "keeps (wrote_ok m0) (case leaf_set l mp rwx acc of (r, l') \<Rightarrow>
      (case r of Inl e \<Rightarrow> retK (Inl e) | Inr _ \<Rightarrow> bindK (store_u64 p l') (\<lambda>_. retK (Inr ()))))" for l
    by (cases "leaf_is_valid l")
      (simp_all add: leaf_set_eq keeps_basic keeps_bindK wrote_ok_store entry_ok_written flip: mapped_leaf_def)
  then show ?thesis unfolding set_leaf_def by (intro keeps_bindK keeps_load)
qed

lemma wrote_ok_add [keeps_intros]: "keeps (wrote_ok m0) (vms_add a mp rwx acc)"
  unfolding vms_add_def get_pte_alloc_def get_pte_from_alloc_def by (intro keeps_intros)

lemma entries_ok_wrote:
  assumes "vms_inv m" "entries_ok m" "wrote_ok m m'" "only_tables m m'"
  shows "entries_ok m'"
  unfolding entries_ok_def
proof (intro ballI allI)
  fix f i assume f: "f \<in> tables (mc_mem m') (mc_root m')"
  have r: "mc_root m' = mc_root m" using assms(4) by (simp add: only_tables_def mc_root_def)
  have "entry_ok (mc_mem m f i)"
  proof (cases "f \<in> tables (mc_mem m) (mc_root m)")
    case True
    then show ?thesis using assms(2) by (simp add: entries_ok_def)
  next
    case False
    then have "f \<in> set (free_pages (mc_alloc m))" using f r assms(4) unfolding only_tables_def by auto
    then have "mc_mem m f i = 0" by (rule vm_okD(8) [OF vms_invD(1) [OF assms(1)]])
    then show ?thesis by (simp add: entry_ok_written)
  qed
  then show "entry_ok (mc_mem m' f i)" using assms(3) unfolding wrote_ok_def by (metis (full_types))
qed

lemma entries_ok_add:
  assumes "vms_inv m" "entries_ok m" "vms_add a mp rwx acc m = Inr (r, m')" "only_tables m m'"
  shows "entries_ok m'"
  using entries_ok_wrote [OF assms(1,2) keepsD [OF wrote_ok_add wrote_ok_refl assms(3)] assms(4)] .

subsection \<open>The walk to a user page\<close>

lemma bit_0x10: "bit (0x10 :: u64) n \<longleftrightarrow> n = 4"
  using bit_push_bit_iff [where ?'a = "64 word", of 4 1 n] by (auto simp: push_bit_eq_mult bit_1_iff)

lemma bit_user_mask:
  "bit (e AND NOT 0x10 :: u64) n \<longleftrightarrow> bit e n \<and> n \<noteq> 4" "bit (e XOR 0x10 :: u64) n \<longleftrightarrow> (bit e n \<longleftrightarrow> n \<noteq> 4)"
proof -
  have "n < 64" if "bit e n" using bit_imp_le_length [OF that] by simp
  then show "bit (e AND NOT 0x10) n \<longleftrightarrow> bit e n \<and> n \<noteq> 4"
    unfolding bit_and_iff bit_not_iff bit_0x10 by (auto simp: possible_bit_word)
  show "bit (e XOR 0x10) n \<longleftrightarrow> (bit e n \<longleftrightarrow> n \<noteq> 4)" unfolding bit_xor_iff bit_0x10 by auto
qed

lemma user_mask_hw:
  "hw_valid (e AND NOT 0x10) = hw_valid e" "hw_leaf (e AND NOT 0x10) = hw_leaf e" "hw_frame (e AND NOT 0x10) = hw_frame e"
  "hw_valid (e XOR 0x10) = hw_valid e" "hw_leaf (e XOR 0x10) = hw_leaf e" "hw_frame (e XOR 0x10) = hw_frame e"
proof -
  show "hw_valid (e AND NOT 0x10) = hw_valid e" "hw_leaf (e AND NOT 0x10) = hw_leaf e"
    "hw_valid (e XOR 0x10) = hw_valid e" "hw_leaf (e XOR 0x10) = hw_leaf e"
    unfolding hw_valid_def hw_leaf_def bit_user_mask by simp_all
  have "drop_bit 10 (e AND NOT 0x10) = drop_bit 10 e" "drop_bit 10 (e XOR 0x10) = drop_bit 10 e"
    by (rule bit_word_eqI; simp only: bit_drop_bit_eq comp_def bit_user_mask; simp)+
  then show "hw_frame (e AND NOT 0x10) = hw_frame e" "hw_frame (e XOR 0x10) = hw_frame e" by (simp_all only: hw_frame_def)
qed

lemma user_leaf_hw:
  fixes p :: ppn
  defines "e \<equiv> mapped_leaf (Map_Private p) RWX_RWX UserLocal"
  shows "hw_valid e" "hw_leaf e" "hw_frame e = Some p" "a \<noteq> Fetch \<Longrightarrow> hw_perm a (e AND NOT 0x10)" "hw_perm a (e XOR 0x10)"
proof -
  have b: "bit e 0" "bit e 1" "bit e 2" "bit e 3" "bit e 4" "bit e 6" "bit e 7"
    by (simp_all add: e_def mapped_leaf_def bit_pte bit_leaf_flags del: One_nat_def)
  show "hw_valid e" "hw_leaf e" unfolding hw_valid_def hw_leaf_def using b by simp_all
  show "hw_perm a (e XOR 0x10)" "a \<noteq> Fetch \<Longrightarrow> hw_perm a (e AND NOT 0x10)"
    unfolding hw_perm_def bit_user_mask using b by (simp_all split: access.split)
  show "hw_frame e = Some p" by (simp add: e_def mapped_leaf_def)
qed

lemma tab_entry_ok:
  assumes "entries_ok m" "f \<in> tables (mc_mem m) (mc_root m)" "tab (mc_mem m) f i = Some t"
  shows "mc_mem m f i = new_table t"
proof -
  have "entry_ok (mc_mem m f i)" using assms(1,2) by (simp add: entries_ok_def)
  then show ?thesis using assms(3) by (auto simp: entry_ok_def tab_def split: if_splits)
qed

lemma user_translate_mapped:
  assumes "entries_ok m" "hw_canonical va"
    "vm_lookup (mc_mem m) (mc_root m) (va_index va) = Some (0, mapped_leaf (Map_Private p) RWX_RWX UserLocal)"
  shows "a \<noteq> Fetch \<Longrightarrow> user_translate (mc_mem m) (mc_root m) a va = Some p" "user_mode_translate (mc_mem m) (mc_root m) a va = Some p"
proof -
  obtain t1 where t1: "tab (mc_mem m) (mc_root m) (vpn2 va) = Some t1"
    using assms(3) by (auto simp: va_index_def vm_lookup_alt split: option.splits if_splits)
  obtain t0 where t0: "tab (mc_mem m) t1 (vpn1 va) = Some t0" "mc_mem m t0 (vpn0 va) = mapped_leaf (Map_Private p) RWX_RWX UserLocal"
    using assms(3) t1 by (auto simp: va_index_def vm_lookup_alt split: option.splits if_splits)
  have e2: "mc_mem m (mc_root m) (vpn2 va) = pte (ucast t1) 1"
    using tab_entry_ok [OF assms(1) _ t1] by (auto simp: new_table_pte)
  have e1: "mc_mem m t1 (vpn1 va) = pte (ucast t0) 1"
    using tab_entry_ok [OF assms(1) _ t0(1)] t1 by (auto simp: new_table_pte)
  show "user_translate (mc_mem m) (mc_root m) a va = Some p" if "a \<noteq> Fetch"
    unfolding user_translate_def hw_translate_def Let_def hw_leaf_frame_def if_not_P [OF that] user_mask_hw e2 e1 t0(2)
    using assms(2) that by (simp add: table_entry_hw e1 t0(2) user_leaf_hw(1-3) user_leaf_hw(4) [simplified])
  show "user_mode_translate (mc_mem m) (mc_root m) a va = Some p"
    unfolding user_mode_translate_def hw_translate_def Let_def user_mask_hw hw_leaf_frame_def e2 e1 t0(2)
    using assms(2) by (simp add: table_entry_hw e1 t0(2) user_leaf_hw(1-3) user_leaf_hw(5) [simplified])
qed

end
