(* ===== verification/Boot.thy ===== *)
theory Boot
  imports Elf Sv39_User Executor
begin

text \<open>
  The end of the boot code (\<open>main\<close> in \<open>kernel/src/main.rs\<close>): the executable of the first task is parsed, the
  identity map is removed, the task is created in the address space of the kernel, its segments are
  mapped and cleared, and the executor starts it. The file is read through the identity map, that is,
  at its physical address.
\<close>

subsection \<open>Loading\<close>

lemma range_pop_base_decreases: "range_pop_base r = (Some p, r') \<Longrightarrow> unat (pr_count r') < unat (pr_count r)"
  by (auto simp: range_pop_base_def checked_sub_1 unat_minus_1 split: option.splits if_splits)

(* src/kernel/src/main.rs:388-398 main *)
function map_pages :: "ppn_range \<Rightarrow> page \<Rightarrow> machine \<Rightarrow> (unit \<times> machine) may_panic" where
  "map_pages r a m =
     (case range_pop_base r of
        (None, r') \<Rightarrow> Inr ((), m)
      | (Some ppn, r') \<Rightarrow>
          (case unwrapK (vms_add a (Map_Private ppn) RWX_RWX UserLocal) m of
             Inl e \<Rightarrow> Inl e
           | Inr (_, m') \<Rightarrow> (case page_next a of None \<Rightarrow> Inl Unwrap_Failed | Some a' \<Rightarrow> map_pages r' a' m')))"
  by pat_completeness auto
termination
  by (relation "measure (\<lambda>(r, a, m). unat (pr_count r))") (auto dest: range_pop_base_decreases [OF sym])

declare map_pages.simps [simp del]

(* src/kernel/src/main.rs:401-403 main *)
primrec clear_bytes :: "nat \<Rightarrow> page \<Rightarrow> usize \<Rightarrow> unit schedK" where
  "clear_bytes 0 address i = retK ()"
| "clear_bytes (Suc n) address i =
     bindK (\<lambda>s. onM (store_u8 (sc_user_access s) (address + i) 0) s) (\<lambda>_. clear_bytes n address (i + 1))"

(* src/kernel/src/main.rs:387-404 main *)
definition load_segment :: "segment \<Rightarrow> unit schedK" where
  "load_segment s =
     bindK (onM (map_pages (sg_ppn s) (sg_address s))) (\<lambda>_ st.
     let st = set_supervisor_userpage_access True st in
     bindP (clear_bytes (unat (sg_clear_to s) - unat (sg_clear_from s)) (sg_address s) (sg_clear_from s) st) (\<lambda>(_, st).
     Inr ((), set_supervisor_userpage_access False st)))"

(* src/kernel/src/main.rs:386-405 main *)
primrec load_segments :: "segment option list \<Rightarrow> unit schedK" where
  "load_segments [] = retK ()"
| "load_segments (s # ss) =
     bindK (case s of None \<Rightarrow> retK () | Some s \<Rightarrow> load_segment s) (\<lambda>_. load_segments ss)"

(* src/kernel/src/main.rs:408-408 main *)
definition make_group :: "nat \<Rightarrow> usize \<Rightarrow> usize schedK" where
  "make_group fuel t s =
     bindP (group_new fuel t (sc_groups s) (sc_machine s)) (\<lambda>(r, m).
     case r of
       None \<Rightarrow> Inl Endless_Loop
     | Some (r, groups) \<Rightarrow> bindP (unwrapR r) (\<lambda>i. Inr (i, s\<lparr>sc_groups := groups, sc_machine := m\<rparr>)))"

(* src/kernel/src/main.rs:367-415 main *)
definition start_init :: "nat \<Rightarrow> usize \<Rightarrow> usize \<Rightarrow> usize \<Rightarrow> outcome option schedK" where
  "start_init fuel hart_id init init_size =
     bindK (\<lambda>s. liftK (elf_parse (phys_bytes (mc_mem (sc_machine s))) init init_size (replicate 32 None)) s) (\<lambda>(segments, entry).
     bindK (onM (clear_identity_maps 256)) (\<lambda>_.
     bindK (onM vms_current) (\<lambda>vms.
     bindK (task_new vms) (\<lambda>t.
     bindK (load_segments segments) (\<lambda>_ s.
     let s = set_pc t entry s in
     bindP (make_group fuel t s) (\<lambda>(_, s).
     let s = enable_interrupts True s in
     bindP (unwrapO (try_into hart_id)) (\<lambda>hart.
     bindP (executor_init hart s) (\<lambda>(_, s). executor_next fuel s))))))))"

end
