(* ===== verification/Boot_Load.thy ===== *)
theory Boot_Load
  imports Boot
begin

text \<open>
  What loading does: removing the identity map, mapping the pages of a segment, clearing its bytes, and
  loading a list of segments. \<open>can_load\<close> says when segments can be loaded, and \<open>loads_to\<close> what memory and the
  address space are afterwards.
\<close>

subsection \<open>The identity map\<close>

definition cleared :: "nat \<Rightarrow> phys \<Rightarrow> ppn \<Rightarrow> phys" where
  "cleared n mem r = (\<lambda>f i. if f = r \<and> unat i < n then 0 else mem f i)"

lemma cleared_tab: "tab (cleared n mem r) f i = (if f = r \<and> unat i < n then None else tab mem f i)"
  by (auto simp: tab_def cleared_def entry_is_valid_bit)

lemma cleared_tab0:
  assumes "tree mem r"
  shows "tab0 (cleared n mem r) r i j = (if unat i < n then None else tab0 mem r i j)"
proof (cases "unat i < n")
  case False
  show ?thesis
  proof (cases "tab mem r i")
    case (Some t)
    then have "t \<noteq> r" using treeD(1) [OF assms] by auto
    then show ?thesis using False Some by (simp add: tab0_def cleared_tab)
  qed (simp add: tab0_def cleared_tab)
qed (simp add: tab0_def cleared_tab)

lemma cleared_tabD:
  "tab (cleared n mem r) r i = Some t \<Longrightarrow> tab mem r i = Some t"
  "tree mem r \<Longrightarrow> tab0 (cleared n mem r) r i j = Some t \<Longrightarrow> tab0 mem r i j = Some t"
  by (simp_all add: cleared_tab cleared_tab0 split: if_splits)

lemma cleared_tables: "tree mem r \<Longrightarrow> tables (cleared n mem r) r \<subseteq> tables mem r"
  unfolding tables_def using cleared_tabD by blast

lemma cleared_tree:
  assumes "tree mem r"
  shows "tree (cleared n mem r) r"
proof -
  note D = cleared_tabD(1) [of n mem r] cleared_tabD(2) [OF assms, of n]
  show ?thesis unfolding tree_def
  proof (intro conjI allI impI)
    show "tab (cleared n mem r) r i \<noteq> Some r" for i using D(1) treeD(1) [OF assms] by blast
    show "tab0 (cleared n mem r) r i j \<noteq> Some r" for i j using D(2) treeD(2) [OF assms] by blast
    show "i = i'" if "tab (cleared n mem r) r i = Some t \<and> tab (cleared n mem r) r i' = Some t" for i i' t
      using that D(1) treeD(3) [OF assms] by blast
    show "i = i'" "j = j'" if "tab0 (cleared n mem r) r i j = Some t \<and> tab0 (cleared n mem r) r i' j' = Some t" for i j i' j' t
      using that D(2) treeD(4) [OF assms] by blast+
    show "tab0 (cleared n mem r) r i' j' \<noteq> Some t" if "tab (cleared n mem r) r i = Some t" for i i' j' t
      using that D treeD(5) [OF assms] by blast
  qed
qed

lemma cleared_lookup:
  assumes "tree mem r"
  shows "vm_lookup (cleared n mem r) r (i, j, k) = (if unat i < n then None else vm_lookup mem r (i, j, k))"
proof (cases "unat i < n")
  case True
  then show ?thesis by (simp add: vm_lookup_def cleared_def entry_is_valid_bit)
next
  case False
  then have e: "cleared n mem r r i = mem r i" by (simp add: cleared_def)
  show ?thesis
  proof (cases "tab mem r i")
    case None
    then show ?thesis using False e by (simp add: vm_lookup_alt cleared_tab)
  next
    case (Some t)
    have t: "t \<noteq> r" using treeD(1) [OF assms] Some by auto
    then have m: "cleared n mem r t = mem t" by (simp add: cleared_def)
    have "u \<noteq> r" if "tab mem t j = Some u" for u using treeD(2) [OF assms, of i j] Some that by (auto simp: tab0_def)
    then have "cleared n mem r u = mem u" if "tab mem t j = Some u" for u using that by (simp add: cleared_def)
    then show ?thesis using False Some t m by (auto simp: vm_lookup_alt cleared_tab split: option.splits)
  qed
qed

lemma cleared_self_map:
  assumes "self_map mem r" "tree mem r" "n \<le> 256"
  shows "self_map (cleared n mem r) r"
proof -
  obtain t1 t0 where t: "tab mem r ROOT_INDEX = Some t1" "tab mem t1 511 = Some t0"
    "mem r ROOT_INDEX = new_table t1" "mem t1 511 = new_table t0"
    "mem t0 511 = pte (ucast r) (leaf_flags (Map_Private r) RWX_RW KernelLocal)"
    using self_map_tabs [OF assms(1)] by metis
  have "t1 \<noteq> r" "t0 \<noteq> r" using treeD(1,2) [OF assms(2)] t(1,2) by (auto simp: tab0_def split: option.splits) (metis option.case(2))
  then show ?thesis unfolding self_map_def using t(3-5) assms(3) by (intro exI [of _ t1] exI [of _ t0]) (simp add: cleared_def)
qed

definition clear_low :: "machine \<Rightarrow> machine" where
  "clear_low m = m\<lparr>mc_mem := cleared 256 (mc_mem m) (mc_root m)\<rparr>"

lemma clear_low_simps [simp]:
  "mc_satp (clear_low m) = mc_satp m" "mc_alloc (clear_low m) = mc_alloc m" "mc_root (clear_low m) = mc_root m"
  "mc_mem (clear_low m) = cleared 256 (mc_mem m) (mc_root m)"
  by (simp_all add: clear_low_def)

lemma clear_identity_step:
  assumes "vms_inv m" "n < 256"
  shows "bindK (entry_ptr ROOT (of_nat n)) (\<lambda>p. store_u64 p new_invalid) (m\<lparr>mc_mem := cleared n (mc_mem m) (mc_root m)\<rparr>)
    = Inr ((), m\<lparr>mc_mem := cleared (Suc n) (mc_mem m) (mc_root m)\<rparr>)"
proof -
  let ?m = "m\<lparr>mc_mem := cleared n (mc_mem m) (mc_root m)\<rparr>"
  note ok = vms_invD(1) [OF assms(1)]
  have pg: "maps_page ?m ROOT (mc_root m)"
    using self_map_ROOT [of ?m] cleared_self_map [OF vm_okD(1,2) [OF ok], of n] assms(2) by simp
  have u: "unat (of_nat n :: usize) = n" "unat (of_nat n :: idx) = n" using assms(2) by (simp_all add: unat_of_nat_less)
  then have i: "ucast (of_nat n :: usize) = (of_nat n :: idx)" by (metis of_nat_unat ucast_id)
  have e: "mem_upd (cleared n (mc_mem m) (mc_root m)) (mc_root m) (of_nat n) new_invalid = cleared (Suc n) (mc_mem m) (mc_root m)"
  proof (intro ext)
    fix f :: ppn and j :: idx
    have "unat j < Suc n \<longleftrightarrow> unat j < n \<or> j = of_nat n" using u(2) by (auto simp: less_Suc_eq word_unat_eq_iff)
    then show "mem_upd (cleared n (mc_mem m) (mc_root m)) (mc_root m) (of_nat n) new_invalid f j = cleared (Suc n) (mc_mem m) (mc_root m) f j"
      by (auto simp: mem_upd_apply cleared_def new_invalid_def)
  qed
  show ?thesis using store_page [OF pg, of "of_nat n" new_invalid] u(1) assms(2)
    by (simp add: entry_ptr_def kern_simps i e)
qed

lemma clear_identity_maps_eq:
  assumes "vms_inv m"
  shows "clear_identity_maps 256 m = Inr ((), clear_low m)"
proof -
  have "n \<le> 256 \<Longrightarrow> clear_identity_maps n m = Inr ((), m\<lparr>mc_mem := cleared n (mc_mem m) (mc_root m)\<rparr>)" for n
  proof (induction n)
    case 0
    then show ?case by (simp add: cleared_def)
  next
    case (Suc n)
    then show ?case using clear_identity_step [OF assms, of n] by (simp add: kern_simps)
  qed
  then show ?thesis by (simp add: clear_low_def)
qed

lemma vms_inv_cleared: "vms_inv m \<Longrightarrow> vms_inv (clear_low m)"
proof -
  assume a: "vms_inv m"
  let ?r = "mc_root m" and ?F = "set (free_pages (mc_alloc m))"
  note ok = vms_invD(1) [OF a] and D = vm_okD [OF vms_invD(1) [OF a]]
  have sub: "tables (cleared 256 (mc_mem m) ?r) ?r \<subseteq> tables (mc_mem m) ?r" by (rule cleared_tables [OF D(2)])
  have "?r \<notin> ?F" using D(6) by blast
  then have z: "cleared 256 (mc_mem m) ?r p j = 0" if "p \<in> ?F" for p j using D(8) [OF that] by (simp add: cleared_def)
  have "tab (cleared 256 (mc_mem m) ?r) ?r A_INDEX = None" "tab (cleared 256 (mc_mem m) ?r) ?r B_INDEX = None"
    using D(3,4) by (simp_all add: cleared_tab)
  then have "vm_ok (cleared 256 (mc_mem m) ?r) ?r ?F"
    unfolding vm_ok_def using cleared_self_map [OF D(1,2)] cleared_tree [OF D(2)] sub D(5-7) z by blast
  then show ?thesis using vms_invD(2,3) [OF a] by (simp add: vms_inv_def)
qed

lemma lookup_cleared:
  "vms_inv m \<Longrightarrow> vm_lookup (mc_mem (clear_low m)) (mc_root m) (i, j, k) = (if unat i < 256 then None else vm_lookup (mc_mem m) (mc_root m) (i, j, k))"
  using cleared_lookup [OF vm_okD(2) [OF vms_invD(1)], of m 256] by simp

lemma isolated_cleared:
  assumes "isolated m"
  shows "isolated (clear_low m)"
proof -
  have inv: "vms_inv m" using assms by (simp add: isolated_def)
  have pa: "private_at (clear_low m) x p \<Longrightarrow> private_at m x p" for x p
    by (cases x) (auto simp: private_at_def lookup_cleared [OF inv] simp del: clear_low_simps(4) split: if_splits)
  have "tables (mc_mem (clear_low m)) (mc_root m) \<subseteq> tables (mc_mem m) (mc_root m)"
    using cleared_tables [OF vm_okD(2) [OF vms_invD(1) [OF inv]]] by simp
  then show ?thesis using assms vms_inv_cleared [OF inv] pa unfolding isolated_def clear_low_simps(2,3) by blast
qed

lemma entries_ok_cleared:
  assumes "vms_inv m" "entries_ok m"
  shows "entries_ok (clear_low m)"
proof -
  have "tables (mc_mem (clear_low m)) (mc_root m) \<subseteq> tables (mc_mem m) (mc_root m)"
    using cleared_tables [OF vm_okD(2) [OF vms_invD(1) [OF assms(1)]]] by simp
  then show ?thesis using assms(2) unfolding entries_ok_def by (auto simp: cleared_def entry_ok_written)
qed

subsection \<open>Mapping the pages of a segment\<close>

text \<open>A frame that nothing uses: no table, not free and not mapped privately.\<close>

definition spare :: "machine \<Rightarrow> ppn \<Rightarrow> bool" where
  "spare m p \<longleftrightarrow> p \<notin> tables (mc_mem m) (mc_root m) \<and> p \<notin> set (free_pages (mc_alloc m)) \<and> (\<forall>x. \<not> private_at m x p)"

definition frames_from :: "ppn \<Rightarrow> nat \<Rightarrow> ppn list" where
  "frames_from f n = map (\<lambda>t. f + of_nat t) [0..<n]"

lemma frames_from_simps [simp]: "frames_from f 0 = []" "frames_from f (Suc n) = f # frames_from (f + 1) n" "length (frames_from f n) = n"
  by (simp_all add: frames_from_def map_upt_Suc add.assoc del: upt_Suc)

lemma range_pop_Suc:
  "Suc n < 2 ^ 32 \<Longrightarrow> range_pop_base \<lparr>pr_start = f, pr_count = of_nat (Suc n)\<rparr> = (Some f, \<lparr>pr_start = f + 1, pr_count = of_nat n\<rparr>)"
proof -
  assume "Suc n < 2 ^ 32"
  then have "unat (of_nat (Suc n) :: u32) = Suc n" by (intro unat_of_nat_less) simp
  then have "(1 :: u32) \<le> of_nat (Suc n)" by (simp add: word_le_nat_alt del: of_nat_Suc)
  then have "checked_sub (of_nat (Suc n) :: u32) 1 = Some (of_nat n)" by (simp add: checked_sub_def)
  then show ?thesis by (simp add: range_pop_base_def del: of_nat_Suc)
qed

lemma add_frame_step:
  assumes "isolated m" "entries_ok m" "plain_index (vpn2 va)" "vm_lookup (mc_mem m) (mc_root m) (va_index va) = None"
    "2 \<le> length (free_pages (mc_alloc m))" "spare m p"
  obtains m' where "vms_add va (Map_Private p) rwx acc m = Inr (Inr (), m')" "isolated m'" "entries_ok m'" "frames_kept m m'"
    "map_updated m m' (va_index va) (Some (0, mapped_leaf (Map_Private p) rwx acc))"
    "length (free_pages (mc_alloc m)) \<le> length (free_pages (mc_alloc m')) + 2" "\<And>q. spare m q \<Longrightarrow> q \<noteq> p \<Longrightarrow> spare m' q"
proof (rule isolated_add_frame [OF assms(1,3,4,5), of p rwx acc])
  show "p \<notin> tables (mc_mem m) (mc_root m)" "p \<notin> set (free_pages (mc_alloc m))" "\<not> private_at m x p" for x
    using assms(6) unfolding spare_def by blast+
next
  fix m' assume a: "vms_add va (Map_Private p) rwx acc m = Inr (Inr (), m')" "isolated m'" "only_tables m m'"
    "map_updated m m' (va_index va) (Some (0, mapped_leaf (Map_Private p) rwx acc))"
    "length (free_pages (mc_alloc m)) \<le> length (free_pages (mc_alloc m')) + 2"
    "\<And>x q. private_at m' x q \<longleftrightarrow> (if x = va_index va then q = p else private_at m x q)"
  have inv: "vms_inv m" using assms(1) by (simp add: isolated_def)
  have r: "mc_root m' = mc_root m" using a(3) by (simp add: only_tables_def mc_root_def)
  have t: "tables (mc_mem m') (mc_root m) - tables (mc_mem m) (mc_root m) = set (free_pages (mc_alloc m)) - set (free_pages (mc_alloc m'))"
    "set (free_pages (mc_alloc m')) \<subseteq> set (free_pages (mc_alloc m))" using a(3) by (simp_all add: only_tables_def)
  have "spare m' q" if "spare m q" "q \<noteq> p" for q
  proof -
    have q: "q \<notin> tables (mc_mem m) (mc_root m)" "q \<notin> set (free_pages (mc_alloc m))" "\<And>x. \<not> private_at m x q"
      using that(1) unfolding spare_def by blast+
    then have "q \<notin> tables (mc_mem m') (mc_root m)" "q \<notin> set (free_pages (mc_alloc m'))" using t by blast+
    moreover have "\<not> private_at m' x q" for x unfolding a(6) using q(3) that(2) by simp
    ultimately show ?thesis unfolding spare_def r by blast
  qed
  moreover have "frames_kept m m'" using a(3) by (simp add: frames_kept_def only_tables_def)
  ultimately show thesis using that a(1,2,4,5) entries_ok_add [OF inv assms(2) a(1,3)] by blast
qed

lemma range_free_step:
  assumes rf: "range_free m va (Suc n)" and up: "map_updated m m1 (va_index va) v" and r: "mc_root m1 = mc_root m"
  shows "range_free m1 (va + 4096) n"
proof -
  note rf = rf [unfolded range_free_def]
  have nz: "va + 4096 \<noteq> 0" "unat (va + 4096) = unat va + 4096" using unat_page_at [of va 1] rf by (auto simp: page_at_def)
  have "plain_index (vpn2 (page_at (va + 4096) t)) \<and> vm_lookup (mc_mem m1) (mc_root m1) (va_index (page_at (va + 4096) t)) = None"
    if "t < n" for t
  proof -
    have st: "plain_index (vpn2 (page_at va (Suc t)))" "vm_lookup (mc_mem m) (mc_root m) (va_index (page_at va (Suc t))) = None"
      using rf that by auto
    have "va_index (page_at va (Suc t)) \<noteq> va_index (page_at va 0)" using rf that by (intro va_index_page_at) auto
    then show ?thesis using st up r by (auto simp: page_at_Suc map_updated_def va_index_def plain_index_def)
  qed
  then show ?thesis using rf nz by (auto simp: range_free_def)
qed

lemma map_pages_ok:
  "isolated m \<Longrightarrow> entries_ok m \<Longrightarrow> range_free m va n \<Longrightarrow> 2 * n \<le> length (free_pages (mc_alloc m))
    \<Longrightarrow> distinct (frames_from f n) \<Longrightarrow> \<forall>p \<in> set (frames_from f n). spare m p
    \<Longrightarrow> \<exists>m'. map_pages \<lparr>pr_start = f, pr_count = of_nat n\<rparr> va m = Inr ((), m') \<and> isolated m' \<and> entries_ok m' \<and> frames_kept m m'
      \<and> range_mapped m m' va (frames_from f n) RWX_RWX UserLocal
      \<and> length (free_pages (mc_alloc m)) \<le> length (free_pages (mc_alloc m')) + 2 * n
      \<and> (\<forall>q. spare m q \<longrightarrow> q \<notin> set (frames_from f n) \<longrightarrow> spare m' q)"
proof (induction n arbitrary: m va f)
  case 0
  then show ?case by (intro exI [of _ m]) (simp add: map_pages.simps range_pop_base_def checked_sub_def range_mapped_def frames_kept_def)
next
  case (Suc n)
  note rf = Suc.prems(3) [unfolded range_free_def]
  have i: "plain_index (vpn2 va)" "vm_lookup (mc_mem m) (mc_root m) (va_index va) = None" using rf by (auto dest: spec [of _ 0])
  obtain m1 where m1: "vms_add va (Map_Private f) RWX_RWX UserLocal m = Inr (Inr (), m1)" "isolated m1" "entries_ok m1" "frames_kept m m1"
    "map_updated m m1 (va_index va) (Some (0, mapped_leaf (Map_Private f) RWX_RWX UserLocal))"
    "length (free_pages (mc_alloc m)) \<le> length (free_pages (mc_alloc m1)) + 2" "\<And>q. spare m q \<Longrightarrow> q \<noteq> f \<Longrightarrow> spare m1 q"
    by (rule add_frame_step [OF Suc.prems(1,2) i, of f RWX_RWX UserLocal]) (use Suc.prems(4,6) that in simp_all)
  have r1: "mc_root m1 = mc_root m" using m1(4) by (simp add: frames_kept_def mc_root_def)
  have rf1: "range_free m1 (va + 4096) n" by (rule range_free_step [OF Suc.prems(3) m1(5) r1])
  have sp: "\<forall>p \<in> set (frames_from (f + 1) n). spare m1 p" using Suc.prems(5,6) m1(7) by auto
  obtain m' where m': "map_pages \<lparr>pr_start = f + 1, pr_count = of_nat n\<rparr> (va + 4096) m1 = Inr ((), m')" "isolated m'" "entries_ok m'"
    "frames_kept m1 m'" "range_mapped m1 m' (va + 4096) (frames_from (f + 1) n) RWX_RWX UserLocal"
    "length (free_pages (mc_alloc m1)) \<le> length (free_pages (mc_alloc m')) + 2 * n"
    "\<And>q. spare m1 q \<Longrightarrow> q \<notin> set (frames_from (f + 1) n) \<Longrightarrow> spare m' q"
    using Suc.IH [OF m1(2,3) rf1 _ _ sp] Suc.prems(4,5) m1(6) by auto
  have "page_next va = Some (va + 4096)" using rf by (intro page_next_Some) auto
  moreover have "Suc n < 2 ^ 32" using rf by simp
  ultimately have "map_pages \<lparr>pr_start = f, pr_count = of_nat (Suc n)\<rparr> va m = Inr ((), m')"
    using m1(1) m'(1) by (subst map_pages.simps) (simp only: range_pop_Suc prod.case option.case unwrapK_def kern_simps, simp)
  moreover have "range_mapped m m' va (frames_from f (Suc n)) RWX_RWX UserLocal"
    using range_mapped_Cons [OF m1(5) m'(5) r1 i(1)] rf by simp
  moreover have "\<forall>q. spare m q \<longrightarrow> q \<notin> set (frames_from f (Suc n)) \<longrightarrow> spare m' q" using m1(7) m'(7) by simp
  ultimately show ?case using m'(2,3,6) m1(6) frames_kept_trans [OF m1(4) m'(4)] by (intro exI [of _ m']) simp
qed

subsection \<open>Bytes of a segment\<close>

lemma segment_address:
  assumes "4096 dvd unat va" "unat va + j < 2 ^ 64"
  shows "unat (va + of_nat j) = unat va + j" "drop_bit 12 (va + of_nat j) = drop_bit 12 (page_at va (j div 4096))"
    "unat (word_index (va + of_nat j)) = j mod 4096 div 8" "unat (va + of_nat j) mod 8 = j mod 8"
proof -
  obtain k where k: "unat va = 4096 * k" using assms(1) by auto
  have n: "unat (of_nat j :: usize) = j" using assms(2) by (intro unat_of_nat_less) simp
  show u: "unat (va + of_nat j) = unat va + j" using assms(2) n by (subst unat_add_no_overflow) simp_all
  have "j div 4096 * 4096 \<le> j" by simp
  then have p: "unat (page_at va (j div 4096)) = unat va + j div 4096 * 4096"
    using assms(2) by (intro unat_page_at) simp
  have "unat (drop_bit 12 (va + of_nat j)) = unat (drop_bit 12 (page_at va (j div 4096)))"
    unfolding unat_drop_bit u p k by simp
  then show "drop_bit 12 (va + of_nat j) = drop_bit 12 (page_at va (j div 4096))" by (simp only: word_unat_eq_iff)
  have "unat (word_index (va + of_nat j)) = (unat va + j) div 8 mod 512"
    by (simp add: word_index_def unsigned_ucast_eq take_bit_eq_mod unat_drop_bit u)
  also have "(unat va + j) div 8 = 512 * k + j div 8" unfolding k by simp
  also have "(512 * k + j div 8) mod 512 = j div 8 mod 512" by simp
  also have "\<dots> = j mod 4096 div 8" using mod_mult2_eq [of j 8 512] by simp
  finally show "unat (word_index (va + of_nat j)) = j mod 4096 div 8" .
  show "unat (va + of_nat j) mod 8 = j mod 8" unfolding u k using mod_mult_self4 [of 8 "512 * k" j] by simp
qed

lemma offset_unique:
  assumes "j div 4096 = (k :: nat) div 4096" "j mod 4096 div 8 = k mod 4096 div 8" "j mod 8 = k mod 8"
  shows "j = k"
proof -
  have "x mod 4096 mod 8 = x mod 8" for x :: nat by (simp add: mod_mod_cancel)
  then have "j mod 4096 = k mod 4096" using assms(2,3) by (metis div_mod_decomp)
  then show ?thesis using assms(1) by (metis div_mod_decomp)
qed

definition seg_byte :: "machine \<Rightarrow> page \<Rightarrow> ppn list \<Rightarrow> nat \<Rightarrow> u8" where
  "seg_byte m va ps j = frame_byte (mc_mem m) (ps ! (j div 4096)) (va + of_nat j)"

definition seg_mapped :: "machine \<Rightarrow> page \<Rightarrow> ppn list \<Rightarrow> bool" where
  "seg_mapped m va ps \<longleftrightarrow> (\<forall>t < length ps. vm_lookup (mc_mem m) (mc_root m) (va_index (page_at va t))
     = Some (0, mapped_leaf (Map_Private (ps ! t)) RWX_RWX UserLocal))"

text \<open>Pages of the lower half of the address space.\<close>

definition user_range :: "page \<Rightarrow> nat \<Rightarrow> bool" where
  "user_range va n \<longleftrightarrow> 4096 dvd unat va \<and> va \<noteq> 0 \<and> unat va + n * 4096 \<le> 2 ^ 38"

lemma user_translate_seg:
  assumes "entries_ok m" "seg_mapped m va ps" "user_range va (length ps)" "j < length ps * 4096"
  shows "a \<noteq> Fetch \<Longrightarrow> user_translate (mc_mem m) (mc_root m) a (va + of_nat j) = Some (ps ! (j div 4096))"
    "user_mode_translate (mc_mem m) (mc_root m) a (va + of_nat j) = Some (ps ! (j div 4096))"
proof -
  have l: "unat va + j < 2 ^ 38" using assms(3,4) by (simp add: user_range_def)
  note A = segment_address [of va j]
  have u: "unat (va + of_nat j) = unat va + j" "drop_bit 12 (va + of_nat j) = drop_bit 12 (page_at va (j div 4096))"
    using A(1,2) l assms(3) by (simp_all add: user_range_def)
  have c: "hw_canonical (va + of_nat j)" using l u(1) by (simp add: hw_canonical_def)
  have "va_index (va + of_nat j) = va_index (page_at va (j div 4096))" using vpn_page [OF u(2)] by (simp add: va_index_def)
  moreover have "j div 4096 < length ps" using assms(4) by (simp add: less_mult_imp_div_less)
  ultimately have "vm_lookup (mc_mem m) (mc_root m) (va_index (va + of_nat j)) = Some (0, mapped_leaf (Map_Private (ps ! (j div 4096))) RWX_RWX UserLocal)"
    using assms(2) by (simp add: seg_mapped_def)
  note T = user_translate_mapped [OF assms(1) c this]
  show "a \<noteq> Fetch \<Longrightarrow> user_translate (mc_mem m) (mc_root m) a (va + of_nat j) = Some (ps ! (j div 4096))" by (rule T(1))
  show "user_mode_translate (mc_mem m) (mc_root m) a (va + of_nat j) = Some (ps ! (j div 4096))" by (rule T(2))
qed

lemma user_byte_seg:
  assumes "entries_ok m" "seg_mapped m va ps" "user_range va (length ps)" "j < length ps * 4096"
  shows "user_byte m a (va + of_nat j) = Some (seg_byte m va ps j)"
  using user_translate_seg(2) [OF assms] by (simp add: user_byte_def seg_byte_def)

text \<open>Writes to frames that are neither tables nor free change nothing else.\<close>

definition same_vm :: "machine \<Rightarrow> machine \<Rightarrow> bool" where
  "same_vm m m' \<longleftrightarrow> mc_satp m' = mc_satp m \<and> mc_alloc m' = mc_alloc m
     \<and> (\<forall>f. f \<in> tables (mc_mem m) (mc_root m) \<or> f \<in> set (free_pages (mc_alloc m)) \<longrightarrow> mc_mem m' f = mc_mem m f)"

lemma same_vmD:
  assumes "same_vm m m'"
  shows "mc_root m' = mc_root m" "mc_alloc m' = mc_alloc m" "mc_satp m' = mc_satp m" "tables (mc_mem m') (mc_root m) = tables (mc_mem m) (mc_root m)"
    "vm_lookup (mc_mem m') (mc_root m) = vm_lookup (mc_mem m) (mc_root m)" "private_at m' = private_at m"
    "isolated m \<Longrightarrow> isolated m'" "entries_ok m \<Longrightarrow> entries_ok m'" "spare m' = spare m" "seg_mapped m' = seg_mapped m"
proof -
  have e: "\<And>f i. f \<in> tables (mc_mem m) (mc_root m) \<Longrightarrow> mc_mem m' f i = mc_mem m f i"
    "\<And>f. f \<in> set (free_pages (mc_alloc m)) \<Longrightarrow> mc_mem m' f = mc_mem m f" using assms by (simp_all add: same_vm_def)
  note C = tables_cong [where mem' = "mc_mem m'", OF e(1)]
  show r: "mc_root m' = mc_root m" and a: "mc_alloc m' = mc_alloc m" and "mc_satp m' = mc_satp m"
    using assms by (simp_all add: same_vm_def mc_root_def)
  show t: "tables (mc_mem m') (mc_root m) = tables (mc_mem m) (mc_root m)"
    and l: "vm_lookup (mc_mem m') (mc_root m) = vm_lookup (mc_mem m) (mc_root m)" using C by blast+
  have c: "tab (mc_mem m') (mc_root m) = tab (mc_mem m) (mc_root m)" "tree (mc_mem m') (mc_root m) = tree (mc_mem m) (mc_root m)"
    using C by blast+
  show p: "private_at m' = private_at m" by (intro ext) (simp add: private_at_def r l)
  show "spare m' = spare m" by (intro ext) (simp add: spare_def r a t p)
  show "seg_mapped m' = seg_mapped m" by (intro ext) (simp add: seg_mapped_def r l)
  show "entries_ok m \<Longrightarrow> entries_ok m'" using e(1) by (simp add: entries_ok_def r t)
  assume i: "isolated m"
  then have "vm_ok (mc_mem m) (mc_root m) (set (free_pages (mc_alloc m)))" by (simp add: isolated_def vms_inv_def)
  note D = vm_okD [OF this]
  obtain t1 t0 where st: "tab (mc_mem m) (mc_root m) ROOT_INDEX = Some t1" "tab (mc_mem m) t1 511 = Some t0"
    "mc_mem m (mc_root m) ROOT_INDEX = new_table t1" "mc_mem m t1 511 = new_table t0"
    "mc_mem m t0 511 = pte (ucast (mc_root m)) (leaf_flags (Map_Private (mc_root m)) RWX_RW KernelLocal)"
    using self_map_tabs [OF D(1)] by metis
  have "t1 \<in> tables (mc_mem m) (mc_root m)" "t0 \<in> tables (mc_mem m) (mc_root m)"
    using st(1,2) tables_intros(3) [of "mc_mem m" "mc_root m" ROOT_INDEX 511 t0] by (auto simp: tab0_def)
  then have "self_map (mc_mem m') (mc_root m)" unfolding self_map_def using st(3-5) e(1) [OF tables_intros(1)] e(1)
    by - (rule exI [of _ t1], rule exI [of _ t0], simp)
  then have "vm_ok (mc_mem m') (mc_root m) (set (free_pages (mc_alloc m)))"
    unfolding vm_ok_def t c using D(2-7) e(2) D(8) by auto
  then show "isolated m'" using i by (simp add: isolated_def vms_inv_def r a t p)
qed

lemma same_vm_refl [simp]: "same_vm m m"
  by (simp add: same_vm_def)

lemma same_vm_trans:
  assumes "same_vm m m'" "same_vm m' m''"
  shows "same_vm m m''"
  using assms(2) same_vmD(1,2,4) [OF assms(1)] assms(1) unfolding same_vm_def by auto

text \<open>Frames that hold data: neither tables nor free.\<close>

definition data_frames :: "machine \<Rightarrow> ppn list \<Rightarrow> bool" where
  "data_frames m ps \<longleftrightarrow> distinct ps \<and> (\<forall>p \<in> set ps. p \<notin> tables (mc_mem m) (mc_root m) \<and> p \<notin> set (free_pages (mc_alloc m)))"

lemma clear_byte_step:
  assumes "entries_ok m" "seg_mapped m va ps" "user_range va (length ps)" "data_frames m ps" "i < length ps * 4096"
  shows "\<exists>m'. store_u8 True (va + of_nat i) 0 m = Inr ((), m') \<and> same_vm m m' \<and> (\<forall>f. f \<notin> set ps \<longrightarrow> mc_mem m' f = mc_mem m f)
    \<and> (\<forall>j < length ps * 4096. seg_byte m' va ps j = (if j = i then 0 else seg_byte m va ps j))"
proof -
  let ?f = "ps ! (i div 4096)"
  let ?m = "m\<lparr>mc_mem := frame_store (mc_mem m) ?f (va + of_nat i) 0\<rparr>"
  have t: "i div 4096 < length ps" using assms(5) by (simp add: less_mult_imp_div_less)
  then have f: "?f \<in> set ps" by simp
  have st: "store_u8 True (va + of_nat i) 0 m = Inr ((), ?m)"
    using user_translate_seg(1) [OF assms(1-3,5), of Store] by (simp add: store_u8_def)
  have o: "mc_mem ?m g = mc_mem m g" if "g \<noteq> ?f" for g using that by (auto simp: frame_store_def mem_upd_def)
  have "g \<noteq> ?f" if "g \<in> tables (mc_mem m) (mc_root m) \<or> g \<in> set (free_pages (mc_alloc m))" for g
    using that f assms(4) unfolding data_frames_def by blast
  then have "same_vm m ?m" unfolding same_vm_def using o by simp
  moreover have "seg_byte ?m va ps j = (if j = i then 0 else seg_byte m va ps j)" if j: "j < length ps * 4096" for j
  proof -
    have l: "unat va + j < 2 ^ 64" "unat va + i < 2 ^ 64" using assms(3,5) j by (simp_all add: user_range_def)
    have al: "4096 dvd unat va" using assms(3) by (simp add: user_range_def)
    note A = segment_address [OF al l(1)] and B = segment_address [OF al l(2)]
    have d: "j div 4096 < length ps" using j by (simp add: less_mult_imp_div_less)
    have "ps ! (j div 4096) = ?f \<and> word_index (va + of_nat j) = word_index (va + of_nat i)
        \<and> unat (va + of_nat j) mod 8 = unat (va + of_nat i) mod 8 \<longleftrightarrow> j = i"
      using offset_unique [of j i] assms(4) t d nth_eq_iff_index_eq [of ps "j div 4096" "i div 4096"]
      unfolding word_unat_eq_iff A(3,4) B(3,4) data_frames_def by blast
    then show ?thesis by (simp add: seg_byte_def frame_byte_store)
  qed
  moreover have "mc_mem ?m g = mc_mem m g" if "g \<notin> set ps" for g using that f by (intro o) auto
  ultimately show ?thesis using st by blast
qed

lemma clear_bytes_ok:
  "sc_user_access s \<Longrightarrow> entries_ok (sc_machine s) \<Longrightarrow> seg_mapped (sc_machine s) va ps \<Longrightarrow> user_range va (length ps)
    \<Longrightarrow> data_frames (sc_machine s) ps \<Longrightarrow> i + n \<le> length ps * 4096
    \<Longrightarrow> \<exists>m'. clear_bytes n va (of_nat i) s = Inr ((), s\<lparr>sc_machine := m'\<rparr>) \<and> same_vm (sc_machine s) m'
      \<and> (\<forall>f. f \<notin> set ps \<longrightarrow> mc_mem m' f = mc_mem (sc_machine s) f)
      \<and> (\<forall>j < length ps * 4096. seg_byte m' va ps j = (if i \<le> j \<and> j < i + n then 0 else seg_byte (sc_machine s) va ps j))"
proof (induction n arbitrary: i s)
  case 0
  then show ?case by (intro exI [of _ "sc_machine s"]) auto
next
  case (Suc n)
  have "i < length ps * 4096" using Suc.prems(6) by simp
  from clear_byte_step [OF Suc.prems(2-5) this] obtain m1 where
    m1: "store_u8 True (va + of_nat i) 0 (sc_machine s) = Inr ((), m1)" "same_vm (sc_machine s) m1"
      "\<And>f. f \<notin> set ps \<Longrightarrow> mc_mem m1 f = mc_mem (sc_machine s) f"
      "\<And>j. j < length ps * 4096 \<Longrightarrow> seg_byte m1 va ps j = (if j = i then 0 else seg_byte (sc_machine s) va ps j)" by blast
  note D = same_vmD [OF m1(2)]
  have df: "data_frames m1 ps" using Suc.prems(5) by (simp add: data_frames_def D)
  have pr: "entries_ok m1" "seg_mapped m1 va ps" using D(8) Suc.prems(2,3) D(10) by simp_all
  have le: "Suc i + n \<le> length ps * 4096" using Suc.prems(6) by simp
  let ?s = "s\<lparr>sc_machine := m1\<rparr>"
  obtain m' where m': "clear_bytes n va (of_nat (Suc i)) ?s = Inr ((), ?s\<lparr>sc_machine := m'\<rparr>)" "same_vm m1 m'"
      "\<And>f. f \<notin> set ps \<Longrightarrow> mc_mem m' f = mc_mem m1 f"
      "\<And>j. j < length ps * 4096 \<Longrightarrow> seg_byte m' va ps j = (if Suc i \<le> j \<and> j < Suc i + n then 0 else seg_byte m1 va ps j)"
    using Suc.IH [of ?s "Suc i"] Suc.prems(1,4) pr df le by auto
  have "(\<lambda>s. onM (store_u8 (sc_user_access s) (va + of_nat i) 0) s) s = Inr ((), ?s)"
    using m1(1) Suc.prems(1) by (simp add: onM_def)
  then have "clear_bytes (Suc n) va (of_nat i) s = Inr ((), s\<lparr>sc_machine := m'\<rparr>)"
    using m'(1) by (simp add: bindK_def add.commute)
  then show ?case using m1(3,4) m'(3,4) same_vm_trans [OF m1(2) m'(2)] by (intro exI [of _ m']) auto
qed

subsection \<open>Loading segments\<close>

definition sg_pages :: "segment \<Rightarrow> nat" where
  "sg_pages s = unat (pr_count (sg_ppn s))"

definition sg_frames :: "segment \<Rightarrow> ppn list" where
  "sg_frames s = frames_from (pr_start (sg_ppn s)) (sg_pages s)"

definition sg_indices :: "segment \<Rightarrow> (idx \<times> idx \<times> idx) list" where
  "sg_indices s = map (\<lambda>t. va_index (page_at (sg_address s) t)) [0..<sg_pages s]"

abbreviation all_frames :: "segment list \<Rightarrow> ppn list" where "all_frames ss \<equiv> concat (map sg_frames ss)"
abbreviation all_indices :: "segment list \<Rightarrow> (idx \<times> idx \<times> idx) list" where "all_indices ss \<equiv> concat (map sg_indices ss)"
abbreviation all_pages :: "segment list \<Rightarrow> nat" where "all_pages ss \<equiv> sum_list (map sg_pages ss)"

text \<open>Segments that can be loaded: to user pages that are not mapped, from frames that nothing uses, each once.\<close>

definition can_load :: "machine \<Rightarrow> segment list \<Rightarrow> bool" where
  "can_load m ss \<longleftrightarrow> isolated m \<and> entries_ok m
     \<and> (\<forall>s \<in> set ss. user_range (sg_address s) (sg_pages s) \<and> unat (sg_clear_to s) \<le> sg_pages s * 4096)
     \<and> distinct (all_frames ss) \<and> (\<forall>p \<in> set (all_frames ss). spare m p)
     \<and> distinct (all_indices ss) \<and> (\<forall>x \<in> set (all_indices ss). vm_lookup (mc_mem m) (mc_root m) x = None)
     \<and> 2 * all_pages ss \<le> length (free_pages (mc_alloc m))"

text \<open>What loading them does.\<close>

definition loads_to :: "machine \<Rightarrow> machine \<Rightarrow> segment list \<Rightarrow> bool" where
  "loads_to m m' ss \<longleftrightarrow> isolated m' \<and> entries_ok m' \<and> mc_satp m' = mc_satp m
     \<and> (\<forall>s \<in> set ss. seg_mapped m' (sg_address s) (sg_frames s) \<and> (\<forall>j < sg_pages s * 4096. seg_byte m' (sg_address s) (sg_frames s) j
          = (if unat (sg_clear_from s) \<le> j \<and> j < unat (sg_clear_to s) then 0 else seg_byte m (sg_address s) (sg_frames s) j)))
     \<and> tables (mc_mem m) (mc_root m) \<subseteq> tables (mc_mem m') (mc_root m)
     \<and> (\<forall>f. f \<notin> tables (mc_mem m') (mc_root m) \<longrightarrow> f \<notin> set (all_frames ss) \<longrightarrow> mc_mem m' f = mc_mem m f)
     \<and> (\<forall>i j k. \<not> window_index i \<longrightarrow> (i, j, k) \<notin> set (all_indices ss)
          \<longrightarrow> vm_lookup (mc_mem m') (mc_root m) (i, j, k) = vm_lookup (mc_mem m) (mc_root m) (i, j, k))
     \<and> length (free_pages (mc_alloc m)) \<le> length (free_pages (mc_alloc m')) + 2 * all_pages ss
     \<and> (\<forall>q. spare m q \<longrightarrow> q \<notin> set (all_frames ss) \<longrightarrow> spare m' q)"

lemma user_index:
  assumes "user_range va n" "t < n"
  shows "unat (vpn2 (page_at va t)) < 256" "plain_index (vpn2 (page_at va t))"
proof -
  have l: "unat va + t * 4096 < 2 ^ 38" using assms by (simp add: user_range_def)
  have "unat (page_at va t) = unat va + t * 4096" using l by (intro unat_page_at) simp
  then have "unat (vpn2 (page_at va t)) = (unat va + t * 4096) div 2 ^ 30 mod 512"
    by (simp add: vpn2_def unsigned_ucast_eq take_bit_eq_mod unat_drop_bit)
  moreover have "(unat va + t * 4096) div 2 ^ 30 < 256" using l by (simp add: div_less_iff_less_mult)
  ultimately show u: "unat (vpn2 (page_at va t)) < 256" by simp
  then show "plain_index (vpn2 (page_at va t))" unfolding plain_index_def by auto
qed

lemma range_free_segment:
  assumes "user_range (sg_address s) (sg_pages s)" "\<forall>x \<in> set (sg_indices s). vm_lookup (mc_mem m) (mc_root m) x = None"
  shows "range_free m (sg_address s) (sg_pages s)"
proof -
  have "sg_pages s * 4096 \<le> 2 ^ 38" "unat (sg_address s) + sg_pages s * 4096 \<le> 2 ^ 38" "sg_address s \<noteq> 0"
    using assms(1) by (simp_all add: user_range_def)
  moreover have "plain_index (vpn2 (page_at (sg_address s) t)) \<and> vm_lookup (mc_mem m) (mc_root m) (va_index (page_at (sg_address s) t)) = None"
    if "t < sg_pages s" for t
    using user_index(2) [OF assms(1) that] assms(2) that by (simp add: sg_indices_def)
  ultimately show ?thesis unfolding range_free_def by simp
qed

lemma seg_mapped_private:
  assumes "seg_mapped m va ps" "user_range va (length ps)" "isolated m"
  shows "\<forall>p \<in> set ps. p \<notin> tables (mc_mem m) (mc_root m) \<and> p \<notin> set (free_pages (mc_alloc m))"
proof
  fix p assume "p \<in> set ps"
  then obtain t where t: "t < length ps" "p = ps ! t" by (auto simp: in_set_conv_nth)
  have "private_at m (va_index (page_at va t)) p"
    using assms(1) t user_index(2) [OF assms(2) t(1)] mapped_private [of p RWX_RWX UserLocal]
    by (auto simp: private_at_def seg_mapped_def va_index_def)
  then show "p \<notin> tables (mc_mem m) (mc_root m) \<and> p \<notin> set (free_pages (mc_alloc m))"
    using assms(3) unfolding isolated_def by blast
qed

lemma length_sg_frames [simp]: "length (sg_frames s) = sg_pages s"
  by (simp add: sg_frames_def)

lemma clear_segment_ok:
  assumes "sc_user_access st" "entries_ok (sc_machine st)" "seg_mapped (sc_machine st) va ps" "user_range va (length ps)"
    "data_frames (sc_machine st) ps" "unat to \<le> length ps * 4096"
  shows "\<exists>m'. clear_bytes (unat to - unat from) va from st = Inr ((), st\<lparr>sc_machine := m'\<rparr>) \<and> same_vm (sc_machine st) m'
    \<and> (\<forall>f. f \<notin> set ps \<longrightarrow> mc_mem m' f = mc_mem (sc_machine st) f)
    \<and> (\<forall>j < length ps * 4096. seg_byte m' va ps j = (if unat from \<le> j \<and> j < unat to then 0 else seg_byte (sc_machine st) va ps j))"
proof (cases "unat from < unat to")
  case True
  then have l: "unat from + (unat to - unat from) \<le> length ps * 4096" "unat from + (unat to - unat from) = unat to" using assms(6) by simp_all
  show ?thesis using clear_bytes_ok [OF assms(1-5) l(1)] unfolding l(2) by simp
next
  case False
  then show ?thesis by (intro exI [of _ "sc_machine st"]) auto
qed

lemma load_segment_ok:
  assumes "can_load (sc_machine st) [s]"
  shows "\<exists>m'. load_segment s st = Inr ((), st\<lparr>sc_machine := m', sc_user_access := False\<rparr>) \<and> loads_to (sc_machine st) m' [s]"
proof -
  let ?m = "sc_machine st" and ?va = "sg_address s" and ?ps = "sg_frames s" and ?n = "sg_pages s"
  note c = assms [unfolded can_load_def, simplified]
  have rf: "range_free ?m ?va ?n" using c by (intro range_free_segment) auto
  have u: "user_range ?va (length ?ps)" using c by simp
  have sg: "sg_ppn s = \<lparr>pr_start = pr_start (sg_ppn s), pr_count = of_nat ?n\<rparr>" by (simp add: sg_pages_def)
  obtain m1 where m1: "map_pages (sg_ppn s) ?va ?m = Inr ((), m1)" "isolated m1" "entries_ok m1" "frames_kept ?m m1"
    "range_mapped ?m m1 ?va ?ps RWX_RWX UserLocal" "length (free_pages (mc_alloc ?m)) \<le> length (free_pages (mc_alloc m1)) + 2 * ?n"
    "\<And>q. spare ?m q \<Longrightarrow> q \<notin> set ?ps \<Longrightarrow> spare m1 q"
    using map_pages_ok [of ?m ?va ?n "pr_start (sg_ppn s)", folded sg_frames_def sg] c rf by blast
  have r1: "mc_root m1 = mc_root ?m" using m1(4) by (simp add: frames_kept_def mc_root_def)
  have sm: "seg_mapped m1 ?va ?ps" using m1(5) by (simp add: seg_mapped_def range_mapped_def r1)
  have df: "data_frames m1 ?ps" using seg_mapped_private [OF sm u m1(2)] c by (simp add: data_frames_def)
  let ?st = "st\<lparr>sc_machine := m1, sc_user_access := True\<rparr>"
  obtain m' where m': "clear_bytes (unat (sg_clear_to s) - unat (sg_clear_from s)) ?va (sg_clear_from s) ?st = Inr ((), ?st\<lparr>sc_machine := m'\<rparr>)"
      "same_vm m1 m'" "\<And>f. f \<notin> set ?ps \<Longrightarrow> mc_mem m' f = mc_mem m1 f"
      "\<And>j. j < ?n * 4096 \<Longrightarrow> seg_byte m' ?va ?ps j = (if unat (sg_clear_from s) \<le> j \<and> j < unat (sg_clear_to s) then 0 else seg_byte m1 ?va ?ps j)"
    using clear_segment_ok [of ?st ?va ?ps "sg_clear_to s" "sg_clear_from s"] m1(3) sm u df c by auto
  note D = same_vmD [OF m'(2)]
  have k1: "mc_mem m1 f = mc_mem ?m f" if "f \<notin> tables (mc_mem m1) (mc_root ?m)" for f using m1(4) that by (simp add: frames_kept_def)
  have "seg_byte m1 ?va ?ps j = seg_byte ?m ?va ?ps j" if "j < ?n * 4096" for j
  proof -
    have "?ps ! (j div 4096) \<in> set ?ps" using that by (intro nth_mem) (simp add: less_mult_imp_div_less)
    then show ?thesis using df k1 by (simp add: seg_byte_def frame_byte_def data_frames_def r1)
  qed
  moreover have "vm_lookup (mc_mem m1) (mc_root ?m) (i, j, k) = vm_lookup (mc_mem ?m) (mc_root ?m) (i, j, k)"
    if "\<not> window_index i" "(i, j, k) \<notin> set (sg_indices s)" for i j k
  proof -
    have "(i, j, k) \<noteq> va_index (page_at ?va t)" if "t < ?n" for t
      using \<open>(i, j, k) \<notin> set (sg_indices s)\<close> that unfolding sg_indices_def by (metis atLeastLessThan_upt image_eqI list.set_map atLeastLessThan_iff le0)
    then show ?thesis using m1(5) that(1) unfolding range_mapped_def length_sg_frames by blast
  qed
  ultimately have "loads_to ?m m' [s]"
    unfolding loads_to_def using D(7) [OF m1(2)] D(8) [OF m1(3)] D(1-5,9,10) r1 m1(4,6,7) m'(3,4) sm k1
    by (auto simp: frames_kept_def)
  moreover have "load_segment s st = Inr ((), st\<lparr>sc_machine := m', sc_user_access := False\<rparr>)"
    using m1(1) m'(1) by (simp add: load_segment_def bindK_def onM_def set_supervisor_userpage_access_def)
  ultimately show ?thesis by blast
qed

lemma loads_toD:
  assumes "loads_to m m' ss"
  shows "isolated m'" "entries_ok m'" "mc_satp m' = mc_satp m" "mc_root m' = mc_root m"
    "s \<in> set ss \<Longrightarrow> seg_mapped m' (sg_address s) (sg_frames s)"
    "s \<in> set ss \<Longrightarrow> j < sg_pages s * 4096 \<Longrightarrow> seg_byte m' (sg_address s) (sg_frames s) j
      = (if unat (sg_clear_from s) \<le> j \<and> j < unat (sg_clear_to s) then 0 else seg_byte m (sg_address s) (sg_frames s) j)"
    "f \<notin> tables (mc_mem m') (mc_root m) \<Longrightarrow> f \<notin> set (all_frames ss) \<Longrightarrow> mc_mem m' f = mc_mem m f"
    "\<not> window_index i \<Longrightarrow> (i, j', k) \<notin> set (all_indices ss)
      \<Longrightarrow> vm_lookup (mc_mem m') (mc_root m) (i, j', k) = vm_lookup (mc_mem m) (mc_root m) (i, j', k)"
    "length (free_pages (mc_alloc m)) \<le> length (free_pages (mc_alloc m')) + 2 * all_pages ss"
    "spare m q \<Longrightarrow> q \<notin> set (all_frames ss) \<Longrightarrow> spare m' q" "tables (mc_mem m) (mc_root m) \<subseteq> tables (mc_mem m') (mc_root m)"
proof -
  show "mc_satp m' = mc_satp m" using assms by (simp add: loads_to_def)
  then show "mc_root m' = mc_root m" by (simp add: mc_root_def)
qed (use assms in \<open>unfold loads_to_def, blast+\<close>)

lemma plain_indices: "user_range (sg_address s) (sg_pages s) \<Longrightarrow> (i, j, k) \<in> set (sg_indices s) \<Longrightarrow> \<not> window_index i"
  using user_index(2) [of "sg_address s" "sg_pages s"] by (auto simp: sg_indices_def va_index_def plain_index_def)

text \<open>The parts of \<open>can_load\<close> that say that segments are apart.\<close>

lemma can_loadD:
  assumes "can_load m (s # ss)"
  shows "can_load m [s]" "user_range (sg_address s) (sg_pages s)" "s' \<in> set ss \<Longrightarrow> user_range (sg_address s') (sg_pages s')"
    "x \<in> set (sg_indices s) \<Longrightarrow> x \<notin> set (all_indices ss)" "p \<in> set (sg_frames s) \<Longrightarrow> p \<notin> set (all_frames ss)"
    "x \<in> set (all_indices ss) \<Longrightarrow> vm_lookup (mc_mem m) (mc_root m) x = None" "p \<in> set (all_frames ss) \<Longrightarrow> spare m p"
    "x \<in> set (all_indices ss) \<Longrightarrow> \<not> window_index (fst x)" "x \<in> set (sg_indices s) \<Longrightarrow> \<not> window_index (fst x)"
proof -
  note c = assms [unfolded can_load_def]
  show u: "user_range (sg_address s) (sg_pages s)" and us: "s' \<in> set ss \<Longrightarrow> user_range (sg_address s') (sg_pages s')" for s'
    using c by simp_all
  show "can_load m [s]" using c by (simp add: can_load_def)
  show "x \<in> set (sg_indices s) \<Longrightarrow> x \<notin> set (all_indices ss)" "p \<in> set (sg_frames s) \<Longrightarrow> p \<notin> set (all_frames ss)"
    using c by auto
  show "x \<in> set (all_indices ss) \<Longrightarrow> vm_lookup (mc_mem m) (mc_root m) x = None" "p \<in> set (all_frames ss) \<Longrightarrow> spare m p"
    using c by simp_all
  show "x \<in> set (sg_indices s) \<Longrightarrow> \<not> window_index (fst x)" using plain_indices [OF u] by (cases x) simp
  assume "x \<in> set (all_indices ss)"
  then obtain s1 where "s1 \<in> set ss" "x \<in> set (sg_indices s1)" by auto
  then show "\<not> window_index (fst x)" using plain_indices [OF us] by (cases x) simp
qed

lemma can_load_rest:
  assumes "can_load m (s # ss)" "loads_to m m' [s]"
  shows "can_load m' ss"
proof -
  note C = can_loadD [OF assms(1)] and L = loads_toD [OF assms(2)]
  have "vm_lookup (mc_mem m') (mc_root m') x = None" if x: "x \<in> set (all_indices ss)" for x
  proof (cases x)
    case (fields i j k)
    have "(i, j, k) \<notin> set (all_indices [s])" using C(4) x fields by auto
    then show ?thesis using L(8) [of i j k] C(6,8) [OF x] fields unfolding L(4) by simp
  qed
  moreover have "spare m' p" if "p \<in> set (all_frames ss)" for p using that C(5,7) by (intro L(10)) auto
  ultimately show ?thesis using L(1,2,9) assms(1) by (simp add: can_load_def)
qed

lemma loads_to_Cons:
  assumes c: "can_load m (s # ss)" and 1: "loads_to m m1 [s]" and 2: "loads_to m1 m' ss"
  shows "loads_to m m' (s # ss)"
proof -
  note C = can_loadD [OF c] and A = loads_toD [OF 1] and B = loads_toD [OF 2]
  have "vm_lookup (mc_mem m') (mc_root m) x = vm_lookup (mc_mem m1) (mc_root m) x" if x: "x \<in> set (sg_indices s)" for x
    using B(8) [of "fst x" "fst (snd x)" "snd (snd x)"] C(4,9) [OF x] unfolding A(4) by simp
  then have sm: "seg_mapped m' (sg_address s) (sg_frames s)"
    using A(5) [of s] unfolding seg_mapped_def A(4) B(4) by (simp add: sg_indices_def)
  have df: "\<forall>p \<in> set (sg_frames s). p \<notin> tables (mc_mem m') (mc_root m) \<and> p \<notin> set (free_pages (mc_alloc m'))"
    using seg_mapped_private [OF sm _ B(1)] C(2) unfolding A(4) B(4) by simp
  have at: "sg_frames s' ! (j div 4096) \<in> set (sg_frames s')" if "j < sg_pages s' * 4096" for s' j
    using that by (intro nth_mem) (simp add: less_mult_imp_div_less)
  have sb: "seg_byte m' (sg_address s) (sg_frames s) j = seg_byte m1 (sg_address s) (sg_frames s) j" if "j < sg_pages s * 4096" for j
    using B(7) [of "sg_frames s ! (j div 4096)"] df at [OF that] C(5) unfolding A(4) by (simp add: seg_byte_def frame_byte_def)
  have later: "seg_byte m1 (sg_address s') (sg_frames s') j = seg_byte m (sg_address s') (sg_frames s') j"
    if s': "s' \<in> set ss" and j: "j < sg_pages s' * 4096" for s' j
  proof -
    let ?f = "sg_frames s' ! (j div 4096)"
    have f: "?f \<in> set (all_frames ss)" using at [OF j] s' by auto
    then have n: "?f \<notin> set (all_frames [s])" using C(5) by auto
    then have "spare m1 ?f" using A(10) C(7) [OF f] by blast
    then have "mc_mem m1 ?f = mc_mem m ?f" using n A(4,7) unfolding spare_def by metis
    then show ?thesis by (simp add: seg_byte_def frame_byte_def)
  qed
  have bytes: "seg_mapped m' (sg_address s') (sg_frames s') \<and> (\<forall>j < sg_pages s' * 4096. seg_byte m' (sg_address s') (sg_frames s') j
      = (if unat (sg_clear_from s') \<le> j \<and> j < unat (sg_clear_to s') then 0 else seg_byte m (sg_address s') (sg_frames s') j))"
    if "s' \<in> set (s # ss)" for s'
  proof (cases "s' \<in> set ss")
    case True
    then show ?thesis using B(5,6) later by simp
  next
    case False
    then show ?thesis using that sm sb A(6) [of s] by simp
  qed
  have mem: "mc_mem m' f = mc_mem m f" if "f \<notin> tables (mc_mem m') (mc_root m)" "f \<notin> set (all_frames (s # ss))" for f
    using A(7) [of f] B(7) [of f] B(11) that unfolding A(4) by auto
  have lk: "vm_lookup (mc_mem m') (mc_root m) (i, j, k) = vm_lookup (mc_mem m) (mc_root m) (i, j, k)"
    if "\<not> window_index i" "(i, j, k) \<notin> set (all_indices (s # ss))" for i j k
    using A(8) [of i j k] B(8) [of i j k] that unfolding A(4) by simp
  have sp: "spare m' q" if "spare m q" "q \<notin> set (all_frames (s # ss))" for q using A(10) B(10) that by simp
  show ?thesis unfolding loads_to_def
    using B(1-3) A(3,4,9,11) B(9,11) bytes mem lk sp by (intro conjI) simp_all
qed

lemma load_none: "load_segments (replicate n None) st = Inr ((), st)"
  by (induction n) (simp_all add: kern_simps)

lemma load_segments_ok:
  "can_load (sc_machine st) ss \<Longrightarrow> \<not> sc_user_access st
    \<Longrightarrow> \<exists>m'. load_segments (map Some ss @ replicate n None) st = Inr ((), st\<lparr>sc_machine := m'\<rparr>) \<and> loads_to (sc_machine st) m' ss"
proof (induction ss arbitrary: st)
  case Nil
  then show ?case by (intro exI [of _ "sc_machine st"]) (simp add: load_none loads_to_def can_load_def)
next
  case (Cons s ss)
  obtain m1 where m1: "load_segment s st = Inr ((), st\<lparr>sc_machine := m1, sc_user_access := False\<rparr>)" "loads_to (sc_machine st) m1 [s]"
    using load_segment_ok [OF can_loadD(1) [OF Cons.prems(1)]] by blast
  let ?st = "st\<lparr>sc_machine := m1, sc_user_access := False\<rparr>"
  have "can_load (sc_machine ?st) ss" using can_load_rest [OF Cons.prems(1) m1(2)] by simp
  from Cons.IH [OF this] obtain m' where m': "load_segments (map Some ss @ replicate n None) ?st = Inr ((), ?st\<lparr>sc_machine := m'\<rparr>)"
    "loads_to m1 m' ss" by auto
  have e: "?st\<lparr>sc_machine := m'\<rparr> = st\<lparr>sc_machine := m'\<rparr>" using Cons.prems(2) by (cases st) simp
  have "load_segments (map Some (s # ss) @ replicate n None) st = Inr ((), st\<lparr>sc_machine := m'\<rparr>)"
    using m1(1) m'(1) unfolding e by (simp add: bindK_def)
  then show ?case using loads_to_Cons [OF Cons.prems(1) m1(2) m'(2)] by blast
qed

end
