(* ===== verification/Boot_Steps.thy ===== *)
theory Boot_Steps
  imports Boot_Load Syscall_Props
begin

text \<open>
  What the steps of the boot code around the loading of the program do: the kernel maps pages for the first
  task, its group and the stack of the hart, and the executor chooses the task.
\<close>

subsection \<open>Pages of the kernel\<close>

text \<open>Pages mapped at the indices \<open>X\<close>, with at most \<open>n\<close> frames; everything else is as it was.\<close>

definition extends :: "machine \<Rightarrow> machine \<Rightarrow> (idx \<times> idx \<times> idx) set \<Rightarrow> nat \<Rightarrow> bool" where
  "extends m m' X n \<longleftrightarrow> isolated m' \<and> entries_ok m' \<and> frames_kept m m'
     \<and> (\<forall>i j k. \<not> window_index i \<longrightarrow> (i, j, k) \<notin> X
          \<longrightarrow> vm_lookup (mc_mem m') (mc_root m) (i, j, k) = vm_lookup (mc_mem m) (mc_root m) (i, j, k))
     \<and> length (free_pages (mc_alloc m)) \<le> length (free_pages (mc_alloc m')) + n \<and> (\<forall>q. spare m q \<longrightarrow> spare m' q)"

lemma extendsD:
  assumes "extends m m' X n"
  shows "isolated m'" "entries_ok m'" "mc_satp m' = mc_satp m" "mc_root m' = mc_root m"
    "f \<notin> tables (mc_mem m') (mc_root m) \<Longrightarrow> mc_mem m' f = mc_mem m f"
    "\<not> window_index i \<Longrightarrow> (i, j, k) \<notin> X \<Longrightarrow> vm_lookup (mc_mem m') (mc_root m) (i, j, k) = vm_lookup (mc_mem m) (mc_root m) (i, j, k)"
    "length (free_pages (mc_alloc m)) \<le> length (free_pages (mc_alloc m')) + n" "spare m q \<Longrightarrow> spare m' q"
    "frames_kept m m'"
proof -
  note a = assms [unfolded extends_def]
  show "isolated m'" "entries_ok m'" "frames_kept m m'" using a by blast+
  then show "mc_satp m' = mc_satp m" by (simp add: frames_kept_def)
  then show "mc_root m' = mc_root m" by (simp add: mc_root_def)
  show "f \<notin> tables (mc_mem m') (mc_root m) \<Longrightarrow> mc_mem m' f = mc_mem m f" using \<open>frames_kept m m'\<close> by (simp add: frames_kept_def)
qed (use assms in \<open>unfold extends_def, blast+\<close>)

lemma extends_trans:
  assumes "extends m m' X n" "extends m' m'' Y k"
  shows "extends m m'' (X \<union> Y) (n + k)"
  unfolding extends_def
  using extendsD [OF assms(1)] extendsD [OF assms(2)] frames_kept_trans [OF extendsD(9) [OF assms(1)] extendsD(9) [OF assms(2)]]
  by (auto simp: add.assoc)

lemma map_kernel_page:
  assumes "isolated m" "entries_ok m" "plain_index (vpn2 va)" "vm_lookup (mc_mem m) (mc_root m) (va_index va) = None"
    "3 \<le> length (free_pages (mc_alloc m))"
  obtains p m1 m' where "allocK m = Inr (p, m1)" "vms_add va (Map_Private p) rwx acc m1 = Inr (Inr (), m')" "extends m m' {va_index va} 3"
    "isolated m1" "entries_ok m1" "spare m1 p" "mc_satp m1 = mc_satp m" "mc_mem m1 = mc_mem m"
    "length (free_pages (mc_alloc m)) = Suc (length (free_pages (mc_alloc m1)))" "\<And>q. spare m q \<Longrightarrow> spare m1 q \<and> q \<noteq> p"
proof -
  have inv: "vms_inv m" using assms(1) by (simp add: isolated_def)
  from assms(5) have "free_pages (mc_alloc m) \<noteq> []" by auto
  then obtain p a where a: "alloc (mc_alloc m) = Inr (Inr p, a)" "vms_inv (m\<lparr>mc_alloc := a\<rparr>)"
    "set (free_pages a) = set (free_pages (mc_alloc m)) - {p}" "p \<in> set (free_pages (mc_alloc m))"
    "length (free_pages (mc_alloc m)) = Suc (length (free_pages a))"
    using alloc_fresh_inv [OF inv] by blast
  let ?m = "m\<lparr>mc_alloc := a\<rparr>"
  have pa: "private_at ?m x q = private_at m x q" for x q by (simp add: private_at_def)
  have iso: "isolated ?m" using assms(1) a(2,3) unfolding isolated_def pa by auto
  have ent: "entries_ok ?m" using assms(2) by (simp add: entries_ok_def)
  have "p \<notin> tables (mc_mem m) (mc_root m)" "\<And>x. \<not> private_at m x p"
    using vm_okD(6) [OF vms_invD(1) [OF inv]] a(4) assms(1) unfolding isolated_def by blast+
  then have sp: "spare ?m p" using a(3) unfolding spare_def pa by simp
  have old: "spare ?m q \<and> q \<noteq> p" if "spare m q" for q using that a(3,4) unfolding spare_def pa by auto
  obtain m' where m': "vms_add va (Map_Private p) rwx acc ?m = Inr (Inr (), m')" "isolated m'" "entries_ok m'" "frames_kept ?m m'"
    "map_updated ?m m' (va_index va) (Some (0, mapped_leaf (Map_Private p) rwx acc))"
    "length (free_pages (mc_alloc ?m)) \<le> length (free_pages (mc_alloc m')) + 2" "\<And>q. spare ?m q \<Longrightarrow> q \<noteq> p \<Longrightarrow> spare m' q"
    by (rule add_frame_step [OF iso ent assms(3) _ _ sp, of rwx acc]) (use assms(4,5) a(5) that in simp_all)
  have "extends m m' {va_index va} 3"
    unfolding extends_def using m'(2-7) a(5) old by (auto simp: frames_kept_def map_updated_def)
  moreover have "allocK m = Inr (p, ?m)" by (simp add: allocK_def allocate_def a(1))
  ultimately show thesis using that m'(1) iso ent sp a(5) old by simp
qed

text \<open>A walk that takes no frame.\<close>

lemma walked_extends:
  assumes "isolated m" "entries_ok m" "walked m m1" "mc_alloc m1 = mc_alloc m" "wrote_ok m m1"
  shows "extends m m1 {} 0"
proof -
  have inv: "vms_inv m" using assms(1) by (simp add: isolated_def)
  note W = walkedD [OF assms(3)] and T = walked_only_tables [OF assms(3)]
  have t: "tables (mc_mem m1) (mc_root m) = tables (mc_mem m) (mc_root m)"
    using T assms(4) unfolding only_tables_def by auto
  have pa: "private_at m1 x p = private_at m x p" for x p
    using W(4) by (cases x) (auto simp: private_at_def W(2) plain_index_def)
  have "isolated m1" using assms(1) W(1) unfolding isolated_def W(2) t pa assms(4) by blast
  moreover have "entries_ok m1" using entries_ok_wrote [OF inv assms(2,5)] T by blast
  moreover have "frames_kept m m1" using W(3,5,7) by (simp add: frames_kept_def)
  moreover have "spare m q \<Longrightarrow> spare m1 q" for q unfolding spare_def W(2) t pa assms(4) .
  ultimately show ?thesis unfolding extends_def using W(4) assms(4) by simp
qed

text \<open>Adding a page to the current address space through the window.\<close>

lemma ensure_root_window:
  assumes inv: "vms_inv m" and i: "plain_index (vpn2 a)" and sh: "shows_table m HIGHMEM_B (mc_root m)"
  shows "ensure_table (window_page HIGHMEM_B (mc_root m) + 8 * ppn_2 a) m = ensure_table (ROOT + 8 * ppn_2 a) m"
proof -
  let ?r = "mc_root m" and ?m = "\<lambda>v. m\<lparr>mc_mem := mem_upd (mc_mem m) (mc_root m) (vpn2 a) v\<rparr>"
  have "self_map (mem_upd (mc_mem m) ?r (vpn2 a) v) ?r" for v
    using vm_okD(1,2) [OF vms_invD(1) [OF inv]] i by (intro self_map_upd) (auto simp: plain_index_def)
  then have k1: "maps_page (?m v) ROOT ?r" for v using self_map_ROOT [of "?m v"] by simp
  have "shows_table (?m v) HIGHMEM_B ?r" for v
    using sh i by (simp add: shows_table_def mem_upd_apply root_indices plain_index_def)
  then have k2: "maps_page (?m v) (window_page HIGHMEM_B ?r) ?r" for v using shows_table_maps by blast
  have pg: "maps_page m (window_page HIGHMEM_B ?r) ?r" using shows_table_maps sh by blast
  show ?thesis
    using ensure_table_eq [OF ROOT_page [OF inv], of "ppn_2 a", simplified, OF k1] ensure_table_eq [OF pg, of "ppn_2 a", simplified, OF k2]
    by simp
qed

lemma add_to_current:
  assumes "isolated m" "entries_ok m" "plain_index (vpn2 a)"
  obtains m1 where "extends m m1 {} 0" "add_to (mc_satp m) a mp rwx acc m = vms_add a mp rwx acc m1"
proof -
  have inv: "vms_inv m" using assms(1) by (simp add: isolated_def)
  have "\<not> bit (mc_root m) 22" using vm_okD(5) [OF vms_invD(1) [OF inv]] by blast
  then obtain m1 where m1: "table_b (mc_root m) m = Inr (window_page HIGHMEM_B (mc_root m), m1)" "walked m m1"
    "shows_table m1 HIGHMEM_B (mc_root m)" "mc_alloc m1 = mc_alloc m"
    using table_b_eq [OF inv] by blast
  note W = walkedD [OF m1(2)]
  have "ensure_table (window_page HIGHMEM_B (mc_root m) + 8 * ppn_2 a) m1 = ensure_table (ROOT + 8 * ppn_2 a) m1"
    using ensure_root_window [OF W(1) assms(3)] m1(3) W(2) by simp
  then have "get_pte_from_alloc (window_page HIGHMEM_B (mc_root m)) a m1 = get_pte_alloc a m1"
    by (simp add: get_pte_alloc_def get_pte_from_alloc_def entry_ptr_def tryK_def bindK_def)
  then have "add_to (mc_satp m) a mp rwx acc m = vms_add a mp rwx acc m1"
    using m1(1) by (simp add: add_to_def vms_add_def tryK_def bindK_def mc_root_def id_def)
  moreover have "extends m m1 {} 0"
    using walked_extends [OF assms(1,2) m1(2,4)] keepsD [OF wrote_ok_window(2) wrote_ok_refl m1(1)] by blast
  ultimately show thesis using that by blast
qed

subsection \<open>The steps\<close>

text \<open>The statics of the task module, the groups and the executor when the kernel starts.\<close>

definition boot_statics :: "sched \<Rightarrow> bool" where
  "boot_statics s \<longleftrightarrow> sc_task_data_address s = rr_start (reserved ''TASK_DATA'') \<and> ar_base (sc_groups s) = rr_start (reserved ''TASK_GROUPS'')
     \<and> ar_next (sc_groups s) = USIZE_MAX \<and> ar_capacity (sc_groups s) = 0 \<and> ar_max (sc_groups s) \<noteq> 0 \<and> sc_next_id s = 0"

lemma boot_addresses:
  "rr_start (reserved ''TASK_DATA'') = 0xFFFFFFDB9ACD0000" "rr_start (reserved ''TASK_GROUPS'') = 0xFFFFFFDBDACD0000" "STACK_ADDRESS = 0xFFFFFFDBDADE0000"
  unfolding STACK_ADDRESS_def reserved_def riscv64_layout_def by code_simp+

text \<open>The pages that the boot code maps for the kernel: the task, its group and the stack of the hart.\<close>

definition boot_pages :: "page list" where
  "boot_pages = [rr_start (reserved ''TASK_DATA''), rr_start (reserved ''TASK_GROUPS''), STACK_ADDRESS]"

lemma boot_pages_apart: "distinct (map va_index boot_pages)" "list_all (\<lambda>a. plain_index (vpn2 a) \<and> 256 \<le> unat (vpn2 a)) boot_pages"
  by (simp_all add: boot_pages_def boot_addresses va_index_def vpn2_def vpn1_def vpn0_def plain_index_def)

definition new_task :: "sv39 \<Rightarrow> task_data" where
  "new_task vms = \<lparr>td_register_state = register_state_default, td_stack = STACK_ADDRESS + 4096, td_virtual_memory = vms,
     td_notification_handler = None, td_current_irq = 0, td_flags = 0, td_executor_id = U16_MAX,
     td_priority = 0, td_priority_factor = 0, td_wait_time = 0, td_ipc = None\<rparr>"

lemma task_new_ok:
  assumes m: "isolated (sc_machine s)" "entries_ok (sc_machine s)" and a: "sc_task_data_address s = rr_start (reserved ''TASK_DATA'')"
    and un: "vm_lookup (mc_mem (sc_machine s)) (mc_root (sc_machine s)) (va_index (sc_task_data_address s)) = None"
    and room: "3 \<le> length (free_pages (mc_alloc (sc_machine s)))"
  defines "t \<equiv> sc_task_data_address s"
  shows "\<exists>m'. task_new (mc_satp (sc_machine s)) s
      = Inr (t, s\<lparr>sc_machine := m', sc_tasks := (sc_tasks s)(t := new_task (mc_satp (sc_machine s))), sc_task_data_address := t + 4096\<rparr>)
    \<and> extends (sc_machine s) m' {va_index t} 3"
proof -
  let ?m = "sc_machine s"
  have i: "plain_index (vpn2 t)" using boot_pages_apart(2) a by (simp add: boot_pages_def t_def)
  obtain p m1 where m1: "allocK ?m = Inr (p, m1)" "isolated m1" "entries_ok m1" "spare m1 p" "mc_satp m1 = mc_satp ?m" "mc_mem m1 = mc_mem ?m"
    "length (free_pages (mc_alloc ?m)) = Suc (length (free_pages (mc_alloc m1)))" "\<And>q. spare ?m q \<Longrightarrow> spare m1 q \<and> q \<noteq> p"
    using map_kernel_page [OF m i un [folded t_def] room] by metis
  obtain m2 where m2: "extends m1 m2 {} 0" "add_to (mc_satp m1) t (Map_Private p) RWX_RW KernelGlobal m1 = vms_add t (Map_Private p) RWX_RW KernelGlobal m2"
    using add_to_current [OF m1(2,3) i] by blast
  note D = extendsD [OF m2(1)]
  have "mc_root m1 = mc_root ?m" using m1(5) by (simp add: mc_root_def)
  then have l: "vm_lookup (mc_mem m2) (mc_root m2) (va_index t) = None"
    using D(6) i un D(4) m1(6) by (simp add: t_def va_index_def plain_index_def)
  obtain m' where m': "vms_add t (Map_Private p) RWX_RW KernelGlobal m2 = Inr (Inr (), m')" "isolated m'" "entries_ok m'" "frames_kept m2 m'"
    "map_updated m2 m' (va_index t) (Some (0, mapped_leaf (Map_Private p) RWX_RW KernelGlobal))"
    "length (free_pages (mc_alloc m2)) \<le> length (free_pages (mc_alloc m')) + 2" "\<And>q. spare m2 q \<Longrightarrow> q \<noteq> p \<Longrightarrow> spare m' q"
    by (rule add_frame_step [OF D(1,2) i l, of p RWX_RW KernelGlobal]) (use room m1(4,7) D(7,8) that in auto)
  have "frames_kept ?m m1" using m1(5,6) by (simp add: frames_kept_def mc_root_def)
  then have fk: "frames_kept ?m m'" using frames_kept_trans D(9) m'(4) by blast
  have "extends ?m m' {va_index t} 3"
    unfolding extends_def
    using m'(2,3,5-7) fk m1(5-8) D(3,4,6-8) \<open>mc_root m1 = mc_root ?m\<close> by (auto simp: map_updated_def)
  moreover have "page_next t = Some (t + 4096)" "page_next STACK_ADDRESS = Some (STACK_ADDRESS + 4096)"
    unfolding t_def a boot_addresses by code_simp+
  ultimately show ?thesis
    using m1(1,5) m2(2) m'(1)
    by (intro exI [of _ m']) (simp add: task_new_def bindK_def onM_def unwrapK_def upd_task_def new_task_def t_def [symmetric])
qed

lemma make_group_ok:
  assumes m: "isolated (sc_machine s)" "entries_ok (sc_machine s)"
    and g: "ar_base (sc_groups s) = rr_start (reserved ''TASK_GROUPS'')" "ar_next (sc_groups s) = USIZE_MAX" "ar_capacity (sc_groups s) = 0" "ar_max (sc_groups s) \<noteq> 0"
    and un: "vm_lookup (mc_mem (sc_machine s)) (mc_root (sc_machine s)) (va_index (rr_start (reserved ''TASK_GROUPS''))) = None"
    and room: "3 \<le> length (free_pages (mc_alloc (sc_machine s)))"
  shows "\<exists>m' g'. make_group (Suc n) t s = Inr (0, s\<lparr>sc_groups := g', sc_machine := m'\<rparr>)
    \<and> extends (sc_machine s) m' {va_index (rr_start (reserved ''TASK_GROUPS''))} 3 \<and> fst (group_get 0 g') = Some (t # replicate 15 0)"
proof -
  let ?m = "sc_machine s" and ?b = "rr_start (reserved ''TASK_GROUPS'')" and ?ar = "sc_groups s"
  have i: "plain_index (vpn2 ?b)" using boot_pages_apart(2) by (simp add: boot_pages_def)
  obtain p m1 m' where m1: "allocK ?m = Inr (p, m1)" "vms_add ?b (Map_Private p) RWX_RW KernelGlobal m1 = Inr (Inr (), m')" "extends ?m m' {va_index ?b} 3"
    using map_kernel_page [OF m i un room, of RWX_RW KernelGlobal] by metis
  have pg: "page_new ?b = Inr ?b" by (rule page_new_inv) (simp add: page_inv_def boot_addresses)
  let ?g = "?ar\<lparr>ar_slots := (ar_slots ?ar)(0 := (0, t # replicate 15 0)), ar_capacity := 1\<rparr>"
  have "arena_insert (Suc n) group_raw (t # replicate 15 0) ?ar ?m = Inr (Some (Inr 0, ?g), m')"
    using m1(1,2) pg g by (simp add: insert_pass_def bindK_def unwrapK_def)
  then have "make_group (Suc n) t s = Inr (0, s\<lparr>sc_groups := ?g, sc_machine := m'\<rparr>)"
    by (simp add: make_group_def group_new_def del: arena_insert.simps)
  moreover have "fst (group_get 0 ?g) = Some (t # replicate 15 0)" by (simp add: group_get_def arena_get_def)
  ultimately show ?thesis using m1(3) by blast
qed

lemma executor_init_ok:
  assumes m: "isolated (sc_machine s)" "entries_ok (sc_machine s)"
    and un: "vm_lookup (mc_mem (sc_machine s)) (mc_root (sc_machine s)) (va_index STACK_ADDRESS) = None"
    and room: "3 \<le> length (free_pages (mc_alloc (sc_machine s)))"
  shows "\<exists>m' d. executor_init h s = Inr ((), s\<lparr>sc_tasks := (sc_tasks s)(sc_idle_stub s := d), sc_sscratch := sc_idle_stub s, sc_machine := m'\<rparr>)
    \<and> extends (sc_machine s) m' {va_index STACK_ADDRESS} 3"
proof -
  let ?m = "sc_machine s"
  have i: "plain_index (vpn2 STACK_ADDRESS)" using boot_pages_apart(2) by (simp add: boot_pages_def)
  obtain p m1 m' where m1: "allocK ?m = Inr (p, m1)" "vms_add STACK_ADDRESS (Map_Private p) RWX_RW KernelGlobal m1 = Inr (Inr (), m')"
    "extends ?m m' {va_index STACK_ADDRESS} 3"
    using map_kernel_page [OF m i un room, of RWX_RW KernelGlobal] by metis
  have sk: "page_skip STACK_ADDRESS 1 = Some (STACK_ADDRESS + 4096)" unfolding boot_addresses by code_simp
  show ?thesis
    by - (rule exI [of _ m'], rule exI, rule conjI [OF _ m1(3)],
      use m1(1,2) in \<open>simp add: executor_init_def sk bindK_def onM_def unwrapK_def upd_task_def Let_def\<close>)
qed

text \<open>The first choice of the executor: the only task there is.\<close>

lemma executor_next_first:
  assumes g: "fst (group_get 0 (sc_groups s)) = Some (t # replicate 15 0)" and t: "t \<noteq> 0" "t \<noteq> current_task s" "sc_next_id s = 0"
    and d: "td_wait_time (sc_tasks s t) < sc_time s" "td_executor_id (sc_tasks s t) = U16_MAX" and f: "16 \<le> fuel"
  shows "\<exists>s'. executor_next fuel s = Inr (Some (Run t), s') \<and> sc_sscratch s' = t \<and> sc_next_id s' = 0
    \<and> mc_satp (sc_machine s') = td_virtual_memory (sc_tasks s t) \<and> mc_mem (sc_machine s') = mc_mem (sc_machine s)
    \<and> td_register_state (sc_tasks s' t) = td_register_state (sc_tasks s t)"
proof -
  let ?ts = "t # replicate 15 0"
  have gt: "group_task ?ts (of_nat n) = (if n = 0 then Inr t else Inl NoTask)" if "n < 16" for n
    using that t(1) unat_id [OF that] by (auto simp: group_task_def nth_Cons')
  have v: "visit 0 15 = 0" by (simp add: visit_15)
  have r: "ready s ?ts n \<longleftrightarrow> n = 0" if "n < 16" for n
    using gt [OF that] d t(2) by (auto simp: runnable_def unclaimed_def upd_task_def)
  have nv: "visit 0 j \<noteq> 0" if "j < 15" for j using visit_inj [of j 15 0] v that by auto
  have k: "ready s ?ts (visit (unat (sc_next_id s)) 15)" "\<forall>j < 15. \<not> ready s ?ts (visit (unat (sc_next_id s)) j)"
    using r [OF visit_less] r [of 0] nv v t(3) by simp_all
  have p: "unat (sc_next_id s) < 16" using t(3) by simp
  have l: "(15 :: nat) < 16" by simp
  obtain t' s' where s': "executor_next fuel s = Inr (Some (Run t'), s')" "sc_next_id s' = of_nat (visit (unat (sc_next_id s)) 15)"
    "group_task ?ts (sc_next_id s') = Inr t'" "sc_sscratch s' = t'" "mc_satp (sc_machine s') = td_virtual_memory (sc_tasks s t')"
    using executor_next_run [OF g p f l k] by blast
  have n: "sc_next_id s' = 0" using s'(2) v t(3) by simp
  have "t' = t" using s'(3) gt [of 0] n by simp
  then show ?thesis using s' n io_coreD(3,4) [OF executor_next_core [OF s'(1)]] by blast
qed

end
