(* ===== verification/Boot_Props.thy ===== *)
theory Boot_Props
  imports Boot_Steps
begin

text \<open>
  The boot code from the executable of the first task to the task that runs: the first task finds its
  program in memory, at the entry point of the file.
\<close>

subsection \<open>The file in memory\<close>

text \<open>The program headers of the segments: sizes that an executable can have, and memory that does not wrap around.\<close>

definition ph_placed :: "usize \<Rightarrow> program_header \<Rightarrow> bool" where
  "ph_placed ptr h \<longleftrightarrow> ph_file_size h \<le> ph_memory_size h \<and> unat ptr + unat (ph_offset h) + unat (ph_memory_size h) < 2 ^ 44
     \<and> user_range (ph_virtual_address h AND NOT 0xfff) (segment_pages h)"

lemma segment_sizes:
  assumes "ph_ok len h" "ph_placed ptr h"
  defines "s \<equiv> segment_of ptr h" and "o' \<equiv> unat (ph_offset h) mod 4096"
  shows "sg_address s = ph_virtual_address h AND NOT 0xfff" "sg_pages s = segment_pages h" "user_range (sg_address s) (sg_pages s)"
    "unat (sg_clear_from s) = unat (ph_file_size h) + o'" "unat (sg_clear_to s) = unat (ph_memory_size h) + o'"
    "unat (sg_clear_to s) \<le> sg_pages s * 4096"
proof -
  have b: "unat (ph_memory_size h) < 2 ^ 40" "unat (ph_file_size h) \<le> unat (ph_memory_size h)" "o' < 4096"
    using assms(1,2) by (simp_all add: ph_ok_def ph_placed_def word_le_nat_alt o'_def)
  show "sg_address s = ph_virtual_address h AND NOT 0xfff" by (simp add: s_def segment_of_def)
  have "unat (of_nat (segment_pages h) :: u32) = segment_pages h" using segment_pages_bound [OF assms(1)] by (intro unat_of_nat_less) simp
  then show n: "sg_pages s = segment_pages h" by (simp add: sg_pages_def s_def segment_of_def range_from_ptr_def)
  then show "user_range (sg_address s) (sg_pages s)" using assms(2) by (simp add: s_def segment_of_def ph_placed_def)
  have w: "unat (ph_offset h AND 0xfff) = o'" by (simp add: unat_and_4095 o'_def)
  show "unat (sg_clear_from s) = unat (ph_file_size h) + o'"
    unfolding s_def segment_of_def segment.simps using b w by (subst unat_add_no_overflow) simp_all
  show t: "unat (sg_clear_to s) = unat (ph_memory_size h) + o'"
    unfolding s_def segment_of_def segment.simps using b w by (subst unat_add_no_overflow) simp_all
  have "x \<le> (x + 4095) div 4096 * 4096" for x :: nat
    using div_mult_mod_eq [of "x + 4095" 4096] mod_less_divisor [of 4096 "x + 4095"] by linarith
  then show "unat (sg_clear_to s) \<le> sg_pages s * 4096" unfolding t n segment_pages_def o'_def .
qed

lemma ppn_from_ptr_add:
  assumes "4096 dvd unat b" "unat b + j < 2 ^ 64"
  shows "ppn_from_ptr (b + of_nat j) = ppn_from_ptr b + of_nat (j div 4096)"
proof -
  obtain k where k: "unat b = 4096 * k" using assms(1) by auto
  have u: "unat (drop_bit 12 (b + of_nat j)) = k + j div 4096" "unat (drop_bit 12 b) = k"
    unfolding unat_drop_bit segment_address(1) [OF assms] k by simp_all
  have "ppn_from_ptr x = of_nat (unat (drop_bit 12 x))" for x by (simp add: ppn_from_ptr_def page_consts)
  then show ?thesis by (simp only: u of_nat_add)
qed

lemma segment_bytes:
  assumes "ph_ok len h" "ph_placed ptr h" "4096 dvd unat ptr" "j < unat (ph_memory_size h) + unat (ph_offset h) mod 4096"
  shows "seg_byte m (sg_address (segment_of ptr h)) (sg_frames (segment_of ptr h)) j
    = phys_bytes (mc_mem m) (ptr + (ph_offset h AND NOT 0xfff) + of_nat j)"
proof -
  let ?s = "segment_of ptr h" and ?b = "ptr + (ph_offset h AND NOT 0xfff)"
  note S = segment_sizes [OF assms(1,2)]
  have l: "unat ptr + unat (ph_offset h) + unat (ph_memory_size h) < 2 ^ 44" using assms(2) by (simp add: ph_placed_def)
  have o: "unat (ph_offset h AND NOT 0xfff) + unat (ph_offset h) mod 4096 = unat (ph_offset h)"
    unfolding unat_and_not_4095 by simp
  have ub: "unat ?b = unat ptr + unat (ph_offset h AND NOT 0xfff)" using l o by (intro unat_add_no_overflow) simp
  have ab: "4096 dvd unat ?b" unfolding ub unat_and_not_4095 using assms(3) by (simp add: minus_mod_eq_mult_div)
  have "(2 :: nat) ^ 44 \<le> 2 ^ 64" by simp
  then have lb: "unat ?b + j < 2 ^ 64" unfolding ub using l o assms(4) by linarith
  have j: "j < sg_pages ?s * 4096" using S(5,6) assms(4) by simp
  have va: "4096 dvd unat (sg_address ?s)" "unat (sg_address ?s) + j < 2 ^ 64" using S(3) j by (simp_all add: user_range_def)
  note A = segment_address [OF va] and B = segment_address [OF ab lb]
  have "word_index (sg_address ?s + of_nat j) = word_index (?b + of_nat j)" unfolding word_unat_eq_iff A(3) B(3) ..
  moreover have "unat (sg_address ?s + of_nat j) mod 8 = unat (?b + of_nat j) mod 8" unfolding A(4) B(4) ..
  moreover have "j div 4096 < sg_pages ?s" using j by (simp add: less_mult_imp_div_less)
  then have "sg_frames ?s ! (j div 4096) = ppn_from_ptr ?b + of_nat (j div 4096)"
    by (simp add: sg_frames_def frames_from_def segment_of_def range_from_ptr_def ppn_from_ptr_def)
  ultimately show ?thesis using ppn_from_ptr_add [OF ab lb] by (simp add: seg_byte_def phys_bytes_def frame_byte_def)
qed

lemma spare_cleared: "isolated m \<Longrightarrow> spare m q \<Longrightarrow> spare (clear_low m) q"
proof -
  assume i: "isolated m" and q: "spare m q"
  then have inv: "vms_inv m" by (simp add: isolated_def)
  have "private_at (clear_low m) x q \<Longrightarrow> private_at m x q" for x
    by (cases x) (auto simp: private_at_def lookup_cleared [OF inv] simp del: clear_low_simps(4) split: if_splits)
  moreover have "tables (mc_mem (clear_low m)) (mc_root m) \<subseteq> tables (mc_mem m) (mc_root m)"
    using cleared_tables [OF vm_okD(2) [OF vms_invD(1) [OF inv]]] by simp
  ultimately show ?thesis using q unfolding spare_def clear_low_simps(2,3) by blast
qed

text \<open>Mapping pages of the upper half keeps what is loaded.\<close>

lemma extends_seg:
  assumes e: "extends m m' X n" and X: "\<forall>x \<in> X. 256 \<le> unat (fst x)" and sm: "seg_mapped m va ps" and u: "user_range va (length ps)"
  shows "seg_mapped m' va ps" "j < length ps * 4096 \<Longrightarrow> seg_byte m' va ps j = seg_byte m va ps j"
proof -
  note D = extendsD [OF e]
  show sm': "seg_mapped m' va ps" unfolding seg_mapped_def
  proof (intro allI impI)
    fix t assume t: "t < length ps"
    note i = user_index [OF u t]
    have "va_index (page_at va t) \<notin> X" using X i(1) by (auto simp: va_index_def)
    then have "vm_lookup (mc_mem m') (mc_root m) (va_index (page_at va t)) = vm_lookup (mc_mem m) (mc_root m) (va_index (page_at va t))"
      using D(6) i(2) by (simp add: va_index_def plain_index_def)
    then show "vm_lookup (mc_mem m') (mc_root m') (va_index (page_at va t)) = Some (0, mapped_leaf (Map_Private (ps ! t)) RWX_RWX UserLocal)"
      using sm t by (simp add: seg_mapped_def D(4))
  qed
  assume j: "j < length ps * 4096"
  have "ps ! (j div 4096) \<in> set ps" using j by (intro nth_mem) (simp add: less_mult_imp_div_less)
  then have "mc_mem m' (ps ! (j div 4096)) = mc_mem m (ps ! (j div 4096))"
    using seg_mapped_private [OF sm' u D(1)] D(4,5) by simp
  then show "seg_byte m' va ps j = seg_byte m va ps j" by (simp add: seg_byte_def frame_byte_def)
qed

subsection \<open>Starting the task\<close>

abbreviation GROUPS_PAGE :: page where "GROUPS_PAGE \<equiv> rr_start (reserved ''TASK_GROUPS'')"

lemma unmapped_extends:
  "extends m m' X n \<Longrightarrow> vm_lookup (mc_mem m) (mc_root m) (va_index a) = None \<Longrightarrow> va_index a \<notin> X \<Longrightarrow> plain_index (vpn2 a)
    \<Longrightarrow> vm_lookup (mc_mem m') (mc_root m') (va_index a) = None"
  using extendsD(4,6) by (simp add: va_index_def plain_index_def)

lemma start_first_task:
  assumes m: "isolated (sc_machine s)" "entries_ok (sc_machine s)" "6 \<le> length (free_pages (mc_alloc (sc_machine s)))"
    and g: "ar_base (sc_groups s) = GROUPS_PAGE" "ar_next (sc_groups s) = USIZE_MAX" "ar_capacity (sc_groups s) = 0" "ar_max (sc_groups s) \<noteq> 0"
    and un: "vm_lookup (mc_mem (sc_machine s)) (mc_root (sc_machine s)) (va_index GROUPS_PAGE) = None"
      "vm_lookup (mc_mem (sc_machine s)) (mc_root (sc_machine s)) (va_index STACK_ADDRESS) = None"
    and t: "t \<noteq> 0" "t \<noteq> sc_idle_stub s" "sc_next_id s = 0" "td_wait_time (sc_tasks s t) < sc_time s" "td_executor_id (sc_tasks s t) = U16_MAX"
    and h: "unat (hart :: usize) < 2 ^ 16" and f: "16 \<le> fuel"
  shows "\<exists>me s'. bindP (make_group fuel t s) (\<lambda>(_, s).
      let s = enable_interrupts True s in
      bindP (unwrapO (try_into hart)) (\<lambda>hart. bindP (executor_init hart s) (\<lambda>(_, s). executor_next fuel s))) = Inr (Some (Run t), s')
    \<and> extends (sc_machine s) me {va_index GROUPS_PAGE, va_index STACK_ADDRESS} 6 \<and> mc_mem (sc_machine s') = mc_mem me
    \<and> mc_satp (sc_machine s') = td_virtual_memory (sc_tasks s t) \<and> sc_sscratch s' = t
    \<and> td_register_state (sc_tasks s' t) = td_register_state (sc_tasks s t)"
proof -
  obtain n where n: "fuel = Suc n" using f by (cases fuel) auto
  obtain mg g' where mg: "make_group fuel t s = Inr (0, s\<lparr>sc_groups := g', sc_machine := mg\<rparr>)"
    "extends (sc_machine s) mg {va_index GROUPS_PAGE} 3" "fst (group_get 0 g') = Some (t # replicate 15 0)"
    using make_group_ok [OF m(1,2) g un(1)] m(3) unfolding n by fastforce
  let ?s = "enable_interrupts True (s\<lparr>sc_groups := g', sc_machine := mg\<rparr>)"
  have sm: "sc_machine ?s = mg" "sc_idle_stub ?s = sc_idle_stub s" "sc_tasks ?s = sc_tasks s" by (simp_all add: enable_interrupts_def)
  note D = extendsD [OF mg(2)]
  have a: "va_index STACK_ADDRESS \<notin> {va_index GROUPS_PAGE}" "plain_index (vpn2 STACK_ADDRESS)"
    using boot_pages_apart by (auto simp: boot_pages_def)
  have "vm_lookup (mc_mem mg) (mc_root mg) (va_index STACK_ADDRESS) = None" using unmapped_extends [OF mg(2) un(2) a] .
  moreover have "3 \<le> length (free_pages (mc_alloc mg))" using D(7) m(3) by linarith
  ultimately obtain me d where me: "executor_init (ucast hart) ?s
      = Inr ((), ?s\<lparr>sc_tasks := (sc_tasks s)(sc_idle_stub s := d), sc_sscratch := sc_idle_stub s, sc_machine := me\<rparr>)"
    "extends mg me {va_index STACK_ADDRESS} 3"
    using executor_init_ok [of ?s "ucast hart"] D(1,2) unfolding sm by blast
  let ?e = "?s\<lparr>sc_tasks := (sc_tasks s)(sc_idle_stub s := d), sc_sscratch := sc_idle_stub s, sc_machine := me\<rparr>"
  have e: "sc_groups ?e = g'" "sc_next_id ?e = 0" "sc_tasks ?e t = sc_tasks s t" "sc_time ?e = sc_time s" "current_task ?e = sc_idle_stub s" "sc_machine ?e = me"
    using t(2,3) by (simp_all add: enable_interrupts_def current_task_def)
  obtain s' where s': "executor_next fuel ?e = Inr (Some (Run t), s')" "sc_sscratch s' = t" "mc_satp (sc_machine s') = td_virtual_memory (sc_tasks s t)"
    "mc_mem (sc_machine s') = mc_mem me" "td_register_state (sc_tasks s' t) = td_register_state (sc_tasks s t)"
    using executor_next_first [of ?e t fuel] unfolding e using mg(3) t f by blast
  have "try_into hart = Some (ucast hart :: u16)" using h by (simp add: try_into_def)
  moreover have "extends (sc_machine s) me {va_index GROUPS_PAGE, va_index STACK_ADDRESS} 6"
    using extends_trans [OF mg(2) me(2)] by (simp add: insert_commute)
  ultimately show ?thesis
    using mg(1) me(1) s' by (intro exI [of _ me] exI [of _ s']) simp
qed

text \<open>
  Segments that fit: no two of them share a frame or a page, nothing else uses their frames, and there are
  frames for the page tables and for the nine that the kernel needs.
\<close>

definition segments_fit :: "machine \<Rightarrow> segment list \<Rightarrow> bool" where
  "segments_fit m ss \<longleftrightarrow> distinct (all_frames ss) \<and> (\<forall>p \<in> set (all_frames ss). spare m p) \<and> distinct (all_indices ss)
     \<and> 9 + 2 * all_pages ss \<le> length (free_pages (mc_alloc m))"

lemma all_indices_low:
  assumes "\<forall>s \<in> set ss. user_range (sg_address s) (sg_pages s)" "x \<in> set (all_indices ss)"
  shows "unat (fst x) < 256" "\<not> window_index (fst x)"
proof -
  obtain s t where "s \<in> set ss" "t < sg_pages s" "x = va_index (page_at (sg_address s) t)"
    using assms(2) by (auto simp: sg_indices_def)
  then show "unat (fst x) < 256" "\<not> window_index (fst x)"
    using user_index [of "sg_address s" "sg_pages s" t] assms(1) by (auto simp: va_index_def plain_index_def)
qed

lemma can_load_boot:
  assumes iso: "isolated m" and fit: "segments_fit m ss" and ext: "extends (clear_low m) mt X 3" "\<forall>x \<in> X. 256 \<le> unat (fst x)"
    and seg: "\<forall>s \<in> set ss. user_range (sg_address s) (sg_pages s) \<and> unat (sg_clear_to s) \<le> sg_pages s * 4096"
  shows "can_load mt ss"
proof -
  have inv: "vms_inv m" using iso by (simp add: isolated_def)
  note D = extendsD [OF ext(1)]
  have "vm_lookup (mc_mem mt) (mc_root mt) x = None" if x: "x \<in> set (all_indices ss)" for x
  proof (cases x)
    case (fields i j k)
    have l: "unat i < 256" "\<not> window_index i" using all_indices_low [OF _ x] seg fields by auto
    then have "x \<notin> X" using ext(2) fields by fastforce
    then show ?thesis using D(6) [of i j k] l lookup_cleared [OF inv, of i j k] by (simp add: fields D(4) del: clear_low_simps(4))
  qed
  moreover have "spare mt p" if "p \<in> set (all_frames ss)" for p
    using fit that spare_cleared [OF iso] D(8) unfolding segments_fit_def by blast
  ultimately show ?thesis using D(1,2,7) fit seg by (simp add: can_load_def segments_fit_def)
qed

lemma boot_bytes:
  assumes iso: "isolated m" and fit: "segments_fit m ss" and ext: "extends (clear_low m) mt X n" and s: "s \<in> set ss" and j: "j < sg_pages s * 4096"
  shows "seg_byte mt (sg_address s) (sg_frames s) j = seg_byte m (sg_address s) (sg_frames s) j"
proof -
  let ?f = "sg_frames s ! (j div 4096)"
  note D = extendsD [OF ext]
  have "?f \<in> set (sg_frames s)" using j by (intro nth_mem) (simp add: less_mult_imp_div_less)
  then have "spare m ?f" using fit s unfolding segments_fit_def by auto
  then have sp: "spare (clear_low m) ?f" "?f \<noteq> mc_root m" using spare_cleared [OF iso] unfolding spare_def by auto
  then have "mc_mem mt ?f = mc_mem (clear_low m) ?f" using D(4,5) D(8) [OF sp(1)] unfolding spare_def by metis
  also have "\<dots> = mc_mem m ?f" using sp(2) by (auto simp: cleared_def)
  finally show ?thesis by (simp add: seg_byte_def frame_byte_def)
qed

text \<open>From the removal of the identity map to the loaded segments.\<close>

definition boot_ready :: "sched \<Rightarrow> bool" where
  "boot_ready s \<longleftrightarrow> boot_statics s \<and> isolated (sc_machine s) \<and> entries_ok (sc_machine s) \<and> \<not> sc_user_access s \<and> 0 < sc_time s
     \<and> sc_idle_stub s \<noteq> sc_task_data_address s
     \<and> (\<forall>a \<in> set boot_pages. vm_lookup (mc_mem (sc_machine s)) (mc_root (sc_machine s)) (va_index a) = None)"

lemma boot_load:
  assumes r: "boot_ready s" and fit: "segments_fit (sc_machine s) ss"
    and seg: "\<forall>x \<in> set ss. user_range (sg_address x) (sg_pages x) \<and> unat (sg_clear_to x) \<le> sg_pages x * 4096"
  defines "m \<equiv> sc_machine s" and "t \<equiv> sc_task_data_address s"
  defines "s1 \<equiv> \<lambda>m'. s\<lparr>sc_machine := m', sc_tasks := (sc_tasks s)(t := new_task (mc_satp m)), sc_task_data_address := t + 4096\<rparr>"
  shows "\<exists>mt ml. task_new (mc_satp m) (s\<lparr>sc_machine := clear_low m\<rparr>) = Inr (t, s1 mt)
    \<and> load_segments (map Some ss @ replicate n None) (s1 mt) = Inr ((), s1 ml)
    \<and> extends (clear_low m) mt {va_index t} 3 \<and> loads_to mt ml ss \<and> 6 \<le> length (free_pages (mc_alloc ml))
    \<and> vm_lookup (mc_mem ml) (mc_root ml) (va_index GROUPS_PAGE) = None \<and> vm_lookup (mc_mem ml) (mc_root ml) (va_index STACK_ADDRESS) = None"
proof -
  note R = r [unfolded boot_ready_def boot_statics_def, folded m_def t_def]
  have iso: "isolated m" and inv: "vms_inv m" using R by (simp_all add: isolated_def)
  have high: "plain_index (vpn2 a)" "256 \<le> unat (vpn2 a)" if "a \<in> set boot_pages" for a using boot_pages_apart(2) that by (auto simp: list_all_iff)
  have t: "t \<in> set boot_pages" using R by (simp add: boot_pages_def)
  have low: "vm_lookup (mc_mem (clear_low m)) (mc_root m) (va_index a) = None" if "a \<in> set boot_pages" for a
    using lookup_cleared [OF inv, of "vpn2 a" "vpn1 a" "vpn0 a"] R that by (simp add: va_index_def del: clear_low_simps(4))
  let ?s = "s\<lparr>sc_machine := clear_low m\<rparr>"
  have "9 + 2 * all_pages ss \<le> length (free_pages (mc_alloc m))" using fit by (simp add: segments_fit_def m_def)
  then obtain mt where mt: "task_new (mc_satp m) ?s = Inr (t, s1 mt)" "extends (clear_low m) mt {va_index t} 3"
    using task_new_ok [of ?s] isolated_cleared [OF iso] entries_ok_cleared [OF inv] R low [OF t] by (auto simp: s1_def t_def simp del: clear_low_simps(4))
  have X: "\<forall>x \<in> {va_index t}. 256 \<le> unat (fst x)" using high(2) [OF t] by (simp add: va_index_def)
  have s2: "(s1 mt)\<lparr>sc_machine := m'\<rparr> = s1 m'" "sc_machine (s1 m') = m'" for m' by (cases s, simp add: s1_def)+
  have "can_load mt ss" using can_load_boot [OF iso fit [folded m_def] mt(2) X seg] .
  then obtain ml where ml: "load_segments (map Some ss @ replicate n None) (s1 mt) = Inr ((), s1 ml)" "loads_to mt ml ss"
    using load_segments_ok [of "s1 mt" ss n] R unfolding s2 by (auto simp: s1_def)
  note L = loads_toD [OF ml(2)] and D = extendsD [OF mt(2)]
  have un: "vm_lookup (mc_mem ml) (mc_root ml) (va_index a) = None" if a: "a \<in> set boot_pages" "va_index a \<noteq> va_index t" for a
  proof -
    have "va_index a \<notin> set (all_indices ss)" using all_indices_low(1) [of ss "va_index a"] seg high(2) [OF a(1)] by (fastforce simp: va_index_def)
    then have "vm_lookup (mc_mem ml) (mc_root mt) (va_index a) = vm_lookup (mc_mem mt) (mc_root mt) (va_index a)"
      using L(8) high(1) [OF a(1)] by (simp add: va_index_def plain_index_def)
    moreover have "vm_lookup (mc_mem mt) (mc_root mt) (va_index a) = None"
      using unmapped_extends [OF mt(2) _ _ high(1) [OF a(1)]] low [OF a(1)] a(2) by simp
    ultimately show ?thesis using L(4) by simp
  qed
  have "6 \<le> length (free_pages (mc_alloc ml))" using L(9) D(7) fit by (simp add: segments_fit_def m_def)
  moreover have "va_index GROUPS_PAGE \<noteq> va_index t" "va_index STACK_ADDRESS \<noteq> va_index t"
    using boot_pages_apart(1) R by (auto simp: boot_pages_def)
  ultimately show ?thesis using mt ml un by (auto simp: boot_pages_def)
qed

subsection \<open>The first task finds its program\<close>

text \<open>
  What a program in user mode finds of the segments that the headers describe: it can load, store and
  execute every byte of them, and the bytes are those of the file and zeros behind them.
\<close>

definition program_loaded :: "memory \<Rightarrow> usize \<Rightarrow> program_header list \<Rightarrow> machine \<Rightarrow> bool" where
  "program_loaded mem ptr hs m \<longleftrightarrow> (\<forall>h \<in> set hs. \<forall>k < unat (ph_memory_size h). \<forall>a. user_byte m a (ph_virtual_address h + of_nat k)
     = Some (if k < unat (ph_file_size h) then mem (ptr + ph_offset h + of_nat k) else 0))"

lemma page_split: "(x AND NOT 0xfff) + of_nat (k + unat x mod 4096) = x + (of_nat k :: usize)"
proof -
  have "x AND NOT 0xfff = of_nat (unat x - unat x mod 4096)" using unat_and_not_4095 [of x] by (metis of_nat_unat ucast_id)
  then have "(x AND NOT 0xfff) + of_nat (k + unat x mod 4096) = of_nat (unat x - unat x mod 4096 + (k + unat x mod 4096))" by (simp only: of_nat_add)
  also have "unat x - unat x mod 4096 + (k + unat x mod 4096) = unat x + k" by simp
  finally show ?thesis by simp
qed

lemma program_loadedI:
  assumes ok: "list_all (\<lambda>h. ph_ok len h \<and> ph_placed ptr h) hs" and al: "4096 dvd unat ptr" and ent: "entries_ok m'"
    and seg: "\<forall>s \<in> set (map (segment_of ptr) hs). seg_mapped m' (sg_address s) (sg_frames s) \<and> (\<forall>j < sg_pages s * 4096.
      seg_byte m' (sg_address s) (sg_frames s) j = (if unat (sg_clear_from s) \<le> j \<and> j < unat (sg_clear_to s) then 0 else seg_byte m (sg_address s) (sg_frames s) j))"
  shows "program_loaded (phys_bytes (mc_mem m)) ptr hs m'"
  unfolding program_loaded_def
proof (intro ballI allI impI)
  fix h k a assume h: "h \<in> set hs" and k: "k < unat (ph_memory_size h)"
  let ?s = "segment_of ptr h" and ?o = "unat (ph_offset h) mod 4096"
  have p: "ph_ok len h" "ph_placed ptr h" using ok h by (auto simp: list_all_iff)
  note S = segment_sizes [OF p]
  let ?j = "k + ?o"
  have j: "?j < sg_pages ?s * 4096" "?j < unat (ph_memory_size h) + ?o" using k S(5,6) by simp_all
  have "unat (ph_virtual_address h) mod 4096 = ?o" using p(1) by (simp add: ph_ok_def)
  then have va: "sg_address ?s + of_nat ?j = ph_virtual_address h + of_nat k"
    using page_split [of "ph_virtual_address h" k] unfolding S(1) by (simp only:)
  have po: "(ph_offset h AND NOT 0xfff) + of_nat ?j = ph_offset h + of_nat k" by (rule page_split)
  have sm: "seg_mapped m' (sg_address ?s) (sg_frames ?s)" "seg_byte m' (sg_address ?s) (sg_frames ?s) ?j
      = (if unat (sg_clear_from ?s) \<le> ?j \<and> ?j < unat (sg_clear_to ?s) then 0 else seg_byte m (sg_address ?s) (sg_frames ?s) ?j)"
    using seg h j(1) by auto
  have "user_byte m' a (ph_virtual_address h + of_nat k) = Some (seg_byte m' (sg_address ?s) (sg_frames ?s) ?j)"
    using user_byte_seg [OF ent sm(1), of ?j] S(3) j(1) unfolding va by simp
  moreover have "seg_byte m (sg_address ?s) (sg_frames ?s) ?j = phys_bytes (mc_mem m) (ptr + ph_offset h + of_nat k)"
    using segment_bytes [OF p al j(2)] unfolding add.assoc po .
  ultimately show "user_byte m' a (ph_virtual_address h + of_nat k)
      = Some (if k < unat (ph_file_size h) then phys_bytes (mc_mem m) (ptr + ph_offset h + of_nat k) else 0)"
    unfolding sm(2) S(4,5) using k by simp
qed

lemma boot_loaded:
  assumes iso: "isolated m" and fit: "segments_fit m ss" and u: "\<forall>s \<in> set ss. user_range (sg_address s) (sg_pages s)"
    and mt: "extends (clear_low m) mt X n" and ml: "loads_to mt ml ss" and me: "extends ml me Y k" "\<forall>x \<in> Y. 256 \<le> unat (fst x)"
  shows "\<forall>s \<in> set ss. seg_mapped me (sg_address s) (sg_frames s) \<and> (\<forall>j < sg_pages s * 4096. seg_byte me (sg_address s) (sg_frames s) j
    = (if unat (sg_clear_from s) \<le> j \<and> j < unat (sg_clear_to s) then 0 else seg_byte m (sg_address s) (sg_frames s) j))"
proof
  fix s assume s: "s \<in> set ss"
  note L = loads_toD(5,6) [OF ml s]
  have r: "user_range (sg_address s) (length (sg_frames s))" using u s by simp
  show "seg_mapped me (sg_address s) (sg_frames s) \<and> (\<forall>j < sg_pages s * 4096. seg_byte me (sg_address s) (sg_frames s) j
    = (if unat (sg_clear_from s) \<le> j \<and> j < unat (sg_clear_to s) then 0 else seg_byte m (sg_address s) (sg_frames s) j))"
    using extends_seg [OF me L(1) r] L(2) boot_bytes [OF iso fit mt s] by simp
qed

lemma boot_lower_half:
  assumes iso: "isolated m" and mt: "extends (clear_low m) mt X n" "\<forall>x \<in> X. 256 \<le> unat (fst x)" and ml: "loads_to mt ml ss"
    and me: "extends ml me Y k" "\<forall>x \<in> Y. 256 \<le> unat (fst x)" and i: "unat i < 256" "(i, j, l) \<notin> set (all_indices ss)"
  shows "vm_lookup (mc_mem me) (mc_root m) (i, j, l) = None"
proof -
  have inv: "vms_inv m" using iso by (simp add: isolated_def)
  have w: "\<not> window_index i" using i(1) by auto
  have n: "(i, j, l) \<notin> X" "(i, j, l) \<notin> Y" using mt(2) me(2) i(1) by fastforce+
  note T = extendsD(4) [OF mt(1)] extendsD(6) [OF mt(1) w n(1)] and E = extendsD(6) [OF me(1) w n(2)]
  note L = loads_toD(4) [OF ml] loads_toD(8) [OF ml w i(2)]
  show ?thesis using T E L lookup_cleared [OF inv, of i j l] i(1) by (simp del: clear_low_simps(4))
qed

text \<open>
  C5. The boot code runs the first task, and the task finds its program in memory. When the file that the
  boot loader passes is an executable whose segments fit, \<open>main\<close> does not panic and resumes the task at the
  entry point of the file; in user mode it can load, store and execute every byte of every segment, the
  bytes are those of the file, followed by zeros up to the size in memory, and nothing else is mapped in the lower half: the identity map is gone.
\<close>
theorem boot_runs_init:
  assumes r: "boot_ready s" and h: "unat hart < 2 ^ 16" and f: "16 \<le> fuel"
    and elf: "elf_file (phys_bytes (mc_mem (sc_machine s))) init len eh hs" "4096 dvd unat init"
    and ok: "list_all (\<lambda>p. ph_ok len p \<and> ph_placed init p) (loads hs)" "length (loads hs) < 32"
    and fit: "segments_fit (sc_machine s) (map (segment_of init) (loads hs))"
  shows "\<exists>s' t. start_init fuel hart init len s = Inr (Some (Run t), s') \<and> current_task s' = t
    \<and> rs_pc (td_register_state (sc_tasks s' t)) = eh_entry eh \<and> mc_satp (sc_machine s') = mc_satp (sc_machine s)
    \<and> program_loaded (phys_bytes (mc_mem (sc_machine s))) init (loads hs) (sc_machine s')
    \<and> (\<forall>i j k. unat i < 256 \<and> (i, j, k) \<notin> set (all_indices (map (segment_of init) (loads hs)))
        \<longrightarrow> vm_lookup (mc_mem (sc_machine s')) (mc_root (sc_machine s')) (i, j, k) = None)"
proof -
  let ?m = "sc_machine s" and ?ss = "map (segment_of init) (loads hs)" and ?t = "sc_task_data_address s"
  note R = r [unfolded boot_ready_def boot_statics_def]
  have inv: "vms_inv ?m" and iso: "isolated ?m" using R by (simp_all add: isolated_def)
  have seg: "\<forall>x \<in> set ?ss. user_range (sg_address x) (sg_pages x) \<and> unat (sg_clear_to x) \<le> sg_pages x * 4096"
    using ok(1) segment_sizes(3,6) by (fastforce simp: list_all_iff)
  let ?n = "32 - length (loads hs)"
  let ?s = "\<lambda>m'. s\<lparr>sc_machine := m', sc_tasks := (sc_tasks s)(?t := new_task (mc_satp ?m)), sc_task_data_address := ?t + 4096\<rparr>"
  obtain mt ml where b: "task_new (mc_satp ?m) (s\<lparr>sc_machine := clear_low ?m\<rparr>) = Inr (?t, ?s mt)"
    "load_segments (map Some ?ss @ replicate ?n None) (?s mt) = Inr ((), ?s ml)" "extends (clear_low ?m) mt {va_index ?t} 3" "loads_to mt ml ?ss"
    "6 \<le> length (free_pages (mc_alloc ml))" "vm_lookup (mc_mem ml) (mc_root ml) (va_index GROUPS_PAGE) = None"
    "vm_lookup (mc_mem ml) (mc_root ml) (va_index STACK_ADDRESS) = None"
    using boot_load [OF r fit seg, of ?n] by blast
  note T = extendsD [OF b(3)] and L = loads_toD [OF b(4)]
  let ?p = "set_pc ?t (eh_entry eh) (?s ml)"
  have P: "sc_machine ?p = ml" "sc_groups ?p = sc_groups s" "sc_next_id ?p = 0" "sc_idle_stub ?p = sc_idle_stub s" "sc_time ?p = sc_time s"
    "td_wait_time (sc_tasks ?p ?t) = 0" "td_executor_id (sc_tasks ?p ?t) = U16_MAX" "td_virtual_memory (sc_tasks ?p ?t) = mc_satp ?m"
    "rs_pc (td_register_state (sc_tasks ?p ?t)) = eh_entry eh"
    using R by (simp_all add: set_pc_def upd_task_def new_task_def set_pc_reg_def)
  have t0: "?t \<noteq> 0" "?t \<noteq> sc_idle_stub s" using R by (auto simp: boot_addresses)
  obtain me s' where e: "bindP (make_group fuel ?t ?p) (\<lambda>(_, s). let s = enable_interrupts True s in
      bindP (unwrapO (try_into hart)) (\<lambda>hart. bindP (executor_init hart s) (\<lambda>(_, s). executor_next fuel s))) = Inr (Some (Run ?t), s')"
    "extends ml me {va_index GROUPS_PAGE, va_index STACK_ADDRESS} 6" "mc_mem (sc_machine s') = mc_mem me"
    "mc_satp (sc_machine s') = mc_satp ?m" "sc_sscratch s' = ?t" "rs_pc (td_register_state (sc_tasks s' ?t)) = eh_entry eh"
    using start_first_task [of ?p ?t hart fuel] unfolding P using L(1,2) b(5-7) R t0 h f P(9) by metis
  have "list_all (ph_ok len) (loads hs)" using ok(1) by (simp add: list_all_iff)
  note parse = elf_parse_ok [OF elf(1) this ok(2)]
  have "start_init fuel hart init len s = Inr (Some (Run ?t), s')"
    using b(1,2) e(1) parse clear_identity_maps_eq [OF inv]
    by (simp add: start_init_def bindK_def onM_def vms_current_def)
  moreover have rt: "mc_root (sc_machine s') = mc_root me" "mc_root me = mc_root ?m"
    using e(2,4) extendsD(3) T(3) L(3) by (simp_all add: mc_root_def)
  moreover have X: "\<forall>x \<in> {va_index ?t}. 256 \<le> unat (fst x)" "\<forall>x \<in> {va_index GROUPS_PAGE, va_index STACK_ADDRESS}. 256 \<le> unat (fst x)"
    using boot_pages_apart(2) R by (auto simp: boot_pages_def va_index_def)
  moreover have "program_loaded (phys_bytes (mc_mem ?m)) init (loads hs) me"
    using boot_loaded [OF iso fit _ b(3,4) e(2) X(2)] seg extendsD(2) [OF e(2)] by (intro program_loadedI [OF ok(1) elf(2)]) auto
  then have "program_loaded (phys_bytes (mc_mem ?m)) init (loads hs) (sc_machine s')"
    unfolding program_loaded_def user_byte_def e(3) rt(1) .
  ultimately show ?thesis
    using e(3-6) boot_lower_half [OF iso b(3) X(1) b(4) e(2) X(2)]
    by (intro exI [of _ s'] exI [of _ ?t]) (simp add: current_task_def)
qed

subsection \<open>An executable\<close>

text \<open>
  A file of 124 bytes in frame 32: the headers and one instruction, loaded as one segment with 76 bytes of
  zeros behind it. The rest of the frame holds other bytes.
\<close>

definition eh_ex :: file_header where
  "eh_ex = \<lparr>eh_typ = 2, eh_machine = 0xf3, eh_version = 1, eh_entry = 0x10078, eh_program_header_offset = 64, eh_section_header_offset = 0,
     eh_flags = 5, eh_header_size = 64, eh_program_header_entry_size = 56, eh_program_header_entry_count = 1,
     eh_section_header_entry_size = 0, eh_section_header_entry_count = 0, eh_section_header_str_rndx = 0\<rparr>"

definition ph_ex :: program_header where
  "ph_ex = \<lparr>ph_typ = 1, ph_flags = 5, ph_offset = 0, ph_virtual_address = 0x10000, ph_physical_address = 0x10000,
     ph_file_size = 124, ph_memory_size = 200, ph_alignment = 4096\<rparr>"

definition file_ex :: "u8 list" where
  "file_ex = file_header_bytes (replicate 9 0) eh_ex @ program_header_bytes ph_ex @ [0x73, 0, 0, 0]"

lemma file_ex_facts: "length file_ex = 124" "file_ex ! 120 = 0x73"
  by (simp_all add: file_ex_def file_header_bytes_def nth_append)

definition pack :: "(nat \<Rightarrow> u8) \<Rightarrow> u64" where
  "pack g = fold (\<lambda>k w. set_byte w k (g k)) [0..<8] 0"

lemma get_byte_pack: "k < 8 \<Longrightarrow> get_byte (pack g) k = g k"
proof -
  assume "k < 8"
  then have "k \<in> {0, 1, 2, 3, 4, 5, 6, 7}" by auto
  then show ?thesis by (auto simp: pack_def upt_rec [of _ 8] get_set_byte eval_nat_numeral)
qed

definition machine_plain :: machine where
  "machine_plain = machine_ex\<lparr>mc_alloc := \<lparr>al_stacks = \<lparr>st_stacks = [[4, 5, 6, 7, 8, 9, 10, 11, 12, 13, 14, 15] @ replicate 2036 0], st_top_base = [(12, 0)]\<rparr>\<rparr>\<rparr>"

definition machine_boot :: machine where
  "machine_boot = machine_plain\<lparr>mc_mem := mem_ex(32 := \<lambda>i. pack (\<lambda>k. let n = 8 * unat i + k in if n < 124 then file_ex ! n else 0xaa))\<rparr>"

lemma plain_facts: "mc_root machine_plain = 1" "mc_mem machine_plain = mem_ex"
  by (simp_all add: machine_plain_def mc_root_def machine_ex_def)

lemma free_plain: "free_pages (mc_alloc machine_plain) = [4, 5, 6, 7, 8, 9, 10, 11, 12, 13, 14, 15]" "alloc_inv (mc_alloc machine_plain)"
  by (simp_all add: machine_plain_def free_pages_def alloc_inv_def stacks_inv_def stacks_slots_def stacks_contents_def
      ring_list_def upt_rec [of _ 12] nth_append)

lemma isolated_plain: "isolated machine_plain" "entries_ok machine_plain" "spare machine_plain 32"
proof -
  have "vm_ok mem_ex 1 {4, 5, 6, 7, 8, 9, 10, 11, 12, 13, 14, 15}"
    unfolding vm_ok_def tables_ex by (auto simp: tree_def tab_ex tab0_ex mem_ex_apply self_map_ex split: if_splits)
  then have "vms_inv machine_plain" by (simp add: vms_inv_def plain_facts free_plain)
  moreover have p: "\<not> private_at machine_plain x q" for x q by (cases x) (simp add: private_at_def plain_facts lookup_ex)
  ultimately show "isolated machine_plain" by (simp add: isolated_def)
  show "spare machine_plain 32" unfolding spare_def using p by (simp add: plain_facts tables_ex free_plain)
  have "entry_ok (mem_ex f i)" for f i
    using entry_ok_written(1) entry_ok_written(4) [of "Map_Private 1" RWX_RW KernelLocal] entry_ok_written(5)
    by (simp add: mem_ex_apply mapped_leaf_def)
  then show "entries_ok machine_plain" by (simp add: entries_ok_def plain_facts)
qed

lemma same_plain: "same_vm machine_plain machine_boot"
  by (auto simp: same_vm_def machine_boot_def plain_facts tables_ex free_plain)

lemma boot_file: "k < 124 \<Longrightarrow> phys_bytes (mc_mem machine_boot) (0x20000 + of_nat k) = file_ex ! k"
proof -
  assume k: "k < 124"
  have a: "4096 dvd unat (0x20000 :: usize)" "unat (0x20000 :: usize) + k < 2 ^ 64" using k by simp_all
  note A = segment_address [OF a]
  have "ppn_from_ptr (0x20000 + of_nat k) = 32"
    using ppn_from_ptr_add [OF a] k by (simp add: ppn_from_ptr_def page_consts)
  moreover have "8 * unat (word_index (0x20000 + of_nat k)) + unat (0x20000 + of_nat k :: usize) mod 8 = k"
    unfolding A(3,4) using k by simp
  ultimately show ?thesis using k
    by (simp add: phys_bytes_def frame_byte_def machine_boot_def get_byte_pack Let_def)
qed

definition sched_boot :: sched where
  "sched_boot = \<lparr>sc_machine = machine_boot, sc_tasks = (\<lambda>_. new_task 0), sc_task_data_address = rr_start (reserved ''TASK_DATA''),
     sc_groups = \<lparr>ar_base = GROUPS_PAGE, ar_slots = (\<lambda>_. (0, [])), ar_next = USIZE_MAX, ar_capacity = 0, ar_max = 7710\<rparr>, sc_next_id = 0,
     sc_idle_stub = 8, sc_sscratch = 0, sc_time = 1, sc_timer = 0, sc_user_access = False, sc_interrupts = False, sc_kernel_interrupts = False\<rparr>"

lemma boot_ready_ex: "boot_ready sched_boot"
proof -
  note D = same_vmD [OF same_plain]
  have "vm_lookup (mc_mem machine_boot) (mc_root machine_boot) (va_index a) = None" if "a \<in> set boot_pages" for a
  proof -
    have "plain_index (vpn2 a)" using boot_pages_apart(2) that by (auto simp: list_all_iff)
    then show ?thesis using D(1,5) lookup_ex by (simp add: plain_facts va_index_def)
  qed
  moreover have "rr_start (reserved ''TASK_DATA'') \<noteq> 8" by (simp add: boot_addresses)
  ultimately show ?thesis using D(7,8) isolated_plain(1,2)
    by (simp add: boot_ready_def boot_statics_def sched_boot_def)
qed

lemma elf_file_ex: "elf_file (phys_bytes (mc_mem machine_boot)) 0x20000 124 eh_ex [ph_ex]"
proof -
  have "holds (phys_bytes (mc_mem machine_boot)) 0x20000 file_ex" unfolding holds_iff_nth file_ex_facts(1) using boot_file by blast
  then have "holds (phys_bytes (mc_mem machine_boot)) 0x20000 (file_header_bytes (replicate 9 0) eh_ex)"
    "holds (phys_bytes (mc_mem machine_boot)) (0x20000 + 64) (program_header_bytes ph_ex)"
    unfolding file_ex_def by (simp_all add: file_header_bytes_def)
  then show ?thesis unfolding elf_file_def by (intro conjI exI [of _ "replicate 9 0"]) (simp_all add: eh_ex_def)
qed

lemma segment_ex:
  "ph_ok 124 ph_ex" "ph_placed 0x20000 ph_ex" "segments_fit machine_boot [segment_of 0x20000 ph_ex]" "loads [ph_ex] = [ph_ex]"
proof -
  note D = same_vmD [OF same_plain]
  have n: "segment_pages ph_ex = 1" by (simp add: segment_pages_def ph_ex_def)
  show "ph_ok 124 ph_ex" "loads [ph_ex] = [ph_ex]" by (simp_all add: ph_ok_def ph_ex_def loads_def TYPE_LOAD_def)
  show "ph_placed 0x20000 ph_ex" unfolding ph_placed_def n by (simp add: ph_ex_def user_range_def)
  have "sg_pages (segment_of 0x20000 ph_ex) = 1" by (simp add: sg_pages_def segment_of_def range_from_ptr_def n)
  moreover from this have "sg_frames (segment_of 0x20000 ph_ex) = [32]"
    by (simp add: sg_frames_def frames_from_def segment_of_def range_from_ptr_def page_consts ph_ex_def)
  ultimately show "segments_fit machine_boot [segment_of 0x20000 ph_ex]"
    using isolated_plain(3) by (simp add: segments_fit_def sg_indices_def D(2,9) free_plain)
qed

theorem boot_runs_init_witness:
  "\<exists>s' t. start_init 16 0 0x20000 124 sched_boot = Inr (Some (Run t), s') \<and> rs_pc (td_register_state (sc_tasks s' t)) = 0x10078
     \<and> user_byte (sc_machine s') Fetch 0x10078 = Some 0x73 \<and> user_byte (sc_machine s') Load 0x10080 = Some 0"
proof -
  have m: "sc_machine sched_boot = machine_boot" by (simp add: sched_boot_def)
  obtain s' t where b: "start_init 16 0 0x20000 124 sched_boot = Inr (Some (Run t), s')" "rs_pc (td_register_state (sc_tasks s' t)) = 0x10078"
    "program_loaded (phys_bytes (mc_mem machine_boot)) 0x20000 [ph_ex] (sc_machine s')"
    using boot_runs_init [OF boot_ready_ex, where hart = 0 and fuel = 16 and init = "0x20000" and len = 124 and eh = eh_ex and hs = "[ph_ex]"] elf_file_ex segment_ex
    unfolding m by (auto simp: eh_ex_def)
  have "\<forall>k < unat (ph_memory_size ph_ex). \<forall>a. user_byte (sc_machine s') a (ph_virtual_address ph_ex + of_nat k)
      = Some (if k < unat (ph_file_size ph_ex) then phys_bytes (mc_mem machine_boot) (0x20000 + ph_offset ph_ex + of_nat k) else 0)"
    using b(3) unfolding program_loaded_def by simp
  then have "user_byte (sc_machine s') a (0x10000 + of_nat k) = Some (if k < 124 then file_ex ! k else 0)" if "k < 200" for a k
    using boot_file [of k] that by (simp add: ph_ex_def)
  from this [of 120 Fetch] this [of 128 Load] show ?thesis using b(1,2) file_ex_facts(2) by auto
qed

end
